(* ===== verification/Client_Address.thy ===== *)
theory Client_Address
  imports VL_Prelude
begin

text \<open>
  The client address seen by the server (\<open>src/src/proxy.rs\<close>): the grammar of
  \<open>std::net::IpAddr::from_str\<close>, canonicalisation of IPv4-mapped peers, the proxy
  allowlist, the right-to-left walk over \<open>X-Forwarded-For\<close>, and the key under which
  clients are rate limited. A header value is the result of \<open>HeaderValue::to_str\<close>:
  \<^term>\<open>None\<close> when the bytes are not visible ASCII.
\<close>

section \<open>Addresses and their textual form\<close>

datatype ip_addr = V4 "8 word list" | V6 "16 word list"

definition wf_ip :: "ip_addr \<Rightarrow> bool" where
  "wf_ip a = (case a of V4 os \<Rightarrow> length os = 4 | V6 ss \<Rightarrow> length ss = 8)"

definition hex_digit :: "nat \<Rightarrow> bool" where
  "hex_digit c \<longleftrightarrow> ascii_digit c \<or> (65 \<le> c \<and> c \<le> 70) \<or> (97 \<le> c \<and> c \<le> 102)"

definition hex_value :: "nat \<Rightarrow> nat" where
  "hex_value c = (if ascii_digit c then c - 48 else if c \<le> 70 then c - 55 else c - 87)"

type_synonym 'a reader = "rstr \<Rightarrow> ('a \<times> rstr) option"

definition read_octet :: "nat reader" where
  "read_octet s =
     (let ds = takeWhile ascii_digit s; r = dropWhile ascii_digit s in
      if ds = [] \<or> 3 < length ds \<or> (1 < length ds \<and> hd ds = 48) \<or> 255 < digits_value ds
      then None else Some (digits_value ds, r))"

definition read_segment :: "nat reader" where
  "read_segment s =
     (let ds = takeWhile hex_digit s; r = dropWhile hex_digit s in
      if ds = [] \<or> 4 < length ds then None
      else Some (foldl (\<lambda>acc c. 16 * acc + hex_value c) 0 ds, r))"

fun read_char :: "nat \<Rightarrow> unit reader" where
  "read_char c [] = None"
| "read_char c (x # xs) = (if x = c then Some ((), xs) else None)"

definition read_separator :: "bool \<Rightarrow> nat \<Rightarrow> 'a reader \<Rightarrow> 'a reader" where
  "read_separator first c inner s =
     (if first then inner s
      else (case read_char c s of None \<Rightarrow> None | Some (_, r) \<Rightarrow> inner r))"

fun read_octets :: "nat \<Rightarrow> bool \<Rightarrow> nat list reader" where
  "read_octets 0 first s = Some ([], s)"
| "read_octets (Suc k) first s =
     (case read_separator first 46 read_octet s of
        None \<Rightarrow> None
      | Some (d, r) \<Rightarrow> map_option (\<lambda>(ds, r'). (d # ds, r')) (read_octets k False r))"

definition read_ipv4_addr :: "nat list reader" where
  "read_ipv4_addr s = read_octets 4 True s"

text \<open>\<open>read_groups\<close> fills at most \<open>k\<close> further segments; the flag reports an embedded IPv4
  tail, which needs two free segments.\<close>

fun read_groups :: "nat \<Rightarrow> bool \<Rightarrow> rstr \<Rightarrow> nat list \<times> bool \<times> rstr" where
  "read_groups 0 first s = ([], False, s)"
| "read_groups (Suc k) first s =
     (case (if 1 \<le> k then read_separator first 58 read_ipv4_addr s else None) of
        Some (os, r) \<Rightarrow> ([os ! 0 * 256 + os ! 1, os ! 2 * 256 + os ! 3], True, r)
      | None \<Rightarrow>
          (case read_separator first 58 read_segment s of
             None \<Rightarrow> ([], False, s)
           | Some (g, r) \<Rightarrow>
               (case read_groups k False r of (gs, v4, r') \<Rightarrow> (g # gs, v4, r'))))"

definition read_ipv6_addr :: "nat list reader" where
  "read_ipv6_addr s =
     (case read_groups 8 True s of (head, head_v4, r) \<Rightarrow>
        if length head = 8 then Some (head, r)
        else if head_v4 then None
        else (case read_char 58 r of None \<Rightarrow> None | Some (_, r1) \<Rightarrow>
               (case read_char 58 r1 of None \<Rightarrow> None | Some (_, r2) \<Rightarrow>
                 (case read_groups (8 - (length head + 1)) True r2 of (tail, _, r3) \<Rightarrow>
                    Some (head @ replicate (8 - length head - length tail) 0 @ tail, r3)))))"

definition parse_ip :: "rstr \<Rightarrow> ip_addr option" where
  "parse_ip s =
     (case read_ipv4_addr s of
        Some (os, r) \<Rightarrow> if r = [] then Some (V4 (map of_nat os)) else None
      | None \<Rightarrow>
          (case read_ipv6_addr s of
             Some (ss, r) \<Rightarrow> if r = [] then Some (V6 (map of_nat ss)) else None
           | None \<Rightarrow> None))"

section \<open>Peers and proxies\<close>

datatype server_mode = Development | ReverseProxy | StandaloneTls

record proxy_config =
  mode :: server_mode
  proxy_enabled :: bool
  trusted_proxies :: "ip_addr list"
  trust_x_forwarded_headers :: bool

datatype invalid_forwarded_for = InvalidForwardedFor

definition to_ipv4_mapped :: "16 word list \<Rightarrow> 8 word list option" where
  "to_ipv4_mapped ss =
     (if length ss = 8 \<and> take 6 ss = [0, 0, 0, 0, 0, 0xffff]
      then Some [ucast (drop_bit 8 (ss ! 6)), ucast (ss ! 6),
                 ucast (drop_bit 8 (ss ! 7)), ucast (ss ! 7)]
      else None)"

definition canonical_peer_ip :: "ip_addr \<Rightarrow> ip_addr" where
  "canonical_peer_ip a =
     (case a of
        V6 ss \<Rightarrow> (case to_ipv4_mapped ss of Some os \<Rightarrow> V4 os | None \<Rightarrow> V6 ss)
      | V4 os \<Rightarrow> V4 os)"

definition is_trusted_proxy_peer :: "ip_addr \<Rightarrow> ip_addr list \<Rightarrow> bool" where
  "is_trusted_proxy_peer peer trusted =
     list_ex (\<lambda>t. canonical_peer_ip t = canonical_peer_ip peer) trusted"

definition client_limit_key :: "ip_addr \<Rightarrow> ip_addr" where
  "client_limit_key a =
     (case canonical_peer_ip a of
        V6 ss \<Rightarrow> V6 (take 4 ss @ replicate (length ss - 4) 0)
      | V4 os \<Rightarrow> V4 os)"

text \<open>One header value is walked hop by hop from the right; a walk over one value resolves
  the client, fails, or continues with the address reached so far.\<close>

datatype 'c walk = Resolved ip_addr | Malformed | Continue 'c

fun effective_hops :: "ip_addr list \<Rightarrow> ip_addr \<Rightarrow> rstr list \<Rightarrow> ip_addr walk" where
  "effective_hops trusted current [] = Continue current"
| "effective_hops trusted current (c # cs) =
     (if \<not> is_trusted_proxy_peer current trusted then Resolved current
      else (case parse_ip (str_trim c) of
              None \<Rightarrow> Malformed
            | Some a \<Rightarrow> effective_hops trusted (canonical_peer_ip a) cs))"

fun effective_values ::
  "ip_addr list \<Rightarrow> ip_addr \<Rightarrow> rstr option list \<Rightarrow> invalid_forwarded_for + ip_addr" where
  "effective_values trusted current [] = Inr current"
| "effective_values trusted current (None # vs) = Inl InvalidForwardedFor"
| "effective_values trusted current (Some t # vs) =
     (case effective_hops trusted current (rev (split_on 44 t)) of
        Resolved ip \<Rightarrow> Inr ip
      | Malformed \<Rightarrow> Inl InvalidForwardedFor
      | Continue ip \<Rightarrow> effective_values trusted ip vs)"

definition validated_effective_client_ip ::
  "ip_addr \<Rightarrow> rstr option list \<Rightarrow> proxy_config \<Rightarrow> invalid_forwarded_for + ip_addr" where
  "validated_effective_client_ip peer headers cfg =
     (let peer = canonical_peer_ip peer in
      if mode cfg \<noteq> ReverseProxy \<or> \<not> proxy_enabled cfg
         \<or> \<not> trust_x_forwarded_headers cfg
         \<or> \<not> is_trusted_proxy_peer peer (trusted_proxies cfg)
      then Inr peer
      else effective_values (trusted_proxies cfg) peer (rev headers))"

fun proxy_hops :: "ip_addr list \<Rightarrow> ip_addr option \<Rightarrow> rstr list \<Rightarrow> ip_addr option walk" where
  "proxy_hops trusted current [] = Continue current"
| "proxy_hops trusted current (c # cs) =
     (if (case current of Some ip \<Rightarrow> \<not> is_trusted_proxy_peer ip trusted | None \<Rightarrow> False)
      then Resolved (the current)
      else (case parse_ip (str_trim c) of
              None \<Rightarrow> Malformed
            | Some a \<Rightarrow> proxy_hops trusted (Some (canonical_peer_ip a)) cs))"

fun proxy_values ::
  "ip_addr list \<Rightarrow> ip_addr option \<Rightarrow> rstr option list \<Rightarrow> invalid_forwarded_for + ip_addr" where
  "proxy_values trusted current [] =
     (case current of None \<Rightarrow> Inl InvalidForwardedFor | Some ip \<Rightarrow> Inr ip)"
| "proxy_values trusted current (None # vs) = Inl InvalidForwardedFor"
| "proxy_values trusted current (Some t # vs) =
     (case proxy_hops trusted current (rev (split_on 44 t)) of
        Resolved ip \<Rightarrow> Inr ip
      | Malformed \<Rightarrow> Inl InvalidForwardedFor
      | Continue c \<Rightarrow> proxy_values trusted c vs)"

definition validated_proxy_client_ip ::
  "rstr option list \<Rightarrow> ip_addr list \<Rightarrow> invalid_forwarded_for + ip_addr" where
  "validated_proxy_client_ip headers trusted = proxy_values trusted None (rev headers)"



section \<open>Addresses are well formed\<close>

lemma read_octets_length: "read_octets k first s = Some (os, r) \<Longrightarrow> length os = k"
  by (induction k first s arbitrary: os r rule: read_octets.induct)
    (auto split: option.splits)

lemma read_groups_length: "read_groups k first s = (gs, v4, r) \<Longrightarrow> length gs \<le> k"
  by (induction k first s arbitrary: gs v4 r rule: read_groups.induct)
    (fastforce split: option.splits if_splits prod.splits)+

lemma read_ipv6_length:
  assumes "read_ipv6_addr s = Some (ss, r)"
  shows "length ss = 8"
proof -
  obtain h v q where h: "read_groups 8 True s = (h, v, q)" by (cases "read_groups 8 True s")
  obtain t w u where t: "read_groups (7 - length h) True (tl (tl q)) = (t, w, u)"
    by (cases "read_groups (7 - length h) True (tl (tl q))")
  have "length h \<le> 8" "length t \<le> 7 - length h"
    using read_groups_length[OF h] read_groups_length[OF t] .
  moreover have "r1 = tl q" if "read_char c q = Some (x, r1)" for c x r1 q
    using that by (cases q) (auto split: if_splits)
  ultimately show ?thesis
    using assms h t by (auto simp: read_ipv6_addr_def split: option.splits prod.splits if_splits)
qed

lemma parse_ip_wf: "parse_ip s = Some a \<Longrightarrow> wf_ip a"
  using read_octets_length[of 4 True s] read_ipv6_length[of s]
  by (auto simp: parse_ip_def wf_ip_def read_ipv4_addr_def split: option.splits if_splits)

lemma canonical_wf: "wf_ip a \<Longrightarrow> wf_ip (canonical_peer_ip a)"
  by (auto simp: wf_ip_def canonical_peer_ip_def to_ipv4_mapped_def split: ip_addr.splits)

lemma canonical_idem [simp]: "canonical_peer_ip (canonical_peer_ip a) = canonical_peer_ip a"
  by (auto simp: canonical_peer_ip_def split: ip_addr.splits option.splits)

lemma trusted_canonical [simp]:
  "is_trusted_proxy_peer (canonical_peer_ip a) trusted = is_trusted_proxy_peer a trusted"
  by (simp add: is_trusted_proxy_peer_def)

section \<open>The walk over forwarded hops\<close>

lemma effective_hops_append:
  "effective_hops trusted cur (xs @ ys) =
     (case effective_hops trusted cur xs of
        Continue c \<Rightarrow> effective_hops trusted c ys | Resolved ip \<Rightarrow> Resolved ip | Malformed \<Rightarrow> Malformed)"
  by (induction xs arbitrary: cur) (auto split: option.splits)

lemma effective_hops_resolved:
  "effective_hops trusted cur xs = Resolved ip \<Longrightarrow> \<not> is_trusted_proxy_peer ip trusted"
  by (induction trusted cur xs rule: effective_hops.induct) (auto split: if_splits option.splits)

lemma effective_hops_untrusted:
  "\<not> is_trusted_proxy_peer ip trusted \<Longrightarrow> xs \<noteq> [] \<Longrightarrow> effective_hops trusted ip xs = Resolved ip"
  by (cases xs) auto



lemma effective_values_suffix:
  assumes "effective_values trusted cur hs = Inr ip" "\<not> is_trusted_proxy_peer ip trusted"
  shows "effective_values trusted cur (hs @ pre) \<in> {Inr ip, Inl InvalidForwardedFor}"
    and "pre = [] \<or> hd pre \<noteq> None \<Longrightarrow> effective_values trusted cur (hs @ pre) = Inr ip"
proof -
  have tail: "effective_values trusted ip pre =
      (if pre \<noteq> [] \<and> hd pre = None then Inl InvalidForwardedFor else Inr ip)"
  proof (cases pre)
    case (Cons v vs)
    then show ?thesis using assms(2) by (cases v) (auto simp: effective_hops_untrusted)
  qed simp
  have "effective_values trusted cur (hs @ pre) = Inr ip \<or>
        effective_values trusted cur (hs @ pre) = effective_values trusted ip pre"
    using assms
    by (induction trusted cur hs rule: effective_values.induct) (auto split: walk.splits)
  then show "effective_values trusted cur (hs @ pre) \<in> {Inr ip, Inl InvalidForwardedFor}"
    and "pre = [] \<or> hd pre \<noteq> None \<Longrightarrow> effective_values trusted cur (hs @ pre) = Inr ip"
    using tail by (auto split: if_splits)
qed

section \<open>Properties\<close>



text \<open>Once the walk has resolved a client that is not an allowlisted proxy, nothing a
  client puts to the left of the hops the trusted proxies appended changes the answer to
  another address: further header values either leave it or make the request malformed,
  and a prefix inside the leftmost value leaves it.\<close>

theorem forwarded_prefix_cannot_spoof:
  assumes "validated_effective_client_ip peer (Some t # hs) cfg = Inr ip"
    and "\<not> is_trusted_proxy_peer ip (trusted_proxies cfg)"
  shows "validated_effective_client_ip peer (pre @ Some t # hs) cfg
           \<in> {Inr ip, Inl InvalidForwardedFor}
         \<and> validated_effective_client_ip peer (Some (spoofed @ 44 # t) # hs) cfg = Inr ip"
proof (cases "mode cfg \<noteq> ReverseProxy \<or> \<not> proxy_enabled cfg \<or> \<not> trust_x_forwarded_headers cfg
    \<or> \<not> is_trusted_proxy_peer peer (trusted_proxies cfg)")
  case True
  then show ?thesis using assms by (auto simp: validated_effective_client_ip_def Let_def)
next
  case False
  let ?T = "trusted_proxies cfg" and ?p = "canonical_peer_ip peer"
  have walk: "validated_effective_client_ip peer vs cfg = effective_values ?T ?p (rev vs)" for vs
    using False by (simp add: validated_effective_client_ip_def Let_def)
  have eq: "effective_values ?T ?p (rev hs @ [Some t]) = Inr ip" using assms walk by simp
  have "effective_values ?T cur (vs @ [Some (spoofed @ 44 # t)]) = Inr ip"
    if "effective_values ?T cur (vs @ [Some t]) = Inr ip" for cur vs
    using that assms(2)
    by (induction ?T cur vs rule: effective_values.induct)
      (auto simp: split_on_append effective_hops_append effective_hops_untrusted
        split: walk.splits)
  then show ?thesis
    using eq effective_values_suffix(1)[OF eq assms(2), of "rev pre"] by (simp add: walk)
qed

theorem forwarded_prefix_cannot_spoof_witness:
  "validated_effective_client_ip (V4 [127, 0, 0, 1])
     [Some (lit ''1.1.1.1'' @ 44 # lit ''8.8.8.8'')]
     \<lparr>mode = ReverseProxy, proxy_enabled = True,
      trusted_proxies = [V4 [127, 0, 0, 1]], trust_x_forwarded_headers = True\<rparr>
   = Inr (V4 [8, 8, 8, 8])"
proof -
  let ?c = "\<lparr>mode = ReverseProxy, proxy_enabled = True,
      trusted_proxies = [V4 [127, 0, 0, 1]], trust_x_forwarded_headers = True\<rparr>"
  have "validated_effective_client_ip (V4 [127, 0, 0, 1]) [Some (lit ''8.8.8.8'')] ?c
      = Inr (V4 [8, 8, 8, 8])"
    by code_simp
  then show ?thesis
    using forwarded_prefix_cannot_spoof[where pre = "[]" and spoofed = "lit ''1.1.1.1''"]
    by (simp add: is_trusted_proxy_peer_def canonical_peer_ip_def)
qed

text \<open>Two clients share a limiter key exactly when they are the same IPv4 address
  (IPv4-mapped spellings included) or IPv6 addresses of the same /64.\<close>

theorem client_limit_key_eq_iff:
  assumes "wf_ip a" "wf_ip b"
  shows "client_limit_key a = client_limit_key b \<longleftrightarrow>
    (case (canonical_peer_ip a, canonical_peer_ip b) of
       (V4 x, V4 y) \<Rightarrow> x = y
     | (V6 x, V6 y) \<Rightarrow> take 4 x = take 4 y
     | _ \<Rightarrow> False)"
  using canonical_wf[OF assms(1)] canonical_wf[OF assms(2)]
  by (auto simp: client_limit_key_def wf_ip_def split: ip_addr.splits)

theorem client_limit_key_eq_iff_witness:
  "client_limit_key (V6 [0x2001, 0xdb8, 1, 2, 3, 4, 5, 6])
     = client_limit_key (V6 [0x2001, 0xdb8, 1, 2, 9, 9, 9, 9])
   \<and> client_limit_key (V6 [0, 0, 0, 0, 0, 0xffff, 0x0102, 0x0304]) = client_limit_key (V4 [1, 2, 3, 4])"
  using client_limit_key_eq_iff[of "V6 [0x2001, 0xdb8, 1, 2, 3, 4, 5, 6]"
      "V6 [0x2001, 0xdb8, 1, 2, 9, 9, 9, 9]"]
  by (simp add: wf_ip_def canonical_peer_ip_def to_ipv4_mapped_def client_limit_key_def)

end
