(* ===== verification/Sql_Table.thy ===== *)
theory Sql_Table
  imports VL_Prelude
begin

text \<open>
  The SQL fragment the database layer executes, over tables that are lists of rows in
  insertion order: \<open>DELETE\<close>, \<open>UPDATE\<close>, \<open>COUNT(*)\<close>, \<open>SUM\<close>, \<open>EXISTS\<close> and the optional single
  row query of rusqlite, together with their counting laws. The locale \<open>keyed_table\<close> is
  the contract of a table with a PRIMARY KEY or UNIQUE column; each table of the model
  interprets it on its own key.
\<close>

section \<open>Statements\<close>

definition sql_delete :: "('r \<Rightarrow> bool) \<Rightarrow> 'r list \<Rightarrow> 'r list" where
  "sql_delete P rows = filter (\<lambda>r. \<not> P r) rows"

definition sql_update :: "('r \<Rightarrow> bool) \<Rightarrow> ('r \<Rightarrow> 'r) \<Rightarrow> 'r list \<Rightarrow> 'r list" where
  "sql_update P f rows = map (\<lambda>r. if P r then f r else r) rows"

definition sql_count :: "('r \<Rightarrow> bool) \<Rightarrow> 'r list \<Rightarrow> nat" where
  "sql_count P rows = length (filter P rows)"

definition sql_sum :: "('r \<Rightarrow> bool) \<Rightarrow> ('r \<Rightarrow> nat) \<Rightarrow> 'r list \<Rightarrow> nat" where
  "sql_sum P f rows = sum_list (map f (filter P rows))"

definition sql_exists :: "('r \<Rightarrow> bool) \<Rightarrow> 'r list \<Rightarrow> bool" where
  "sql_exists P rows \<longleftrightarrow> list_ex P rows"

definition sql_first :: "('r \<Rightarrow> bool) \<Rightarrow> 'r list \<Rightarrow> 'r option" where
  "sql_first P rows = find P rows"

text \<open>The rowid SQLite chooses for an \<open>INTEGER PRIMARY KEY\<close> without AUTOINCREMENT.\<close>

definition next_rowid :: "int list \<Rightarrow> int" where
  "next_rowid ids = (if ids = [] then 1 else Max (set ids) + 1)"

section \<open>Laws\<close>

lemma sql_exists_iff [sql_ops]: "sql_exists P rows \<longleftrightarrow> (\<exists>r\<in>set rows. P r)"
  by (auto simp: sql_exists_def list_ex_iff)

lemma sql_first_Some: "sql_first P rows = Some r \<Longrightarrow> r \<in> set rows \<and> P r"
  by (auto simp: sql_first_def find_Some_iff)

lemma sql_first_None [sql_ops]: "sql_first P rows = None \<longleftrightarrow> (\<forall>r\<in>set rows. \<not> P r)"
  by (auto simp: sql_first_def find_None_iff)

lemma set_sql_delete [simp]: "set (sql_delete P rows) = {r \<in> set rows. \<not> P r}"
  by (auto simp: sql_delete_def)

lemma set_sql_update: "set (sql_update P f rows) = (\<lambda>r. if P r then f r else r) ` set rows"
  by (auto simp: sql_update_def)

lemma sql_table_Nil [simp]:
  "sql_delete P [] = []" "sql_update P f [] = []" "sql_count P [] = 0" "sql_sum P g [] = 0"
  by (simp_all add: sql_delete_def sql_update_def sql_count_def sql_sum_def)

lemma sql_table_Cons [simp]:
  "sql_delete P (r # rows) = (if P r then sql_delete P rows else r # sql_delete P rows)"
  "sql_update P f (r # rows) = (if P r then f r else r) # sql_update P f rows"
  "sql_count P (r # rows) = (if P r then 1 else 0) + sql_count P rows"
  "sql_sum P g (r # rows) = (if P r then g r else 0) + sql_sum P g rows"
  by (simp_all add: sql_delete_def sql_update_def sql_count_def sql_sum_def)

lemma sql_table_append [simp]:
  "sql_delete P (xs @ ys) = sql_delete P xs @ sql_delete P ys"
  "sql_update P f (xs @ ys) = sql_update P f xs @ sql_update P f ys"
  "sql_count P (xs @ ys) = sql_count P xs + sql_count P ys"
  "sql_sum P g (xs @ ys) = sql_sum P g xs + sql_sum P g ys"
  by (simp_all add: sql_delete_def sql_update_def sql_count_def sql_sum_def)

lemma sql_count_delete_le: "sql_count P (sql_delete Q rows) \<le> sql_count P rows"
  by (induction rows) auto

lemma sql_sum_delete_le: "sql_sum P f (sql_delete Q rows) \<le> sql_sum P f rows"
  by (induction rows) auto

lemma sql_count_delete_split:
  "sql_count P (sql_delete Q rows) + sql_count (\<lambda>r. P r \<and> Q r) rows = sql_count P rows"
  by (induction rows) auto

lemma sql_sum_delete_split:
  "sql_sum P f (sql_delete Q rows) + sql_sum (\<lambda>r. P r \<and> Q r) f rows = sql_sum P f rows"
  by (induction rows) auto

lemma sql_sum_split:
  "sql_sum P f rows = sql_sum (\<lambda>r. P r \<and> Q r) f rows + sql_sum (\<lambda>r. P r \<and> \<not> Q r) f rows"
  by (induction rows) auto

lemma sql_count_cong:
  "(\<And>r. r \<in> set rows \<Longrightarrow> P r = Q r) \<Longrightarrow> sql_count P rows = sql_count Q rows"
  by (induction rows) auto

lemma sql_sum_cong:
  "(\<And>r. r \<in> set rows \<Longrightarrow> P r = Q r) \<Longrightarrow> sql_sum P f rows = sql_sum Q f rows"
  by (induction rows) auto

lemma sql_count_mono:
  "(\<And>r. r \<in> set rows \<Longrightarrow> P r \<Longrightarrow> Q r) \<Longrightarrow> sql_count P rows \<le> sql_count Q rows"
  by (induction rows) fastforce+

lemma sql_count_update_same:
  "(\<And>r. r \<in> set rows \<Longrightarrow> Q r \<Longrightarrow> P (f r) = P r) \<Longrightarrow>
     sql_count P (sql_update Q f rows) = sql_count P rows"
  by (induction rows) auto

lemma sql_sum_update_same:
  "(\<And>r. r \<in> set rows \<Longrightarrow> Q r \<Longrightarrow> P (f r) = P r \<and> (P r \<longrightarrow> g (f r) = g r)) \<Longrightarrow>
     sql_sum P g (sql_update Q f rows) = sql_sum P g rows"
  by (induction rows) auto

lemma sql_update_id:
  "(\<And>r. r \<in> set rows \<Longrightarrow> \<not> Q r) \<Longrightarrow> sql_update Q f rows = rows"
  by (induction rows) auto

lemma sql_delete_id:
  "(\<And>r. r \<in> set rows \<Longrightarrow> \<not> Q r) \<Longrightarrow> sql_delete Q rows = rows"
  by (induction rows) auto

lemma sql_exists_update:
  assumes "sql_exists P rows" "\<And>r. P r \<Longrightarrow> Q r \<Longrightarrow> P (f r)"
  shows "sql_exists P (sql_update Q f rows)"
proof -
  obtain r where "r \<in> set rows" "P r" using assms(1) by (auto simp: sql_exists_iff)
  then show ?thesis
    using assms(2) unfolding sql_exists_iff set_sql_update
    by (intro bexI[of _ "if Q r then f r else r"]) auto
qed

lemma sql_count_one_member:
  assumes "sql_count P rows = 1" obtains r where "r \<in> set rows" "P r"
proof -
  have "filter P rows \<noteq> []" using assms by (auto simp: sql_count_def)
  then show thesis using that by (auto simp: filter_empty_conv)
qed

lemma sql_count_pos: "r \<in> set rows \<Longrightarrow> P r \<Longrightarrow> 0 < sql_count P rows"
  by (induction rows) auto

lemma sql_count_0 [sql_ops]: "sql_count P rows = 0 \<longleftrightarrow> (\<forall>r\<in>set rows. \<not> P r)"
  by (induction rows) auto

lemma sql_sum_0: "(\<And>r. r \<in> set rows \<Longrightarrow> \<not> P r) \<Longrightarrow> sql_sum P f rows = 0"
  by (induction rows) auto

lemma sql_first_update:
  "(\<And>r. r \<in> set rows \<Longrightarrow> Q r \<Longrightarrow> P (f r) = P r) \<Longrightarrow>
     sql_first P (sql_update Q f rows) = map_option (\<lambda>r. if Q r then f r else r) (sql_first P rows)"
  by (induction rows) (auto simp: sql_first_def)

lemma sql_sum_mono:
  "(\<And>r. r \<in> set rows \<Longrightarrow> P r \<Longrightarrow> Q r) \<Longrightarrow> sql_sum P f rows \<le> sql_sum Q f rows"
  by (induction rows) fastforce+

lemma sql_count_delete_other:
  "(\<And>r. r \<in> set rows \<Longrightarrow> P r \<Longrightarrow> \<not> Q r) \<Longrightarrow> sql_count P (sql_delete Q rows) = sql_count P rows"
  by (induction rows) auto

lemma sql_sum_delete_other:
  "(\<And>r. r \<in> set rows \<Longrightarrow> P r \<Longrightarrow> \<not> Q r) \<Longrightarrow> sql_sum P f (sql_delete Q rows) = sql_sum P f rows"
  by (induction rows) auto

lemma sql_first_map:
  "(\<And>r. P (g r) = P r) \<Longrightarrow> sql_first P (map g rows) = map_option g (sql_first P rows)"
  by (induction rows) (auto simp: sql_first_def)

lemma sql_first_append:
  "sql_first P (xs @ ys) = (case sql_first P xs of None \<Rightarrow> sql_first P ys | Some r \<Rightarrow> Some r)"
  by (induction xs) (auto simp: sql_first_def)

lemma sql_first_delete_other:
  "(\<And>r. r \<in> set rows \<Longrightarrow> P r \<Longrightarrow> \<not> Q r) \<Longrightarrow> sql_first P (sql_delete Q rows) = sql_first P rows"
  by (induction rows) (auto simp: sql_first_def)

lemma sql_first_single [simp]: "sql_first P [r] = (if P r then Some r else None)"
  by (simp add: sql_first_def)

lemma sql_count_update_off:
  "(\<And>r. r \<in> set rows \<Longrightarrow> Q r \<Longrightarrow> \<not> P (f r)) \<Longrightarrow>
     sql_count P (sql_update Q f rows) + sql_count (\<lambda>r. P r \<and> Q r) rows = sql_count P rows"
  by (induction rows) auto

lemma map_update_key: "(\<And>r. k (f r) = k r) \<Longrightarrow> map k (sql_update Q f rows) = map k rows"
  by (induction rows) auto

lemma image_update_key:
  assumes "\<And>r. k (f r) = k r" shows "k ` set (sql_update Q f rows) = k ` set rows"
  using arg_cong[OF map_update_key[of k f Q rows, OF assms], of set] by simp

lemma next_rowid_fresh: "i \<in> set ids \<Longrightarrow> i < next_rowid ids"
  by (cases ids) (auto simp: next_rowid_def Max_gr_iff intro!: le_imp_less_Suc
      intro: zle_add1_eq_le[THEN iffD2] Max_ge)

lemma next_rowid_notin [simp]: "next_rowid ids \<notin> set ids"
  using next_rowid_fresh by fastforce

section \<open>Tables with a key\<close>

locale keyed_table =
  fixes key :: "'r \<Rightarrow> 'k"
    and wf :: "'r list \<Rightarrow> bool"
  assumes wf_iff: "wf rows \<longleftrightarrow> distinct (map key rows)"
begin

lemma empty: "wf []"
  by (simp add: wf_iff)

lemma insert_fresh: "wf rows \<Longrightarrow> \<forall>x\<in>set rows. key x \<noteq> key r \<Longrightarrow> wf (rows @ [r])"
  by (auto simp: wf_iff)

lemma delete: "wf rows \<Longrightarrow> wf (sql_delete P rows)"
  by (simp add: wf_iff sql_delete_def distinct_map_filter)

lemma update_keys: "(\<And>r. r \<in> set rows \<Longrightarrow> P r \<Longrightarrow> key (f r) = key r) \<Longrightarrow>
    map key (sql_update P f rows) = map key rows"
  by (induction rows) auto

lemma update: "wf rows \<Longrightarrow> (\<And>r. r \<in> set rows \<Longrightarrow> P r \<Longrightarrow> key (f r) = key r) \<Longrightarrow>
    wf (sql_update P f rows)"
  by (simp add: wf_iff update_keys)

lemma unique: "wf rows \<Longrightarrow> r \<in> set rows \<Longrightarrow> s \<in> set rows \<Longrightarrow> key r = key s \<Longrightarrow> r = s"
  by (auto simp: wf_iff distinct_map inj_on_def)

lemma lookup_member:
  assumes "wf rows" "r \<in> set rows" "P r" "\<And>s. s \<in> set rows \<Longrightarrow> P s \<Longrightarrow> key s = key r"
  shows "sql_first P rows = Some r"
proof (cases "sql_first P rows")
  case None
  then show ?thesis using assms by (auto simp: sql_first_None)
next
  case (Some s)
  then have "s \<in> set rows \<and> P s" by (rule sql_first_Some)
  then show ?thesis using Some assms unique by blast
qed

lemma count_key_le_1: "wf rows \<Longrightarrow> sql_count (\<lambda>r. key r = k) rows \<le> 1"
proof (induction rows)
  case (Cons r rows)
  show ?case
  proof (cases "key r = k")
    case True
    then have "sql_count (\<lambda>r. key r = k) rows = 0"
      using Cons.prems by (auto simp: sql_count_0 wf_iff rev_image_eqI)
    then show ?thesis by simp
  next
    case False
    then show ?thesis using Cons by (auto simp: wf_iff)
  qed
qed simp

lemma count_one:
  assumes "wf rows" "r \<in> set rows" "P r"
  shows "sql_count (\<lambda>s. key s = key r \<and> P s) rows = 1"
proof -
  have "sql_count (\<lambda>s. key s = key r \<and> P s) rows \<le> sql_count (\<lambda>s. key s = key r) rows"
    by (rule sql_count_mono) auto
  then have "sql_count (\<lambda>s. key s = key r \<and> P s) rows \<le> 1"
    using count_key_le_1[OF assms(1), of "key r"] by simp
  moreover have "0 < sql_count (\<lambda>s. key s = key r \<and> P s) rows"
    using assms(2,3) by (auto intro: sql_count_pos)
  ultimately show ?thesis by simp
qed

lemma sum_one:
  assumes "wf rows" "r \<in> set rows" "P r"
  shows "sql_sum (\<lambda>s. key s = key r \<and> P s) f rows = f r"
  using assms
proof (induction rows)
  case (Cons x rows)
  show ?case
  proof (cases "key x = key r")
    case True
    then have "x = r" using Cons.prems by (intro unique[of "x # rows"]) auto
    moreover have "sql_sum (\<lambda>s. key s = key r \<and> P s) f rows = 0"
      using Cons.prems \<open>x = r\<close> by (intro sql_sum_0) (auto simp: wf_iff rev_image_eqI)
    ultimately show ?thesis using Cons.prems by simp
  next
    case False
    then show ?thesis using Cons by (auto simp: wf_iff)
  qed
qed simp

lemma sum_update_one:
  assumes "wf rows" "r \<in> set rows" "P (f r) = P r"
  shows "sql_sum P g (sql_update (\<lambda>x. key x = key r) f rows) + (if P r then g r else 0)
       = sql_sum P g rows + (if P r then g (f r) else 0)"
  using assms
proof (induction rows)
  case (Cons x rows)
  show ?case
  proof (cases "key x = key r")
    case True
    then have "x = r" using Cons.prems by (intro unique[of "x # rows"]) auto
    moreover have "sql_update (\<lambda>x. key x = key r) f rows = rows"
      using Cons.prems \<open>x = r\<close> by (intro sql_update_id) (auto simp: wf_iff rev_image_eqI)
    ultimately show ?thesis using Cons.prems by simp
  next
    case False
    then show ?thesis using Cons by (auto simp: wf_iff)
  qed
qed simp

lemma sum_delete_one:
  assumes "wf rows" "r \<in> set rows"
  shows "sql_sum P g (sql_delete (\<lambda>x. key x = key r) rows) + (if P r then g r else 0) = sql_sum P g rows"
proof -
  have "sql_sum (\<lambda>x. P x \<and> key x = key r) g rows = sql_sum (\<lambda>x. key x = key r \<and> P x) g rows"
    by (rule sql_sum_cong) auto
  also have "\<dots> = (if P r then g r else 0)"
  proof (cases "P r")
    case True
    then show ?thesis using sum_one[OF assms] by simp
  next
    case False
    then have "sql_sum (\<lambda>x. key x = key r \<and> P x) g rows = 0"
      using unique[OF assms(1) _ assms(2)] by (intro sql_sum_0) metis
    then show ?thesis using False by simp
  qed
  finally show ?thesis using sql_sum_delete_split[of P g "\<lambda>x. key x = key r" rows] by simp
qed

lemma count_delete_one:
  assumes "wf rows" "r \<in> set rows"
  shows "sql_count P (sql_delete (\<lambda>x. key x = key r) rows) + (if P r then 1 else 0) = sql_count P rows"
  using sum_delete_one[OF assms, of P "\<lambda>_. 1"]
  by (simp add: sql_count_def sql_sum_def sum_list_triv)

end

end
