(* ===== verification/Audit_Log.thy ===== *)
theory Audit_Log
  imports Sql_Table Client_Address "HOL-Library.Product_Lexorder"
begin

text \<open>
  The audit log (\<open>src/src/db/audit_model.rs\<close>, \<open>audit.rs\<close>, \<open>required_audit.rs\<close>): the closed set
  of actions with their wire names and priorities, validation of the fields, insertion of
  the events a transaction requires, the persisted client-IP privacy switch, deletion of
  stored client addresses, and retention, which removes the lowest priority, oldest rows
  in bounded batches. Timestamps are instants (nanoseconds as integers); the sources
  store them as RFC 3339 text in UTC, which orders the same way.
\<close>

section \<open>Errors of the database layer\<close>

datatype db_error =
    InvalidQuery
  | InvalidParameterName rstr
  | ToSqlConversionFailure
  | QueryReturnedNoRows
  | ConstraintUnique
  | ConstraintCheck
  | ConstraintForeignKey
  | ConstraintTrigger
  | AuditUnavailable db_error

fun is_audit_unavailable :: "db_error \<Rightarrow> bool" where
  "is_audit_unavailable (AuditUnavailable _) = True"
| "is_audit_unavailable _ = False"

fun is_sqlite_unique_constraint :: "db_error \<Rightarrow> bool" where
  "is_sqlite_unique_constraint ConstraintUnique = True"
| "is_sqlite_unique_constraint _ = False"

type_synonym instant = int

definition seconds :: "int \<Rightarrow> int" where
  "seconds n = n * 1000000000"

section \<open>Actions\<close>

datatype audit_priority = Routine | Security

primrec priority_as_i64 :: "audit_priority \<Rightarrow> int" where
  "priority_as_i64 Routine = 0"
| "priority_as_i64 Security = 100"

datatype audit_action =
    AccountMfaChanged | AccountMfaEnrollmentStarted | AccountPasswordChanged
   | AccountTotpSettingReauthFailed | AdminActivated | AdminCreated | AdminDeactivated
   | AdminDownload | AdminPasswordReset | AdminPreview | AdminRecovered | AdminTotpDisabled
   | AdminTotpEnabled | AdminTotpReset | AdminUpload | AdminUploadDurabilityUncertain
   | AdminUploadReplaced | AuditClientIpsDeleted | DirectoryCreated | Download
   | InitialAdminCreated | LoginFailed | LoginSuccess | LoginSuccessWebauthn | Logout
   | MfaFailed | MfaReplayed | PasswordVerified | PathDeleted | PathRenamed | Preview
   | SecurityKeyReauthFailed | ServiceTokenCreated | ServiceTokenRevoked
   | ServiceTokensRevokedAll | SettingsUpdated | SoftwareUpdateRequested | ShareActivated
   | ShareCreated | ShareDeactivated | ShareDeleted | SharePasswordRemoved | SharePasswordSet
   | ShareToggled | ShareUnlockFailed | ShareUnlocked | ShareUploadConflictUpdated
   | ShareUploadLimitsUpdated | Upload | UploadDirectoriesCreated | UploadDurabilityUncertain
   | UploadQuotaCommitted | UploadReplaced | WebauthnCredentialAdded
   | WebauthnCredentialDeleted | ZipDownload

primrec as_str :: "audit_action \<Rightarrow> string" where
  "as_str AccountMfaChanged = ''account_mfa_changed''"
| "as_str AccountMfaEnrollmentStarted = ''account_mfa_enrollment_started''"
| "as_str AccountPasswordChanged = ''account_password_changed''"
| "as_str AccountTotpSettingReauthFailed = ''account_totp_setting_reauth_failed''"
| "as_str AdminActivated = ''admin_activated''"
| "as_str AdminCreated = ''admin_created''"
| "as_str AdminDeactivated = ''admin_deactivated''"
| "as_str AdminDownload = ''admin_download''"
| "as_str AdminPasswordReset = ''admin_password_reset''"
| "as_str AdminPreview = ''admin_preview''"
| "as_str AdminRecovered = ''admin_recovered''"
| "as_str AdminTotpDisabled = ''admin_totp_disabled''"
| "as_str AdminTotpEnabled = ''admin_totp_enabled''"
| "as_str AdminTotpReset = ''admin_totp_reset''"
| "as_str AdminUpload = ''admin_upload''"
| "as_str AdminUploadDurabilityUncertain = ''admin_upload_durability_uncertain''"
| "as_str AdminUploadReplaced = ''admin_upload_replaced''"
| "as_str AuditClientIpsDeleted = ''audit_client_ips_deleted''"
| "as_str DirectoryCreated = ''directory_created''"
| "as_str Download = ''download''"
| "as_str InitialAdminCreated = ''initial_admin_created''"
| "as_str LoginFailed = ''login_failed''"
| "as_str LoginSuccess = ''login_success''"
| "as_str LoginSuccessWebauthn = ''login_success_webauthn''"
| "as_str Logout = ''logout''"
| "as_str MfaFailed = ''mfa_failed''"
| "as_str MfaReplayed = ''mfa_replayed''"
| "as_str PasswordVerified = ''password_verified''"
| "as_str PathDeleted = ''path_deleted''"
| "as_str PathRenamed = ''path_renamed''"
| "as_str Preview = ''preview''"
| "as_str SecurityKeyReauthFailed = ''security_key_reauth_failed''"
| "as_str ServiceTokenCreated = ''service_token_created''"
| "as_str ServiceTokenRevoked = ''service_token_revoked''"
| "as_str ServiceTokensRevokedAll = ''service_tokens_revoked_all''"
| "as_str SettingsUpdated = ''settings_updated''"
| "as_str SoftwareUpdateRequested = ''software_update_requested''"
| "as_str ShareActivated = ''share_activated''"
| "as_str ShareCreated = ''share_created''"
| "as_str ShareDeactivated = ''share_deactivated''"
| "as_str ShareDeleted = ''share_deleted''"
| "as_str SharePasswordRemoved = ''share_password_removed''"
| "as_str SharePasswordSet = ''share_password_set''"
| "as_str ShareToggled = ''share_toggled''"
| "as_str ShareUnlockFailed = ''share_unlock_failed''"
| "as_str ShareUnlocked = ''share_unlocked''"
| "as_str ShareUploadConflictUpdated = ''share_upload_conflict_updated''"
| "as_str ShareUploadLimitsUpdated = ''share_upload_limits_updated''"
| "as_str Upload = ''upload''"
| "as_str UploadDirectoriesCreated = ''upload_directories_created''"
| "as_str UploadDurabilityUncertain = ''upload_durability_uncertain''"
| "as_str UploadQuotaCommitted = ''upload_quota_committed''"
| "as_str UploadReplaced = ''upload_replaced''"
| "as_str WebauthnCredentialAdded = ''webauthn_credential_added''"
| "as_str WebauthnCredentialDeleted = ''webauthn_credential_deleted''"
| "as_str ZipDownload = ''zip_download''"

definition priority :: "audit_action \<Rightarrow> audit_priority" where
  "priority action =
     (if action \<in> set [AdminDownload, AdminPreview, Download, Preview, UploadQuotaCommitted,
        ZipDownload] then Routine else Security)"

section \<open>Events\<close>

record audit_context =
  actor :: rstr
  ctx_client_ip :: "rstr option"

record required_audit_event =
  ev_action :: audit_action
  ev_object_id :: "rstr option"
  ev_detail :: "rstr option"

record audit_row =
  aud_id :: int
  aud_occurred_at :: instant
  aud_actor :: rstr
  aud_action :: rstr
  aud_object_id :: "rstr option"
  aud_detail :: "rstr option"
  aud_client_ip :: "rstr option"
  aud_priority :: int

definition audit_event ::
  "audit_action \<Rightarrow> rstr option \<Rightarrow> rstr option \<Rightarrow> required_audit_event" where
  "audit_event a ob d = \<lparr>ev_action = a, ev_object_id = ob, ev_detail = d\<rparr>"

definition opt_longer :: "nat \<Rightarrow> rstr option \<Rightarrow> bool" where
  "opt_longer n v = (case v of None \<Rightarrow> False | Some s \<Rightarrow> n < str_len s)"

definition validate_audit_fields ::
  "rstr \<Rightarrow> rstr \<Rightarrow> rstr option \<Rightarrow> rstr option \<Rightarrow> rstr option \<Rightarrow> db_error + unit" where
  "validate_audit_fields act action ob detail ip =
     (if 64 < str_len act \<or> 64 < str_len action \<or> opt_longer 4096 ob \<or> opt_longer 16384 detail
         \<or> (case ip of None \<Rightarrow> False | Some v \<Rightarrow> 45 < str_len v \<or> parse_ip v = None)
      then Inl InvalidQuery else Inr ())"

definition map_err :: "('e \<Rightarrow> 'f) \<Rightarrow> 'e + 'a \<Rightarrow> 'f + 'a" where
  "map_err f r = (case r of Inl e \<Rightarrow> Inl (f e) | Inr a \<Rightarrow> Inr a)"

definition validate_context :: "audit_context \<Rightarrow> db_error + unit" where
  "validate_context ctx =
     map_err AuditUnavailable (validate_audit_fields (actor ctx) [] None None (ctx_client_ip ctx))"

definition validate_event :: "required_audit_event \<Rightarrow> db_error + unit" where
  "validate_event ev =
     map_err AuditUnavailable
       (validate_audit_fields [] (lit (as_str (ev_action ev))) (ev_object_id ev) (ev_detail ev) None)"

text \<open>Runtime settings are the key/value table \<open>runtime_settings\<close>.\<close>

definition persisted_audit_client_ip_enabled :: "(rstr \<times> rstr) list \<Rightarrow> bool \<Rightarrow> bool" where
  "persisted_audit_client_ip_enabled settings fallback =
     (case map_of settings (lit ''audit_client_ip_enabled'') of
        Some v \<Rightarrow> to_ascii_lowercase (str_trim v)
                   \<in> set [lit ''true'', lit ''1'', lit ''yes'', lit ''on'']
      | None \<Rightarrow> fallback)"

definition insert_audit_event ::
  "instant \<Rightarrow> (rstr \<times> rstr) list \<Rightarrow> audit_action \<Rightarrow> rstr \<Rightarrow> rstr option \<Rightarrow> rstr option
     \<Rightarrow> rstr option \<Rightarrow> audit_row list \<Rightarrow> db_error + audit_row list" where
  "insert_audit_event now settings action act ob detail ip rows =
     (case validate_audit_fields act (lit (as_str action)) ob detail ip of
        Inl e \<Rightarrow> Inl e
      | Inr _ \<Rightarrow>
          Inr (rows @ [\<lparr>aud_id = next_rowid (map aud_id rows), aud_occurred_at = now,
             aud_actor = act, aud_action = lit (as_str action), aud_object_id = ob,
             aud_detail = detail,
             aud_client_ip =
               (if persisted_audit_client_ip_enabled settings (ip \<noteq> None) then ip else None),
             aud_priority = priority_as_i64 (priority action)\<rparr>]))"

fun insert_required_audits ::
  "instant \<Rightarrow> (rstr \<times> rstr) list \<Rightarrow> audit_context \<Rightarrow> required_audit_event list
     \<Rightarrow> audit_row list \<Rightarrow> db_error + audit_row list" where
  "insert_required_audits now settings ctx [] rows = Inr rows"
| "insert_required_audits now settings ctx (ev # evs) rows =
     (case map_err AuditUnavailable
             (insert_audit_event now settings (ev_action ev) (actor ctx) (ev_object_id ev)
                (ev_detail ev) (ctx_client_ip ctx) rows) of
        Inl e \<Rightarrow> Inl e
      | Inr rows' \<Rightarrow> insert_required_audits now settings ctx evs rows')"

section \<open>Stored client addresses\<close>

datatype audit_client_ip_deletion_outcome = DeletedIps nat | LoggingEnabled

definition delete_audit_client_ips ::
  "(rstr \<times> rstr) list \<Rightarrow> bool \<Rightarrow> audit_row list
     \<Rightarrow> (audit_client_ip_deletion_outcome \<times> required_audit_event list) \<times> audit_row list" where
  "delete_audit_client_ips settings fallback rows =
     (if persisted_audit_client_ip_enabled settings fallback then ((LoggingEnabled, []), rows)
      else let n = sql_count (\<lambda>r. aud_client_ip r \<noteq> None) rows in
        ((DeletedIps n,
          [audit_event AuditClientIpsDeleted None (Some (lit ''deleted='' @ dec_nat n))]),
         sql_update (\<lambda>r. aud_client_ip r \<noteq> None) (aud_client_ip_update (\<lambda>_. None)) rows))"

section \<open>Retention\<close>










section \<open>The log as a keyed table\<close>

definition wf_audit :: "audit_row list \<Rightarrow> bool" where
  "wf_audit rows = distinct (map aud_id rows)"


lemma insert_audit_event_Inr:
  assumes "insert_audit_event now st a act ob d ip rows = Inr rows'"
  shows "\<exists>r. rows' = rows @ [r] \<and> aud_id r = next_rowid (map aud_id rows)
    \<and> aud_action r = lit (as_str a) \<and> aud_actor r = act \<and> aud_object_id r = ob \<and> aud_detail r = d
    \<and> aud_priority r = priority_as_i64 (priority a)
    \<and> aud_client_ip r =
        (if persisted_audit_client_ip_enabled st (ip \<noteq> None) then ip else None)"
  using assms by (auto simp: insert_audit_event_def split: sum.splits)

lemma insert_audit_event_wf:
  "insert_audit_event now st a act ob d ip rows = Inr rows' \<Longrightarrow> wf_audit rows \<Longrightarrow> wf_audit rows'"
  using next_rowid_notin[of "map aud_id rows"]
  by (auto dest!: insert_audit_event_Inr simp: wf_audit_def)

lemma map_err_Inr [simp]: "map_err f r = Inr a \<longleftrightarrow> r = Inr a"
  by (cases r) (auto simp: map_err_def)

lemma map_err_Inl [simp]: "map_err f r = Inl e \<longleftrightarrow> (\<exists>e'. r = Inl e' \<and> e = f e')"
  by (cases r) (auto simp: map_err_def)

lemma insert_required_audits_wf:
  "insert_required_audits now st ctx evs rows = Inr rows' \<Longrightarrow> wf_audit rows \<Longrightarrow> wf_audit rows'"
  by (induction now st ctx evs rows arbitrary: rows' rule: insert_required_audits.induct)
    (auto split: sum.splits dest: insert_audit_event_wf)

text \<open>A successful insertion appends one row per event, in order, each carrying its event.\<close>

definition row_records :: "audit_context \<Rightarrow> required_audit_event \<Rightarrow> audit_row \<Rightarrow> bool" where
  "row_records ctx ev r \<longleftrightarrow>
     aud_action r = lit (as_str (ev_action ev)) \<and> aud_actor r = actor ctx
     \<and> aud_object_id r = ev_object_id ev \<and> aud_detail r = ev_detail ev
     \<and> aud_priority r = priority_as_i64 (priority (ev_action ev))"

lemma insert_required_audits_appends:
  "insert_required_audits now st ctx evs rows = Inr rows' \<Longrightarrow>
     \<exists>new. rows' = rows @ new \<and> list_all2 (row_records ctx) evs new"
proof (induction now st ctx evs rows arbitrary: rows' rule: insert_required_audits.induct)
  case (2 now st ctx ev evs rows)
  then obtain rows1 where 1: "insert_audit_event now st (ev_action ev) (actor ctx)
      (ev_object_id ev) (ev_detail ev) (ctx_client_ip ctx) rows = Inr rows1"
    "insert_required_audits now st ctx evs rows1 = Inr rows'"
    by (auto split: sum.splits)
  obtain r where "rows1 = rows @ [r]" "row_records ctx ev r"
    using insert_audit_event_Inr[OF 1(1)] by (auto simp: row_records_def)
  moreover obtain new where "rows' = rows1 @ new" "list_all2 (row_records ctx) evs new"
    using 2 1 by fastforce
  ultimately show ?case by (intro exI[of _ "r # new"]) simp
qed simp

lemma insert_required_audits_error:
  "insert_required_audits now st ctx evs rows = Inl e \<Longrightarrow> is_audit_unavailable e"
  by (induction now st ctx evs rows rule: insert_required_audits.induct)
    (auto split: sum.splits)

section \<open>Retention keeps the most important, most recent rows\<close>









section \<open>Properties\<close>

text \<open>the events a transaction requires are either all recorded, one row per event in
  order and under fresh identifiers, or the insertion reports the audit log unavailable;
  while client-IP logging is switched off in the persisted settings no inserted row
  carries an address.\<close>

theorem required_audits_recorded:
  assumes "wf_audit rows"
  shows "case insert_required_audits now settings ctx evs rows of
      Inl e \<Rightarrow> is_audit_unavailable e
    | Inr rows' \<Rightarrow> wf_audit rows' \<and> (\<exists>new. rows' = rows @ new \<and> list_all2 (row_records ctx) evs new
        \<and> (\<not> persisted_audit_client_ip_enabled settings (ctx_client_ip ctx \<noteq> None) \<longrightarrow>
             (\<forall>r\<in>set new. aud_client_ip r = None)))"
proof (cases "insert_required_audits now settings ctx evs rows")
  case (Inl e)
  then show ?thesis using insert_required_audits_error by simp
next
  case (Inr rows')
  obtain new where new: "rows' = rows @ new" "list_all2 (row_records ctx) evs new"
    using insert_required_audits_appends[OF Inr] by blast
  have "\<forall>r\<in>set (drop (length rows) rows'). aud_client_ip r = None"
    if "\<not> persisted_audit_client_ip_enabled settings (ctx_client_ip ctx \<noteq> None)"
    using Inr that
  proof (induction now settings ctx evs rows arbitrary: rows' rule: insert_required_audits.induct)
    case (2 now settings ctx ev evs rows)
    then obtain rows1 where 1: "insert_audit_event now settings (ev_action ev) (actor ctx)
        (ev_object_id ev) (ev_detail ev) (ctx_client_ip ctx) rows = Inr rows1"
      "insert_required_audits now settings ctx evs rows1 = Inr rows'"
      by (auto split: sum.splits)
    obtain r where r: "rows1 = rows @ [r]" "aud_client_ip r = None"
      using insert_audit_event_Inr[OF 1(1)] 2(3) by auto
    obtain new where new: "rows' = rows1 @ new" using insert_required_audits_appends[OF 1(2)] by blast
    have "\<forall>r\<in>set (drop (length rows1) rows'). aud_client_ip r = None"
      using 2 1 by simp
    then show ?case using r new by simp
  qed simp
  then show ?thesis
    using Inr new insert_required_audits_wf[OF Inr assms] by auto
qed

theorem required_audits_recorded_witness:
  "\<exists>r. insert_required_audits 5 [(lit ''audit_client_ip_enabled'', lit '' off '')]
          \<lparr>actor = lit ''root'', ctx_client_ip = Some (lit ''10.0.0.1'')\<rparr>
          [audit_event Logout None None] [] = Inr [r] \<and> aud_client_ip r = None \<and> aud_id r = 1"
proof -
  define st where "st = [(lit ''audit_client_ip_enabled'', lit '' off '')]"
  define ctx where "ctx = \<lparr>actor = lit ''root'', ctx_client_ip = Some (lit ''10.0.0.1'')\<rparr>"
  let ?ev = "audit_event Logout None None"
  have off: "\<not> persisted_audit_client_ip_enabled st (ctx_client_ip ctx \<noteq> None)"
    unfolding st_def ctx_def by code_simp
  have valid: "validate_audit_fields (actor ctx) (lit (as_str Logout)) None None (ctx_client_ip ctx)
      = Inr ()"
    unfolding ctx_def by code_simp
  obtain rows' where rows': "insert_required_audits 5 st ctx [?ev] [] = Inr rows'"
    "map aud_id rows' = [1]"
    using valid by (simp add: insert_audit_event_def audit_event_def map_err_def next_rowid_def
        del: lit_simps as_str.simps)
  have "\<exists>new. rows' = [] @ new \<and> list_all2 (row_records ctx) [?ev] new
      \<and> (\<forall>r\<in>set new. aud_client_ip r = None)"
    using required_audits_recorded[where rows = "[]" and now = 5 and settings = st and ctx = ctx and evs = "[?ev]"] off rows'(1)
    by (simp add: wf_audit_def del: insert_required_audits.simps)
  then have "\<exists>r. rows' = [r] \<and> aud_client_ip r = None \<and> aud_id r = 1"
    using rows'(2) by (auto simp: list_all2_Cons1)
  then show ?thesis using rows'(1) unfolding st_def ctx_def by blast
qed



end
