(* ===== verification/Byte_Matcher.thy ===== *)
theory Byte_Matcher
  imports VL_Prelude "HOL-Library.Sublist" "HOL-Library.While_Combinator"
begin

text \<open>
  The incremental pattern matcher of the multipart guard (\<open>ByteMatcher\<close> in
  \<open>src/src/multipart_guard.rs\<close>): the Knuth-Morris-Pratt table and the matcher that is fed one byte
  at a time. Its inner loops are \<open>while_option\<close>, so that a loop that does not end is \<open>None\<close>; the
  lemmas show that they end.
\<close>

section \<open>The matcher\<close>

record 'a byte_matcher =
  pattern :: "'a list"
  prefix_table :: "nat list"
  matched :: nat

definition fall_back :: "'a list \<Rightarrow> nat list \<Rightarrow> 'a \<Rightarrow> nat \<Rightarrow> nat option" where
  "fall_back p table byte m = while_option (\<lambda>m. 0 < m \<and> byte \<noteq> p ! m) (\<lambda>m. table ! (m - 1)) m"

text \<open>The loop of \<open>ByteMatcher::new\<close>, from \<open>index\<close> on, for \<open>todo\<close> further positions.\<close>

primrec build_table :: "nat \<Rightarrow> 'a list \<Rightarrow> nat \<Rightarrow> nat \<Rightarrow> nat list \<Rightarrow> nat list option" where
  "build_table 0 p index m table = Some table"
| "build_table (Suc todo) p index m table =
     (case fall_back p table (p ! index) m of
        None \<Rightarrow> None
      | Some m' \<Rightarrow>
          if p ! index = p ! m' then build_table todo p (Suc index) (Suc m') (table[index := Suc m'])
          else build_table todo p (Suc index) m' table)"

definition new_matcher :: "'a list \<Rightarrow> 'a byte_matcher option" where
  "new_matcher p =
     (case build_table (length p - 1) p 1 0 (replicate (length p) 0) of
        None \<Rightarrow> None
      | Some table \<Rightarrow> Some \<lparr>pattern = p, prefix_table = table, matched = 0\<rparr>)"

definition feed :: "'a byte_matcher \<Rightarrow> 'a \<Rightarrow> (bool \<times> 'a byte_matcher) option" where
  "feed M byte =
     (case fall_back (pattern M) (prefix_table M) byte (matched M) of
        None \<Rightarrow> None
      | Some m \<Rightarrow>
          let m1 = (if byte = pattern M ! m then Suc m else m) in
          if m1 = length (pattern M) then Some (True, M\<lparr>matched := prefix_table M ! (m1 - 1)\<rparr>)
          else Some (False, M\<lparr>matched := m1\<rparr>))"

definition pattern_len :: "'a byte_matcher \<Rightarrow> nat" where
  "pattern_len M = length (pattern M)"

definition reset :: "'a byte_matcher \<Rightarrow> 'a byte_matcher" where
  "reset M = M\<lparr>matched := 0\<rparr>"

section \<open>Borders\<close>

text \<open>\<open>overlaps p t n k\<close>: the first \<open>k < n\<close> elements of the pattern end the text.\<close>

definition overlaps :: "'a list \<Rightarrow> 'a list \<Rightarrow> nat \<Rightarrow> nat \<Rightarrow> bool" where
  "overlaps p t n k \<longleftrightarrow> k < n \<and> suffix (take k p) t"

definition longest :: "(nat \<Rightarrow> bool) \<Rightarrow> nat \<Rightarrow> bool" where
  "longest C m \<longleftrightarrow> C m \<and> (\<forall>k. C k \<longrightarrow> k \<le> m)"

definition border :: "'a list \<Rightarrow> nat \<Rightarrow> nat \<Rightarrow> bool" where
  "border p n = longest (overlaps p (take n p) n)"

definition borders_below :: "'a list \<Rightarrow> nat list \<Rightarrow> nat \<Rightarrow> bool" where
  "borders_below p table n \<longleftrightarrow> length table = length p \<and> (\<forall>i. 0 < i \<and> i \<le> n \<longrightarrow> border p i (table ! (i - 1)))"

lemma overlaps_of_overlap:
  assumes "overlaps p t n m" "n \<le> length p" "k < m"
  shows "overlaps p t n k \<longleftrightarrow> overlaps p (take m p) m k"
proof -
  have m: "m < n" "suffix (take m p) t" using assms(1) by (auto simp: overlaps_def)
  have "suffix (take k p) t \<longleftrightarrow> suffix (take k p) (take m p)"
  proof
    assume "suffix (take k p) t"
    moreover have "length (take k p) \<le> length (take m p)" using assms(2,3) m(1) by simp
    ultimately show "suffix (take k p) (take m p)" using m(2) suffix_length_suffix by blast
  qed (use m(2) suffix_order.trans in blast)
  then show ?thesis using assms(3) m(1) by (auto simp: overlaps_def)
qed

lemma border_next:
  assumes "overlaps p t n m" "n \<le> length p" "0 < m" "border p m m'"
  shows "m' < m" "overlaps p t n m'" "\<And>k. overlaps p t n k \<Longrightarrow> k < m \<Longrightarrow> k \<le> m'"
proof -
  show "m' < m" using assms(4) by (auto simp: border_def longest_def overlaps_def)
  then show "overlaps p t n m'" using assms(4) overlaps_of_overlap[OF assms(1,2)] by (auto simp: border_def longest_def)
  show "k \<le> m'" if "overlaps p t n k" "k < m" for k
    using assms(4) overlaps_of_overlap[OF assms(1,2) that(2)] that(1) by (auto simp: border_def longest_def)
qed

text \<open>Falling back ends, at the longest overlap that the byte extends.\<close>

lemma fall_back_correct:
  assumes C: "overlaps p t n m" and n: "n \<le> length p" and table: "borders_below p table (n - 1)"
    and max: "\<And>k. overlaps p t n k \<Longrightarrow> p ! k = b \<Longrightarrow> k \<le> m"
  shows "\<exists>r. fall_back p table b m = Some r \<and> overlaps p t n r \<and> (r = 0 \<or> b = p ! r)
    \<and> (\<forall>k. overlaps p t n k \<longrightarrow> p ! k = b \<longrightarrow> k \<le> r)"
proof -
  define P where "P m \<longleftrightarrow> overlaps p t n m \<and> (\<forall>k. overlaps p t n k \<longrightarrow> p ! k = b \<longrightarrow> k \<le> m)" for m
  have step: "P (table ! (m - 1)) \<and> table ! (m - 1) < m" if "P m" "0 < m \<and> b \<noteq> p ! m" for m
  proof -
    have m: "overlaps p t n m" "0 < m" using that by (simp_all add: P_def)
    then have "border p m (table ! (m - 1))" using table by (auto simp: borders_below_def overlaps_def)
    from border_next[OF m(1) n m(2) this] show ?thesis
      using that unfolding P_def by (metis le_neq_implies_less)
  qed
  have "wf (measure (\<lambda>m :: nat. m))" by simp
  then obtain r where r: "fall_back p table b m = Some r"
    unfolding fall_back_def
    using measure_while_option_Some[of P "\<lambda>m. 0 < m \<and> b \<noteq> p ! m" "\<lambda>m. table ! (m - 1)" "\<lambda>m. m" m] step C max
    by (auto simp: P_def)
  moreover have "P r \<and> \<not> (0 < r \<and> b \<noteq> p ! r)"
    using while_option_rule[of P "\<lambda>m. 0 < m \<and> b \<noteq> p ! m" "\<lambda>m. table ! (m - 1)" m r]
      while_option_stop[of "\<lambda>m. 0 < m \<and> b \<noteq> p ! m" "\<lambda>m. table ! (m - 1)" m r] r step C max
    unfolding fall_back_def P_def by blast
  ultimately show ?thesis by (auto simp: P_def)
qed

lemma suffix_snoc_take:
  "k < length p \<Longrightarrow> suffix (take (Suc k) p) (t @ [b]) \<longleftrightarrow> suffix (take k p) t \<and> p ! k = b"
  by (auto simp: take_Suc_conv_app_nth)

text \<open>One more byte: what the overlaps of the longer text are.\<close>

lemma next_overlap:
  assumes "fall_back p table b m = Some r" "overlaps p t n r" "r = 0 \<or> b = p ! r"
    and "\<forall>k. overlaps p t n k \<longrightarrow> p ! k = b \<longrightarrow> k \<le> r" "n \<le> length p"
  shows "longest (overlaps p (t @ [b]) (Suc n)) (if b = p ! r then Suc r else r)"
proof -
  have r: "r < n" "suffix (take r p) t" using assms(2) by (auto simp: overlaps_def)
  have up: "overlaps p (t @ [b]) (Suc n) (Suc k) \<longleftrightarrow> overlaps p t n k \<and> p ! k = b" for k
    using suffix_snoc_take[of k p t b] assms(5) by (auto simp: overlaps_def)
  have zero: "overlaps p (t @ [b]) (Suc n) 0" by (simp add: overlaps_def)
  show ?thesis
  proof (cases "b = p ! r")
    case True
    have "overlaps p (t @ [b]) (Suc n) (Suc r)" using up[of r] assms(2) True by simp
    moreover have "k \<le> Suc r" if "overlaps p (t @ [b]) (Suc n) k" for k
      using that up assms(4) by (cases k) auto
    ultimately show ?thesis using True by (simp add: longest_def)
  next
    case False
    then have "r = 0" using assms(3) by auto
    moreover have "k = 0" if "overlaps p (t @ [b]) (Suc n) k" for k
      using that up assms(4) False \<open>r = 0\<close> by (cases k) auto
    ultimately show ?thesis using False zero by (auto simp: longest_def)
  qed
qed

section \<open>The table\<close>

lemma border_1: "border p 1 0"
  by (auto simp: border_def longest_def overlaps_def)

lemma build_table_correct:
  assumes "todo + index = length p" "0 < index" "borders_below p table index" "border p index m"
    and "\<forall>i. index \<le> i \<and> i < length p \<longrightarrow> table ! i = 0"
  shows "\<exists>t. build_table todo p index m table = Some t \<and> borders_below p t (length p)"
  using assms
proof (induction todo arbitrary: index m table)
  case 0
  then show ?case by simp
next
  case (Suc todo)
  let ?t = "take index p" let ?b = "p ! index"
  have index: "index < length p" using Suc.prems(1) by simp
  have m: "overlaps p ?t index m" "\<And>k. overlaps p ?t index k \<Longrightarrow> k \<le> m"
    using Suc.prems(4) by (auto simp: border_def longest_def)
  have below: "borders_below p table (index - 1)" using Suc.prems(3) by (auto simp: borders_below_def)
  obtain r where r: "fall_back p table ?b m = Some r" "overlaps p ?t index r" "r = 0 \<or> ?b = p ! r"
      "\<forall>k. overlaps p ?t index k \<longrightarrow> p ! k = ?b \<longrightarrow> k \<le> r"
    using fall_back_correct[OF m(1) _ below, of ?b] m(2) index by auto
  let ?m = "if ?b = p ! r then Suc r else r" let ?table = "if ?b = p ! r then table[index := Suc r] else table"
  have "longest (overlaps p (?t @ [?b]) (Suc index)) ?m"
    using next_overlap[OF r] index by simp
  then have border: "border p (Suc index) ?m"
    by (simp add: border_def take_Suc_conv_app_nth index)
  have entry: "?table ! index = ?m" "length ?table = length p" "\<And>i. i \<noteq> index \<Longrightarrow> ?table ! i = table ! i"
    using Suc.prems(3,5) index r(3) by (auto simp: borders_below_def)
  have "borders_below p ?table (Suc index)"
    unfolding borders_below_def
  proof (intro conjI allI impI)
    fix i
    assume i: "0 < i \<and> i \<le> Suc index"
    show "border p i (?table ! (i - 1))"
    proof (cases "i = Suc index")
      case True
      then show ?thesis using border entry(1) by simp
    next
      case False
      then have "?table ! (i - 1) = table ! (i - 1)" using entry(3)[of "i - 1"] i by auto
      moreover have "border p i (table ! (i - 1))" using Suc.prems(3) i False unfolding borders_below_def by (metis le_SucE)
      ultimately show ?thesis by simp
    qed
  qed (rule entry(2))
  moreover have "\<forall>i. Suc index \<le> i \<and> i < length p \<longrightarrow> ?table ! i = 0"
    using Suc.prems(5) entry(3) by (metis Suc_leD Suc_n_not_le_n)
  ultimately have "\<exists>t. build_table todo p (Suc index) ?m ?table = Some t \<and> borders_below p t (length p)"
    using Suc.IH[of "Suc index" ?table ?m] Suc.prems(1) border by simp
  then show ?case using r(1) by (auto split: if_splits)
qed

definition matches_end :: "'a byte_matcher \<Rightarrow> 'a list \<Rightarrow> bool" where
  "matches_end M t \<longleftrightarrow> pattern M \<noteq> [] \<and> borders_below (pattern M) (prefix_table M) (length (pattern M))
     \<and> longest (overlaps (pattern M) t (length (pattern M))) (matched M)"

text \<open>A new matcher has read nothing; feeding it a byte reports whether the text read so far ends
  with the pattern.\<close>

lemma new_matcher_correct:
  assumes "p \<noteq> []"
  shows "\<exists>M. new_matcher p = Some M \<and> pattern M = p \<and> matches_end M []"
proof -
  have len: "length p - 1 + 1 = length p" using assms by (cases p) auto
  have "borders_below p (replicate (length p) 0) 1"
    using assms border_1[of p] by (cases p) (auto simp: borders_below_def le_Suc_eq)
  then obtain t where "build_table (length p - 1) p 1 0 (replicate (length p) 0) = Some t" "borders_below p t (length p)"
    using build_table_correct[OF len _ _ border_1, of "replicate (length p) 0"] by auto
  then show ?thesis
    using assms by (auto simp: new_matcher_def matches_end_def longest_def overlaps_def suffix_bot.extremum_unique)
qed

lemma feed_correct:
  assumes "matches_end M t"
  shows "\<exists>M'. feed M b = Some (suffix (pattern M) (t @ [b]), M') \<and> pattern M' = pattern M \<and> matches_end M' (t @ [b])"
proof -
  let ?p = "pattern M" let ?n = "length (pattern M)"
  have p: "?p \<noteq> []" and tab: "borders_below ?p (prefix_table M) ?n" and m: "overlaps ?p t ?n (matched M)"
    and max: "\<And>k. overlaps ?p t ?n k \<Longrightarrow> k \<le> matched M"
    using assms by (auto simp: matches_end_def longest_def)
  have below: "borders_below ?p (prefix_table M) (?n - 1)" using tab by (auto simp: borders_below_def)
  obtain r where r: "fall_back ?p (prefix_table M) b (matched M) = Some r" "overlaps ?p t ?n r" "r = 0 \<or> b = ?p ! r"
      "\<forall>k. overlaps ?p t ?n k \<longrightarrow> ?p ! k = b \<longrightarrow> k \<le> r"
    using fall_back_correct[OF m _ below, of b] max by auto
  define m1 where "m1 = (if b = ?p ! r then Suc r else r)"
  have long: "longest (overlaps ?p (t @ [b]) (Suc ?n)) m1" using next_overlap[OF r order_refl] by (simp add: m1_def)
  then have m1: "overlaps ?p (t @ [b]) (Suc ?n) m1" "\<And>k. overlaps ?p (t @ [b]) (Suc ?n) k \<Longrightarrow> k \<le> m1"
    by (auto simp: longest_def)
  have hit: "suffix ?p (t @ [b]) \<longleftrightarrow> m1 = ?n"
  proof
    assume "suffix ?p (t @ [b])"
    then have "overlaps ?p (t @ [b]) (Suc ?n) ?n" by (simp add: overlaps_def)
    then show "m1 = ?n" using m1 by (force simp: overlaps_def)
  next
    assume "m1 = ?n"
    then show "suffix ?p (t @ [b])" using m1(1) by (simp add: overlaps_def)
  qed
  show ?thesis
  proof (cases "m1 = ?n")
    case True
    have bord: "border ?p ?n (prefix_table M ! (?n - 1))" using tab p by (auto simp: borders_below_def)
    have "overlaps ?p (t @ [b]) ?n k \<longleftrightarrow> overlaps ?p (take ?n ?p) ?n k" for k
    proof -
      have "suffix ?p (t @ [b])" using hit True by simp
      moreover have "length (take k ?p) \<le> ?n" by simp
      ultimately have "suffix (take k ?p) (t @ [b]) \<longleftrightarrow> suffix (take k ?p) ?p"
        using suffix_length_suffix suffix_order.trans by blast
      then show ?thesis by (auto simp: overlaps_def)
    qed
    then have "longest (overlaps ?p (t @ [b]) ?n) (prefix_table M ! (?n - 1))"
      using bord by (simp add: border_def longest_def)
    then show ?thesis
      using r(1) True hit p tab by (simp add: feed_def m1_def[symmetric] Let_def matches_end_def)
  next
    case False
    then have "longest (overlaps ?p (t @ [b]) ?n) m1"
      using m1 by (auto simp: longest_def overlaps_def less_Suc_eq)
    then show ?thesis
      using r(1) False hit p tab by (simp add: feed_def m1_def[symmetric] Let_def matches_end_def)
  qed
qed

lemma reset_correct: "matches_end M t \<Longrightarrow> matches_end (reset M) [] \<and> pattern (reset M) = pattern M"
  by (auto simp: matches_end_def reset_def longest_def overlaps_def suffix_bot.extremum_unique)

section \<open>Feeding a text\<close>

fun feed_all :: "'a byte_matcher \<Rightarrow> 'a list \<Rightarrow> (bool list \<times> 'a byte_matcher) option" where
  "feed_all M [] = Some ([], M)"
| "feed_all M (b # bs) =
     (case feed M b of
        None \<Rightarrow> None
      | Some (hit, M') \<Rightarrow> map_option (\<lambda>(hits, M''). (hit # hits, M'')) (feed_all M' bs))"

lemma feed_all_correct:
  "matches_end M t \<Longrightarrow> \<exists>M'. feed_all M bs = Some (map (\<lambda>n. suffix (pattern M) (t @ take n bs)) [1..<Suc (length bs)], M')"
proof (induction bs arbitrary: M t)
  case (Cons b bs)
  obtain M1 where M1: "feed M b = Some (suffix (pattern M) (t @ [b]), M1)" "pattern M1 = pattern M" "matches_end M1 (t @ [b])"
    using feed_correct[OF Cons.prems] by blast
  obtain M2 where M2: "feed_all M1 bs = Some (map (\<lambda>n. suffix (pattern M) ((t @ [b]) @ take n bs)) [1..<Suc (length bs)], M2)"
    using Cons.IH[OF M1(3)] M1(2) by auto
  have "map (\<lambda>n. suffix (pattern M) (t @ take n (b # bs))) [1..<Suc (length (b # bs))]
      = suffix (pattern M) (t @ [b]) # map (\<lambda>n. suffix (pattern M) (t @ b # take n bs)) [1..<Suc (length bs)]"
    by (simp add: upt_conv_Cons map_Suc_upt[symmetric] o_def del: upt_Suc)
  then show ?case using M1(1) M2 by simp
qed simp

text \<open>The incremental matcher finds every occurrence. Building the table of a non-empty pattern
  ends, and feeding any text byte by byte ends as well and reports, after each byte, exactly
  whether the text read so far ends with the pattern, as a comparison with the last bytes would.\<close>

theorem matcher_finds_pattern:
  assumes "p \<noteq> []"
  shows "\<exists>M M'. new_matcher p = Some M
    \<and> feed_all M bytes = Some (map (\<lambda>n. suffix p (take n bytes)) [1..<Suc (length bytes)], M')"
  using new_matcher_correct[OF assms] feed_all_correct[of _ "[]" bytes] by fastforce

theorem matcher_finds_pattern_witness:
  "\<exists>M M'. new_matcher [1, 2, 1 :: nat] = Some M \<and> feed_all M [1, 2, 1, 2, 1] = Some ([False, False, True, False, True], M')"
proof -
  have "map (\<lambda>n. suffix [1, 2, 1 :: nat] (take n [1, 2, 1, 2, 1])) [1..<Suc (length [1, 2, 1, 2, 1 :: nat])]
      = [False, False, True, False, True]"
    by (simp add: upt_conv_Cons suffix_def append_eq_Cons_conv)
  then show ?thesis using matcher_finds_pattern[of "[1, 2, 1 :: nat]" "[1, 2, 1, 2, 1]"] by simp
qed

end
