(* ===== verification/Multipart_Guard.thy ===== *)
theory Multipart_Guard
  imports Byte_Matcher
begin

text \<open>
  The streaming guard in front of the multipart parser (\<open>src/src/multipart_guard.rs\<close>): the boundary
  of the \<open>Content-Type\<close>, the scanner that follows preamble, boundary lines, part headers and part
  bodies without keeping them, and the guarded body stream. A byte is a number below 256. The
  guarantee is a grammar of accepted bodies.
\<close>

section \<open>Limits and errors\<close>

definition DEFAULT_MAX_PREAMBLE_BYTES :: nat where
  "DEFAULT_MAX_PREAMBLE_BYTES = 8 * 1024"

definition DEFAULT_MAX_HEADER_BYTES :: nat where
  "DEFAULT_MAX_HEADER_BYTES = 16 * 1024"

definition MAX_BOUNDARY_BYTES :: nat where
  "MAX_BOUNDARY_BYTES = 70"

record guard_limits =
  max_preamble_bytes :: nat
  max_header_bytes :: nat

definition default_limits :: guard_limits where
  "default_limits = \<lparr>max_preamble_bytes = DEFAULT_MAX_PREAMBLE_BYTES, max_header_bytes = DEFAULT_MAX_HEADER_BYTES\<rparr>"

datatype guard_error =
  MissingContentType | UnsupportedContentType | MissingBoundary | InvalidContentType | InvalidBoundary

fun guard_status_code :: "guard_error \<Rightarrow> nat" where
  "guard_status_code MissingContentType = 415"
| "guard_status_code UnsupportedContentType = 415"
| "guard_status_code MissingBoundary = 400"
| "guard_status_code InvalidContentType = 400"
| "guard_status_code InvalidBoundary = 400"

datatype guard_body_error =
  PreambleTooLarge | HeaderTooLarge | MissingOpeningBoundary | IncompleteHeaderBlock | InvalidBoundaryLine
  | IncompleteBoundaryLine | BoundaryPaddingTooLarge | MissingClosingBoundary

section \<open>The boundary parameter\<close>

text \<open>Sections between semicolons outside quotes; \<open>None\<close> when a quote or an escape is left open.\<close>

fun split_sections :: "rstr \<Rightarrow> bool \<Rightarrow> bool \<Rightarrow> rstr \<Rightarrow> rstr list option" where
  "split_sections [] quoted escaped section = (if quoted \<or> escaped then None else Some [section])"
| "split_sections (c # cs) quoted escaped section =
     (if escaped then split_sections cs quoted False (section @ [c])
      else if c = 92 \<and> quoted then split_sections cs quoted True (section @ [c])
      else if c = 34 then split_sections cs (\<not> quoted) False (section @ [c])
      else if c = 59 \<and> \<not> quoted then map_option (\<lambda>rest. section # rest) (split_sections cs quoted False [])
      else split_sections cs quoted False (section @ [c]))"

definition split_content_type :: "rstr \<Rightarrow> guard_error + rstr list" where
  "split_content_type value =
     (case split_sections value False False [] of
        None \<Rightarrow> Inl InvalidContentType
      | Some sections \<Rightarrow> if list_ex (\<lambda>s. str_trim s = []) sections then Inl InvalidContentType else Inr sections)"

fun decode_quoted :: "rstr \<Rightarrow> bool \<Rightarrow> rstr \<Rightarrow> rstr option" where
  "decode_quoted [] escaped decoded = (if escaped then None else Some decoded)"
| "decode_quoted (c # cs) escaped decoded =
     (if escaped then decode_quoted cs False (decoded @ [c])
      else if c = 92 then decode_quoted cs True decoded
      else if c = 34 then None
      else decode_quoted cs False (decoded @ [c]))"

definition is_ascii_whitespace :: "nat \<Rightarrow> bool" where
  "is_ascii_whitespace c \<longleftrightarrow> c \<in> set [32, 9, 10, 12, 13]"

definition parse_parameter_value :: "rstr \<Rightarrow> guard_error + rstr \<times> bool" where
  "parse_parameter_value value =
     (if starts_with [34] value then
        (if \<not> ends_with [34] (tl value) then Inl InvalidContentType
         else case decode_quoted (butlast (tl value)) False [] of
           None \<Rightarrow> Inl InvalidContentType
         | Some decoded \<Rightarrow> Inr (decoded, True))
      else if 34 \<in> set value \<or> list_ex is_ascii_whitespace value then Inl InvalidContentType
      else Inr (value, False))"

definition boundary_char :: "nat \<Rightarrow> bool" where
  "boundary_char c \<longleftrightarrow> ascii_alphanumeric c \<or> c \<in> set [39, 40, 41, 43, 95, 44, 45, 46, 47, 58, 61, 63]"

definition validate_boundary :: "rstr \<Rightarrow> bool \<Rightarrow> guard_error + unit" where
  "validate_boundary boundary quoted =
     (if boundary = [] \<or> MAX_BOUNDARY_BYTES < length boundary then Inl InvalidBoundary
      else if last boundary = 32 then Inl InvalidBoundary
      else if list_ex (\<lambda>c. \<not> (boundary_char c \<or> quoted \<and> c = 32)) boundary then Inl InvalidBoundary
      else Inr ())"

fun find_boundary :: "rstr list \<Rightarrow> (rstr \<times> bool) option \<Rightarrow> guard_error + (rstr \<times> bool) option" where
  "find_boundary [] boundary = Inr boundary"
| "find_boundary (parameter # rest) boundary =
     (case split_once 61 parameter of
        None \<Rightarrow> Inl InvalidContentType
      | Some (name, raw) \<Rightarrow>
          if str_trim name = [] then Inl InvalidContentType
          else if eq_ignore_ascii_case (str_trim name) (lit ''boundary'') then
            (if boundary \<noteq> None then Inl InvalidContentType
             else case parse_parameter_value (str_trim raw) of
               Inl e \<Rightarrow> Inl e
             | Inr v \<Rightarrow> find_boundary rest (Some v))
          else find_boundary rest boundary)"

definition parse_boundary :: "rstr \<Rightarrow> guard_error + rstr" where
  "parse_boundary content_type =
     (if \<not> list_all (\<lambda>c. c < 128) content_type then Inl InvalidContentType
      else case split_content_type content_type of
        Inl e \<Rightarrow> Inl e
      | Inr [] \<Rightarrow> Inl InvalidContentType
      | Inr (media_type # rest) \<Rightarrow>
          if \<not> eq_ignore_ascii_case (str_trim media_type) (lit ''multipart/form-data'') then Inl UnsupportedContentType
          else case find_boundary rest None of
            Inl e \<Rightarrow> Inl e
          | Inr None \<Rightarrow> Inl MissingBoundary
          | Inr (Some (boundary, quoted)) \<Rightarrow>
              (case validate_boundary boundary quoted of Inl e \<Rightarrow> Inl e | Inr _ \<Rightarrow> Inr boundary))"

text \<open>The header of a request: absent, not visible ASCII, or a text.\<close>

definition boundary_from_headers :: "rstr option option \<Rightarrow> guard_error + rstr" where
  "boundary_from_headers header =
     (case header of
        None \<Rightarrow> Inl MissingContentType
      | Some None \<Rightarrow> Inl InvalidContentType
      | Some (Some content_type) \<Rightarrow> parse_boundary content_type)"

section \<open>The scanner\<close>

datatype scanner_phase = Preamble | BoundarySuffix | Headers | Body | Epilogue

datatype boundary_suffix_phase = First | ClosingHyphen | Padding | LineFeed

record scanner =
  sc_phase :: scanner_phase
  sc_limits :: guard_limits
  preamble_seen :: nat
  header_seen :: nat
  boundary_padding_seen :: nat
  sc_suffix_phase :: boundary_suffix_phase
  initial_boundary :: "nat byte_matcher"
  preamble_boundary :: "nat byte_matcher"
  body_boundary :: "nat byte_matcher"
  header_end :: "nat byte_matcher"

definition opening_line :: "rstr \<Rightarrow> rstr" where
  "opening_line boundary = [45, 45] @ boundary"

definition boundary_line :: "rstr \<Rightarrow> rstr" where
  "boundary_line boundary = [13, 10, 45, 45] @ boundary"

definition HEADER_END :: rstr where
  "HEADER_END = [13, 10, 13, 10]"

definition new_scanner :: "rstr \<Rightarrow> guard_limits \<Rightarrow> scanner option" where
  "new_scanner boundary limits =
     (case (new_matcher (opening_line boundary), new_matcher (boundary_line boundary), new_matcher HEADER_END) of
        (Some initial, Some line, Some hend) \<Rightarrow>
          Some \<lparr>sc_phase = Preamble, sc_limits = limits, preamble_seen = 0, header_seen = 0,
            boundary_padding_seen = 0, sc_suffix_phase = First, initial_boundary = initial,
            preamble_boundary = line, body_boundary = line, header_end = hend\<rparr>
      | _ \<Rightarrow> None)"

definition start_boundary_suffix :: "scanner \<Rightarrow> scanner" where
  "start_boundary_suffix sc = sc\<lparr>sc_phase := BoundarySuffix, boundary_padding_seen := 0, sc_suffix_phase := First\<rparr>"

definition start_headers :: "scanner \<Rightarrow> scanner" where
  "start_headers sc = sc\<lparr>sc_phase := Headers, header_seen := 0, header_end := reset (header_end sc)\<rparr>"

definition scan_preamble :: "scanner \<Rightarrow> nat \<Rightarrow> (guard_body_error + scanner) option" where
  "scan_preamble sc byte =
     (let seen = saturating_add (preamble_seen sc) 1; sc = sc\<lparr>preamble_seen := seen\<rparr> in
      case (if seen \<le> pattern_len (initial_boundary sc) then feed (initial_boundary sc) byte
            else Some (False, initial_boundary sc)) of
        None \<Rightarrow> None
      | Some (opening_at_start, initial) \<Rightarrow>
          (let sc = sc\<lparr>initial_boundary := initial\<rparr> in
           case feed (preamble_boundary sc) byte of
             None \<Rightarrow> None
           | Some (opening_after_preamble, line) \<Rightarrow>
               (let sc = sc\<lparr>preamble_boundary := line\<rparr>;
                    limit = max_preamble_bytes (sc_limits sc) in
                if opening_at_start \<or> opening_after_preamble then
                  (let matched_len = (if opening_at_start then pattern_len (initial_boundary sc)
                                      else pattern_len (preamble_boundary sc)) in
                   if limit < saturating_sub seen matched_len then Some (Inl PreambleTooLarge)
                   else Some (Inr (start_boundary_suffix sc)))
                else if saturating_add limit (pattern_len (preamble_boundary sc)) < seen then Some (Inl PreambleTooLarge)
                else Some (Inr sc))))"

definition scan_boundary_suffix :: "scanner \<Rightarrow> nat \<Rightarrow> guard_body_error + scanner" where
  "scan_boundary_suffix sc byte =
     (let limit = max_header_bytes (sc_limits sc) in
      case sc_suffix_phase sc of
        First \<Rightarrow>
          if byte = 45 then Inr (sc\<lparr>sc_suffix_phase := ClosingHyphen\<rparr>)
          else if byte = 32 \<or> byte = 9 then
            (if limit < 1 then Inl BoundaryPaddingTooLarge
             else Inr (sc\<lparr>boundary_padding_seen := 1, sc_suffix_phase := Padding\<rparr>))
          else if byte = 13 then Inr (sc\<lparr>sc_suffix_phase := LineFeed\<rparr>)
          else Inl InvalidBoundaryLine
      | ClosingHyphen \<Rightarrow> if byte \<noteq> 45 then Inl InvalidBoundaryLine else Inr (sc\<lparr>sc_phase := Epilogue\<rparr>)
      | Padding \<Rightarrow>
          if byte = 32 \<or> byte = 9 then
            (let seen = saturating_add (boundary_padding_seen sc) 1 in
             if limit < seen then Inl BoundaryPaddingTooLarge else Inr (sc\<lparr>boundary_padding_seen := seen\<rparr>))
          else if byte = 13 then Inr (sc\<lparr>sc_suffix_phase := LineFeed\<rparr>)
          else Inl InvalidBoundaryLine
      | LineFeed \<Rightarrow> if byte \<noteq> 10 then Inl InvalidBoundaryLine else Inr (start_headers sc))"

definition scan_header :: "scanner \<Rightarrow> nat \<Rightarrow> (guard_body_error + scanner) option" where
  "scan_header sc byte =
     (let seen = saturating_add (header_seen sc) 1; sc = sc\<lparr>header_seen := seen\<rparr>;
          limit = max_header_bytes (sc_limits sc) in
      case feed (header_end sc) byte of
        None \<Rightarrow> None
      | Some (hit, hend) \<Rightarrow>
          (let sc = sc\<lparr>header_end := hend\<rparr> in
           if hit then
             (if limit < saturating_sub seen (pattern_len (header_end sc)) then Some (Inl HeaderTooLarge)
              else Some (Inr (sc\<lparr>sc_phase := Body, body_boundary := reset (body_boundary sc)\<rparr>)))
           else if saturating_add limit (pattern_len (header_end sc)) < seen then Some (Inl HeaderTooLarge)
           else Some (Inr sc)))"

definition scan_body :: "scanner \<Rightarrow> nat \<Rightarrow> scanner option" where
  "scan_body sc byte =
     (case feed (body_boundary sc) byte of
        None \<Rightarrow> None
      | Some (hit, line) \<Rightarrow>
          (let sc = sc\<lparr>body_boundary := line\<rparr> in Some (if hit then start_boundary_suffix sc else sc)))"

definition scan_byte :: "scanner \<Rightarrow> nat \<Rightarrow> (guard_body_error + scanner) option" where
  "scan_byte sc byte =
     (case sc_phase sc of
        Preamble \<Rightarrow> scan_preamble sc byte
      | BoundarySuffix \<Rightarrow> Some (scan_boundary_suffix sc byte)
      | Headers \<Rightarrow> scan_header sc byte
      | Body \<Rightarrow> map_option Inr (scan_body sc byte)
      | Epilogue \<Rightarrow> Some (Inr sc))"

text \<open>\<open>scan\<close>: in a part body, while nothing of the boundary is matched, \<open>memchr\<close> skips to the next
  carriage return.\<close>

definition skip_to_cr :: "scanner \<Rightarrow> rstr \<Rightarrow> rstr" where
  "skip_to_cr sc bytes =
     (if sc_phase sc = Body \<and> matched (body_boundary sc) = 0 then dropWhile (\<lambda>b. b \<noteq> 13) bytes else bytes)"

function scan :: "scanner \<Rightarrow> rstr \<Rightarrow> (guard_body_error + scanner) option" where
  "scan sc bytes =
     (case skip_to_cr sc bytes of
        [] \<Rightarrow> Some (Inr sc)
      | b # rest \<Rightarrow>
          (case scan_byte sc b of
             None \<Rightarrow> None
           | Some (Inl e) \<Rightarrow> Some (Inl e)
           | Some (Inr sc') \<Rightarrow> scan sc' rest))"
  by pat_completeness auto
termination
proof (relation "measure (\<lambda>(sc, bytes). length bytes)", goal_cases)
  case (2 sc bytes b rest)
  have "length (skip_to_cr sc bytes) \<le> length bytes"
    by (simp add: skip_to_cr_def length_dropWhile_le)
  then show ?case using 2 by simp
qed simp

declare scan.simps [simp del]

definition finish :: "scanner \<Rightarrow> guard_body_error + unit" where
  "finish sc =
     (case sc_phase sc of
        Preamble \<Rightarrow> Inl MissingOpeningBoundary
      | BoundarySuffix \<Rightarrow> Inl IncompleteBoundaryLine
      | Headers \<Rightarrow> Inl IncompleteHeaderBlock
      | Body \<Rightarrow> Inl MissingClosingBoundary
      | Epilogue \<Rightarrow> Inr ())"

section \<open>The guarded stream\<close>

datatype stream_event = Chunk rstr | SourceFailed

datatype guarded_body_error = Source | Violation guard_body_error

text \<open>All the polls of one body: the chunks handed on, and how the stream ends.\<close>

fun guard_stream :: "scanner \<Rightarrow> stream_event list \<Rightarrow> (rstr list \<times> (guarded_body_error + unit)) option" where
  "guard_stream sc [] =
     (case finish sc of Inl e \<Rightarrow> Some ([], Inl (Violation e)) | Inr _ \<Rightarrow> Some ([], Inr ()))"
| "guard_stream sc (SourceFailed # events) = Some ([], Inl Source)"
| "guard_stream sc (Chunk bytes # events) =
     (case scan sc bytes of
        None \<Rightarrow> None
      | Some (Inl e) \<Rightarrow> Some ([], Inl (Violation e))
      | Some (Inr sc') \<Rightarrow> map_option (\<lambda>(out, r). (bytes # out, r)) (guard_stream sc' events))"

definition guard_multipart_request_with_limits ::
  "rstr option option \<Rightarrow> guard_limits \<Rightarrow> stream_event list
     \<Rightarrow> (guard_error + (rstr list \<times> (guarded_body_error + unit))) option" where
  "guard_multipart_request_with_limits header limits events =
     (case boundary_from_headers header of
        Inl e \<Rightarrow> Some (Inl e)
      | Inr boundary \<Rightarrow>
          (case new_scanner boundary limits of
             None \<Rightarrow> None
           | Some sc \<Rightarrow> map_option Inr (guard_stream sc events)))"

definition guard_multipart_request ::
  "rstr option option \<Rightarrow> stream_event list \<Rightarrow> (guard_error + (rstr list \<times> (guarded_body_error + unit))) option" where
  "guard_multipart_request header events = guard_multipart_request_with_limits header default_limits events"

section \<open>The bodies that are accepted\<close>

text \<open>\<open>first_end p x\<close>: appended to \<open>x\<close>, the delimiter \<open>p\<close> occurs for the first time at the end.\<close>

definition first_end :: "rstr \<Rightarrow> rstr \<Rightarrow> bool" where
  "first_end p x \<longleftrightarrow> (\<forall>k < length (x @ p). \<not> suffix p (take k (x @ p)))"

definition padding :: "rstr \<Rightarrow> bool" where
  "padding pad = list_all (\<lambda>c. c = 32 \<or> c = 9) pad"

text \<open>What may follow a boundary: the closing hyphens, or padding, a header block and a body up to
  the next boundary line.\<close>

inductive after_boundary :: "rstr \<Rightarrow> guard_limits \<Rightarrow> rstr \<Rightarrow> bool" for boundary limits where
  close: "after_boundary boundary limits (45 # 45 # epilogue)"
| part: "padding pad \<Longrightarrow> length pad \<le> max_header_bytes limits
    \<Longrightarrow> first_end HEADER_END headers \<Longrightarrow> length headers \<le> max_header_bytes limits
    \<Longrightarrow> first_end (boundary_line boundary) content \<Longrightarrow> after_boundary boundary limits rest
    \<Longrightarrow> after_boundary boundary limits
          (pad @ [13, 10] @ headers @ HEADER_END @ content @ boundary_line boundary @ rest)"

definition multipart_body :: "rstr \<Rightarrow> guard_limits \<Rightarrow> rstr \<Rightarrow> bool" where
  "multipart_body boundary limits s \<longleftrightarrow>
     (\<exists>rest. s = opening_line boundary @ rest \<and> after_boundary boundary limits rest)
     \<or> (\<exists>pre rest. s = pre @ boundary_line boundary @ rest \<and> first_end (boundary_line boundary) pre
          \<and> \<not> prefix (opening_line boundary) s
          \<and> length pre \<le> max_preamble_bytes limits \<and> after_boundary boundary limits rest)"

section \<open>Searching for a delimiter\<close>

text \<open>\<open>search H Q t s\<close>: after \<open>t\<close>, read \<open>s\<close> up to the first point where \<open>H\<close> holds of what was read, then \<open>Q\<close>.\<close>

fun search :: "(rstr \<Rightarrow> bool) \<Rightarrow> (rstr \<Rightarrow> rstr \<Rightarrow> bool) \<Rightarrow> rstr \<Rightarrow> rstr \<Rightarrow> bool" where
  "search H Q t [] = False"
| "search H Q t (c # s) = (if H (t @ [c]) then Q (t @ [c]) s else search H Q (t @ [c]) s)"

lemma nonempty_prefix_Cons:
  "(\<exists>x rest. c # s = x @ rest \<and> x \<noteq> [] \<and> P x rest) \<longleftrightarrow> (\<exists>y rest. s = y @ rest \<and> P (c # y) rest)"
  by (metis append_Cons list.distinct(1) list.exhaust list.inject)

lemma prefix_empty_or_not:
  "(\<exists>y rest. s = y @ rest \<and> P y rest) \<longleftrightarrow> P [] s \<or> (\<exists>y rest. s = y @ rest \<and> y \<noteq> [] \<and> P y rest)"
  by (metis append_Nil)

lemma search_iff:
  "search H Q t s \<longleftrightarrow> (\<exists>x rest. s = x @ rest \<and> x \<noteq> [] \<and> H (t @ x)
     \<and> (\<forall>k. 0 < k \<and> k < length x \<longrightarrow> \<not> H (t @ take k x)) \<and> Q (t @ x) rest)"
proof (induction s arbitrary: t)
  case (Cons c s)
  let ?at = "\<lambda>t x rest. H (t @ x) \<and> (\<forall>k. 0 < k \<and> k < length x \<longrightarrow> \<not> H (t @ take k x)) \<and> Q (t @ x) rest"
  have ex: "(\<exists>x rest. c # s = x @ rest \<and> x \<noteq> [] \<and> ?at t x rest) \<longleftrightarrow> (\<exists>y rest. s = y @ rest \<and> ?at t (c # y) rest)"
    by (rule nonempty_prefix_Cons)
  have here: "?at t [c] s \<longleftrightarrow> H (t @ [c]) \<and> Q (t @ [c]) s" by auto
  have later: "?at t (c # y) rest \<longleftrightarrow> \<not> H (t @ [c]) \<and> ?at (t @ [c]) y rest" if "y \<noteq> []" for y rest
  proof -
    have "(\<forall>k. 0 < k \<and> k < length (c # y) \<longrightarrow> \<not> H (t @ take k (c # y)))
        \<longleftrightarrow> \<not> H (t @ [c]) \<and> (\<forall>k. 0 < k \<and> k < length y \<longrightarrow> \<not> H ((t @ [c]) @ take k y))" (is "?l \<longleftrightarrow> ?r")
    proof
      assume l: ?l
      have "\<not> H (t @ [c])" using l[rule_format, of 1] that by simp
      moreover have "\<not> H ((t @ [c]) @ take k y)" if "0 < k \<and> k < length y" for k
        using l[rule_format, of "Suc k"] that by simp
      ultimately show ?r by blast
    next
      assume r: ?r
      show ?l
      proof (intro allI impI)
        fix k
        assume k: "0 < k \<and> k < length (c # y)"
        show "\<not> H (t @ take k (c # y))"
        proof (cases "k = 1")
          case True
          then show ?thesis using r by simp
        next
          case False
          then show ?thesis using r k by (cases k) auto
        qed
      qed
    qed
    then show ?thesis by auto
  qed
  have split: "(\<exists>y rest. s = y @ rest \<and> ?at t (c # y) rest)
      \<longleftrightarrow> ?at t [c] s \<or> (\<exists>y rest. s = y @ rest \<and> y \<noteq> [] \<and> ?at t (c # y) rest)"
    by (rule prefix_empty_or_not)
  have "(\<exists>y rest. s = y @ rest \<and> y \<noteq> [] \<and> ?at t (c # y) rest)
      \<longleftrightarrow> (\<exists>y rest. s = y @ rest \<and> y \<noteq> [] \<and> \<not> H (t @ [c]) \<and> ?at (t @ [c]) y rest)"
    using later by (intro ex_cong1) blast
  then have "(\<exists>y rest. s = y @ rest \<and> y \<noteq> [] \<and> ?at t (c # y) rest)
      \<longleftrightarrow> \<not> H (t @ [c]) \<and> (\<exists>y rest. s = y @ rest \<and> y \<noteq> [] \<and> ?at (t @ [c]) y rest)"
    by blast
  then show ?case
    unfolding ex split here search.simps Cons.IH[of "t @ [c]"] by argo
qed simp

lemma search_bounded:
  assumes "\<And>u r. bound < length u \<Longrightarrow> \<not> Q u r" "bound \<le> length t"
  shows "\<not> search H Q t s"
  using assms(2)
proof (induction s arbitrary: t)
  case (Cons c s)
  have "\<not> Q (t @ [c]) s" using Cons.prems by (intro assms(1)) simp
  moreover have "\<not> search H Q (t @ [c]) s" using Cons.prems by (intro Cons.IH) simp
  ultimately show ?case by simp
qed simp

lemma search_from_start:
  assumes "p \<noteq> []"
  shows "search (suffix p) Q [] s \<longleftrightarrow> (\<exists>x rest. s = x @ p @ rest \<and> first_end p x \<and> Q (x @ p) rest)"
proof -
  have pos: "(\<forall>k. 0 < k \<and> k < length y \<longrightarrow> \<not> suffix p (take k y)) \<longleftrightarrow> (\<forall>k < length y. \<not> suffix p (take k y))" for y
    using assms by (metis neq0_conv suffix_bot.extremum_unique take_0)
  show ?thesis
  proof
    assume "search (suffix p) Q [] s"
    then obtain y rest where y: "s = y @ rest" "suffix p y" "\<forall>k < length y. \<not> suffix p (take k y)" "Q y rest"
      unfolding search_iff append_Nil pos by blast
    then obtain x where "y = x @ p" by (auto simp: suffix_def)
    then show "\<exists>x rest. s = x @ p @ rest \<and> first_end p x \<and> Q (x @ p) rest"
      using y by (auto simp: first_end_def)
  next
    assume "\<exists>x rest. s = x @ p @ rest \<and> first_end p x \<and> Q (x @ p) rest"
    then obtain x rest where x: "s = (x @ p) @ rest" "first_end p x" "Q (x @ p) rest" by auto
    moreover have "suffix p (x @ p)" "x @ p \<noteq> []" using assms by (simp_all add: suffix_def)
    ultimately show "search (suffix p) Q [] s"
      unfolding search_iff append_Nil pos first_end_def by blast
  qed
qed

section \<open>Bytes one at a time\<close>

fun scan_all :: "scanner \<Rightarrow> rstr \<Rightarrow> (guard_body_error + scanner) option" where
  "scan_all sc [] = Some (Inr sc)"
| "scan_all sc (c # s) =
     (case scan_byte sc c of
        None \<Rightarrow> None
      | Some (Inl e) \<Rightarrow> Some (Inl e)
      | Some (Inr sc') \<Rightarrow> scan_all sc' s)"

lemma scan_all_append:
  "scan_all sc (s @ t) =
     (case scan_all sc s of None \<Rightarrow> None | Some (Inl e) \<Rightarrow> Some (Inl e) | Some (Inr sc') \<Rightarrow> scan_all sc' t)"
  by (induction s arbitrary: sc) (auto split: option.splits sum.splits)

lemma feed_pattern: "feed M c = Some (hit, M') \<Longrightarrow> pattern M' = pattern M"
  by (auto simp: feed_def Let_def split: option.splits if_splits)

lemma feed_skips:
  assumes "matched M = 0" "c \<noteq> hd (pattern M)" "pattern M \<noteq> []"
  shows "feed M c = Some (False, M)"
proof -
  have "pattern M ! 0 \<noteq> c" using assms by (simp add: hd_conv_nth)
  then show ?thesis using assms by (simp add: feed_def fall_back_def while_option_unfold)
qed

text \<open>The line matcher of the bodies keeps its pattern, which starts with a carriage return.\<close>

definition line_pattern :: "rstr \<Rightarrow> scanner \<Rightarrow> bool" where
  "line_pattern boundary sc \<longleftrightarrow> pattern (body_boundary sc) = boundary_line boundary"

lemma scan_byte_line_pattern:
  assumes "scan_byte sc c = Some (Inr sc')" "line_pattern boundary sc"
  shows "line_pattern boundary sc'"
proof (cases "sc_phase sc")
  case Preamble
  then show ?thesis using assms
    by (auto simp: scan_byte_def scan_preamble_def line_pattern_def Let_def start_boundary_suffix_def
        split: option.splits if_splits)
next
  case BoundarySuffix
  then show ?thesis using assms
    by (auto simp: scan_byte_def scan_boundary_suffix_def line_pattern_def Let_def start_headers_def
        split: boundary_suffix_phase.splits if_splits)
next
  case Headers
  then show ?thesis using assms
    by (auto simp: scan_byte_def scan_header_def line_pattern_def Let_def reset_def split: option.splits if_splits)
next
  case Body
  then show ?thesis using assms
    by (auto simp: scan_byte_def scan_body_def line_pattern_def Let_def start_boundary_suffix_def
        split: option.splits if_splits dest: feed_pattern)
next
  case Epilogue
  then show ?thesis using assms by (simp add: scan_byte_def)
qed

lemma scan_byte_skips:
  assumes "sc_phase sc = Body" "matched (body_boundary sc) = 0" "line_pattern boundary sc" "c \<noteq> 13"
  shows "scan_byte sc c = Some (Inr sc)"
  using assms feed_skips[of "body_boundary sc" c]
  by (simp add: scan_byte_def scan_body_def line_pattern_def boundary_line_def)

lemma scan_all_skip:
  assumes "line_pattern boundary sc"
  shows "scan_all sc (skip_to_cr sc s) = scan_all sc s"
proof (cases "sc_phase sc = Body \<and> matched (body_boundary sc) = 0")
  case True
  then show ?thesis
    using assms by (induction s) (auto simp: skip_to_cr_def scan_byte_skips)
qed (auto simp: skip_to_cr_def)

lemma scan_eq_scan_all:
  "line_pattern boundary sc \<Longrightarrow> scan sc s = scan_all sc s"
proof (induction sc s rule: scan.induct)
  case (1 sc s)
  have "scan sc s = scan_all sc (skip_to_cr sc s)"
    using 1(1) scan_byte_line_pattern[OF _ 1(2)]
    by (subst scan.simps) (auto split: list.split option.split sum.split)
  then show ?case using scan_all_skip[OF 1(2)] by simp
qed

lemma scan_all_line_pattern:
  "scan_all sc s = Some (Inr sc') \<Longrightarrow> line_pattern boundary sc \<Longrightarrow> line_pattern boundary sc'"
  by (induction s arbitrary: sc) (auto split: option.splits sum.splits dest: scan_byte_line_pattern)

section \<open>The verdict of the scanner\<close>

definition verdict :: "scanner \<Rightarrow> rstr \<Rightarrow> bool option" where
  "verdict sc s =
     (case scan_all sc s of
        None \<Rightarrow> None
      | Some (Inl e) \<Rightarrow> Some False
      | Some (Inr sc') \<Rightarrow> Some (finish sc' = Inr ()))"

lemma verdict_Nil: "verdict sc [] = Some (sc_phase sc = Epilogue)"
  by (simp add: verdict_def finish_def split: scanner_phase.split)

lemma verdict_Cons:
  "verdict sc (c # s) =
     (case scan_byte sc c of None \<Rightarrow> None | Some (Inl e) \<Rightarrow> Some False | Some (Inr sc') \<Rightarrow> verdict sc' s)"
  by (simp add: verdict_def split: option.split sum.split)

lemma verdict_Epilogue: "sc_phase sc = Epilogue \<Longrightarrow> verdict sc s = Some True"
  by (induction s) (simp_all add: verdict_Nil verdict_Cons scan_byte_def)

definition reads :: "rstr \<Rightarrow> nat byte_matcher \<Rightarrow> rstr \<Rightarrow> bool" where
  "reads p M t \<longleftrightarrow> pattern M = p \<and> matches_end M t"

lemma reads_feed: "reads p M t \<Longrightarrow> \<exists>M'. feed M c = Some (suffix p (t @ [c]), M') \<and> reads p M' (t @ [c])"
  using feed_correct[of M t c] by (auto simp: reads_def)

lemma reads_reset: "reads p M t \<Longrightarrow> reads p (reset M) []"
  using reset_correct[of M t] by (simp add: reads_def)

lemma reads_len: "reads p M t \<Longrightarrow> pattern_len M = length p"
  by (simp add: reads_def pattern_len_def)

text \<open>The limits leave room for the counters, which then never saturate.\<close>

definition limits_fit :: "rstr \<Rightarrow> guard_limits \<Rightarrow> bool" where
  "limits_fit boundary limits \<longleftrightarrow>
     max_preamble_bytes limits + length boundary + 4 < u64_max \<and> max_header_bytes limits + 4 < u64_max"

definition equipped :: "rstr \<Rightarrow> guard_limits \<Rightarrow> scanner \<Rightarrow> bool" where
  "equipped boundary limits sc \<longleftrightarrow> sc_limits sc = limits
     \<and> (\<exists>t. reads (boundary_line boundary) (body_boundary sc) t) \<and> (\<exists>t. reads HEADER_END (header_end sc) t)"

definition body_ok :: "rstr \<Rightarrow> guard_limits \<Rightarrow> rstr \<Rightarrow> rstr \<Rightarrow> bool" where
  "body_ok boundary limits = search (suffix (boundary_line boundary)) (\<lambda>u. after_boundary boundary limits)"

definition headers_ok :: "rstr \<Rightarrow> guard_limits \<Rightarrow> rstr \<Rightarrow> rstr \<Rightarrow> bool" where
  "headers_ok boundary limits = search (suffix HEADER_END)
     (\<lambda>u rest. length u - 4 \<le> max_header_bytes limits \<and> body_ok boundary limits [] rest)"

fun line_end_ok :: "rstr \<Rightarrow> guard_limits \<Rightarrow> rstr \<Rightarrow> bool" where
  "line_end_ok boundary limits (c # s) \<longleftrightarrow> c = 10 \<and> headers_ok boundary limits [] s"
| "line_end_ok boundary limits [] = False"

fun padding_ok :: "rstr \<Rightarrow> guard_limits \<Rightarrow> nat \<Rightarrow> rstr \<Rightarrow> bool" where
  "padding_ok boundary limits n [] = False"
| "padding_ok boundary limits n (c # s) =
     (if c = 32 \<or> c = 9 then Suc n \<le> max_header_bytes limits \<and> padding_ok boundary limits (Suc n) s
      else c = 13 \<and> line_end_ok boundary limits s)"

lemma before_line_end_Cons:
  assumes "c \<noteq> 13"
  shows "(\<exists>pad rest. c # s = pad @ [13, 10] @ rest \<and> P pad rest) \<longleftrightarrow> (\<exists>pad rest. s = pad @ [13, 10] @ rest \<and> P (c # pad) rest)"
proof
  assume "\<exists>pad rest. c # s = pad @ [13, 10] @ rest \<and> P pad rest"
  then obtain pad rest where "c # s = pad @ [13, 10] @ rest" "P pad rest" by blast
  then show "\<exists>pad rest. s = pad @ [13, 10] @ rest \<and> P (c # pad) rest" using assms by (cases pad) auto
qed (metis append_Cons)

lemma padding_ok_iff:
  "padding_ok boundary limits n s \<longleftrightarrow>
     (\<exists>pad rest. s = pad @ [13, 10] @ rest \<and> padding pad \<and> (pad \<noteq> [] \<longrightarrow> n + length pad \<le> max_header_bytes limits)
        \<and> headers_ok boundary limits [] rest)"
proof (induction s arbitrary: n)
  case (Cons c s)
  let ?at = "\<lambda>n pad rest. padding pad \<and> (pad \<noteq> [] \<longrightarrow> n + length pad \<le> max_header_bytes limits)
        \<and> headers_ok boundary limits [] rest"
  have line: "line_end_ok boundary limits s \<longleftrightarrow> (\<exists>rest. s = 10 # rest \<and> headers_ok boundary limits [] rest)"
    by (cases s) auto
  show ?case
  proof (cases "c = 32 \<or> c = 9")
    case True
    have "(\<exists>pad rest. c # s = pad @ [13, 10] @ rest \<and> ?at n pad rest)
        \<longleftrightarrow> (\<exists>pad rest. s = pad @ [13, 10] @ rest \<and> ?at n (c # pad) rest)"
      using True by (intro before_line_end_Cons) auto
    also have "\<dots> \<longleftrightarrow> Suc n \<le> max_header_bytes limits \<and> (\<exists>pad rest. s = pad @ [13, 10] @ rest \<and> ?at (Suc n) pad rest)"
    proof -
      have "?at n (c # pad) rest \<longleftrightarrow> Suc n \<le> max_header_bytes limits \<and> ?at (Suc n) pad rest" for pad rest
        using True by (cases pad) (auto simp: padding_def)
      then show ?thesis by blast
    qed
    finally show ?thesis using True Cons.IH[of "Suc n"] by simp
  next
    case False
    have "c # s = pad @ [13, 10] @ rest \<and> ?at n pad rest
        \<longleftrightarrow> pad = [] \<and> c = 13 \<and> s = 10 # rest \<and> headers_ok boundary limits [] rest" for pad rest
      using False by (cases pad) (auto simp: padding_def)
    then show ?thesis using line False by simp
  qed
qed simp

lemma delimiters_nonempty [simp]: "boundary_line boundary \<noteq> []" "HEADER_END \<noteq> []" "opening_line boundary \<noteq> []"
    "length HEADER_END = 4" "length (boundary_line boundary) = length boundary + 4"
    "length (opening_line boundary) = length boundary + 2"
  by (simp_all add: boundary_line_def HEADER_END_def opening_line_def)

lemma after_boundary_iff:
  "after_boundary boundary limits s \<longleftrightarrow> (\<exists>epilogue. s = 45 # 45 # epilogue) \<or> padding_ok boundary limits 0 s"
proof -
  have "padding_ok boundary limits 0 s \<longleftrightarrow> (\<exists>pad headers content rest.
      s = pad @ [13, 10] @ headers @ HEADER_END @ content @ boundary_line boundary @ rest
      \<and> padding pad \<and> length pad \<le> max_header_bytes limits \<and> first_end HEADER_END headers
      \<and> length headers \<le> max_header_bytes limits \<and> first_end (boundary_line boundary) content
      \<and> after_boundary boundary limits rest)"
    (is "_ \<longleftrightarrow> ?parts")
  proof -
    have body: "body_ok boundary limits [] r \<longleftrightarrow> (\<exists>content rest. r = content @ boundary_line boundary @ rest
        \<and> first_end (boundary_line boundary) content \<and> after_boundary boundary limits rest)" for r
      unfolding body_ok_def by (rule search_from_start) simp
    have headers: "headers_ok boundary limits [] r \<longleftrightarrow> (\<exists>headers rest. r = headers @ HEADER_END @ rest
        \<and> first_end HEADER_END headers \<and> length headers \<le> max_header_bytes limits \<and> body_ok boundary limits [] rest)" for r
      unfolding headers_ok_def by (subst search_from_start) simp_all
    have pad: "(pad \<noteq> [] \<longrightarrow> 0 + length pad \<le> max_header_bytes limits) \<longleftrightarrow> length pad \<le> max_header_bytes limits" for pad :: rstr
      by auto
    show ?thesis unfolding padding_ok_iff headers body pad by blast
  qed
  then show ?thesis by (subst after_boundary.simps) blast
qed

subsection \<open>Each phase\<close>

definition at_suffix :: "rstr \<Rightarrow> guard_limits \<Rightarrow> boundary_suffix_phase \<Rightarrow> scanner \<Rightarrow> bool" where
  "at_suffix boundary limits ph sc \<longleftrightarrow> equipped boundary limits sc \<and> sc_phase sc = BoundarySuffix \<and> sc_suffix_phase sc = ph"

definition decides_below :: "rstr \<Rightarrow> guard_limits \<Rightarrow> nat \<Rightarrow> bool" where
  "decides_below boundary limits n \<longleftrightarrow> (\<forall>s sc. length s < n \<longrightarrow> at_suffix boundary limits First sc
     \<longrightarrow> verdict sc s = Some (after_boundary boundary limits s))"

lemma verdict_Body:
  assumes "decides_below boundary limits n"
  shows "length s \<le> n \<Longrightarrow> sc_phase sc = Body \<Longrightarrow> equipped boundary limits sc
    \<Longrightarrow> reads (boundary_line boundary) (body_boundary sc) t \<Longrightarrow> verdict sc s = Some (body_ok boundary limits t s)"
proof (induction s arbitrary: sc t)
  case Nil
  then show ?case by (simp add: verdict_Nil body_ok_def)
next
  case (Cons c s)
  let ?hit = "suffix (boundary_line boundary) (t @ [c])"
  obtain M where M: "feed (body_boundary sc) c = Some (?hit, M)" "reads (boundary_line boundary) M (t @ [c])"
    using reads_feed[OF Cons.prems(4)] by blast
  let ?sc = "sc\<lparr>body_boundary := M\<rparr>"
  have eq: "equipped boundary limits ?sc" "equipped boundary limits (start_boundary_suffix ?sc)"
    using Cons.prems(3) M(2) by (auto simp: equipped_def start_boundary_suffix_def)
  have "verdict (start_boundary_suffix ?sc) s = Some (after_boundary boundary limits s)"
    using assms Cons.prems(1) eq(2) by (simp add: decides_below_def at_suffix_def start_boundary_suffix_def)
  moreover have "verdict ?sc s = Some (body_ok boundary limits (t @ [c]) s)"
    using Cons.prems eq(1) M(2) by (intro Cons.IH) simp_all
  ultimately show ?case
    using Cons.prems(2) M(1) by (simp add: verdict_Cons scan_byte_def scan_body_def body_ok_def Let_def del: suffix_snoc)
qed

lemma headers_too_long:
  "max_header_bytes limits + 4 < length t \<Longrightarrow> \<not> headers_ok boundary limits t s"
  unfolding headers_ok_def by (rule search_bounded[where bound = "max_header_bytes limits + 4"]) auto

lemma verdict_Headers:
  assumes "decides_below boundary limits n" "limits_fit boundary limits"
  shows "length s \<le> n \<Longrightarrow> sc_phase sc = Headers \<Longrightarrow> equipped boundary limits sc
    \<Longrightarrow> reads HEADER_END (header_end sc) t \<Longrightarrow> header_seen sc = length t \<Longrightarrow> length t \<le> max_header_bytes limits + 4
    \<Longrightarrow> verdict sc s = Some (headers_ok boundary limits t s)"
proof (induction s arbitrary: sc t)
  case Nil
  then show ?case by (simp add: verdict_Nil headers_ok_def)
next
  case (Cons c s)
  let ?hit = "suffix HEADER_END (t @ [c])" let ?max = "max_header_bytes limits"
  obtain M where M: "feed (header_end sc) c = Some (?hit, M)" "reads HEADER_END M (t @ [c])"
    using reads_feed[OF Cons.prems(4)] by blast
  let ?sc = "sc\<lparr>header_seen := Suc (length t), header_end := M\<rparr>"
  let ?body = "?sc\<lparr>sc_phase := Body, body_boundary := reset (body_boundary sc)\<rparr>"
  have seen: "saturating_add (header_seen sc) 1 = Suc (length t)"
    using Cons.prems(5,6) assms(2) by (simp add: saturating_add_exact limits_fit_def)
  have max: "saturating_add ?max 4 = ?max + 4" "saturating_sub (Suc (length t)) 4 = Suc (length t) - 4"
    using assms(2) by (simp_all add: saturating_add_exact limits_fit_def saturating_sub_def)
  have lim: "sc_limits sc = limits" using Cons.prems(3) by (simp add: equipped_def)
  obtain u where u: "reads (boundary_line boundary) (reset (body_boundary sc)) []"
    using Cons.prems(3) reads_reset by (auto simp: equipped_def)
  have eq: "equipped boundary limits ?sc" "equipped boundary limits ?body"
    using Cons.prems(3) M(2) u by (auto simp: equipped_def)
  have body: "verdict ?body s = Some (body_ok boundary limits [] s)"
    using Cons.prems(1) eq(2) u by (intro verdict_Body[OF assms(1)]) simp_all
  have more: "verdict ?sc s = Some (headers_ok boundary limits (t @ [c]) s)" if "Suc (length t) \<le> ?max + 4"
    using Cons.prems eq(1) M(2) that by (intro Cons.IH) simp_all
  have ok: "headers_ok boundary limits t (c # s) \<longleftrightarrow> (if ?hit then Suc (length t) - 4 \<le> ?max \<and> body_ok boundary limits [] s
      else headers_ok boundary limits (t @ [c]) s)"
    by (simp add: headers_ok_def del: suffix_snoc)
  have step: "scan_byte sc c = Some (if ?hit then (if ?max < Suc (length t) - 4 then Inl HeaderTooLarge else Inr ?body)
      else if ?max + 4 < Suc (length t) then Inl HeaderTooLarge else Inr ?sc)"
    using Cons.prems(2) M(1) reads_len[OF M(2)] by (simp add: scan_byte_def scan_header_def seen max lim Let_def del: suffix_snoc One_nat_def)
  show ?case
    unfolding verdict_Cons step ok using body more headers_too_long[of limits "t @ [c]" boundary s] by auto
qed

lemma verdict_LineFeed:
  assumes "decides_below boundary limits n" "limits_fit boundary limits" "length s \<le> n" "at_suffix boundary limits LineFeed sc"
  shows "verdict sc s = Some (line_end_ok boundary limits s)"
proof (cases s)
  case Nil
  then show ?thesis using assms(4) by (simp add: verdict_Nil at_suffix_def)
next
  case (Cons c r)
  have reset: "reads HEADER_END (reset (header_end sc)) []"
    using assms(4) reads_reset by (auto simp: at_suffix_def equipped_def)
  have "verdict (start_headers sc) r = Some (headers_ok boundary limits [] r)"
    using assms reset Cons by (intro verdict_Headers[OF assms(1,2)]) (auto simp: start_headers_def equipped_def at_suffix_def)
  then show ?thesis
    using Cons assms(4) by (simp add: verdict_Cons scan_byte_def scan_boundary_suffix_def at_suffix_def)
qed

lemma verdict_Padding:
  assumes "decides_below boundary limits n" "limits_fit boundary limits"
  shows "length s \<le> n \<Longrightarrow> at_suffix boundary limits Padding sc \<Longrightarrow> boundary_padding_seen sc \<le> max_header_bytes limits
    \<Longrightarrow> verdict sc s = Some (padding_ok boundary limits (boundary_padding_seen sc) s)"
proof (induction s arbitrary: sc)
  case Nil
  then show ?case by (simp add: verdict_Nil at_suffix_def)
next
  case (Cons c s)
  let ?n = "boundary_padding_seen sc"
  have seen: "saturating_add ?n 1 = Suc ?n" using Cons.prems(3) assms(2) by (simp add: saturating_add_exact limits_fit_def)
  have ph: "sc_phase sc = BoundarySuffix" "sc_suffix_phase sc = Padding" "sc_limits sc = limits"
    using Cons.prems(2) by (simp_all add: at_suffix_def equipped_def)
  have lf: "verdict (sc\<lparr>sc_suffix_phase := LineFeed\<rparr>) s = Some (line_end_ok boundary limits s)"
    using Cons.prems by (intro verdict_LineFeed[OF assms]) (auto simp: at_suffix_def equipped_def)
  have pad: "verdict (sc\<lparr>boundary_padding_seen := Suc ?n\<rparr>) s = Some (padding_ok boundary limits (Suc ?n) s)"
    if "Suc ?n \<le> max_header_bytes limits"
    using Cons.prems that Cons.IH[of "sc\<lparr>boundary_padding_seen := Suc ?n\<rparr>"] by (auto simp: at_suffix_def equipped_def)
  show ?case
    using lf pad by (auto simp: verdict_Cons scan_byte_def scan_boundary_suffix_def seen ph Let_def simp del: One_nat_def)
qed

lemma verdict_First:
  assumes "limits_fit boundary limits"
  shows "at_suffix boundary limits First sc \<Longrightarrow> verdict sc s = Some (after_boundary boundary limits s)"
proof (induction "length s" arbitrary: s sc rule: less_induct)
  case less
  have below: "decides_below boundary limits (length s)" using less.hyps by (simp add: decides_below_def)
  have ph: "sc_phase sc = BoundarySuffix" "sc_suffix_phase sc = First" "sc_limits sc = limits"
    using less.prems by (simp_all add: at_suffix_def equipped_def)
  show ?case
  proof (cases s)
    case Nil
    then show ?thesis using ph by (simp add: verdict_Nil after_boundary_iff)
  next
    case (Cons c r)
    have lf: "verdict (sc\<lparr>sc_suffix_phase := LineFeed\<rparr>) r = Some (line_end_ok boundary limits r)"
      using less.prems Cons by (intro verdict_LineFeed[OF below assms]) (auto simp: at_suffix_def equipped_def)
    have pad: "verdict (sc\<lparr>boundary_padding_seen := 1, sc_suffix_phase := Padding\<rparr>) r = Some (padding_ok boundary limits 1 r)"
      if "1 \<le> max_header_bytes limits"
      using less.prems that Cons verdict_Padding[OF below assms, of r "sc\<lparr>boundary_padding_seen := 1, sc_suffix_phase := Padding\<rparr>"]
      by (auto simp: at_suffix_def equipped_def)
    have close: "verdict (sc\<lparr>sc_suffix_phase := ClosingHyphen\<rparr>) r = Some (\<exists>epilogue. r = 45 # epilogue)"
      by (cases r) (auto simp: verdict_Nil verdict_Cons scan_byte_def scan_boundary_suffix_def ph verdict_Epilogue)
    show ?thesis
      using lf pad close Cons
      by (auto simp: verdict_Cons scan_byte_def scan_boundary_suffix_def ph Let_def after_boundary_iff)
  qed
qed

subsection \<open>The preamble\<close>

definition opened :: "rstr \<Rightarrow> rstr \<Rightarrow> bool" where
  "opened boundary u \<longleftrightarrow> u = opening_line boundary \<or> suffix (boundary_line boundary) u"

definition preamble_ok :: "rstr \<Rightarrow> guard_limits \<Rightarrow> rstr \<Rightarrow> rstr \<Rightarrow> bool" where
  "preamble_ok boundary limits = search (opened boundary)
     (\<lambda>u rest. (u \<noteq> opening_line boundary \<longrightarrow> length u - (length boundary + 4) \<le> max_preamble_bytes limits)
        \<and> after_boundary boundary limits rest)"

definition at_preamble :: "rstr \<Rightarrow> guard_limits \<Rightarrow> rstr \<Rightarrow> scanner \<Rightarrow> bool" where
  "at_preamble boundary limits t sc \<longleftrightarrow> equipped boundary limits sc \<and> sc_phase sc = Preamble
     \<and> preamble_seen sc = length t \<and> length t \<le> max_preamble_bytes limits + length boundary + 4
     \<and> reads (boundary_line boundary) (preamble_boundary sc) t \<and> pattern (initial_boundary sc) = opening_line boundary
     \<and> (length t < length boundary + 2 \<longrightarrow> matches_end (initial_boundary sc) t)"

lemma preamble_too_long:
  "max_preamble_bytes limits + length boundary + 4 < length t \<Longrightarrow> \<not> preamble_ok boundary limits t s"
  unfolding preamble_ok_def
  by (rule search_bounded[where bound = "max_preamble_bytes limits + length boundary + 4"]) auto

text \<open>The matcher of a boundary at the very start is fed the first bytes only.\<close>

lemma initial_feed:
  assumes "at_preamble boundary limits t sc"
  shows "\<exists>M. (if Suc (length t) \<le> length boundary + 2 then feed (initial_boundary sc) c else Some (False, initial_boundary sc))
      = Some (t @ [c] = opening_line boundary, M) \<and> pattern M = opening_line boundary
      \<and> (Suc (length t) < length boundary + 2 \<longrightarrow> matches_end M (t @ [c]))"
proof (cases "Suc (length t) \<le> length boundary + 2")
  case True
  have "reads (opening_line boundary) (initial_boundary sc) t"
    using assms True by (simp add: at_preamble_def reads_def)
  then obtain M where M: "feed (initial_boundary sc) c = Some (suffix (opening_line boundary) (t @ [c]), M)"
      "reads (opening_line boundary) M (t @ [c])"
    using reads_feed by blast
  have "suffix (opening_line boundary) (t @ [c]) \<longleftrightarrow> t @ [c] = opening_line boundary"
  proof
    assume a: "suffix (opening_line boundary) (t @ [c])"
    then obtain zs where zs: "t @ [c] = zs @ opening_line boundary" by (auto simp: suffix_def)
    then have "length (t @ [c]) = length (zs @ opening_line boundary)" by simp
    then have "zs = []" using True by simp
    then show "t @ [c] = opening_line boundary" using zs by simp
  qed auto
  then show ?thesis using M True by (auto simp: reads_def)
next
  case False
  then have "length (t @ [c]) \<noteq> length (opening_line boundary)" by simp
  then have "t @ [c] \<noteq> opening_line boundary" by metis
  then show ?thesis using False assms by (simp add: at_preamble_def)
qed

lemma verdict_Preamble:
  assumes "limits_fit boundary limits"
  shows "at_preamble boundary limits t sc \<Longrightarrow> verdict sc s = Some (preamble_ok boundary limits t s)"
proof (induction s arbitrary: sc t)
  case Nil
  then show ?case by (simp add: verdict_Nil preamble_ok_def at_preamble_def)
next
  case (Cons c s)
  let ?op = "t @ [c] = opening_line boundary" let ?line = "suffix (boundary_line boundary) (t @ [c])"
  let ?max = "max_preamble_bytes limits" let ?seen = "Suc (length t)"
  have pre: "equipped boundary limits sc" "sc_phase sc = Preamble" "preamble_seen sc = length t" "sc_limits sc = limits"
      "length t \<le> ?max + length boundary + 4" "reads (boundary_line boundary) (preamble_boundary sc) t"
      "pattern_len (initial_boundary sc) = length boundary + 2"
    using Cons.prems by (auto simp: at_preamble_def equipped_def pattern_len_def)
  obtain I where I: "(if ?seen \<le> length boundary + 2 then feed (initial_boundary sc) c else Some (False, initial_boundary sc))
      = Some (?op, I)" "pattern I = opening_line boundary" "?seen < length boundary + 2 \<longrightarrow> matches_end I (t @ [c])"
    using initial_feed[OF Cons.prems] by blast
  obtain M where M: "feed (preamble_boundary sc) c = Some (?line, M)" "reads (boundary_line boundary) M (t @ [c])"
    using reads_feed[OF pre(6)] by blast
  let ?sc = "sc\<lparr>preamble_seen := ?seen, initial_boundary := I, preamble_boundary := M\<rparr>"
  have num: "saturating_add (length t) 1 = ?seen" "saturating_add ?max (length boundary + 4) = ?max + (length boundary + 4)"
      "saturating_sub ?seen k = ?seen - k" for k
    using pre(3,5) assms by (simp_all add: saturating_add_exact limits_fit_def saturating_sub_def)
  have lens: "pattern_len I = length boundary + 2" "pattern_len M = length boundary + 4"
    using I(2) reads_len[OF M(2)] by (simp_all add: pattern_len_def)
  have step: "scan_byte sc c = Some (if ?op \<or> ?line then
        (if \<not> ?op \<and> ?max < ?seen - (length boundary + 4) then Inl PreambleTooLarge else Inr (start_boundary_suffix ?sc))
      else if ?max + (length boundary + 4) < ?seen then Inl PreambleTooLarge else Inr ?sc)"
  proof -
    define op ln where "op \<longleftrightarrow> ?op" and "ln \<longleftrightarrow> ?line"
    have I': "(if ?seen \<le> length boundary + 2 then feed (initial_boundary sc) c else Some (False, initial_boundary sc)) = Some (op, I)"
      using I(1) by (simp add: op_def)
    have M': "feed (preamble_boundary sc) c = Some (ln, M)" using M(1) by (simp add: ln_def)
    note phases = scan_byte_def scan_preamble_def Let_def num pre(2,3,4,7) M' lens
    show ?thesis
      unfolding op_def[symmetric] ln_def[symmetric]
    proof (cases "?seen \<le> length boundary + 2")
      case True
      then have "feed (initial_boundary sc) c = Some (op, I)" using I' by simp
      then show "scan_byte sc c = Some (if op \<or> ln then
            (if \<not> op \<and> ?max < ?seen - (length boundary + 4) then Inl PreambleTooLarge else Inr (start_boundary_suffix ?sc))
          else if ?max + (length boundary + 4) < ?seen then Inl PreambleTooLarge else Inr ?sc)"
        using True by (cases op; cases ln) (simp_all add: phases del: One_nat_def)
    next
      case False
      then have "\<not> op" "I = initial_boundary sc" using I' by auto
      then show "scan_byte sc c = Some (if op \<or> ln then
            (if \<not> op \<and> ?max < ?seen - (length boundary + 4) then Inl PreambleTooLarge else Inr (start_boundary_suffix ?sc))
          else if ?max + (length boundary + 4) < ?seen then Inl PreambleTooLarge else Inr ?sc)"
        using False by (cases ln) (simp_all add: phases del: One_nat_def)
    qed
  qed
  have eq: "equipped boundary limits ?sc" "equipped boundary limits (start_boundary_suffix ?sc)"
    using pre(1) by (auto simp: equipped_def start_boundary_suffix_def)
  have hit: "verdict (start_boundary_suffix ?sc) s = Some (after_boundary boundary limits s)"
    using eq(2) by (intro verdict_First[OF assms]) (simp add: at_suffix_def start_boundary_suffix_def)
  have more: "verdict ?sc s = Some (preamble_ok boundary limits (t @ [c]) s)" if "?seen \<le> ?max + (length boundary + 4)"
    using that eq(1) pre(2) I(2,3) M(2) by (intro Cons.IH) (simp add: at_preamble_def)
  have ok: "preamble_ok boundary limits t (c # s) \<longleftrightarrow> (if ?op \<or> ?line then
      (\<not> ?op \<longrightarrow> ?seen - (length boundary + 4) \<le> ?max) \<and> after_boundary boundary limits s
      else preamble_ok boundary limits (t @ [c]) s)"
    by (simp add: preamble_ok_def opened_def del: suffix_snoc)
  show ?case
    unfolding verdict_Cons step ok using hit more preamble_too_long[of limits boundary "t @ [c]" s]
    by (auto simp del: suffix_snoc)
qed

lemma first_opened:
  "(\<forall>k. 0 < k \<and> k < length y \<longrightarrow> \<not> opened boundary (take k y))
     \<longleftrightarrow> (\<forall>k < length y. \<not> suffix (boundary_line boundary) (take k y))
       \<and> (length boundary + 2 < length y \<longrightarrow> \<not> prefix (opening_line boundary) y)"
proof -
  have "\<not> suffix (boundary_line boundary) (take 0 y)" by simp
  moreover have "(\<exists>k < length y. take k y = opening_line boundary)
      \<longleftrightarrow> length boundary + 2 < length y \<and> prefix (opening_line boundary) y" (is "?l \<longleftrightarrow> ?r")
  proof
    assume ?l
    then obtain k where k: "k < length y" "take k y = opening_line boundary" by blast
    then have "length (take k y) = length boundary + 2" by simp
    then show ?r using k by (metis length_take min.absorb4 take_is_prefix)
  next
    assume ?r
    then show ?l by (metis append_eq_conv_conj delimiters_nonempty(6) prefix_def)
  qed
  moreover have "take 0 y \<noteq> opening_line boundary" by (simp add: opening_line_def)
  ultimately show ?thesis unfolding opened_def by (metis gr0I)
qed

lemma preamble_ok_iff: "preamble_ok boundary limits [] s \<longleftrightarrow> multipart_body boundary limits s"
proof
  assume "preamble_ok boundary limits [] s"
  then obtain y rest where y: "s = y @ rest" "opened boundary y" "\<forall>k. 0 < k \<and> k < length y \<longrightarrow> \<not> opened boundary (take k y)"
      "y \<noteq> opening_line boundary \<longrightarrow> length y - (length boundary + 4) \<le> max_preamble_bytes limits"
      "after_boundary boundary limits rest"
    unfolding preamble_ok_def search_iff by auto
  show "multipart_body boundary limits s"
  proof (cases "y = opening_line boundary")
    case True
    then show ?thesis using y by (auto simp: multipart_body_def)
  next
    case False
    then obtain pre where pre: "y = pre @ boundary_line boundary" using y(2) by (auto simp: opened_def suffix_def)
    then have len: "length boundary + 2 < length y" "length y - (length boundary + 4) = length pre" by simp_all
    then have "\<not> prefix (opening_line boundary) y" using y(3) first_opened by blast
    then have "\<not> prefix (opening_line boundary) s"
      using len(1) y(1) by (metis delimiters_nonempty(6) less_imp_le prefix_length_prefix prefixI)
    moreover have "first_end (boundary_line boundary) pre" using y(3) pre first_opened unfolding first_end_def by blast
    ultimately show ?thesis using y(1,4,5) False pre len(2) by (auto simp: multipart_body_def)
  qed
next
  assume "multipart_body boundary limits s"
  then consider (start) rest where "s = opening_line boundary @ rest" "after_boundary boundary limits rest"
    | (later) pre rest where "s = (pre @ boundary_line boundary) @ rest" "first_end (boundary_line boundary) pre"
        "\<not> prefix (opening_line boundary) s" "length pre \<le> max_preamble_bytes limits" "after_boundary boundary limits rest"
    unfolding multipart_body_def by auto
  then show "preamble_ok boundary limits [] s"
  proof cases
    case start
    have "\<not> suffix (boundary_line boundary) (take k (opening_line boundary))" for k
      using suffix_length_le[of "boundary_line boundary" "take k (opening_line boundary)"] by auto
    then have "\<forall>k. 0 < k \<and> k < length (opening_line boundary) \<longrightarrow> \<not> opened boundary (take k (opening_line boundary))"
      unfolding first_opened by simp
    then show ?thesis using start unfolding preamble_ok_def search_iff append_Nil
      by (intro exI[of _ "opening_line boundary"] exI[of _ rest]) (simp add: opened_def)
  next
    case later
    let ?y = "pre @ boundary_line boundary"
    have "\<not> prefix (opening_line boundary) ?y" using later(1,3) by (metis append.assoc prefix_def)
    then have "\<forall>k. 0 < k \<and> k < length ?y \<longrightarrow> \<not> opened boundary (take k ?y)"
      unfolding first_opened using later(2) by (simp add: first_end_def)
    moreover have "?y \<noteq> []" "opened boundary ?y" by (simp_all add: opened_def suffix_def)
    moreover have "length ?y - (length boundary + 4) \<le> max_preamble_bytes limits" using later(4) by simp
    ultimately show ?thesis using later(1,5) unfolding preamble_ok_def search_iff append_Nil by blast
  qed
qed

section \<open>The guarded request\<close>

lemma new_scanner_correct:
  "\<exists>sc. new_scanner boundary limits = Some sc \<and> at_preamble boundary limits [] sc \<and> line_pattern boundary sc"
proof -
  obtain I L E where "new_matcher (opening_line boundary) = Some I" "pattern I = opening_line boundary" "matches_end I []"
      "new_matcher (boundary_line boundary) = Some L" "reads (boundary_line boundary) L []"
      "new_matcher HEADER_END = Some E" "reads HEADER_END E []"
    using new_matcher_correct[of "opening_line boundary"] new_matcher_correct[of "boundary_line boundary"]
      new_matcher_correct[of HEADER_END] by (auto simp: reads_def)
  then show ?thesis
    by (auto simp: new_scanner_def at_preamble_def equipped_def line_pattern_def reads_def)
qed

lemma guard_stream_chunks:
  assumes "verdict sc (concat chunks) = Some v" "line_pattern boundary sc"
  shows "\<exists>out r. guard_stream sc (map Chunk chunks) = Some (out, r) \<and> prefix out chunks \<and> (r = Inr () \<longleftrightarrow> v)
    \<and> (r = Inr () \<longrightarrow> out = chunks)"
  using assms
proof (induction chunks arbitrary: sc)
  case Nil
  then show ?case by (auto simp: verdict_def split: sum.split)
next
  case (Cons bytes chunks)
  note scan = scan_eq_scan_all[OF Cons.prems(2), of bytes]
  show ?case
  proof (cases "scan_all sc bytes")
    case None
    then show ?thesis using Cons.prems(1) by (simp add: verdict_def scan_all_append)
  next
    case (Some res)
    show ?thesis
    proof (cases res)
      case (Inl e)
      then show ?thesis using Cons.prems(1) Some scan by (auto simp: verdict_def scan_all_append)
    next
      case (Inr sc')
      have "verdict sc' (concat chunks) = Some v"
        using Cons.prems(1) Some Inr by (simp add: verdict_def scan_all_append)
      then show ?thesis
        using Cons.IH[of sc'] scan_all_line_pattern[of sc bytes sc' boundary] Cons.prems(2) Some Inr scan by auto
    qed
  qed
qed

text \<open>C8: the multipart guard accepts exactly the well-formed bodies, however they are cut into
  chunks. For a request whose \<open>Content-Type\<close> gives a boundary, and limits below the range of the
  counters, the scanner ends on every body; the outcome depends only on the concatenated bytes; it
  succeeds iff they are an opening boundary (after at most the allowed preamble), then parts whose
  padding and header blocks keep within their limit, and a closing boundary; the chunks handed on are
  the first chunks received, unchanged, and all of them when the body is accepted.\<close>

theorem multipart_guard_exact:
  assumes "parse_boundary content_type = Inr boundary" "limits_fit boundary limits"
  shows "\<exists>out r. guard_multipart_request_with_limits (Some (Some content_type)) limits (map Chunk chunks) = Some (Inr (out, r))
    \<and> prefix out chunks
    \<and> (r = Inr () \<longleftrightarrow> multipart_body boundary limits (concat chunks))
    \<and> (r = Inr () \<longrightarrow> out = chunks)"
proof -
  obtain sc where sc: "new_scanner boundary limits = Some sc" "at_preamble boundary limits [] sc" "line_pattern boundary sc"
    using new_scanner_correct by blast
  have "verdict sc (concat chunks) = Some (multipart_body boundary limits (concat chunks))"
    using verdict_Preamble[OF assms(2) sc(2)] by (simp add: preamble_ok_iff)
  from guard_stream_chunks[OF this sc(3)] show ?thesis
    using assms(1) sc(1) by (auto simp: guard_multipart_request_with_limits_def boundary_from_headers_def)
qed

theorem multipart_guard_exact_witness:
  "guard_multipart_request_with_limits (Some (Some (lit ''multipart/form-data; boundary=b''))) default_limits
     (map Chunk [[45], [45, 98, 45, 45]]) = Some (Inr ([[45], [45, 98, 45, 45]], Inr ()))"
proof -
  have b: "parse_boundary (lit ''multipart/form-data; boundary=b'') = Inr [98]" by code_simp
  have fit: "limits_fit [98] default_limits"
    by (simp add: limits_fit_def default_limits_def DEFAULT_MAX_PREAMBLE_BYTES_def DEFAULT_MAX_HEADER_BYTES_def u64_max_def)
  have "multipart_body [98] default_limits (concat [[45], [45, 98, 45, 45]])"
    using after_boundary.close[of "[98]" default_limits "[]"] by (auto simp: multipart_body_def opening_line_def)
  then show ?thesis using multipart_guard_exact[OF b fit, of "[[45], [45, 98, 45, 45]]"] by auto
qed

end
