(* ===== verification/Path_Security.thy ===== *)
theory Path_Security
  imports VL_Prelude
begin

text \<open>
  Paths and names that clients may use (\<open>src/src/path_security.rs\<close>, \<open>src/src/storage_contract.rs\<close>)
  and HTTP byte ranges (\<open>src/src/range.rs\<close>). \<open>std::path\<close> on Unix is modelled as far as the source
  uses it: the iterator \<open>components\<close>, \<open>push\<close> and \<open>extension\<close>. A path is the string it is made of.
\<close>

section \<open>Paths of the standard library\<close>

datatype path_component = RootDir | CurDir | ParentDir | Normal rstr

definition path_names :: "rstr \<Rightarrow> rstr list" where
  "path_names raw = filter (\<lambda>p. p \<noteq> [] \<and> p \<noteq> [46]) (split_on 47 raw)"

definition to_component :: "rstr \<Rightarrow> path_component" where
  "to_component p = (if p = [46, 46] then ParentDir else Normal p)"

definition path_components :: "rstr \<Rightarrow> path_component list" where
  "path_components raw =
     (if starts_with [47] raw then [RootDir] else if hd (split_on 47 raw) = [46] then [CurDir] else [])
     @ map to_component (path_names raw)"

definition is_absolute :: "rstr \<Rightarrow> bool" where
  "is_absolute raw = starts_with [47] raw"

definition path_push :: "rstr \<Rightarrow> rstr \<Rightarrow> rstr" where
  "path_push buf v =
     (if is_absolute v then v
      else if buf = [] \<or> ends_with [47] buf then buf @ v
      else buf @ [47] @ v)"

definition path_file_name :: "rstr \<Rightarrow> rstr option" where
  "path_file_name raw =
     (if path_components raw = [] then None
      else case last (path_components raw) of Normal n \<Rightarrow> Some n | _ \<Rightarrow> None)"

definition rsplit_at_dot :: "rstr \<Rightarrow> rstr option \<times> rstr option" where
  "rsplit_at_dot file =
     (if file = [46, 46] then (Some file, None)
      else let after = rev (takeWhile (\<lambda>c. c \<noteq> 46) (rev file));
               before = (if 46 \<in> set file then Some (rev (drop 1 (dropWhile (\<lambda>c. c \<noteq> 46) (rev file)))) else None) in
        if before = Some [] then (Some file, None) else (before, Some after))"

definition path_extension :: "rstr \<Rightarrow> rstr option" where
  "path_extension raw =
     (case path_file_name raw of
        None \<Rightarrow> None
      | Some n \<Rightarrow> (case rsplit_at_dot n of (None, _) \<Rightarrow> None | (Some _, after) \<Rightarrow> after))"

section \<open>Names\<close>

definition INTERNAL_STORAGE_DIRECTORY_NAME :: rstr where
  "INTERNAL_STORAGE_DIRECTORY_NAME = lit ''.vaultlink-internal''"

definition SHARE_ALIAS_MIN_LENGTH :: nat where
  "SHARE_ALIAS_MIN_LENGTH = 12"

definition SHARE_ALIAS_MAX_LENGTH :: nat where
  "SHARE_ALIAS_MAX_LENGTH = 32"

definition is_internal_storage_name :: "rstr \<Rightarrow> bool" where
  "is_internal_storage_name name =
     eq_ignore_ascii_case (trim_end_matches (\<lambda>c. c = 46 \<or> c = 32) name) INTERNAL_STORAGE_DIRECTORY_NAME"

datatype path_error = Invalid

text \<open>The loop of \<open>validate_relative\<close> over the components, with the path built so far.\<close>

fun clean_components :: "path_component list \<Rightarrow> rstr \<Rightarrow> path_error + rstr" where
  "clean_components [] clean = Inr clean"
| "clean_components (Normal v # cs) clean =
     (if v \<noteq> [] \<and> \<not> is_internal_storage_name v then clean_components cs (path_push clean v) else Inl Invalid)"
| "clean_components (CurDir # cs) clean = clean_components cs clean"
| "clean_components (RootDir # cs) clean = Inl Invalid"
| "clean_components (ParentDir # cs) clean = Inl Invalid"

definition validate_relative :: "rstr \<Rightarrow> path_error + rstr" where
  "validate_relative raw =
     (if 0 \<in> set raw \<or> 92 \<in> set raw then Inl Invalid
      else if is_absolute raw then Inl Invalid
      else clean_components (path_components raw) [])"

definition to_ascii_uppercase :: "rstr \<Rightarrow> rstr" where
  "to_ascii_uppercase = map (\<lambda>c. if ascii_lower c then c - 32 else c)"

definition device_number :: "rstr \<Rightarrow> rstr \<Rightarrow> bool" where
  "device_number prefix stem \<longleftrightarrow> starts_with prefix stem
     \<and> drop (length prefix) stem \<in> set [[49], [50], [51], [52], [53], [54], [55], [56], [57]]"

definition windows_reserved :: "rstr \<Rightarrow> bool" where
  "windows_reserved name =
     (let stem = to_ascii_uppercase (hd (split_on 46 name)) in
      stem \<in> set [lit ''CON'', lit ''PRN'', lit ''AUX'', lit ''NUL'']
      \<or> device_number (lit ''COM'') stem \<or> device_number (lit ''LPT'') stem)"

definition safe_filename :: "rstr \<Rightarrow> path_error + rstr" where
  "safe_filename name =
     (if name = [] \<or> 255 < str_len name \<or> name = [46] \<or> name = [46, 46]
         \<or> last name = 46 \<or> last name = 32
         \<or> is_internal_storage_name name
         \<or> list_ex (\<lambda>c. c \<in> set [47, 92, 0, 58, 60, 62, 34, 124, 63, 42]) name
         \<or> list_ex is_control name
         \<or> windows_reserved name
         \<or> \<not> (case path_components name of Normal _ # _ \<Rightarrow> True | _ \<Rightarrow> False)
         \<or> length (path_components name) \<noteq> 1
      then Inl Invalid else Inr name)"

definition private_token_name :: "rstr \<Rightarrow> rstr \<Rightarrow> rstr \<Rightarrow> bool" where
  "private_token_name name prefix suffix \<longleftrightarrow>
     starts_with prefix name
     \<and> ends_with suffix (drop (length prefix) name)
     \<and> (let token = take (length name - length prefix - length suffix) (drop (length prefix) name) in
        str_len token = 24 \<and> list_all (\<lambda>c. ascii_alphanumeric c \<or> c = 45 \<or> c = 95) token)"

definition is_private_admin_filename :: "rstr \<Rightarrow> bool" where
  "is_private_admin_filename name \<longleftrightarrow>
     private_token_name name (lit ''.vaultlink-'') (lit ''.part'')
     \<or> private_token_name name (lit ''.vaultlink-delete-'') (lit ''.tombstone'')
     \<or> private_token_name name (lit ''.vaultlink-delete-pending-'') (lit ''.pending'')"

definition safe_admin_filename :: "rstr \<Rightarrow> path_error + rstr" where
  "safe_admin_filename name =
     (case safe_filename name of
        Inl e \<Rightarrow> Inl e
      | Inr n \<Rightarrow> if is_private_admin_filename n \<or> is_internal_storage_name n then Inl Invalid else Inr n)"

definition validate_share_alias :: "rstr \<Rightarrow> path_error + rstr" where
  "validate_share_alias alias =
     (if \<not> (SHARE_ALIAS_MIN_LENGTH \<le> str_len alias \<and> str_len alias \<le> SHARE_ALIAS_MAX_LENGTH)
         \<or> \<not> list_all (\<lambda>c. ascii_alphanumeric c \<or> c = 95 \<or> c = 45) alias
      then Inl Invalid else Inr alias)"

section \<open>Byte ranges\<close>

datatype range_error = RangeError

definition parse_byte_range :: "rstr \<Rightarrow> nat \<Rightarrow> range_error + nat \<times> nat" where
  "parse_byte_range value len =
     (if len = 0 \<or> \<not> starts_with (lit ''bytes='') value \<or> 44 \<in> set value then Inl RangeError
      else case split_once 45 (drop 6 value) of
        None \<Rightarrow> Inl RangeError
      | Some (first, final) \<Rightarrow>
          if first \<noteq> [] \<and> \<not> list_all ascii_digit first \<or> final \<noteq> [] \<and> \<not> list_all ascii_digit final
          then Inl RangeError
          else
            case (if first = [] then
                    (case parse_u64 final of
                       None \<Rightarrow> None
                     | Some suffix \<Rightarrow> if suffix = 0 then None else Some (saturating_sub len suffix, len - 1))
                  else
                    (case parse_u64 first of
                       None \<Rightarrow> None
                     | Some a \<Rightarrow>
                         (if final = [] then Some (a, len - 1)
                          else (case parse_u64 final of None \<Rightarrow> None | Some b \<Rightarrow> Some (a, min b (len - 1)))))) of
              None \<Rightarrow> Inl RangeError
            | Some (a, b) \<Rightarrow> if len \<le> a \<or> b < a then Inl RangeError else Inr (a, b))"

section \<open>Names of a path\<close>

definition path_of :: "rstr list \<Rightarrow> rstr" where
  "path_of ns = (case ns of [] \<Rightarrow> [] | n # rest \<Rightarrow> n @ concat (map (\<lambda>m. 47 # m) rest))"

definition plain_name :: "rstr \<Rightarrow> bool" where
  "plain_name n \<longleftrightarrow> n \<noteq> [] \<and> n \<noteq> [46] \<and> 47 \<notin> set n"

lemma path_names_plain: "n \<in> set (path_names raw) \<Longrightarrow> plain_name n"
  by (auto simp: path_names_def plain_name_def dest: split_on_no_sep)

lemma path_names_subset: "n \<in> set (path_names raw) \<Longrightarrow> set n \<subseteq> set raw"
  using split_on_subset by (auto simp: path_names_def)

lemma ends_with_slash [simp]: "ends_with [47] s \<longleftrightarrow> s \<noteq> [] \<and> last s = 47"
  by (cases s rule: rev_cases) (auto simp: ends_with_def)

lemma starts_with_single [simp]: "starts_with [c] s \<longleftrightarrow> s \<noteq> [] \<and> hd s = c"
  by (cases s) auto

lemma plain_name_push:
  assumes "plain_name n"
  shows "path_push buf n = (if buf = [] \<or> last buf = 47 then buf @ n else buf @ 47 # n)"
proof -
  have "hd n \<noteq> 47" using assms by (cases n) (auto simp: plain_name_def)
  then show ?thesis by (simp add: path_push_def is_absolute_def)
qed

lemma last_plain: "plain_name n \<Longrightarrow> n \<noteq> [] \<and> last n \<noteq> 47"
  by (metis last_in_set plain_name_def)

lemma foldl_push:
  "\<forall>n\<in>set ns. plain_name n \<Longrightarrow> buf \<noteq> [] \<Longrightarrow> last buf \<noteq> 47
     \<Longrightarrow> foldl path_push buf ns = buf @ concat (map (\<lambda>m. 47 # m) ns)"
proof (induction ns arbitrary: buf)
  case (Cons n ns)
  then show ?case using plain_name_push[of n buf] last_plain[of n] by simp
qed simp

lemma foldl_push_path_of: "\<forall>n\<in>set ns. plain_name n \<Longrightarrow> foldl path_push [] ns = path_of ns"
proof (cases ns)
  case (Cons n rest)
  assume "\<forall>n\<in>set ns. plain_name n"
  with Cons show ?thesis using foldl_push[of rest n] plain_name_push[of n "[]"] last_plain[of n] by (simp add: path_of_def)
qed (simp add: path_of_def)

lemma split_on_path_of:
  "\<forall>n\<in>set ns. plain_name n \<Longrightarrow> ns \<noteq> [] \<Longrightarrow> split_on 47 (path_of ns) = ns"
proof (cases ns)
  case (Cons n rest)
  assume plain: "\<forall>n\<in>set ns. plain_name n"
  have "split_on 47 (n @ concat (map (\<lambda>m. 47 # m) rest)) = n # rest" if "plain_name n" "\<forall>n\<in>set rest. plain_name n" for n rest
    using that
  proof (induction rest arbitrary: n)
    case (Cons m rest)
    then show ?case using split_on_append_sep[of 47 n "m @ concat (map (\<lambda>m. 47 # m) rest)"] by (simp add: plain_name_def)
  qed (simp add: split_on_free plain_name_def)
  with plain Cons show ?thesis by (simp add: path_of_def)
qed simp

lemma path_names_path_of: "\<forall>n\<in>set ns. plain_name n \<Longrightarrow> path_names (path_of ns) = ns"
proof (cases "ns = []")
  case False
  assume "\<forall>n\<in>set ns. plain_name n"
  then show ?thesis using split_on_path_of[OF _ False] by (auto simp: path_names_def plain_name_def filter_id_conv)
qed (simp add: path_of_def path_names_def)

lemma path_of_relative: "\<forall>n\<in>set ns. plain_name n \<Longrightarrow> \<not> is_absolute (path_of ns)"
proof (cases ns)
  case (Cons n rest)
  assume "\<forall>n\<in>set ns. plain_name n"
  then have "n \<noteq> []" "hd n \<noteq> 47" using Cons by (cases n; auto simp: plain_name_def)+
  then show ?thesis by (simp add: path_of_def is_absolute_def Cons)
qed (simp add: path_of_def is_absolute_def)

lemma hd_path_of: "\<forall>n\<in>set ns. plain_name n \<Longrightarrow> hd (split_on 47 (path_of ns)) \<noteq> [46]"
proof (cases "ns = []")
  case False
  assume "\<forall>n\<in>set ns. plain_name n"
  then show ?thesis using split_on_path_of[OF _ False] False by (cases ns) (auto simp: plain_name_def)
qed (simp add: path_of_def)

lemma path_components_path_of: "\<forall>n\<in>set ns. plain_name n \<Longrightarrow> path_components (path_of ns) = map to_component ns"
  using path_of_relative[of ns] hd_path_of[of ns] path_names_path_of[of ns]
  unfolding path_components_def is_absolute_def by auto

lemma set_path_of: "set (path_of ns) \<subseteq> {47} \<union> (\<Union>n\<in>set ns. set n)"
  by (cases ns) (auto simp: path_of_def)

section \<open>Validated paths\<close>

lemma clean_components_names:
  "\<forall>n\<in>set ns. plain_name n \<Longrightarrow> clean_components (map to_component ns) clean
     = (if \<exists>n\<in>set ns. n = [46, 46] \<or> is_internal_storage_name n then Inl Invalid else Inr (foldl path_push clean ns))"
  by (induction ns arbitrary: clean) (auto simp: to_component_def plain_name_def)

lemma validate_relative_eq:
  "validate_relative raw =
     (if 0 \<in> set raw \<or> 92 \<in> set raw \<or> is_absolute raw \<or> (\<exists>n\<in>set (path_names raw). n = [46, 46] \<or> is_internal_storage_name n)
      then Inl Invalid else Inr (path_of (path_names raw)))"
proof -
  have plain: "\<forall>n\<in>set (path_names raw). plain_name n" using path_names_plain by blast
  have "clean_components (path_components raw) [] = clean_components (map to_component (path_names raw)) []" if "\<not> is_absolute raw"
    using that by (auto simp: path_components_def is_absolute_def)
  then show ?thesis
    using clean_components_names[OF plain, of "[]"] foldl_push_path_of[OF plain] by (auto simp: validate_relative_def)
qed

lemma validate_relative_path_of:
  assumes "\<forall>n\<in>set ns. plain_name n \<and> n \<noteq> [46, 46] \<and> \<not> is_internal_storage_name n \<and> 0 \<notin> set n \<and> 92 \<notin> set n"
  shows "validate_relative (path_of ns) = Inr (path_of ns)"
proof -
  have plain: "\<forall>n\<in>set ns. plain_name n" using assms by blast
  have "0 \<notin> set (path_of ns)" "92 \<notin> set (path_of ns)" using assms set_path_of[of ns] by fastforce+
  then show ?thesis
    using assms by (auto simp: validate_relative_eq path_names_path_of[OF plain] path_of_relative[OF plain])
qed

lemma validate_relative_InrD:
  assumes "validate_relative raw = Inr p"
  shows "p = path_of (path_names raw)" "path_names p = path_names raw"
    "\<forall>n\<in>set (path_names raw). plain_name n \<and> n \<noteq> [46, 46] \<and> \<not> is_internal_storage_name n \<and> 0 \<notin> set n \<and> 92 \<notin> set n"
proof -
  show p: "p = path_of (path_names raw)" using assms by (simp add: validate_relative_eq split: if_splits)
  show "\<forall>n\<in>set (path_names raw). plain_name n \<and> n \<noteq> [46, 46] \<and> \<not> is_internal_storage_name n \<and> 0 \<notin> set n \<and> 92 \<notin> set n"
    using assms path_names_plain[of _ raw] path_names_subset[of _ raw]
    by (auto simp: validate_relative_eq subset_iff split: if_splits)
  show "path_names p = path_names raw" using path_names_path_of[of "path_names raw"] path_names_plain by (simp add: p)
qed

text \<open>Where a path leads from a directory, as a file system without symbolic links resolves it.\<close>

fun walk_path :: "rstr list \<Rightarrow> path_component list \<Rightarrow> rstr list" where
  "walk_path dir [] = dir"
| "walk_path dir (RootDir # cs) = walk_path [] cs"
| "walk_path dir (CurDir # cs) = walk_path dir cs"
| "walk_path dir (ParentDir # cs) = walk_path (butlast dir) cs"
| "walk_path dir (Normal n # cs) = walk_path (dir @ [n]) cs"

lemma walk_names: "\<forall>n\<in>set ns. n \<noteq> [46, 46] \<Longrightarrow> walk_path dir (map to_component ns) = dir @ ns"
  by (induction ns arbitrary: dir) (auto simp: to_component_def)

lemma set_components:
  "ParentDir \<in> set (path_components raw) \<longleftrightarrow> [46, 46] \<in> set (path_names raw)"
  "(\<exists>n. Normal n \<in> set (path_components raw) \<and> P n) \<longleftrightarrow> (\<exists>n\<in>set (path_names raw). n \<noteq> [46, 46] \<and> P n)"
  by (auto simp: path_components_def to_component_def image_iff split: if_splits)

lemma dot_dot_not_internal: "\<not> is_internal_storage_name [46, 46]"
  by code_simp

text \<open>C34: a validated path cannot leave the directory it is used in. A path is rejected exactly
  when it holds a NUL or a backslash, is absolute, has a component \<open>..\<close> or names the internal
  storage directory in any spelling an SMB server would treat alike. An accepted path leads,
  from whatever directory, to the place the raw path leads to, which is below that directory,
  passes through no internal directory, and is accepted again unchanged.\<close>

theorem relative_path_contained:
  "(validate_relative raw = Inl Invalid \<longleftrightarrow> 0 \<in> set raw \<or> 92 \<in> set raw \<or> is_absolute raw
      \<or> ParentDir \<in> set (path_components raw)
      \<or> (\<exists>n. Normal n \<in> set (path_components raw) \<and> is_internal_storage_name n))
   \<and> (\<forall>p. validate_relative raw = Inr p \<longrightarrow>
        walk_path root (path_components p) = root @ path_names p
        \<and> walk_path root (path_components raw) = root @ path_names p
        \<and> list_all (\<lambda>n. n \<noteq> [46, 46] \<and> \<not> is_internal_storage_name n) (path_names p)
        \<and> validate_relative p = Inr p)"
proof (intro conjI allI impI)
  show "validate_relative raw = Inl Invalid \<longleftrightarrow> 0 \<in> set raw \<or> 92 \<in> set raw \<or> is_absolute raw
      \<or> ParentDir \<in> set (path_components raw)
      \<or> (\<exists>n. Normal n \<in> set (path_components raw) \<and> is_internal_storage_name n)"
    unfolding set_components using dot_dot_not_internal by (auto simp: validate_relative_eq)
next
  fix p
  assume v: "validate_relative raw = Inr p"
  note p = validate_relative_InrD[OF v]
  have plain: "\<forall>n\<in>set (path_names raw). plain_name n" and up: "\<forall>n\<in>set (path_names raw). n \<noteq> [46, 46]"
    using p(3) by blast+
  have comps: "path_components p = map to_component (path_names raw)"
    using path_components_path_of[OF plain] p(1) by simp
  show "walk_path root (path_components p) = root @ path_names p" using walk_names[OF up] by (simp add: comps p(2))
  have rel: "\<not> is_absolute raw" using v by (auto simp: validate_relative_def split: if_splits)
  show "walk_path root (path_components raw) = root @ path_names p"
    using rel walk_names[OF up] by (auto simp: path_components_def is_absolute_def p(2))
  show "list_all (\<lambda>n. n \<noteq> [46, 46] \<and> \<not> is_internal_storage_name n) (path_names p)"
    using p(2,3) by (simp add: list_all_iff)
  show "validate_relative p = Inr p" unfolding p(1) by (rule validate_relative_path_of[OF p(3)])
qed

theorem relative_path_contained_witness:
  "validate_relative (lit ''./a//b.txt'') = Inr (lit ''a/b.txt'')
   \<and> walk_path [lit ''srv''] (path_components (lit ''a/b.txt'')) = [lit ''srv'', lit ''a'', lit ''b.txt'']
   \<and> validate_relative (lit ''a/../../b'') = Inl Invalid \<and> validate_relative (lit ''x/.VaultLink-Internal. '') = Inl Invalid"
proof (intro conjI)
  show v: "validate_relative (lit ''./a//b.txt'') = Inr (lit ''a/b.txt'')" by code_simp
  have "path_names (lit ''a/b.txt'') = [lit ''a'', lit ''b.txt'']" by code_simp
  then show "walk_path [lit ''srv''] (path_components (lit ''a/b.txt'')) = [lit ''srv'', lit ''a'', lit ''b.txt'']"
    using relative_path_contained[of "lit ''./a//b.txt''" "[lit ''srv'']"] v by simp
qed (code_simp, code_simp)

section \<open>Safe names\<close>

lemma safe_filename_InrD:
  assumes "safe_filename name = Inr n"
  shows "n = name" "plain_name n" "n \<noteq> [46, 46]" "\<not> is_internal_storage_name n" "0 \<notin> set n" "92 \<notin> set n"
  using assms by (auto simp: safe_filename_def plain_name_def list_ex_iff split: if_splits)

lemma safe_admin_filename_InrD:
  assumes "safe_admin_filename name = Inr n"
  shows "safe_filename name = Inr n" "\<not> is_private_admin_filename n"
  using assms by (auto simp: safe_admin_filename_def split: sum.splits if_splits)

lemma path_push_path_of:
  assumes "\<forall>n\<in>set ns. plain_name n" "plain_name n"
  shows "path_push (path_of ns) n = path_of (ns @ [n])"
  using foldl_push_path_of[of ns] foldl_push_path_of[of "ns @ [n]"] assms by simp

lemma file_in_directory:
  assumes "validate_relative raw = Inr dir" "safe_filename name = Inr n"
  shows "path_names (path_push dir n) = path_names dir @ [n]"
    "validate_relative (path_push dir n) = Inr (path_push dir n)"
proof -
  note d = validate_relative_InrD[OF assms(1)] and n = safe_filename_InrD[OF assms(2)]
  have push: "path_push dir n = path_of (path_names dir @ [n])"
    using path_push_path_of[of "path_names dir" n] d n(2) by simp
  show "path_names (path_push dir n) = path_names dir @ [n]"
    unfolding push by (rule path_names_path_of) (use d n(2) in auto)
  show "validate_relative (path_push dir n) = Inr (path_push dir n)"
    unfolding push by (rule validate_relative_path_of) (use d n in auto)
qed

section \<open>Ranges\<close>

text \<open>A byte range is served within the file. An accepted range header yields a first and
  a last position with \<open>first \<le> last < len\<close>; a well-formed header \<open>bytes=a-b\<close>, \<open>bytes=a-\<close> or
  \<open>bytes=-n\<close> yields exactly the bytes it asks for, cut off at the end of the file, and is
  rejected exactly when they are none.\<close>

theorem byte_range_served:
  assumes "a \<le> u64_max" "b \<le> u64_max" "n \<le> u64_max"
  shows "(\<forall>v x y. parse_byte_range v len = Inr (x, y) \<longrightarrow> x \<le> y \<and> y < len)
    \<and> parse_byte_range (lit ''bytes='' @ dec_nat a @ [45] @ dec_nat b) len
        = (if a < len \<and> a \<le> b then Inr (a, min b (len - 1)) else Inl RangeError)
    \<and> parse_byte_range (lit ''bytes='' @ dec_nat a @ [45]) len = (if a < len then Inr (a, len - 1) else Inl RangeError)
    \<and> parse_byte_range (lit ''bytes='' @ [45] @ dec_nat n) len
        = (if 0 < n \<and> 0 < len then Inr (len - n, len - 1) else Inl RangeError)"
proof -
  have digits: "list_all ascii_digit (dec_nat k)" "dec_nat k \<noteq> []" "44 \<notin> set (dec_nat k)" "45 \<notin> set (dec_nat k)" for k
    using dec_nat_digits[of k] by (auto simp: list_all_iff ascii_digit_def)
  have cut: "split_once 45 (dec_nat k @ 45 # rest) = Some (dec_nat k, rest)" for k rest
  proof -
    have "split_once 45 (xs @ 45 # rest) = Some (xs, rest)" if "45 \<notin> set xs" for xs
      using that by (induction xs) auto
    then show ?thesis using digits(4) by simp
  qed
  have pre: "lit ''bytes='' @ rest = 98 # 121 # 116 # 101 # 115 # 61 # rest" for rest by simp
  have "x \<le> y \<and> y < len" if "parse_byte_range v len = Inr (x, y)" for v x y
    using that by (auto simp: parse_byte_range_def saturating_sub_def split: if_splits option.splits prod.splits)
  moreover have "parse_byte_range (lit ''bytes='' @ dec_nat a @ [45] @ dec_nat b) len
        = (if a < len \<and> a \<le> b then Inr (a, min b (len - 1)) else Inl RangeError)"
    using cut[of a "dec_nat b"] digits[of a] digits[of b] assms
    by (auto simp: parse_byte_range_def parse_u64_dec_nat)
  moreover have "parse_byte_range (lit ''bytes='' @ dec_nat a @ [45]) len = (if a < len then Inr (a, len - 1) else Inl RangeError)"
    using cut[of a "[]"] digits[of a] assms by (auto simp: parse_byte_range_def parse_u64_dec_nat)
  moreover have "parse_byte_range (lit ''bytes='' @ [45] @ dec_nat n) len
        = (if 0 < n \<and> 0 < len then Inr (len - n, len - 1) else Inl RangeError)"
    using digits[of n] assms by (auto simp: parse_byte_range_def parse_u64_dec_nat saturating_sub_def)
  ultimately show ?thesis by blast
qed

theorem byte_range_served_witness:
  "parse_byte_range (lit ''bytes=2-99'') 10 = Inr (2, 9) \<and> parse_byte_range (lit ''bytes=10-'') 10 = Inl RangeError"
proof -
  have dec: "dec_nat 2 = lit ''2''" "dec_nat 99 = lit ''99''" "dec_nat 10 = lit ''10''" by (simp_all add: dec_nat.simps)
  have le: "(99 :: nat) \<le> u64_max" "(10 :: nat) \<le> u64_max" "(2 :: nat) \<le> u64_max" by (simp_all add: u64_max_def)
  have "parse_byte_range (lit ''bytes='' @ dec_nat 2 @ [45] @ dec_nat 99) 10
      = (if (2 :: nat) < 10 \<and> (2 :: nat) \<le> 99 then Inr (2, min 99 (10 - 1)) else Inl RangeError)"
    using byte_range_served[OF le(3) le(1) le(2), of 10] by (elim conjE)
  moreover have "parse_byte_range (lit ''bytes='' @ dec_nat 10 @ [45]) 10 = (if (10 :: nat) < 10 then Inr (10, 10 - 1) else Inl RangeError)"
    using byte_range_served[OF le(2) le(1) le(2), of 10] by (elim conjE)
  ultimately show ?thesis unfolding dec by simp
qed

end
