(* ===== verification/Configuration.thy ===== *)
theory Configuration
  imports Client_Address Path_Security
begin

text \<open>
  The configuration file after deserialisation (\<open>src/src/config/\<close> model.rs, defaults.rs,
  validation.rs, tls.rs): its parts with their defaults, and every rule of \<open>Config::validate\<close>.
  An error is the rule that fails. Parameters: \<open>parse_url\<close> is \<open>url::Url::parse\<close>, given as the
  parts of the URL the rules look at; \<open>tls_files\<close> and \<open>mtls_files\<close> are whether the certificate
  and key files can be read and used.
\<close>

section \<open>Model\<close>

record url =
  url_scheme :: rstr
  url_host :: "rstr option"
  url_query :: "rstr option"
  url_fragment :: "rstr option"
  url_username :: rstr
  url_password :: "rstr option"
  url_path :: rstr

datatype certificate_source = Files | LetsEncrypt

datatype proxy_transport = Unix rstr "nat list" | Mtls rstr "rstr list" "nat option"

record server =
  sv_mode :: server_mode
  sv_listen_address :: rstr
  sv_public_base_url :: rstr
  sv_production_mode :: bool

record storage =
  st_root_mount_path :: rstr
  st_data_directory :: rstr
  st_internal_directory :: "rstr option"
  st_require_mount :: bool
  st_external_writers :: bool
  st_allow_external_writer_replace :: bool
  st_expected_filesystem_type :: "rstr option"
  st_expected_mount_source :: "rstr option"
  st_max_upload_size :: nat
  st_max_zip_size :: nat
  st_max_zip_files :: nat
  st_max_search_entries :: nat
  st_max_search_results :: nat
  st_max_preview_size :: nat
  st_preview_extensions :: "rstr list"
  st_image_preview_extensions :: "rstr list"
  st_pdf_preview_enabled :: bool
  st_max_media_preview_size :: nat
  st_blocked_extensions :: "rstr list"

record reverse_proxy =
  rp_enabled :: bool
  rp_allow_non_loopback :: bool
  rp_trusted_proxies :: "ip_addr list"
  rp_trust_x_forwarded_headers :: bool
  rp_transport :: "proxy_transport option"

record tls =
  tls_enabled :: bool
  tls_certificate_source :: certificate_source
  tls_cert_file :: rstr
  tls_key_file :: rstr
  tls_hsts_enabled :: bool
  tls_reload_on_cert_change :: bool
  tls_letsencrypt_contact_email :: rstr
  tls_letsencrypt_cache_dir :: rstr
  tls_letsencrypt_staging :: bool

record security =
  sec_session_hours :: int
  sec_session_idle_minutes :: int
  sec_login_attempts :: nat
  sec_account_login_attempts :: nat
  sec_login_window_seconds :: nat
  sec_secure_cookie :: bool
  sec_share_password_min_length :: nat
  sec_share_password_max_length :: nat
  sec_share_unlock_minutes :: int
  sec_share_password_attempts :: nat
  sec_audit_client_ip_enabled :: bool

record admission =
  ad_max_public_uploads :: nat
  ad_max_uploads_per_share :: nat
  ad_upload_min_bytes_per_second :: nat
  ad_upload_max_duration_seconds :: nat
  ad_max_public_streams :: nat
  ad_max_streams_per_share :: nat
  ad_stream_min_bytes_per_second :: nat
  ad_stream_max_duration_seconds :: nat

record config =
  cfg_server :: server
  cfg_storage :: storage
  cfg_reverse_proxy :: reverse_proxy
  cfg_tls :: tls
  cfg_security :: security
  cfg_admission :: admission
  cfg_logging_level :: rstr

section \<open>Constants and defaults\<close>

definition MAX_MULTIPART_BODY_SIZE :: nat where
  "MAX_MULTIPART_BODY_SIZE = 128 * 1024 * 1024 * 1024"

definition MAX_UPLOAD_SIZE :: nat where
  "MAX_UPLOAD_SIZE = MAX_MULTIPART_BODY_SIZE - 1024 * 1024"

definition MAX_TEXT_PREVIEW_SIZE :: nat where
  "MAX_TEXT_PREVIEW_SIZE = 64000000"

definition MAX_SESSION_HOURS :: int where
  "MAX_SESSION_HOURS = 24 * 365"

definition MIN_SESSION_IDLE_MINUTES :: int where
  "MIN_SESSION_IDLE_MINUTES = 5"

definition MAX_AUTH_ATTEMPTS :: nat where
  "MAX_AUTH_ATTEMPTS = 100"

definition MAX_LOGIN_WINDOW_SECONDS :: nat where
  "MAX_LOGIN_WINDOW_SECONDS = 24 * 60 * 60"

definition MAX_SHARE_PASSWORD_LENGTH :: nat where
  "MAX_SHARE_PASSWORD_LENGTH = 1024"

definition MAX_SHARE_UNLOCK_MINUTES :: int where
  "MAX_SHARE_UNLOCK_MINUTES = 30 * 24 * 60"

definition MAX_PUBLIC_UPLOADS_CEILING :: nat where
  "MAX_PUBLIC_UPLOADS_CEILING = 28"

definition MAX_UPLOADS_PER_SHARE_CEILING :: nat where
  "MAX_UPLOADS_PER_SHARE_CEILING = 2"

definition UPLOAD_MIN_BYTES_PER_SECOND_FLOOR :: nat where
  "UPLOAD_MIN_BYTES_PER_SECOND_FLOOR = 65536"

definition UPLOAD_MAX_DURATION_SECONDS_CEILING :: nat where
  "UPLOAD_MAX_DURATION_SECONDS_CEILING = 21600"

definition MAX_PUBLIC_STREAMS_CEILING :: nat where
  "MAX_PUBLIC_STREAMS_CEILING = 96"

definition MAX_STREAMS_PER_SHARE_CEILING :: nat where
  "MAX_STREAMS_PER_SHARE_CEILING = 16"

definition STREAM_MIN_BYTES_PER_SECOND_FLOOR :: nat where
  "STREAM_MIN_BYTES_PER_SECOND_FLOOR = 16384"

definition STREAM_MAX_DURATION_SECONDS_CEILING :: nat where
  "STREAM_MAX_DURATION_SECONDS_CEILING = 21600"

definition default_security :: security where
  "default_security = \<lparr>sec_session_hours = 12, sec_session_idle_minutes = 30, sec_login_attempts = 5,
     sec_account_login_attempts = 25, sec_login_window_seconds = 300, sec_secure_cookie = True,
     sec_share_password_min_length = 12, sec_share_password_max_length = 256, sec_share_unlock_minutes = 60,
     sec_share_password_attempts = 5, sec_audit_client_ip_enabled = False\<rparr>"

definition default_admission :: admission where
  "default_admission = \<lparr>ad_max_public_uploads = MAX_PUBLIC_UPLOADS_CEILING,
     ad_max_uploads_per_share = MAX_UPLOADS_PER_SHARE_CEILING,
     ad_upload_min_bytes_per_second = UPLOAD_MIN_BYTES_PER_SECOND_FLOOR,
     ad_upload_max_duration_seconds = UPLOAD_MAX_DURATION_SECONDS_CEILING,
     ad_max_public_streams = MAX_PUBLIC_STREAMS_CEILING,
     ad_max_streams_per_share = MAX_STREAMS_PER_SHARE_CEILING,
     ad_stream_min_bytes_per_second = STREAM_MIN_BYTES_PER_SECOND_FLOOR,
     ad_stream_max_duration_seconds = STREAM_MAX_DURATION_SECONDS_CEILING\<rparr>"

definition default_tls :: tls where
  "default_tls = \<lparr>tls_enabled = False, tls_certificate_source = Files, tls_cert_file = [], tls_key_file = [],
     tls_hsts_enabled = False, tls_reload_on_cert_change = False, tls_letsencrypt_contact_email = [],
     tls_letsencrypt_cache_dir = [], tls_letsencrypt_staging = False\<rparr>"

definition default_reverse_proxy :: reverse_proxy where
  "default_reverse_proxy = \<lparr>rp_enabled = False, rp_allow_non_loopback = False, rp_trusted_proxies = [],
     rp_trust_x_forwarded_headers = False, rp_transport = None\<rparr>"

definition default_preview_extensions :: "rstr list" where
  "default_preview_extensions = [lit ''txt'', lit ''log'', lit ''md'', lit ''csv'', lit ''json'', lit ''toml'',
     lit ''yaml'', lit ''yml'', lit ''ini'', lit ''conf'']"

definition default_image_preview_extensions :: "rstr list" where
  "default_image_preview_extensions = [lit ''jpg'', lit ''jpeg'', lit ''png'', lit ''gif'', lit ''webp'',
     lit ''bmp'', lit ''avif'']"

section \<open>Socket addresses\<close>

text \<open>\<open>SocketAddr::from_str\<close>: \<open>a.b.c.d:port\<close> or \<open>[v6%scope]:port\<close>.\<close>

definition read_number :: "nat \<Rightarrow> nat reader" where
  "read_number limit s =
     (let ds = takeWhile ascii_digit s; r = dropWhile ascii_digit s in
      if ds = [] \<or> limit < digits_value ds then None else Some (digits_value ds, r))"

definition read_port :: "nat reader" where
  "read_port s = (case read_char 58 s of None \<Rightarrow> None | Some (_, r) \<Rightarrow> read_number 65535 r)"

definition read_scope :: "rstr \<Rightarrow> rstr option" where
  "read_scope s = (case read_char 37 s of
     None \<Rightarrow> Some s
   | Some (_, r) \<Rightarrow> (case read_number (2 ^ 32 - 1) r of None \<Rightarrow> Some s | Some (_, r') \<Rightarrow> Some r'))"

definition parse_socket_addr :: "rstr \<Rightarrow> (ip_addr \<times> nat) option" where
  "parse_socket_addr s =
     (case (case read_ipv4_addr s of
              None \<Rightarrow> None
            | Some (os, r) \<Rightarrow> (case read_port r of None \<Rightarrow> None | Some (p, r') \<Rightarrow> Some ((V4 (map of_nat os), p), r'))) of
        Some (a, r) \<Rightarrow> if r = [] then Some a else None
      | None \<Rightarrow>
          (case read_char 91 s of
             None \<Rightarrow> None
           | Some (_, r) \<Rightarrow>
               (case read_ipv6_addr r of
                  None \<Rightarrow> None
                | Some (ss, r1) \<Rightarrow>
                    (case read_scope r1 of
                       None \<Rightarrow> None
                     | Some r2 \<Rightarrow>
                         (case read_char 93 r2 of
                            None \<Rightarrow> None
                          | Some (_, r3) \<Rightarrow>
                              (case read_port r3 of
                                 None \<Rightarrow> None
                               | Some (p, r4) \<Rightarrow> if r4 = [] then Some (V6 (map of_nat ss), p) else None))))))"

definition is_loopback :: "ip_addr \<Rightarrow> bool" where
  "is_loopback a = (case a of V4 os \<Rightarrow> hd os = 127 | V6 ss \<Rightarrow> ss = [0, 0, 0, 0, 0, 0, 0, 1])"

definition is_unspecified :: "ip_addr \<Rightarrow> bool" where
  "is_unspecified a = (case a of V4 os \<Rightarrow> os = [0, 0, 0, 0] | V6 ss \<Rightarrow> ss = [0, 0, 0, 0, 0, 0, 0, 0])"

definition local_readiness_peer_ip :: "ip_addr \<Rightarrow> ip_addr" where
  "local_readiness_peer_ip listen =
     (case listen of
        V4 os \<Rightarrow> if is_unspecified listen then V4 [127, 0, 0, 1] else listen
      | V6 ss \<Rightarrow> if is_unspecified listen then V6 [0, 0, 0, 0, 0, 0, 0, 1] else listen)"

section \<open>Paths\<close>

text \<open>\<open>Path\<close> compares, and tests prefixes, by components.\<close>

definition path_eq :: "rstr \<Rightarrow> rstr \<Rightarrow> bool" where
  "path_eq a b \<longleftrightarrow> path_components a = path_components b"

definition path_starts_with :: "rstr \<Rightarrow> rstr \<Rightarrow> bool" where
  "path_starts_with p base \<longleftrightarrow> take (length (path_components base)) (path_components p) = path_components base"

definition path_parent :: "rstr \<Rightarrow> path_component list option" where
  "path_parent p = (let cs = path_components p in
     if cs = [] \<or> last cs = RootDir then None else Some (butlast cs))"

definition has_dots :: "rstr \<Rightarrow> bool" where
  "has_dots p = list_ex (\<lambda>c. c = CurDir \<or> c = ParentDir) (path_components p)"

section \<open>Rules\<close>

datatype url_rule = UrlSyntax | UrlInvalid | UrlParts | UrlPath

datatype mode_rule = DevelopmentListen | DevelopmentProduction | DevelopmentPublic | DevelopmentHttps
  | DevelopmentTls | StandaloneListen | StandaloneProduction | StandaloneReload | StandaloneProxy | TlsFiles

datatype proxy_rule = ProxyProduction | ProxyDisabled | ProxyHeaders | ProxyUnix | MtlsListen
  | MtlsTimeout | MtlsPublic | MtlsPolicy | ProxyTransportMissing | MtlsFiles

datatype acme_rule = AcmeHost | AcmeDomain | AcmeEmail | AcmeCacheEmpty | AcmeCacheParent
  | AcmeCacheOutside | AcmeCacheRoot

datatype tls_rule = LetsEncryptMode | SecureCookie | HstsDevelopment | HstsStaging | ReloadMode

datatype storage_rule = UploadSizeZero | UploadSizeLarge | StorageLimits | PreviewSizeLarge
  | PreviewExtensionsEmpty | PreviewExtensionUnsafe | ImageExtensionUnsafe | ImageExtensionActive

datatype mount_rule = InternalMissing | MountProduction | MountWriters | ReplaceWriters
  | LockDomainDevelopment | InternalRelative | InternalOverlap | InternalNested | MountIdentityUnused

datatype mount_identity_rule = PathsRelative | RootParent | LockDomain | PathDots | DataInside
  | FilesystemMissing | FilesystemInvalid | WritersFilesystem | SourceMissing | SourceInvalid

datatype security_rule = SessionHours | SessionIdle | LoginAttempts | AccountAttempts | LoginWindow
  | SharePasswordPolicy

datatype admission_rule = PublicUploads | UploadsPerShare | UploadRate | UploadDuration | PublicStreams
  | StreamsPerShare | StreamRate | StreamDuration

datatype config_error =
  UrlRule url_rule | ModeRule mode_rule | ProxyRule proxy_rule | AcmeRule acme_rule | TlsRule tls_rule
  | StorageRule storage_rule | MountRule mount_rule | MountIdentityRule mount_identity_rule
  | SecurityRule security_rule | AdmissionRule admission_rule

definition require :: "bool \<Rightarrow> 'e \<Rightarrow> 'e + unit" where
  "require ok e = (if ok then Inr () else Inl e)"

text \<open>Checks one after the other: the first that fails is the error.\<close>

fun all_checks :: "('e + unit) list \<Rightarrow> 'e + unit" where
  "all_checks [] = Inr ()"
| "all_checks (Inl e # rs) = Inl e"
| "all_checks (Inr _ # rs) = all_checks rs"

definition HTTP_SCHEMES :: "rstr list" where
  "HTTP_SCHEMES = [lit ''http'', lit ''https'']"

fun after_scheme :: "rstr \<Rightarrow> rstr option" where
  "after_scheme [] = None"
| "after_scheme (ch # cs) = (if starts_with (lit ''://'') (ch # cs) then Some (drop 2 cs) else after_scheme cs)"

definition authority_part :: "rstr \<Rightarrow> rstr" where
  "authority_part s = (case after_scheme s of None \<Rightarrow> s | Some rest \<Rightarrow> rest)"

definition validate_public_base_url :: "(rstr \<Rightarrow> url option) \<Rightarrow> config \<Rightarrow> config_error + url" where
  "validate_public_base_url parse_url c =
     (let raw = sv_public_base_url (cfg_server c) in
      if \<not> starts_with (lit ''http://'') raw \<and> \<not> starts_with (lit ''https://'') raw then Inl (UrlRule UrlSyntax)
      else case parse_url raw of
        None \<Rightarrow> Inl (UrlRule UrlInvalid)
      | Some u \<Rightarrow>
          if url_scheme u \<notin> set HTTP_SCHEMES \<or> url_host u = None \<or> url_query u \<noteq> None
             \<or> url_fragment u \<noteq> None \<or> url_username u \<noteq> [] \<or> url_password u \<noteq> None
          then Inl (UrlRule UrlParts)
          else if url_path u \<noteq> [47] \<or> 47 \<in> set (authority_part raw) \<or> 92 \<in> set (authority_part raw) then Inl (UrlRule UrlPath)
          else Inr u)"

definition lower_hex :: "nat \<Rightarrow> bool" where
  "lower_hex c \<longleftrightarrow> hex_digit c \<and> \<not> ascii_upper c"

definition validate_mtls_handshake_timeout :: "ip_addr \<Rightarrow> nat option \<Rightarrow> config_error + unit" where
  "validate_mtls_handshake_timeout listen_ip configured =
     (case configured of
        None \<Rightarrow> Inr ()
      | Some s \<Rightarrow> require (10 \<le> s \<and> s \<le> 180 \<and> \<not> (10 < s \<and> \<not> is_loopback listen_ip)) (ProxyRule MtlsTimeout))"

definition validate_unix_proxy :: "config \<Rightarrow> rstr \<Rightarrow> nat list \<Rightarrow> config_error + unit" where
  "validate_unix_proxy c socket_path proxy_uids =
     require (sv_listen_address (cfg_server c) = lit ''unix:'' @ socket_path \<and> is_absolute socket_path
       \<and> \<not> has_dots socket_path \<and> \<not> path_eq socket_path [47]
       \<and> proxy_uids \<noteq> [] \<and> length proxy_uids \<le> 16 \<and> 0 \<notin> set proxy_uids \<and> distinct proxy_uids
       \<and> \<not> tls_enabled (cfg_tls c) \<and> \<not> rp_allow_non_loopback (cfg_reverse_proxy c)) (ProxyRule ProxyUnix)"

definition validate_mtls_proxy ::
  "(rstr \<Rightarrow> rstr \<Rightarrow> bool) \<Rightarrow> (rstr \<Rightarrow> rstr \<Rightarrow> rstr \<Rightarrow> bool) \<Rightarrow> config \<Rightarrow> rstr \<Rightarrow> rstr list \<Rightarrow> nat option
     \<Rightarrow> config_error + unit" where
  "validate_mtls_proxy tls_files mtls_files c client_ca_file client_fingerprints timeout =
     (let t = cfg_tls c in
      case parse_socket_addr (sv_listen_address (cfg_server c)) of
        None \<Rightarrow> Inl (ProxyRule MtlsListen)
      | Some (ip, port) \<Rightarrow>
          all_checks [validate_mtls_handshake_timeout ip timeout,
            require (\<not> ((is_unspecified ip \<or> \<not> is_loopback ip) \<and> \<not> rp_allow_non_loopback (cfg_reverse_proxy c))) (ProxyRule MtlsPublic),
            require (\<not> (port = 8082 \<and> (is_unspecified ip \<or> is_loopback ip)) \<and> tls_enabled t
              \<and> tls_certificate_source t = Files \<and> is_absolute client_ca_file
              \<and> client_fingerprints \<noteq> [] \<and> length client_fingerprints \<le> 16
              \<and> list_all (\<lambda>f. str_len f = 64 \<and> list_all lower_hex f) client_fingerprints) (ProxyRule MtlsPolicy),
            require (tls_files (tls_cert_file t) (tls_key_file t)) (ModeRule TlsFiles),
            require (mtls_files (tls_cert_file t) (tls_key_file t) client_ca_file) (ProxyRule MtlsFiles)])"

definition validate_acme_cache_path :: "rstr \<Rightarrow> rstr \<Rightarrow> config_error + unit" where
  "validate_acme_cache_path data_directory cache_dir =
     (if cache_dir = [] then Inl (AcmeRule AcmeCacheEmpty)
      else if ParentDir \<in> set (path_components cache_dir) then Inl (AcmeRule AcmeCacheParent)
      else if is_absolute cache_dir then
        require (is_absolute data_directory \<and> path_starts_with cache_dir data_directory) (AcmeRule AcmeCacheOutside)
      else require (RootDir \<notin> set (path_components cache_dir)) (AcmeRule AcmeCacheRoot))"

definition letsencrypt_cache_dir :: "storage \<Rightarrow> tls \<Rightarrow> config_error + rstr" where
  "letsencrypt_cache_dir s t =
     (case validate_acme_cache_path (st_data_directory s) (tls_letsencrypt_cache_dir t) of
        Inl e \<Rightarrow> Inl e
      | Inr _ \<Rightarrow> Inr (if is_absolute (tls_letsencrypt_cache_dir t) then tls_letsencrypt_cache_dir t
                       else path_push (st_data_directory s) (tls_letsencrypt_cache_dir t)))"

definition validate_letsencrypt :: "url \<Rightarrow> storage \<Rightarrow> tls \<Rightarrow> config_error + unit" where
  "validate_letsencrypt u s t =
     (case url_host u of
        None \<Rightarrow> Inl (AcmeRule AcmeHost)
      | Some host \<Rightarrow>
          if eq_ignore_ascii_case host (lit ''localhost'') \<or> parse_ip host \<noteq> None \<or> 46 \<notin> set host
             \<or> list_ex (\<lambda>l. l = [] \<or> hd l = 45 \<or> last l = 45) (split_on 46 host)
             \<or> \<not> list_all (\<lambda>ch. ascii_alphanumeric ch \<or> ch = 45 \<or> ch = 46) host
          then Inl (AcmeRule AcmeDomain)
          else if 64 \<notin> set (tls_letsencrypt_contact_email t) \<or> 10 \<in> set (tls_letsencrypt_contact_email t)
             \<or> 13 \<in> set (tls_letsencrypt_contact_email t) \<or> starts_with (lit ''mailto:'') (tls_letsencrypt_contact_email t)
          then Inl (AcmeRule AcmeEmail)
          else (case letsencrypt_cache_dir s t of Inl e \<Rightarrow> Inl e | Inr _ \<Rightarrow> Inr ()))"

definition validate_server_mode ::
  "(rstr \<Rightarrow> rstr \<Rightarrow> bool) \<Rightarrow> (rstr \<Rightarrow> rstr \<Rightarrow> rstr \<Rightarrow> bool) \<Rightarrow> config \<Rightarrow> url \<Rightarrow> config_error + unit" where
  "validate_server_mode tls_files mtls_files c u =
     (let sv = cfg_server c; rp = cfg_reverse_proxy c; t = cfg_tls c in
      case sv_mode sv of
        Development \<Rightarrow>
          (case parse_socket_addr (sv_listen_address sv) of
             None \<Rightarrow> Inl (ModeRule DevelopmentListen)
           | Some (ip, _) \<Rightarrow>
               all_checks [require (\<not> sv_production_mode sv) (ModeRule DevelopmentProduction),
                 require (is_loopback ip) (ModeRule DevelopmentPublic),
                 require (url_scheme u = lit ''http'') (ModeRule DevelopmentHttps),
                 require (\<not> tls_enabled t) (ModeRule DevelopmentTls)])
      | ReverseProxy \<Rightarrow>
          all_checks [require (sv_production_mode sv \<and> url_scheme u = lit ''https'') (ProxyRule ProxyProduction),
            require (rp_enabled rp) (ProxyRule ProxyDisabled),
            require (rp_trust_x_forwarded_headers rp) (ProxyRule ProxyHeaders),
            (case rp_transport rp of
               Some (Unix socket_path proxy_uids) \<Rightarrow> validate_unix_proxy c socket_path proxy_uids
             | Some (Mtls ca fingerprints timeout) \<Rightarrow> validate_mtls_proxy tls_files mtls_files c ca fingerprints timeout
             | None \<Rightarrow> Inl (ProxyRule ProxyTransportMissing))]
      | StandaloneTls \<Rightarrow>
          (case parse_socket_addr (sv_listen_address sv) of
             None \<Rightarrow> Inl (ModeRule StandaloneListen)
           | Some _ \<Rightarrow>
               all_checks [require (sv_production_mode sv \<and> url_scheme u = lit ''https'' \<and> tls_enabled t) (ModeRule StandaloneProduction),
                 (case tls_certificate_source t of
                    Files \<Rightarrow> require (tls_files (tls_cert_file t) (tls_key_file t)) (ModeRule TlsFiles)
                  | LetsEncrypt \<Rightarrow> validate_letsencrypt u (cfg_storage c) t),
                 require (\<not> (tls_reload_on_cert_change t \<and> tls_certificate_source t \<noteq> Files)) (ModeRule StandaloneReload),
                 require (\<not> rp_enabled rp) (ModeRule StandaloneProxy)]))"

definition validate_tls_security_policy :: "config \<Rightarrow> config_error + unit" where
  "validate_tls_security_policy c =
     (let sv = cfg_server c; t = cfg_tls c in
      all_checks [require (\<not> (tls_certificate_source t = LetsEncrypt \<and> sv_mode sv \<noteq> StandaloneTls)) (TlsRule LetsEncryptMode),
        require (\<not> (sv_production_mode sv \<and> \<not> sec_secure_cookie (cfg_security c))) (TlsRule SecureCookie),
        require (\<not> (tls_hsts_enabled t \<and> sv_mode sv = Development)) (TlsRule HstsDevelopment),
        require (\<not> (tls_hsts_enabled t \<and> tls_certificate_source t = LetsEncrypt \<and> tls_letsencrypt_staging t)) (TlsRule HstsStaging),
        require (\<not> (tls_reload_on_cert_change t \<and> sv_mode sv \<noteq> StandaloneTls)) (TlsRule ReloadMode)])"

definition replacements_allowed :: "storage \<Rightarrow> bool" where
  "replacements_allowed s \<longleftrightarrow> \<not> st_external_writers s \<or> st_allow_external_writer_replace s"

definition internal_directory_is_nested :: "storage \<Rightarrow> bool" where
  "internal_directory_is_nested s \<longleftrightarrow> st_require_mount s
     \<and> (case st_internal_directory s of
          None \<Rightarrow> False
        | Some internal \<Rightarrow> path_eq internal (path_push (st_root_mount_path s) INTERNAL_STORAGE_DIRECTORY_NAME))"

definition forbid_user_symlinks :: "storage \<Rightarrow> bool" where
  "forbid_user_symlinks s \<longleftrightarrow> st_external_writers s \<or> internal_directory_is_nested s"

definition cifs_type :: "rstr option \<Rightarrow> bool" where
  "cifs_type t \<longleftrightarrow> t = Some (lit ''cifs'') \<or> t = Some (lit ''smb3'')"

definition validate_required_mount :: "storage \<Rightarrow> rstr \<Rightarrow> config_error + unit" where
  "validate_required_mount s internal =
     (let root = st_root_mount_path s; nested = internal_directory_is_nested s in
      all_checks [require (is_absolute internal) (MountRule InternalRelative),
        require (\<not> ((path_starts_with internal root \<or> path_starts_with root internal) \<and> \<not> nested)) (MountRule InternalOverlap),
        require (\<not> (nested \<and> \<not> cifs_type (st_expected_filesystem_type s))) (MountRule InternalNested),
        require (is_absolute root \<and> is_absolute (st_data_directory s)) (MountIdentityRule PathsRelative),
        (if nested then require (path_eq internal (path_push root INTERNAL_STORAGE_DIRECTORY_NAME)) (MountIdentityRule LockDomain)
         else case path_parent root of
           None \<Rightarrow> Inl (MountIdentityRule RootParent)
         | Some parent \<Rightarrow> require (path_components internal = parent @ [Normal INTERNAL_STORAGE_DIRECTORY_NAME]) (MountIdentityRule LockDomain)),
        require (\<not> has_dots root \<and> \<not> has_dots (st_data_directory s) \<and> \<not> has_dots internal) (MountIdentityRule PathDots),
        require (\<not> path_starts_with (st_data_directory s) root) (MountIdentityRule DataInside),
        (case st_expected_filesystem_type s of
           None \<Rightarrow> Inl (MountIdentityRule FilesystemMissing)
         | Some t \<Rightarrow> all_checks
             [require (t \<noteq> [] \<and> list_all (\<lambda>ch. ascii_alphanumeric ch \<or> ch \<in> set [46, 95, 45]) t) (MountIdentityRule FilesystemInvalid),
              require (\<not> (st_external_writers s \<and> \<not> cifs_type (Some t))) (MountIdentityRule WritersFilesystem)]),
        (case st_expected_mount_source s of
           None \<Rightarrow> Inl (MountIdentityRule SourceMissing)
         | Some src \<Rightarrow> require (src \<noteq> [] \<and> \<not> list_ex is_control src) (MountIdentityRule SourceInvalid))])"

definition validate_mount_policy :: "storage \<Rightarrow> bool \<Rightarrow> config_error + unit" where
  "validate_mount_policy s production_mode =
     (case st_internal_directory s of
        None \<Rightarrow> Inl (MountRule InternalMissing)
      | Some internal \<Rightarrow>
          all_checks [require (\<not> (production_mode \<and> \<not> st_require_mount s)) (MountRule MountProduction),
            require (\<not> (st_external_writers s \<and> \<not> st_require_mount s)) (MountRule MountWriters),
            require (\<not> (st_allow_external_writer_replace s \<and> \<not> st_external_writers s)) (MountRule ReplaceWriters),
            (if \<not> st_require_mount s then
               all_checks [require (path_eq internal (path_push (st_root_mount_path s) INTERNAL_STORAGE_DIRECTORY_NAME)) (MountRule LockDomainDevelopment),
                 require (st_expected_filesystem_type s = None \<and> st_expected_mount_source s = None) (MountRule MountIdentityUnused)]
             else validate_required_mount s internal)])"

definition unsafe_extension :: "rstr \<Rightarrow> bool" where
  "unsafe_extension e \<longleftrightarrow> e = [] \<or> 47 \<in> set e \<or> 92 \<in> set e \<or> 0 \<in> set e \<or> list_ex is_control e"

definition active_content_extension :: "rstr \<Rightarrow> bool" where
  "active_content_extension e \<longleftrightarrow> to_ascii_lowercase (dropWhile (\<lambda>ch. ch = 46) e)
     \<in> set [lit ''svg'', lit ''html'', lit ''htm'', lit ''xml'', lit ''xhtml'']"

definition validate_storage_config :: "config \<Rightarrow> config_error + unit" where
  "validate_storage_config c =
     (let s = cfg_storage c in
      all_checks [require (st_max_upload_size s \<noteq> 0) (StorageRule UploadSizeZero),
        require (st_max_upload_size s \<le> MAX_UPLOAD_SIZE) (StorageRule UploadSizeLarge),
        require (st_max_search_entries s \<noteq> 0 \<and> st_max_search_results s \<noteq> 0 \<and> st_max_preview_size s \<noteq> 0
          \<and> st_max_media_preview_size s \<noteq> 0) (StorageRule StorageLimits),
        require (st_max_preview_size s \<le> MAX_TEXT_PREVIEW_SIZE) (StorageRule PreviewSizeLarge),
        validate_mount_policy s (sv_production_mode (cfg_server c)),
        require (st_preview_extensions s \<noteq> []) (StorageRule PreviewExtensionsEmpty),
        require (\<not> list_ex unsafe_extension (st_preview_extensions s)) (StorageRule PreviewExtensionUnsafe),
        require (\<not> list_ex unsafe_extension (st_image_preview_extensions s)) (StorageRule ImageExtensionUnsafe),
        require (\<not> list_ex active_content_extension (st_image_preview_extensions s)) (StorageRule ImageExtensionActive)])"

definition validate_security_config :: "config \<Rightarrow> config_error + unit" where
  "validate_security_config c =
     (let s = cfg_security c in
      all_checks [require (1 \<le> sec_session_hours s \<and> sec_session_hours s \<le> MAX_SESSION_HOURS) (SecurityRule SessionHours),
        require (MIN_SESSION_IDLE_MINUTES \<le> sec_session_idle_minutes s
          \<and> sec_session_idle_minutes s \<le> sec_session_hours s * 60) (SecurityRule SessionIdle),
        require (1 \<le> sec_login_attempts s \<and> sec_login_attempts s \<le> MAX_AUTH_ATTEMPTS) (SecurityRule LoginAttempts),
        require (1 \<le> sec_account_login_attempts s \<and> sec_account_login_attempts s \<le> MAX_AUTH_ATTEMPTS) (SecurityRule AccountAttempts),
        require (1 \<le> sec_login_window_seconds s \<and> sec_login_window_seconds s \<le> MAX_LOGIN_WINDOW_SECONDS) (SecurityRule LoginWindow),
        require (8 \<le> sec_share_password_min_length s
          \<and> sec_share_password_min_length s \<le> sec_share_password_max_length s
          \<and> sec_share_password_max_length s \<le> MAX_SHARE_PASSWORD_LENGTH
          \<and> 1 \<le> sec_share_unlock_minutes s \<and> sec_share_unlock_minutes s \<le> MAX_SHARE_UNLOCK_MINUTES
          \<and> 1 \<le> sec_share_password_attempts s \<and> sec_share_password_attempts s \<le> MAX_AUTH_ATTEMPTS) (SecurityRule SharePasswordPolicy)])"

definition validate_admission :: "admission \<Rightarrow> config_error + unit" where
  "validate_admission a =
     all_checks [require (1 \<le> ad_max_public_uploads a \<and> ad_max_public_uploads a \<le> MAX_PUBLIC_UPLOADS_CEILING) (AdmissionRule PublicUploads),
       require (1 \<le> ad_max_uploads_per_share a \<and> ad_max_uploads_per_share a \<le> MAX_UPLOADS_PER_SHARE_CEILING) (AdmissionRule UploadsPerShare),
       require (UPLOAD_MIN_BYTES_PER_SECOND_FLOOR \<le> ad_upload_min_bytes_per_second a) (AdmissionRule UploadRate),
       require (1 \<le> ad_upload_max_duration_seconds a
         \<and> ad_upload_max_duration_seconds a \<le> UPLOAD_MAX_DURATION_SECONDS_CEILING) (AdmissionRule UploadDuration),
       require (1 \<le> ad_max_public_streams a \<and> ad_max_public_streams a \<le> MAX_PUBLIC_STREAMS_CEILING) (AdmissionRule PublicStreams),
       require (1 \<le> ad_max_streams_per_share a \<and> ad_max_streams_per_share a \<le> MAX_STREAMS_PER_SHARE_CEILING) (AdmissionRule StreamsPerShare),
       require (STREAM_MIN_BYTES_PER_SECOND_FLOOR \<le> ad_stream_min_bytes_per_second a) (AdmissionRule StreamRate),
       require (1 \<le> ad_stream_max_duration_seconds a
         \<and> ad_stream_max_duration_seconds a \<le> STREAM_MAX_DURATION_SECONDS_CEILING) (AdmissionRule StreamDuration)]"

definition validate_config ::
  "(rstr \<Rightarrow> url option) \<Rightarrow> (rstr \<Rightarrow> rstr \<Rightarrow> bool) \<Rightarrow> (rstr \<Rightarrow> rstr \<Rightarrow> rstr \<Rightarrow> bool) \<Rightarrow> config \<Rightarrow> config_error + unit" where
  "validate_config parse_url tls_files mtls_files c =
     (case validate_public_base_url parse_url c of
        Inl e \<Rightarrow> Inl e
      | Inr u \<Rightarrow>
          all_checks [validate_server_mode tls_files mtls_files c u, validate_tls_security_policy c,
            validate_storage_config c, validate_security_config c, validate_admission (cfg_admission c)])"

section \<open>What a valid configuration guarantees\<close>

lemma require_Inr [simp]: "require ok e = Inr x \<longleftrightarrow> ok"
  by (simp add: require_def)

lemma all_checks_Inr [simp]:
  "all_checks [] = Inr x"
  "all_checks (r # rs) = Inr x \<longleftrightarrow> (\<exists>y. r = Inr y) \<and> all_checks rs = Inr x"
  by (simp, cases r) auto

lemma validate_config_parts:
  assumes "validate_config parse_url tls_files mtls_files c = Inr ()"
  obtains u where "parse_url (sv_public_base_url (cfg_server c)) = Some u"
    "validate_server_mode tls_files mtls_files c u = Inr ()" "validate_tls_security_policy c = Inr ()"
    "validate_storage_config c = Inr ()" "validate_security_config c = Inr ()" "validate_admission (cfg_admission c) = Inr ()"
    "url_scheme u \<in> set HTTP_SCHEMES" "url_path u = [47]"
  using assms unfolding validate_config_def validate_public_base_url_def Let_def
  by (auto split: sum.splits if_splits option.splits)

lemma validate_config_mount:
  assumes "validate_config parse_url tls_files mtls_files c = Inr ()"
  shows "validate_mount_policy (cfg_storage c) (sv_production_mode (cfg_server c)) = Inr ()"
  using assms by (rule validate_config_parts) (simp add: validate_storage_config_def Let_def)

text \<open>Joining a validated path appends its names to the components.\<close>

lemma path_names_append: "path_names (a @ 47 # b) = path_names a @ path_names b"
  by (simp add: path_names_def split_on_append)

lemma path_components_join:
  "a \<noteq> [] \<Longrightarrow> path_components (a @ 47 # b) = path_components a @ map to_component (path_names b)"
  by (cases "split_on 47 a") (auto simp: path_components_def path_names_append split_on_append)

lemma path_components_push:
  assumes plain: "\<forall>n\<in>set ns. plain_name n"
  shows "path_components (path_push root (path_of ns)) = path_components root @ map to_component ns"
proof -
  let ?p = "path_of ns"
  have push: "path_push root ?p = (if root = [] \<or> last root = 47 then root @ ?p else root @ 47 # ?p)"
    using path_of_relative[OF plain] by (simp add: path_push_def)
  have names: "path_names ?p = ns" using path_names_path_of[OF plain] .
  consider "root = []" | (slash) r where "root = r @ [47]" "r \<noteq> []" | (top) "root = [47]" | (other) "root \<noteq> []" "last root \<noteq> 47"
    by (cases root rule: rev_cases) auto
  then show ?thesis
  proof cases
    case 1
    then show ?thesis using push path_components_path_of[OF plain] by (simp add: path_components_def path_names_def)
  next
    case slash
    then have "path_push root ?p = r @ 47 # ?p" using push by simp
    moreover have "path_components root = path_components r"
      using path_components_join[OF slash(2), of "[]"] slash(1) by (simp add: path_names_def)
    ultimately show ?thesis using path_components_join[OF slash(2), of ?p] names by simp
  next
    case top
    have "path_names ([] @ 47 # ?p) = ns" using path_names_append[of "[]" ?p] names by (simp add: path_names_def)
    then show ?thesis using top push by (simp add: path_components_def path_names_def)
  next
    case other
    then show ?thesis using push path_components_join[OF other(1), of ?p] names by simp
  qed
qed

lemma internal_name:
  "plain_name INTERNAL_STORAGE_DIRECTORY_NAME" "is_internal_storage_name INTERNAL_STORAGE_DIRECTORY_NAME"
  "INTERNAL_STORAGE_DIRECTORY_NAME \<noteq> [46, 46]"
  by code_simp+

lemma path_components_internal:
  "path_components (path_push root INTERNAL_STORAGE_DIRECTORY_NAME)
     = path_components root @ [Normal INTERNAL_STORAGE_DIRECTORY_NAME]"
  using path_components_push[of "[INTERNAL_STORAGE_DIRECTORY_NAME]" root] internal_name
  by (simp add: path_of_def to_component_def)

definition child_lock_domain :: "storage \<Rightarrow> path_component list" where
  "child_lock_domain s = path_components (st_root_mount_path s) @ [Normal INTERNAL_STORAGE_DIRECTORY_NAME]"

definition sibling_lock_domain :: "storage \<Rightarrow> path_component list" where
  "sibling_lock_domain s = butlast (path_components (st_root_mount_path s)) @ [Normal INTERNAL_STORAGE_DIRECTORY_NAME]"

text \<open>The lock domain is one of two directories that the storage root determines.\<close>

lemma lock_domain_cases:
  assumes "validate_mount_policy s production = Inr ()"
  obtains (child) internal where "st_internal_directory s = Some internal" "path_components internal = child_lock_domain s"
      "st_require_mount s \<longrightarrow> cifs_type (st_expected_filesystem_type s)"
  | (sibling) internal where "st_internal_directory s = Some internal" "st_require_mount s"
      "path_components internal = sibling_lock_domain s" "path_components (st_root_mount_path s) \<noteq> []"
      "\<not> path_starts_with internal (st_root_mount_path s)" "\<not> path_starts_with (st_root_mount_path s) internal"
proof -
  obtain internal where internal: "st_internal_directory s = Some internal"
    using assms by (auto simp: validate_mount_policy_def split: option.splits)
  show thesis
  proof (cases "st_require_mount s \<longrightarrow> internal_directory_is_nested s")
    case True
    have "path_components internal = child_lock_domain s \<and> (st_require_mount s \<longrightarrow> cifs_type (st_expected_filesystem_type s))"
      using assms True internal
      by (cases "st_require_mount s")
        (auto simp: validate_mount_policy_def validate_required_mount_def Let_def path_eq_def child_lock_domain_def
          path_components_internal)
    then show ?thesis using child internal by blast
  next
    case False
    then have "st_require_mount s" "\<not> internal_directory_is_nested s" by simp_all
    then have "path_components internal = sibling_lock_domain s \<and> path_components (st_root_mount_path s) \<noteq> []
      \<and> \<not> path_starts_with internal (st_root_mount_path s) \<and> \<not> path_starts_with (st_root_mount_path s) internal"
      using assms internal
      by (auto simp: validate_mount_policy_def validate_required_mount_def Let_def sibling_lock_domain_def path_parent_def
          split: option.splits if_splits)
    then show ?thesis using sibling internal False by blast
  qed
qed


text \<open>C12: no path a client may name leads into the private directory. With a valid configuration, a
  client path that path validation accepts, joined to the storage root, does not lie in the
  internal directory with its journals and staged uploads, which is either the reserved child
  of the root or its sibling.\<close>

theorem client_paths_avoid_internal:
  assumes "validate_config parse_url tls_files mtls_files c = Inr ()"
    and "st_internal_directory (cfg_storage c) = Some internal" and "validate_relative raw = Inr p"
  shows "\<not> path_starts_with (path_push (st_root_mount_path (cfg_storage c)) p) internal
    \<and> path_components internal \<in> {child_lock_domain (cfg_storage c), sibling_lock_domain (cfg_storage c)}"
proof -
  let ?s = "cfg_storage c" let ?root = "path_components (st_root_mount_path ?s)"
  note p = validate_relative_InrD[OF assms(3)]
  have plain: "\<forall>n\<in>set (path_names raw). plain_name n" using p(3) by blast
  have joined: "path_components (path_push (st_root_mount_path ?s) p) = ?root @ map to_component (path_names raw)"
    unfolding p(1) by (rule path_components_push[OF plain])
  have no_internal: "n \<in> set (path_names raw) \<Longrightarrow> n \<noteq> INTERNAL_STORAGE_DIRECTORY_NAME" for n
    using p(3) internal_name by blast
  from validate_config_mount[OF assms(1)] show ?thesis
  proof (cases rule: lock_domain_cases)
    case (child i)
    have "take 1 (map to_component (path_names raw)) \<noteq> [Normal INTERNAL_STORAGE_DIRECTORY_NAME]"
      using no_internal by (cases "path_names raw") (auto simp: to_component_def split: if_splits)
    then show ?thesis using child assms(2) by (simp add: path_starts_with_def joined child_lock_domain_def)
  next
    case (sibling i)
    have "length (sibling_lock_domain ?s) = length ?root" using sibling(4) by (simp add: sibling_lock_domain_def)
    then have "path_starts_with (path_push (st_root_mount_path ?s) p) i \<Longrightarrow> path_starts_with (st_root_mount_path ?s) i"
      by (simp add: path_starts_with_def joined sibling(3))
    then show ?thesis using sibling assms(2) by auto
  qed
qed

section \<open>An example configuration\<close>

definition example_parse_url :: "rstr \<Rightarrow> url option" where
  "example_parse_url s = Some \<lparr>url_scheme = (if starts_with (lit ''https'') s then lit ''https'' else lit ''http''),
     url_host = Some (lit ''files.example.org''), url_query = None, url_fragment = None, url_username = [],
     url_password = None, url_path = [47]\<rparr>"

definition example_config :: config where
  "example_config = \<lparr>
     cfg_server = \<lparr>sv_mode = ReverseProxy, sv_listen_address = lit ''unix:/run/vaultlink/http.sock'',
       sv_public_base_url = lit ''https://files.example.org'', sv_production_mode = True\<rparr>,
     cfg_storage = \<lparr>st_root_mount_path = lit ''/srv/share'', st_data_directory = lit ''/var/lib/vaultlink'',
       st_internal_directory = Some (lit ''/srv/.vaultlink-internal''), st_require_mount = True,
       st_external_writers = False, st_allow_external_writer_replace = False,
       st_expected_filesystem_type = Some (lit ''ext4''), st_expected_mount_source = Some (lit ''/dev/sda1''),
       st_max_upload_size = 100000000, st_max_zip_size = 1000000000, st_max_zip_files = 10000,
       st_max_search_entries = 50000, st_max_search_results = 500, st_max_preview_size = 1000000,
       st_preview_extensions = default_preview_extensions, st_image_preview_extensions = default_image_preview_extensions,
       st_pdf_preview_enabled = True, st_max_media_preview_size = 100000000, st_blocked_extensions = []\<rparr>,
     cfg_reverse_proxy = \<lparr>rp_enabled = True, rp_allow_non_loopback = False, rp_trusted_proxies = [],
       rp_trust_x_forwarded_headers = True, rp_transport = Some (Unix (lit ''/run/vaultlink/http.sock'') [33])\<rparr>,
     cfg_tls = default_tls, cfg_security = default_security, cfg_admission = default_admission,
     cfg_logging_level = lit ''info''\<rparr>"

lemma example_config_valid:
  "validate_config example_parse_url (\<lambda>_ _. True) (\<lambda>_ _ _. True) example_config = Inr ()"
  by code_simp


theorem client_paths_avoid_internal_witness:
  "\<not> path_starts_with (path_push (lit ''/srv/share'') (lit ''a/b'')) (lit ''/srv/.vaultlink-internal'')"
proof -
  have "validate_relative (lit ''a/b'') = Inr (lit ''a/b'')" by code_simp
  moreover have "st_internal_directory (cfg_storage example_config) = Some (lit ''/srv/.vaultlink-internal'')"
    "st_root_mount_path (cfg_storage example_config) = lit ''/srv/share''" by (simp_all add: example_config_def)
  ultimately show ?thesis using client_paths_avoid_internal[OF example_config_valid, of "lit ''/srv/.vaultlink-internal''"] by metis
qed

end
