(* ===== verification/Store.thy ===== *)
theory Store
  imports Audit_Log
begin

text \<open>
  The persistent state (\<open>src/src/db/schema/bootstrap.rs\<close>, \<open>src/src/db/model.rs\<close>): one record
  per table row, the store as a record of tables, the inserts that can hit a constraint,
  the deletes that cascade along foreign keys (\<open>PRAGMA foreign_keys=ON\<close>), and the
  integrity invariant of the tables the public transfer and upload components share.
  The full-text search shadow table is not part of the state. A transaction is a function from a store to a
  result and the store it leaves; an error, or a return without commit, leaves the store
  it started from.
\<close>

section \<open>Enumerations\<close>

datatype permission = DownloadOnly | UploadOnly | DownloadUpload

primrec permission_as_str :: "permission \<Rightarrow> rstr" where
  "permission_as_str DownloadOnly = lit ''download_only''"
| "permission_as_str UploadOnly = lit ''upload_only''"
| "permission_as_str DownloadUpload = lit ''download_upload''"

definition permission_parse :: "rstr \<Rightarrow> permission option" where
  "permission_parse s =
     (if s = lit ''download_only'' then Some DownloadOnly
      else if s = lit ''upload_only'' then Some UploadOnly
      else if s = lit ''download_upload'' then Some DownloadUpload
      else None)"

definition can_download :: "permission \<Rightarrow> bool" where
  "can_download p \<longleftrightarrow> p \<noteq> UploadOnly"

definition can_upload :: "permission \<Rightarrow> bool" where
  "can_upload p \<longleftrightarrow> p \<noteq> DownloadOnly"

datatype upload_conflict_strategy = Reject | OverwriteAllowed

primrec strategy_as_str :: "upload_conflict_strategy \<Rightarrow> rstr" where
  "strategy_as_str Reject = lit ''reject''"
| "strategy_as_str OverwriteAllowed = lit ''overwrite_allowed''"

definition strategy_parse :: "rstr \<Rightarrow> upload_conflict_strategy option" where
  "strategy_parse s =
     (if s = lit ''reject'' then Some Reject
      else if s = lit ''overwrite_allowed'' then Some OverwriteAllowed
      else None)"

definition can_overwrite :: "upload_conflict_strategy \<Rightarrow> bool" where
  "can_overwrite s \<longleftrightarrow> s = OverwriteAllowed"

datatype op_state = Ready | Processing | Retryable | Committing | Completed | Rejected | OutcomeUnknown

datatype op_scope = AdminScope int | ShareScope int

section \<open>Rows\<close>

record admin_row =
  adm_id :: int
  adm_username :: rstr
  adm_password_hash :: rstr
  adm_totp_key_id :: nat
  adm_totp_ciphertext :: rstr
  adm_totp_generation :: nat
  adm_totp_enabled :: bool
  adm_created_at :: instant
  adm_active :: bool

record session_row =
  ses_token_hash :: rstr
  ses_admin_id :: int
  ses_csrf_token :: rstr
  ses_mfa_verified :: bool
  ses_expires_at :: instant
  ses_last_activity_at :: instant

record enrollment_row =
  enr_admin_id :: int
  enr_token_hash :: rstr
  enr_totp_key_id :: nat
  enr_totp_ciphertext :: rstr
  enr_created_at :: instant
  enr_expires_at :: instant

record credential_row =
  crd_id :: int
  crd_admin_id :: int
  crd_label :: rstr
  crd_credential_id :: rstr
  crd_credential_blob :: rstr
  crd_created_at :: instant
  crd_last_used_at :: "instant option"

record service_token_row =
  tok_id :: int
  tok_name :: rstr
  tok_token_hash :: rstr
  tok_scope_mask :: int
  tok_created_by :: int
  tok_created_at :: instant
  tok_expires_at :: "instant option"
  tok_last_used_at :: "instant option"

record share_row =
  sh_id :: int
  sh_token_hash :: rstr
  sh_token_key_id :: nat
  sh_token_ciphertext :: rstr
  sh_alias :: "rstr option"
  sh_relative_path :: rstr
  sh_is_directory :: bool
  sh_permission :: permission
  sh_expires_at :: "instant option"
  sh_max_downloads :: "nat option"
  sh_max_upload_size :: "nat option"
  sh_max_upload_total_size :: "nat option"
  sh_max_upload_files :: "nat option"
  sh_download_count :: nat
  sh_active :: bool
  sh_created_by :: int
  sh_created_at :: instant
  sh_password_hash :: "rstr option"
  sh_upload_conflict_strategy :: upload_conflict_strategy
  sh_upload_policy_epoch :: nat
  sh_alias_search_key :: "rstr option"
  sh_path_search_key :: rstr

record unlock_session_row =
  unl_token_hash :: rstr
  unl_share_id :: int
  unl_expires_at :: instant
  unl_csrf_token :: rstr

record preview_session_row =
  prv_token_hash :: rstr
  prv_share_id :: int
  prv_relative_path :: rstr
  prv_expires_at :: instant
  prv_owner_key_hash :: rstr

record grant_row =
  gr_id :: int
  gr_session_token_hash :: rstr
  gr_share_id :: int
  gr_resource_key :: rstr
  gr_action :: rstr
  gr_counted :: bool
  gr_created_at :: instant
  gr_expires_at :: instant

record lease_row =
  ls_token_hash :: rstr
  ls_grant_id :: int
  ls_created_at :: instant
  ls_heartbeat_at :: instant
  ls_expires_at :: instant

record usage_row =
  us_share_id :: int
  us_uploaded_bytes :: nat
  us_uploaded_files :: nat
  us_created_directories :: nat

record reservation_row =
  rs_token_hash :: rstr
  rs_share_id :: int
  rs_reserved_bytes :: nat
  rs_created_at :: instant
  rs_expires_at :: instant
  rs_upload_policy_epoch :: nat

record operation_row =
  op_id_hash :: rstr
  op_scope :: op_scope
  op_state :: op_state
  op_created_at :: instant
  op_expires_at :: instant
  op_fingerprint :: "rstr option"
  op_result_json :: "rstr option"
  op_fragment_name :: "rstr option"
  op_quota_charged :: bool

record db =
  admins :: "admin_row list"
  totp_replay :: "(int \<times> int) list"
  sessions :: "session_row list"
  mfa_enrollments :: "enrollment_row list"
  webauthn_credentials :: "credential_row list"
  service_tokens :: "service_token_row list"
  service_token_seq :: int
  shares :: "share_row list"
  unlock_sessions :: "unlock_session_row list"
  preview_sessions :: "preview_session_row list"
  grants :: "grant_row list"
  leases :: "lease_row list"
  monthly_counts :: "((rstr \<times> rstr) \<times> nat) list"
  transfer_statistics :: "instant list"
  upload_usage :: "usage_row list"
  upload_reservations :: "reservation_row list"
  upload_operations :: "operation_row list"
  audit :: "audit_row list"
  runtime_settings :: "(rstr \<times> rstr) list"

type_synonym 'a outcome = "(db_error + 'a) \<times> db"

text \<open>A freshly bootstrapped store: every table is empty but the one that
  holds the time the statistics start.\<close>

definition empty_db :: db where
  "empty_db = \<lparr>admins = [], totp_replay = [], sessions = [],
     mfa_enrollments = [], webauthn_credentials = [], service_tokens = [],
     service_token_seq = 0, shares = [], unlock_sessions = [], preview_sessions = [], grants = [],
     leases = [], monthly_counts = [], transfer_statistics = [0], upload_usage = [], upload_reservations = [],
     upload_operations = [], audit = [], runtime_settings = []\<rparr>"

text \<open>A share with one download left and room for two uploaded files, used by examples.\<close>

definition example_share :: share_row where
  "example_share = \<lparr>sh_id = 1, sh_token_hash = lit ''t'', sh_token_key_id = 1,
     sh_token_ciphertext = lit ''c'', sh_alias = None,
     sh_relative_path = lit ''docs'', sh_is_directory = True, sh_permission = DownloadUpload,
     sh_expires_at = None, sh_max_downloads = Some 1, sh_max_upload_size = None,
     sh_max_upload_total_size = Some 100, sh_max_upload_files = Some 2, sh_download_count = 0,
     sh_active = True, sh_created_by = 1, sh_created_at = 0, sh_password_hash = None,
     sh_upload_conflict_strategy = Reject, sh_upload_policy_epoch = 0,
     sh_alias_search_key = None, sh_path_search_key = lit ''docs''\<rparr>"

definition example_db :: db where
  "example_db = empty_db\<lparr>shares := [example_share]\<rparr>"

section \<open>Statements that involve several tables\<close>

definition share_by_id :: "db \<Rightarrow> int \<Rightarrow> share_row option" where
  "share_by_id d i = sql_first (\<lambda>s. sh_id s = i) (shares d)"

definition unexpired :: "instant option \<Rightarrow> instant \<Rightarrow> bool" where
  "unexpired e now = (case e of None \<Rightarrow> True | Some t \<Rightarrow> now < t)"

text \<open>Deleting a grant deletes its leases; deleting a share deletes every row that refers
  to it.\<close>

definition delete_grants :: "(grant_row \<Rightarrow> bool) \<Rightarrow> db \<Rightarrow> db" where
  "delete_grants P d =
     (let gone = filter P (grants d) in
      d\<lparr>grants := sql_delete P (grants d),
        leases := sql_delete (\<lambda>l. list_ex (\<lambda>g. gr_id g = ls_grant_id l) gone) (leases d)\<rparr>)"

definition delete_shares :: "(share_row \<Rightarrow> bool) \<Rightarrow> db \<Rightarrow> db" where
  "delete_shares P d =
     (let gone = filter P (shares d);
          of_gone = (\<lambda>i. list_ex (\<lambda>s. sh_id s = i) gone);
          d1 = delete_grants (\<lambda>g. of_gone (gr_share_id g)) d in
      d1\<lparr>shares := sql_delete P (shares d1),
         unlock_sessions := sql_delete (\<lambda>u. of_gone (unl_share_id u)) (unlock_sessions d1),
         preview_sessions := sql_delete (\<lambda>p. of_gone (prv_share_id p)) (preview_sessions d1),
         upload_usage := sql_delete (\<lambda>u. of_gone (us_share_id u)) (upload_usage d1),
         upload_reservations :=
           sql_delete (\<lambda>r. of_gone (rs_share_id r)) (upload_reservations d1)\<rparr>)"

definition grant_identity :: "grant_row \<Rightarrow> rstr \<times> int \<times> rstr \<times> rstr" where
  "grant_identity g = (gr_session_token_hash g, gr_share_id g, gr_resource_key g, gr_action g)"

definition insert_lease :: "lease_row \<Rightarrow> db \<Rightarrow> db_error + db" where
  "insert_lease l d =
     (if sql_exists (\<lambda>x. ls_token_hash x = ls_token_hash l) (leases d) then Inl ConstraintUnique
      else Inr (d\<lparr>leases := leases d @ [l]\<rparr>))"

definition insert_grant :: "grant_row \<Rightarrow> db \<Rightarrow> db_error + db" where
  "insert_grant g d =
     (if gr_resource_key g = [] \<or> gr_action g = [] then Inl ConstraintCheck
      else if sql_exists (\<lambda>x. gr_id x = gr_id g \<or> grant_identity x = grant_identity g) (grants d)
      then Inl ConstraintUnique
      else Inr (d\<lparr>grants := grants d @ [g]\<rparr>))"

text \<open>The tail of a transaction with required audit events: the events are inserted before
  the commit, and a failure to insert them rolls everything back to \<open>d0\<close>.\<close>

definition commit_audited ::
  "instant \<Rightarrow> audit_context \<Rightarrow> required_audit_event list \<Rightarrow> 'a \<Rightarrow> db \<Rightarrow> db \<Rightarrow> 'a outcome" where
  "commit_audited now ctx evs out d0 d1 =
     (case insert_required_audits now (runtime_settings d1) ctx evs (audit d1) of
        Inl e \<Rightarrow> (Inl e, d0)
      | Inr rows \<Rightarrow> (Inr out, d1\<lparr>audit := rows\<rparr>))"

text \<open>\<open>required_transaction_audited\<close>: validate the context, run the operation, insert the
  audits it asks for, commit.\<close>

definition required_transaction ::
  "instant \<Rightarrow> audit_context \<Rightarrow> (db \<Rightarrow> db_error + ('a \<times> required_audit_event list) \<times> db)
     \<Rightarrow> db \<Rightarrow> 'a outcome" where
  "required_transaction now ctx operation d =
     (case validate_context ctx of
        Inl e \<Rightarrow> (Inl e, d)
      | Inr _ \<Rightarrow>
          (case operation d of
             Inl e \<Rightarrow> (Inl e, d)
           | Inr ((out, evs), d1) \<Rightarrow> commit_audited now ctx evs out d d1))"

section \<open>Keys\<close>

definition wf_shares :: "share_row list \<Rightarrow> bool" where
  "wf_shares rows = distinct (map sh_id rows)"

definition wf_grants :: "grant_row list \<Rightarrow> bool" where
  "wf_grants rows = distinct (map gr_id rows)"

definition wf_grant_identities :: "grant_row list \<Rightarrow> bool" where
  "wf_grant_identities rows = distinct (map grant_identity rows)"

definition wf_leases :: "lease_row list \<Rightarrow> bool" where
  "wf_leases rows = distinct (map ls_token_hash rows)"

definition wf_usage :: "usage_row list \<Rightarrow> bool" where
  "wf_usage rows = distinct (map us_share_id rows)"

definition wf_reservations :: "reservation_row list \<Rightarrow> bool" where
  "wf_reservations rows = distinct (map rs_token_hash rows)"

definition wf_operations :: "operation_row list \<Rightarrow> bool" where
  "wf_operations rows = distinct (map op_id_hash rows)"

interpretation share_table: keyed_table sh_id wf_shares
  by unfold_locales (simp add: wf_shares_def)

interpretation grant_table: keyed_table gr_id wf_grants
  by unfold_locales (simp add: wf_grants_def)

interpretation grant_identity_index: keyed_table grant_identity wf_grant_identities
  by unfold_locales (simp add: wf_grant_identities_def)

interpretation lease_table: keyed_table ls_token_hash wf_leases
  by unfold_locales (simp add: wf_leases_def)

interpretation usage_table: keyed_table us_share_id wf_usage
  by unfold_locales (simp add: wf_usage_def)

interpretation reservation_table: keyed_table rs_token_hash wf_reservations
  by unfold_locales (simp add: wf_reservations_def)

interpretation operation_table: keyed_table op_id_hash wf_operations
  by unfold_locales (simp add: wf_operations_def)

section \<open>Integrity of the shared tables\<close>

definition share_refs :: "db \<Rightarrow> int set" where
  "share_refs d = sh_id ` set (shares d)"

definition wf_store :: "db \<Rightarrow> bool" where
  "wf_store d \<longleftrightarrow>
     wf_shares (shares d) \<and> wf_grants (grants d) \<and> wf_grant_identities (grants d)
     \<and> wf_leases (leases d) \<and> wf_usage (upload_usage d) \<and> wf_reservations (upload_reservations d)
     \<and> wf_operations (upload_operations d) \<and> wf_audit (audit d)
     \<and> gr_share_id ` set (grants d) \<subseteq> share_refs d
     \<and> ls_grant_id ` set (leases d) \<subseteq> gr_id ` set (grants d)
     \<and> us_share_id ` set (upload_usage d) \<subseteq> share_refs d
     \<and> rs_share_id ` set (upload_reservations d) \<subseteq> share_refs d"

lemma wf_storeD:
  assumes "wf_store d"
  shows "wf_shares (shares d)" "wf_grants (grants d)" "wf_grant_identities (grants d)"
    "wf_leases (leases d)" "wf_usage (upload_usage d)" "wf_reservations (upload_reservations d)"
    "wf_operations (upload_operations d)" "wf_audit (audit d)"
    "gr_share_id ` set (grants d) \<subseteq> share_refs d"
    "ls_grant_id ` set (leases d) \<subseteq> gr_id ` set (grants d)"
    "us_share_id ` set (upload_usage d) \<subseteq> share_refs d"
    "rs_share_id ` set (upload_reservations d) \<subseteq> share_refs d"
  using assms by (simp_all add: wf_store_def)

lemma share_by_id_Some:
  "share_by_id d i = Some s \<Longrightarrow> s \<in> set (shares d) \<and> sh_id s = i"
  unfolding share_by_id_def by (rule sql_first_Some)

lemma share_by_id_member:
  "wf_store d \<Longrightarrow> s \<in> set (shares d) \<Longrightarrow> share_by_id d (sh_id s) = Some s"
  unfolding share_by_id_def
  by (rule share_table.lookup_member) (auto simp: wf_store_def)

lemma delete_grants_simps [simp]:
  "shares (delete_grants P d) = shares d"
  "grants (delete_grants P d) = sql_delete P (grants d)"
  "audit (delete_grants P d) = audit d"
  "unlock_sessions (delete_grants P d) = unlock_sessions d"
  "runtime_settings (delete_grants P d) = runtime_settings d"
  "monthly_counts (delete_grants P d) = monthly_counts d"
  "upload_usage (delete_grants P d) = upload_usage d"
  "upload_reservations (delete_grants P d) = upload_reservations d"
  "upload_operations (delete_grants P d) = upload_operations d"
  by (simp_all add: delete_grants_def Let_def)

lemma share_refs_cong: "shares d' = shares d \<Longrightarrow> share_refs d' = share_refs d"
  by (simp add: share_refs_def)

lemma delete_grants_leases:
  "set (leases (delete_grants P d)) =
     {l \<in> set (leases d). \<not> (\<exists>g\<in>set (grants d). P g \<and> gr_id g = ls_grant_id l)}"
  by (auto simp: delete_grants_def Let_def list_ex_iff)

lemma delete_grants_wf: "wf_store d \<Longrightarrow> wf_store (delete_grants P d)"
proof -
  assume wf: "wf_store d"
  have "ls_grant_id ` set (leases (delete_grants P d)) \<subseteq> gr_id ` set (grants (delete_grants P d))"
    using wf_storeD(10)[OF wf] by (fastforce simp: delete_grants_leases)
  moreover have "wf_leases (leases (delete_grants P d))"
    using lease_table.delete[OF wf_storeD(4)[OF wf]] by (simp add: delete_grants_def Let_def)
  ultimately show ?thesis
    using wf_storeD[OF wf] grant_table.delete grant_identity_index.delete
    by (auto simp: wf_store_def share_refs_def)
qed

lemma update_grants_wf:
  assumes "wf_store d" "\<And>g. gr_id (f g) = gr_id g" "\<And>g. grant_identity (f g) = grant_identity g"
  shows "wf_store (d\<lparr>grants := sql_update Q f (grants d)\<rparr>)"
proof -
  have "gr_share_id (f g) = gr_share_id g" for g using assms(3)[of g] by (simp add: grant_identity_def)
  then have "gr_share_id ` set (sql_update Q f (grants d)) = gr_share_id ` set (grants d)"
    "gr_id ` set (sql_update Q f (grants d)) = gr_id ` set (grants d)"
    using assms(2) by (simp_all add: image_update_key)
  then show ?thesis
    using assms grant_table.update[of "grants d" Q f] grant_identity_index.update[of "grants d" Q f]
    by (auto simp: wf_store_def share_refs_def)
qed

lemma update_shares_wf:
  assumes "wf_store d" "\<And>s. sh_id (f s) = sh_id s"
  shows "wf_store (d\<lparr>shares := sql_update Q f (shares d)\<rparr>)"
proof -
  have "sh_id ` set (sql_update Q f (shares d)) = sh_id ` set (shares d)"
    using assms(2) by (rule image_update_key)
  then show ?thesis
    using assms share_table.update[of "shares d" Q f] by (auto simp: wf_store_def share_refs_def)
qed

lemma update_leases_wf:
  assumes "wf_store d" "\<And>l. ls_token_hash (f l) = ls_token_hash l" "\<And>l. ls_grant_id (f l) = ls_grant_id l"
  shows "wf_store (d\<lparr>leases := sql_update Q f (leases d)\<rparr>)"
proof -
  have "ls_grant_id ` set (sql_update Q f (leases d)) = ls_grant_id ` set (leases d)"
    using assms(3) by (rule image_update_key)
  then show ?thesis
    using assms lease_table.update[of "leases d" Q f] by (auto simp: wf_store_def share_refs_def)
qed

lemma wf_store_frame [simp]:
  "wf_store (d\<lparr>monthly_counts := mc\<rparr>) = wf_store d"
  "wf_store (d\<lparr>unlock_sessions := us\<rparr>) = wf_store d"
  "wf_store (d\<lparr>preview_sessions := ps\<rparr>) = wf_store d"
  by (simp_all add: wf_store_def share_refs_def)

lemma insert_lease_Inr:
  "insert_lease l d = Inr d' \<longleftrightarrow>
     d' = d\<lparr>leases := leases d @ [l]\<rparr> \<and> (\<forall>x\<in>set (leases d). ls_token_hash x \<noteq> ls_token_hash l)"
  by (auto simp: insert_lease_def sql_exists_iff)

lemma insert_lease_wf:
  "wf_store d \<Longrightarrow> insert_lease l d = Inr d' \<Longrightarrow> ls_grant_id l \<in> gr_id ` set (grants d) \<Longrightarrow> wf_store d'"
  using lease_table.insert_fresh[of "leases d" l]
  by (auto simp: wf_store_def insert_lease_Inr share_refs_def)

lemma commit_audited_cases:
  assumes "commit_audited now ctx evs out d0 d1 = (r, d')"
  obtains (failed) e where "r = Inl e" "is_audit_unavailable e" "d' = d0"
  | (committed) new where "r = Inr out" "d' = d1\<lparr>audit := audit d1 @ new\<rparr>"
      "list_all2 (row_records ctx) evs new"
      "wf_audit (audit d1) \<Longrightarrow> wf_audit (audit d1 @ new)"
proof (cases "insert_required_audits now (runtime_settings d1) ctx evs (audit d1)")
  case (Inl e)
  then show ?thesis
    using assms insert_required_audits_error[OF Inl] failed by (auto simp: commit_audited_def)
next
  case (Inr rows)
  then show ?thesis
    using assms insert_required_audits_appends[OF Inr] insert_required_audits_wf[OF Inr] committed
    by (auto simp: commit_audited_def)
qed

lemma wf_store_audit: "wf_store d \<Longrightarrow> wf_audit rows \<Longrightarrow> wf_store (d\<lparr>audit := rows\<rparr>)"
  by (auto simp: wf_store_def share_refs_def)

lemma permission_parse_as_str: "permission_parse (permission_as_str p) = Some p"
  by (cases p) (simp_all add: permission_parse_def)

lemma strategy_parse_as_str: "strategy_parse (strategy_as_str p) = Some p"
  by (cases p) (simp_all add: strategy_parse_def)

end
