(* ===== verification/Admin_Sessions.thy ===== *)
theory Admin_Sessions
  imports Store
begin

text \<open>
  Administrator sessions (\<open>src/src/db/auth.rs\<close>, \<open>src/src/db/auth/sessions.rs\<close>): a password
  opens a session without the second factor, a TOTP code or a security key turns it into a
  verified one under a new token, and every privileged mutation re-checks the exact verified
  session inside its own transaction. \<open>idle\<close> is the configured idle timeout in minutes.
\<close>

section \<open>Live sessions\<close>

record session =
  s_admin_id :: int
  s_username :: rstr
  s_csrf_token :: rstr
  s_mfa_verified :: bool

record mfa_session_proof =
  prf_token_hash :: rstr
  prf_admin_id :: int

datatype 'a session_bound = Authorized 'a | SessionUnavailable

datatype mfa_session_authentication = Authenticated session mfa_session_proof | MfaRequired

datatype password_session_outcome = Created | AdminNotFound | AdminInactive | StalePassword

definition SESSION_TOUCH_INTERVAL_SECONDS :: int where
  "SESSION_TOUCH_INTERVAL_SECONDS = 60"

definition idle_cutoff :: "int \<Rightarrow> instant \<Rightarrow> instant" where
  "idle_cutoff idle now = now - seconds (idle * 60)"

definition touch_cutoff :: "instant \<Rightarrow> instant" where
  "touch_cutoff now = now - seconds SESSION_TOUCH_INTERVAL_SECONDS"

definition live_session :: "int \<Rightarrow> instant \<Rightarrow> session_row \<Rightarrow> bool" where
  "live_session idle now s \<longleftrightarrow> now < ses_expires_at s \<and> idle_cutoff idle now < ses_last_activity_at s"

definition admin_active :: "int \<Rightarrow> db \<Rightarrow> bool" where
  "admin_active i d \<longleftrightarrow> sql_exists (\<lambda>a. adm_id a = i \<and> adm_active a) (admins d)"

definition live_mfa_session :: "mfa_session_proof \<Rightarrow> int \<Rightarrow> instant \<Rightarrow> db \<Rightarrow> bool" where
  "live_mfa_session proof idle now d \<longleftrightarrow>
     sql_exists (\<lambda>s. ses_token_hash s = prf_token_hash proof \<and> ses_admin_id s = prf_admin_id proof
        \<and> ses_mfa_verified s \<and> live_session idle now s \<and> admin_active (ses_admin_id s) d) (sessions d)"

definition delete_stale_sessions :: "int \<Rightarrow> instant \<Rightarrow> db \<Rightarrow> db" where
  "delete_stale_sessions idle now d =
     d\<lparr>sessions := sql_delete (\<lambda>s. ses_expires_at s \<le> now \<or> ses_last_activity_at s \<le> idle_cutoff idle now)
        (sessions d)\<rparr>"

definition admin_by_id :: "int \<Rightarrow> db \<Rightarrow> admin_row option" where
  "admin_by_id i d = sql_first (\<lambda>a. adm_id a = i) (admins d)"

section \<open>TOTP steps\<close>

text \<open>A code belongs to a 30 second step; a step is accepted when it is later than the last one
  accepted for the administrator.\<close>

definition admin_totp_step_is_fresh :: "int \<Rightarrow> nat \<Rightarrow> db \<Rightarrow> bool" where
  "admin_totp_step_is_fresh i step d \<longleftrightarrow> step \<le> i64_max \<and> admin_active i d
     \<and> \<not> sql_exists (\<lambda>r. fst r = i \<and> int step \<le> snd r) (totp_replay d)"

definition consume_admin_totp_step :: "int \<Rightarrow> nat \<Rightarrow> db \<Rightarrow> bool \<times> db" where
  "consume_admin_totp_step i step d =
     (if \<not> admin_totp_step_is_fresh i step d then (False, d)
      else if sql_exists (\<lambda>r. fst r = i) (totp_replay d)
      then (sql_count (\<lambda>r. fst r = i \<and> snd r < int step) (totp_replay d) = 1,
            d\<lparr>totp_replay := sql_update (\<lambda>r. fst r = i \<and> snd r < int step) (\<lambda>r. (fst r, int step))
               (totp_replay d)\<rparr>)
      else (True, d\<lparr>totp_replay := totp_replay d @ [(i, int step)]\<rparr>))"

section \<open>Opening, reading and closing a session\<close>

definition finish_audited ::
  "audit_context option \<Rightarrow> instant \<Rightarrow> required_audit_event list \<Rightarrow> 'a \<Rightarrow> db \<Rightarrow> db \<Rightarrow> 'a outcome" where
  "finish_audited required_audit now evs out d0 d1 =
     (case required_audit of None \<Rightarrow> (Inr out, d1) | Some ctx \<Rightarrow> commit_audited now ctx evs out d0 d1)"

definition create_session_for_verified_password ::
  "(rstr \<Rightarrow> rstr) \<Rightarrow> int \<Rightarrow> rstr \<Rightarrow> int \<Rightarrow> rstr \<Rightarrow> rstr \<Rightarrow> instant \<Rightarrow> audit_context option \<Rightarrow> instant
     \<Rightarrow> db \<Rightarrow> password_session_outcome outcome" where
  "create_session_for_verified_password th idle token i expected csrf expires required_audit now d =
     (let d1 = delete_stale_sessions idle now d in
      if sql_exists (\<lambda>a. adm_id a = i \<and> adm_password_hash a = expected \<and> adm_active a) (admins d1)
      then
        if sql_exists (\<lambda>s. ses_token_hash s = th token) (sessions d1) then (Inl ConstraintUnique, d)
        else finish_audited required_audit now [audit_event PasswordVerified None None] Created d
          (d1\<lparr>sessions := sessions d1 @ [\<lparr>ses_token_hash = th token, ses_admin_id = i,
             ses_csrf_token = csrf, ses_mfa_verified = False, ses_expires_at = expires,
             ses_last_activity_at = now\<rparr>]\<rparr>)
      else
        case admin_by_id i d1 of
          None \<Rightarrow> finish_audited required_audit now [] AdminNotFound d d1
        | Some a \<Rightarrow>
            if \<not> adm_active a then finish_audited required_audit now [] AdminInactive d d1
            else if adm_password_hash a \<noteq> expected then finish_audited required_audit now [] StalePassword d d1
            else (Inl InvalidQuery, d))"

definition session_at :: "(rstr \<Rightarrow> rstr) \<Rightarrow> int \<Rightarrow> rstr \<Rightarrow> instant \<Rightarrow> db \<Rightarrow> session option \<times> db" where
  "session_at th idle token now d =
     (let h = th token in
      case sql_first (\<lambda>s. ses_token_hash s = h \<and> live_session idle now s \<and> admin_active (ses_admin_id s) d)
             (sessions d) of
        Some s \<Rightarrow>
          (Some \<lparr>s_admin_id = ses_admin_id s,
             s_username = (case admin_by_id (ses_admin_id s) d of Some a \<Rightarrow> adm_username a | None \<Rightarrow> []),
             s_csrf_token = ses_csrf_token s, s_mfa_verified = ses_mfa_verified s\<rparr>,
           if ses_last_activity_at s \<le> touch_cutoff now
           then d\<lparr>sessions := sql_update (\<lambda>x. ses_token_hash x = h \<and> ses_last_activity_at x \<le> touch_cutoff now
                    \<and> live_session idle now x) (ses_last_activity_at_update (\<lambda>_. now)) (sessions d)\<rparr>
           else d)
      | None \<Rightarrow>
          (None, d\<lparr>sessions := sql_delete (\<lambda>x. ses_token_hash x = h
             \<and> (ses_expires_at x \<le> now \<or> ses_last_activity_at x \<le> idle_cutoff idle now)) (sessions d)\<rparr>))"

definition authenticated_mfa_session ::
  "(rstr \<Rightarrow> rstr) \<Rightarrow> int \<Rightarrow> rstr \<Rightarrow> instant \<Rightarrow> db \<Rightarrow> mfa_session_authentication option \<times> db" where
  "authenticated_mfa_session th idle token now d =
     (case session_at th idle token now d of
        (None, d') \<Rightarrow> (None, d')
      | (Some s, d') \<Rightarrow>
          (Some (if s_mfa_verified s
             then Authenticated s \<lparr>prf_token_hash = th token, prf_admin_id = s_admin_id s\<rparr>
             else MfaRequired), d'))"

text \<open>\<open>required_transaction_for_mfa_session_with_commit_audited\<close>.\<close>

definition required_transaction_for_mfa_session ::
  "mfa_session_proof \<Rightarrow> int \<Rightarrow> instant \<Rightarrow> audit_context
     \<Rightarrow> (db \<Rightarrow> db_error + ('a \<times> required_audit_event list) \<times> db) \<Rightarrow> db \<Rightarrow> 'a session_bound outcome" where
  "required_transaction_for_mfa_session proof idle now ctx operation d =
     (if \<not> live_mfa_session proof idle now d then (Inr SessionUnavailable, d)
      else case validate_context ctx of
        Inl e \<Rightarrow> (Inl e, d)
      | Inr _ \<Rightarrow>
          (case operation d of
             Inl e \<Rightarrow> (Inl e, d)
           | Inr ((out, evs), d1) \<Rightarrow> commit_audited now ctx evs (Authorized out) d d1))"

text \<open>\<open>with_live_mfa_fence\<close> runs an action outside the database under the writer slot and
  changes no row.\<close>

definition with_live_mfa_fence ::
  "mfa_session_proof \<Rightarrow> int \<Rightarrow> instant \<Rightarrow> (unit \<Rightarrow> db_error + 'a) \<Rightarrow> db \<Rightarrow> 'a session_bound outcome" where
  "with_live_mfa_fence proof idle now action d =
     (if \<not> live_mfa_session proof idle now d then (Inr SessionUnavailable, d)
      else case action () of Inl e \<Rightarrow> (Inl e, d) | Inr x \<Rightarrow> (Inr (Authorized x), d))"

section \<open>The second factor\<close>

definition unverified_session :: "rstr \<Rightarrow> int \<Rightarrow> int \<Rightarrow> instant \<Rightarrow> session_row \<Rightarrow> bool" where
  "unverified_session h i idle now s \<longleftrightarrow> ses_token_hash s = h \<and> ses_admin_id s = i
     \<and> live_session idle now s \<and> \<not> ses_mfa_verified s"

text \<open>The \<open>UPDATE sessions\<close> that verifies a session and gives it a new token, with the number
  of rows it changed.\<close>

definition rotate_session ::
  "rstr \<Rightarrow> rstr \<Rightarrow> rstr \<Rightarrow> int \<Rightarrow> int \<Rightarrow> instant \<Rightarrow> db \<Rightarrow> db_error + nat \<times> db" where
  "rotate_session old_hash new_hash csrf i idle now d =
     (let P = unverified_session old_hash i idle now in
      if sql_exists P (sessions d) \<and> new_hash \<noteq> old_hash
         \<and> sql_exists (\<lambda>s. ses_token_hash s = new_hash) (sessions d)
      then Inl ConstraintUnique
      else Inr (sql_count P (sessions d),
        d\<lparr>sessions := sql_update P (\<lambda>s. s\<lparr>ses_token_hash := new_hash, ses_csrf_token := csrf,
           ses_mfa_verified := True, ses_last_activity_at := now\<rparr>) (sessions d)\<rparr>))"

definition verify_mfa_with_totp_step ::
  "(rstr \<Rightarrow> rstr) \<Rightarrow> int \<Rightarrow> rstr \<Rightarrow> rstr \<Rightarrow> rstr \<Rightarrow> int \<Rightarrow> nat \<Rightarrow> audit_context option \<Rightarrow> instant
     \<Rightarrow> db \<Rightarrow> bool outcome" where
  "verify_mfa_with_totp_step th idle old_token new_token csrf i step required_audit now d =
     (let valid = sql_exists (unverified_session (th old_token) i idle now) (sessions d)
            \<and> sql_exists (\<lambda>a. adm_id a = i \<and> adm_active a \<and> adm_totp_enabled a) (admins d) in
      if \<not> valid then (Inr False, d)
      else case consume_admin_totp_step i step d of
        (False, d1) \<Rightarrow> (Inr False, d1)
      | (True, d1) \<Rightarrow>
          (case rotate_session (th old_token) (th new_token) csrf i idle now d1 of
             Inl e \<Rightarrow> (Inl e, d)
           | Inr (changed, d2) \<Rightarrow>
               if changed \<noteq> 1 then (Inl InvalidQuery, d)
               else finish_audited required_audit now [audit_event LoginSuccess None None] True d d2))"

definition complete_webauthn_mfa ::
  "(rstr \<Rightarrow> rstr) \<Rightarrow> int \<Rightarrow> rstr \<Rightarrow> rstr \<Rightarrow> rstr \<Rightarrow> int \<Rightarrow> int \<Rightarrow> rstr \<Rightarrow> rstr \<Rightarrow> audit_context option
     \<Rightarrow> instant \<Rightarrow> db \<Rightarrow> bool outcome" where
  "complete_webauthn_mfa th idle old_token new_token csrf cid i expected_blob updated_blob required_audit now d =
     (let Q = (\<lambda>c. crd_id c = cid \<and> crd_admin_id c = i \<and> crd_credential_blob c = expected_blob
                 \<and> sql_exists (unverified_session (th old_token) i idle now) (sessions d));
          d1 = d\<lparr>webauthn_credentials := sql_update Q
             (\<lambda>c. c\<lparr>crd_credential_blob := updated_blob, crd_last_used_at := Some now\<rparr>) (webauthn_credentials d)\<rparr> in
      if sql_count Q (webauthn_credentials d) \<noteq> 1 then (Inr False, d)
      else case rotate_session (th old_token) (th new_token) csrf i idle now d1 of
        Inl e \<Rightarrow> (Inl e, d)
      | Inr (changed, d2) \<Rightarrow>
          if changed \<noteq> 1 then (Inr False, d)
          else finish_audited required_audit now [audit_event LoginSuccessWebauthn None None] True d d2)"

definition delete_session :: "(rstr \<Rightarrow> rstr) \<Rightarrow> rstr \<Rightarrow> audit_context \<Rightarrow> instant \<Rightarrow> db \<Rightarrow> unit outcome" where
  "delete_session th token ctx now =
     required_transaction now ctx (\<lambda>d. Inr (((), [audit_event Logout None None]),
       d\<lparr>sessions := sql_delete (\<lambda>s. ses_token_hash s = th token) (sessions d)\<rparr>))"

end
