(* ===== verification/Admin_Accounts.thy ===== *)
theory Admin_Accounts
  imports Admin_Sessions
begin

text \<open>
  Administrator accounts (\<open>src/src/db/auth/admins.rs\<close>, \<open>mfa.rs\<close>, \<open>webauthn.rs\<close>, \<open>common.rs\<close>):
  creation, activation, passwords, TOTP enrollment and security keys. Secret encryption and
  decryption of the key ring are the parameters \<open>encrypt\<close> and \<open>decrypt\<close>, Unicode lower casing
  is \<open>lower\<close>. An operation that a session authorizes is a closure which
  \<open>required_transaction_for_mfa_session\<close> runs.
\<close>

section \<open>Secrets\<close>

type_synonym encrypt = "rstr \<Rightarrow> rstr \<Rightarrow> db_error + nat \<times> rstr"

type_synonym decrypt = "nat \<Rightarrow> rstr \<Rightarrow> rstr \<Rightarrow> db_error + rstr"

definition encrypt_admin_totp :: "encrypt \<Rightarrow> (rstr \<Rightarrow> rstr) \<Rightarrow> rstr \<Rightarrow> rstr \<Rightarrow> db_error + nat \<times> rstr" where
  "encrypt_admin_totp encrypt lower username secret = encrypt secret (lit ''admins.totp:'' @ lower username)"

definition encrypt_enrollment_totp :: "encrypt \<Rightarrow> rstr \<Rightarrow> rstr \<Rightarrow> db_error + nat \<times> rstr" where
  "encrypt_enrollment_totp encrypt h secret = encrypt secret (lit ''admin_mfa_enrollments.totp:'' @ h)"

definition decrypt_enrollment_totp :: "decrypt \<Rightarrow> rstr \<Rightarrow> nat \<Rightarrow> rstr \<Rightarrow> db_error + rstr" where
  "decrypt_enrollment_totp decrypt h key_id ciphertext =
     decrypt key_id ciphertext (lit ''admin_mfa_enrollments.totp:'' @ h)"

section \<open>Accounts\<close>

datatype initial_admin_outcome = CreatedInitial | AlreadyInitialized

datatype admin_deactivation_outcome = Deactivated | AlreadyInactive | LastActive | NotFound

datatype admin_recovery_outcome = Recovered int rstr bool | NotFound

datatype admin_password_change_outcome = Changed | StalePassword | Inactive | NotFound

record admin_summary =
  sum_id :: int
  sum_username :: rstr
  sum_created_at :: instant
  sum_active :: bool

definition insert_admin :: "rstr \<Rightarrow> rstr \<Rightarrow> nat \<times> rstr \<Rightarrow> instant \<Rightarrow> db \<Rightarrow> db_error + int \<times> db" where
  "insert_admin username password_hash totp now d =
     (if sql_exists (\<lambda>a. eq_ignore_ascii_case (adm_username a) username) (admins d)
      then Inl ConstraintUnique
      else
        let i = next_rowid (map adm_id (admins d)) in
        Inr (i, d\<lparr>admins := admins d @ [\<lparr>adm_id = i, adm_username = username,
          adm_password_hash = password_hash, adm_totp_key_id = fst totp, adm_totp_ciphertext = snd totp,
          adm_totp_generation = 1, adm_totp_enabled = True, adm_created_at = now, adm_active = True\<rparr>]\<rparr>))"

definition create_initial_admin ::
  "encrypt \<Rightarrow> (rstr \<Rightarrow> rstr) \<Rightarrow> rstr \<Rightarrow> rstr \<Rightarrow> rstr \<Rightarrow> audit_context \<Rightarrow> instant \<Rightarrow> db
     \<Rightarrow> initial_admin_outcome outcome" where
  "create_initial_admin encrypt lower username password_hash secret ctx now d =
     (case encrypt_admin_totp encrypt lower username secret of
        Inl e \<Rightarrow> (Inl e, d)
      | Inr totp \<Rightarrow>
          required_transaction now ctx (\<lambda>d.
            if admins d \<noteq> [] then Inr ((AlreadyInitialized, []), d)
            else case insert_admin username password_hash totp now d of
              Inl e \<Rightarrow> Inl e
            | Inr (i, d1) \<Rightarrow>
                Inr ((CreatedInitial, [audit_event InitialAdminCreated (Some (dec_int i)) None]), d1)) d)"

definition create_admin ::
  "rstr \<Rightarrow> rstr \<Rightarrow> nat \<times> rstr \<Rightarrow> instant \<Rightarrow> db \<Rightarrow> db_error + (admin_summary \<times> required_audit_event list) \<times> db" where
  "create_admin username password_hash totp now d =
     (case insert_admin username password_hash totp now d of
        Inl e \<Rightarrow> Inl e
      | Inr (i, d1) \<Rightarrow>
          Inr ((\<lparr>sum_id = i, sum_username = username, sum_created_at = now, sum_active = True\<rparr>,
            [audit_event AdminCreated (Some (dec_int i)) None]), d1))"

definition revoke_admin_auth_state :: "int \<Rightarrow> db \<Rightarrow> db" where
  "revoke_admin_auth_state i d =
     d\<lparr>sessions := sql_delete (\<lambda>s. ses_admin_id s = i) (sessions d),
       mfa_enrollments := sql_delete (\<lambda>e. enr_admin_id e = i) (mfa_enrollments d)\<rparr>"

definition activate_admin :: "int \<Rightarrow> db \<Rightarrow> db_error + (bool \<times> required_audit_event list) \<times> db" where
  "activate_admin i d =
     (let changed = (sql_count (\<lambda>a. adm_id a = i) (admins d) = 1) in
      Inr ((changed, if changed then [audit_event AdminActivated (Some (dec_int i)) None] else []),
        d\<lparr>admins := sql_update (\<lambda>a. adm_id a = i) (adm_active_update (\<lambda>_. True)) (admins d)\<rparr>))"

definition deactivate_admin ::
  "int \<Rightarrow> db \<Rightarrow> db_error + (admin_deactivation_outcome \<times> required_audit_event list) \<times> db" where
  "deactivate_admin i d =
     (let ev = [audit_event AdminDeactivated (Some (dec_int i)) None] in
      case admin_by_id i d of
        None \<Rightarrow> Inr ((admin_deactivation_outcome.NotFound, []), d)
      | Some a \<Rightarrow>
          if \<not> adm_active a then Inr ((AlreadyInactive, ev), revoke_admin_auth_state i d)
          else
            let P = (\<lambda>a. adm_id a = i \<and> adm_active a
                      \<and> sql_exists (\<lambda>b. adm_active b \<and> adm_id b \<noteq> i) (admins d)) in
            if sql_count P (admins d) = 1
            then Inr ((Deactivated, ev), revoke_admin_auth_state i
              (d\<lparr>admins := sql_update P (adm_active_update (\<lambda>_. False)) (admins d)\<rparr>))
            else Inr ((LastActive, []), d\<lparr>admins := sql_update P (adm_active_update (\<lambda>_. False)) (admins d)\<rparr>))"

definition clear_second_factors :: "int \<Rightarrow> db \<Rightarrow> db" where
  "clear_second_factors i d =
     d\<lparr>webauthn_credentials := sql_delete (\<lambda>c. crd_admin_id c = i) (webauthn_credentials d),
       totp_replay := sql_delete (\<lambda>r. fst r = i) (totp_replay d)\<rparr>"

definition recover_admin ::
  "encrypt \<Rightarrow> (rstr \<Rightarrow> rstr) \<Rightarrow> rstr \<Rightarrow> rstr option \<Rightarrow> rstr option \<Rightarrow> instant \<Rightarrow> db
     \<Rightarrow> admin_recovery_outcome outcome" where
  "recover_admin encrypt lower username password_hash secret now d =
     (if password_hash = None \<and> secret = None
      then (Inl (InvalidParameterName (lit ''password_hash or totp_secret'')), d)
      else case sql_first (\<lambda>a. eq_ignore_ascii_case (adm_username a) username) (admins d) of
        None \<Rightarrow> (Inr admin_recovery_outcome.NotFound, d)
      | Some a \<Rightarrow>
          (case (case secret of None \<Rightarrow> Inr None
                 | Some s \<Rightarrow> (case encrypt_admin_totp encrypt lower (adm_username a) s of
                     Inl e \<Rightarrow> Inl e | Inr totp \<Rightarrow> Inr (Some totp))) of
             Inl e \<Rightarrow> (Inl e, d)
           | Inr totp \<Rightarrow>
               let i = adm_id a;
                   d1 = d\<lparr>admins := sql_update (\<lambda>b. adm_id b = i)
                     (\<lambda>b. b\<lparr>adm_password_hash := (case password_hash of None \<Rightarrow> adm_password_hash b | Some h \<Rightarrow> h),
                        adm_totp_key_id := (case totp of None \<Rightarrow> adm_totp_key_id b | Some t \<Rightarrow> fst t),
                        adm_totp_ciphertext := (case totp of None \<Rightarrow> adm_totp_ciphertext b | Some t \<Rightarrow> snd t),
                        adm_totp_generation := adm_totp_generation b + (if totp = None then 0 else 1),
                        adm_totp_enabled := (if totp = None then adm_totp_enabled b else True)\<rparr>) (admins d)\<rparr>;
                   d2 = (if secret = None then d1 else clear_second_factors i d1);
                   ev = audit_event AdminRecovered (Some (dec_int i))
                     (Some (lit ''reset_password='' @ lit (if password_hash = None then ''false'' else ''true'')
                        @ lit '';reset_mfa='' @ lit (if secret = None then ''false'' else ''true''))) in
               commit_audited now \<lparr>actor = lit ''local_recovery'', ctx_client_ip = None\<rparr> [ev]
                 (Recovered i (adm_username a) (adm_active a)) d (revoke_admin_auth_state i d2)))"

definition change_admin_password_cas ::
  "int \<Rightarrow> rstr \<Rightarrow> rstr \<Rightarrow> db \<Rightarrow> db_error + (admin_password_change_outcome \<times> required_audit_event list) \<times> db" where
  "change_admin_password_cas i expected new_hash d =
     (case admin_by_id i d of
        None \<Rightarrow> Inr ((admin_password_change_outcome.NotFound, []), d)
      | Some a \<Rightarrow>
          if \<not> adm_active a then Inr ((Inactive, []), d)
          else if adm_password_hash a \<noteq> expected then Inr ((admin_password_change_outcome.StalePassword, []), d)
          else
            let P = (\<lambda>b. adm_id b = i \<and> adm_password_hash b = expected) in
            if sql_count P (admins d) \<noteq> 1 then Inl InvalidQuery
            else Inr ((Changed, [audit_event AccountPasswordChanged (Some (dec_int i)) None]),
              revoke_admin_auth_state i
                (d\<lparr>admins := sql_update P (adm_password_hash_update (\<lambda>_. new_hash)) (admins d)\<rparr>)))"

definition reset_admin_password ::
  "int \<Rightarrow> rstr \<Rightarrow> db \<Rightarrow> db_error + (bool \<times> required_audit_event list) \<times> db" where
  "reset_admin_password i new_hash d =
     (let changed = (sql_count (\<lambda>a. adm_id a = i) (admins d) = 1);
          d1 = d\<lparr>admins := sql_update (\<lambda>a. adm_id a = i) (adm_password_hash_update (\<lambda>_. new_hash)) (admins d)\<rparr> in
      Inr ((changed, if changed then [audit_event AdminPasswordReset (Some (dec_int i)) None] else []),
        if changed then revoke_admin_auth_state i d1 else d1))"

definition set_admin_totp :: "int \<Rightarrow> nat \<times> rstr \<Rightarrow> db \<Rightarrow> db" where
  "set_admin_totp i totp d =
     d\<lparr>admins := sql_update (\<lambda>a. adm_id a = i) (\<lambda>a. a\<lparr>adm_totp_key_id := fst totp,
        adm_totp_ciphertext := snd totp, adm_totp_generation := adm_totp_generation a + 1,
        adm_totp_enabled := True\<rparr>) (admins d)\<rparr>"

text \<open>The user name and the encrypted secret are read and made before the transaction.\<close>

definition reset_admin_totp ::
  "int \<Rightarrow> (rstr \<times> nat \<times> rstr) option \<Rightarrow> db \<Rightarrow> db_error + (rstr option \<times> required_audit_event list) \<times> db" where
  "reset_admin_totp i account d =
     (case account of
        None \<Rightarrow> Inr ((None, []), d)
      | Some (username, totp) \<Rightarrow>
          Inr ((Some username, [audit_event AdminTotpReset (Some (dec_int i)) None]),
            revoke_admin_auth_state i (clear_second_factors i (set_admin_totp i totp d))))"

definition reset_admin_totp_for_session ::
  "encrypt \<Rightarrow> (rstr \<Rightarrow> rstr) \<Rightarrow> mfa_session_proof \<Rightarrow> int \<Rightarrow> int \<Rightarrow> rstr \<Rightarrow> audit_context \<Rightarrow> instant \<Rightarrow> db
     \<Rightarrow> rstr option session_bound outcome" where
  "reset_admin_totp_for_session encrypt lower proof idle i secret ctx now d =
     (case admin_by_id i d of
        None \<Rightarrow> required_transaction_for_mfa_session proof idle now ctx (reset_admin_totp i None) d
      | Some a \<Rightarrow>
          (case encrypt_admin_totp encrypt lower (adm_username a) secret of
             Inl e \<Rightarrow> (Inl e, d)
           | Inr totp \<Rightarrow> required_transaction_for_mfa_session proof idle now ctx
               (reset_admin_totp i (Some (adm_username a, totp))) d))"

section \<open>TOTP enrollment\<close>

datatype mfa_enrollment_start_outcome = StartedEnrollment instant | TotpRejected

datatype mfa_enrollment_activation_outcome = Activated | NotFoundOrExpired

record pending_enrollment =
  pen_admin_id :: int
  pen_totp_secret :: rstr
  pen_expires_at :: instant

definition ADMIN_MFA_ENROLLMENT_TTL_SECONDS :: int where
  "ADMIN_MFA_ENROLLMENT_TTL_SECONDS = 10 * 60"

definition cleanup_admin_mfa_enrollments :: "instant \<Rightarrow> db \<Rightarrow> db" where
  "cleanup_admin_mfa_enrollments now d =
     d\<lparr>mfa_enrollments := sql_delete (\<lambda>e. enr_expires_at e \<le> now) (mfa_enrollments d)\<rparr>"

definition upsert_enrollment :: "enrollment_row \<Rightarrow> db \<Rightarrow> db_error + db" where
  "upsert_enrollment e d =
     (if sql_exists (\<lambda>x. enr_token_hash x = enr_token_hash e \<and> enr_admin_id x \<noteq> enr_admin_id e) (mfa_enrollments d)
      then Inl ConstraintUnique
      else Inr (d\<lparr>mfa_enrollments :=
        (if sql_exists (\<lambda>x. enr_admin_id x = enr_admin_id e) (mfa_enrollments d)
         then sql_update (\<lambda>x. enr_admin_id x = enr_admin_id e) (\<lambda>_. e) (mfa_enrollments d)
         else mfa_enrollments d @ [e])\<rparr>))"

definition start_admin_mfa_enrollment ::
  "int \<Rightarrow> rstr \<Rightarrow> nat \<times> rstr \<Rightarrow> nat \<Rightarrow> instant \<Rightarrow> db
     \<Rightarrow> db_error + (mfa_enrollment_start_outcome \<times> required_audit_event list) \<times> db" where
  "start_admin_mfa_enrollment i h totp step now d =
     (let expires = now + seconds ADMIN_MFA_ENROLLMENT_TTL_SECONDS in
      case consume_admin_totp_step i step (cleanup_admin_mfa_enrollments now d) of
        (False, d1) \<Rightarrow> Inr ((TotpRejected, []), d1)
      | (True, d1) \<Rightarrow>
          (case upsert_enrollment \<lparr>enr_admin_id = i, enr_token_hash = h, enr_totp_key_id = fst totp,
                  enr_totp_ciphertext = snd totp, enr_created_at = now, enr_expires_at = expires\<rparr> d1 of
             Inl e \<Rightarrow> Inl e
           | Inr d2 \<Rightarrow> Inr ((StartedEnrollment expires,
               [audit_event AccountMfaEnrollmentStarted (Some (dec_int i)) None]), d2)))"

definition start_admin_mfa_enrollment_for_session ::
  "(rstr \<Rightarrow> rstr) \<Rightarrow> encrypt \<Rightarrow> mfa_session_proof \<Rightarrow> int \<Rightarrow> rstr \<Rightarrow> rstr \<Rightarrow> nat \<Rightarrow> audit_context
     \<Rightarrow> instant \<Rightarrow> instant \<Rightarrow> db \<Rightarrow> mfa_enrollment_start_outcome session_bound outcome" where
  "start_admin_mfa_enrollment_for_session th encrypt proof idle token secret step ctx now later d =
     (case encrypt_enrollment_totp encrypt (th token) secret of
        Inl e \<Rightarrow> (Inl e, d)
      | Inr totp \<Rightarrow> required_transaction_for_mfa_session proof idle now ctx
          (start_admin_mfa_enrollment (prf_admin_id proof) (th token) totp step later) d)"

definition pending_enrollment_row :: "int \<Rightarrow> rstr \<Rightarrow> instant \<Rightarrow> db \<Rightarrow> enrollment_row option" where
  "pending_enrollment_row i h now d =
     (if admin_active i d
      then sql_first (\<lambda>e. enr_admin_id e = i \<and> enr_token_hash e = h \<and> now < enr_expires_at e) (mfa_enrollments d)
      else None)"

definition admin_mfa_enrollment ::
  "(rstr \<Rightarrow> rstr) \<Rightarrow> decrypt \<Rightarrow> int \<Rightarrow> rstr \<Rightarrow> instant \<Rightarrow> db \<Rightarrow> pending_enrollment option outcome" where
  "admin_mfa_enrollment th decrypt i token now d =
     (let d1 = cleanup_admin_mfa_enrollments now d in
      case pending_enrollment_row i (th token) now d1 of
        None \<Rightarrow> (Inr None, d1)
      | Some e \<Rightarrow>
          (case decrypt_enrollment_totp decrypt (th token) (enr_totp_key_id e) (enr_totp_ciphertext e) of
             Inl err \<Rightarrow> (Inl err, d)
           | Inr secret \<Rightarrow> (Inr (Some \<lparr>pen_admin_id = enr_admin_id e, pen_totp_secret = secret,
               pen_expires_at = enr_expires_at e\<rparr>), d1)))"

definition activate_admin_mfa_enrollment ::
  "encrypt \<Rightarrow> decrypt \<Rightarrow> (rstr \<Rightarrow> rstr) \<Rightarrow> int \<Rightarrow> rstr \<Rightarrow> nat \<Rightarrow> instant \<Rightarrow> db
     \<Rightarrow> db_error + (mfa_enrollment_activation_outcome \<times> required_audit_event list) \<times> db" where
  "activate_admin_mfa_enrollment encrypt decrypt lower i h step now d =
     (let d1 = cleanup_admin_mfa_enrollments now d in
      case pending_enrollment_row i h now d1 of
        None \<Rightarrow> Inr ((NotFoundOrExpired, []), d1)
      | Some e \<Rightarrow>
          (case decrypt_enrollment_totp decrypt h (enr_totp_key_id e) (enr_totp_ciphertext e) of
             Inl err \<Rightarrow> Inl err
           | Inr secret \<Rightarrow>
               (case encrypt_admin_totp encrypt lower
                  (case admin_by_id i d1 of Some a \<Rightarrow> adm_username a | None \<Rightarrow> []) secret of
                  Inl err \<Rightarrow> Inl err
                | Inr totp \<Rightarrow>
                    let d2 = set_admin_totp i totp d1;
                        d3 = d2\<lparr>totp_replay :=
                          (if sql_exists (\<lambda>r. fst r = i) (totp_replay d2)
                           then sql_update (\<lambda>r. fst r = i) (\<lambda>r. (fst r, int step)) (totp_replay d2)
                           else totp_replay d2 @ [(i, int step)])\<rparr> in
                    Inr ((Activated, [audit_event AccountMfaChanged (Some (dec_int i)) None]),
                      revoke_admin_auth_state i d3))))"

definition activate_admin_mfa_enrollment_for_session ::
  "(rstr \<Rightarrow> rstr) \<Rightarrow> encrypt \<Rightarrow> decrypt \<Rightarrow> (rstr \<Rightarrow> rstr) \<Rightarrow> mfa_session_proof \<Rightarrow> int \<Rightarrow> rstr \<Rightarrow> nat
     \<Rightarrow> audit_context \<Rightarrow> instant \<Rightarrow> instant \<Rightarrow> db \<Rightarrow> mfa_enrollment_activation_outcome session_bound outcome" where
  "activate_admin_mfa_enrollment_for_session th encrypt decrypt lower proof idle token step ctx now later d =
     (if i64_max < step then (Inl (InvalidParameterName (lit ''verified_totp_step'')), d)
      else required_transaction_for_mfa_session proof idle now ctx
        (activate_admin_mfa_enrollment encrypt decrypt lower (prf_admin_id proof) (th token) step later) d)"

section \<open>Security keys\<close>

datatype credential_deletion_outcome = Deleted | ReauthenticationRejected | TotpRejected | NotDeleted

datatype totp_setting_outcome =
    Updated | Unchanged | ReauthenticationRejected | TotpRejected | InsufficientSecurityKeys

definition credential_count :: "int \<Rightarrow> db \<Rightarrow> nat" where
  "credential_count i d = sql_count (\<lambda>c. crd_admin_id c = i) (webauthn_credentials d)"

definition insert_webauthn_credential ::
  "int \<Rightarrow> rstr \<Rightarrow> rstr \<Rightarrow> rstr \<Rightarrow> instant \<Rightarrow> db \<Rightarrow> db_error + int \<times> db" where
  "insert_webauthn_credential i label credential_id blob now d =
     (if \<not> (1 \<le> length label \<and> length label \<le> 80) then Inl ConstraintCheck
      else if sql_exists (\<lambda>c. crd_credential_id c = credential_id) (webauthn_credentials d)
      then Inl ConstraintUnique
      else
        let cid = next_rowid (map crd_id (webauthn_credentials d)) in
        Inr (cid, d\<lparr>webauthn_credentials := webauthn_credentials d @ [\<lparr>crd_id = cid, crd_admin_id = i,
          crd_label = label, crd_credential_id = credential_id, crd_credential_blob = blob,
          crd_created_at = now, crd_last_used_at = None\<rparr>]\<rparr>))"

definition register_webauthn_credential ::
  "int \<Rightarrow> rstr \<Rightarrow> rstr \<Rightarrow> rstr \<Rightarrow> instant \<Rightarrow> db \<Rightarrow> db_error + (unit \<times> required_audit_event list) \<times> db" where
  "register_webauthn_credential i label credential_id blob now d =
     (case insert_webauthn_credential i label credential_id blob now d of
        Inl e \<Rightarrow> Inl e
      | Inr (_, d1) \<Rightarrow> Inr (((), [audit_event WebauthnCredentialAdded None None]), d1))"

definition username_of :: "int \<Rightarrow> db \<Rightarrow> rstr" where
  "username_of i d = (case admin_by_id i d of Some a \<Rightarrow> adm_username a | None \<Rightarrow> [])"

definition delete_credential_with_totp ::
  "int \<Rightarrow> int \<Rightarrow> rstr \<Rightarrow> nat \<Rightarrow> nat \<Rightarrow> db
     \<Rightarrow> db_error + (credential_deletion_outcome \<times> required_audit_event list) \<times> db" where
  "delete_credential_with_totp i cid expected generation step d =
     (let mine = (\<lambda>c. crd_id c = cid \<and> crd_admin_id c = i) in
      if \<not> sql_exists (\<lambda>a. adm_id a = i \<and> adm_active a \<and> adm_password_hash a = expected
             \<and> adm_totp_generation a = generation) (admins d)
      then Inr ((credential_deletion_outcome.ReauthenticationRejected, []), d)
      else if \<not> admin_totp_step_is_fresh i step d
      then Inr ((credential_deletion_outcome.TotpRejected, []), d)
      else if \<not> (sql_exists mine (webauthn_credentials d) \<and> credential_count i d \<noteq> 2)
      then Inr ((NotDeleted, []), d)
      else case consume_admin_totp_step i step d of
        (False, d1) \<Rightarrow> Inr ((credential_deletion_outcome.TotpRejected, []), d1)
      | (True, d1) \<Rightarrow>
          if sql_count mine (webauthn_credentials d1) \<noteq> 1 then Inl InvalidQuery
          else Inr ((Deleted, [audit_event WebauthnCredentialDeleted (Some (dec_int cid)) None]),
            revoke_admin_auth_state i
              (d1\<lparr>webauthn_credentials := sql_delete mine (webauthn_credentials d1)\<rparr>)))"

definition delete_credential_without_totp ::
  "int \<Rightarrow> int \<Rightarrow> rstr \<Rightarrow> db
     \<Rightarrow> db_error + (credential_deletion_outcome \<times> required_audit_event list) \<times> db" where
  "delete_credential_without_totp i cid expected d =
     (let mine = (\<lambda>c. crd_id c = cid \<and> crd_admin_id c = i) in
      if \<not> sql_exists (\<lambda>a. adm_id a = i \<and> adm_active a \<and> adm_password_hash a = expected
             \<and> \<not> adm_totp_enabled a) (admins d)
      then Inr ((credential_deletion_outcome.ReauthenticationRejected, []), d)
      else if \<not> (sql_exists mine (webauthn_credentials d) \<and> 2 < credential_count i d)
      then Inr ((NotDeleted, []), d)
      else if sql_count mine (webauthn_credentials d) \<noteq> 1 then Inl InvalidQuery
      else Inr ((Deleted, [audit_event WebauthnCredentialDeleted (Some (dec_int cid))
             (Some (lit ''totp_disabled''))]),
        revoke_admin_auth_state i
          (d\<lparr>webauthn_credentials := sql_delete mine (webauthn_credentials d)\<rparr>)))"

definition set_admin_totp_enabled ::
  "int \<Rightarrow> rstr \<Rightarrow> nat \<Rightarrow> bool \<Rightarrow> nat option \<Rightarrow> db
     \<Rightarrow> db_error + (totp_setting_outcome \<times> required_audit_event list) \<times> db" where
  "set_admin_totp_enabled i expected generation enabled step d =
     (let apply_setting = (\<lambda>d1.
            let P = (\<lambda>a. adm_id a = i \<and> adm_totp_enabled a \<noteq> enabled) in
            if sql_count P (admins d1) \<noteq> 1 then Inl InvalidQuery
            else Inr ((Updated, [audit_event (if enabled then AdminTotpEnabled else AdminTotpDisabled)
                   (Some (dec_int i)) None]),
              d1\<lparr>admins := sql_update P (adm_totp_enabled_update (\<lambda>_. enabled)) (admins d1)\<rparr>)) in
      case sql_first (\<lambda>a. adm_id a = i \<and> adm_active a \<and> adm_password_hash a = expected
             \<and> adm_totp_generation a = generation) (admins d) of
        None \<Rightarrow> Inr ((totp_setting_outcome.ReauthenticationRejected, []), d)
      | Some a \<Rightarrow>
          if adm_totp_enabled a = enabled then Inr ((Unchanged, []), d)
          else if enabled then apply_setting d
          else if credential_count i d < 2 then Inr ((InsufficientSecurityKeys, []), d)
          else
            (case step of
               None \<Rightarrow> Inr ((totp_setting_outcome.TotpRejected, []), d)
             | Some s \<Rightarrow>
                 (case consume_admin_totp_step i s d of
                    (False, d1) \<Rightarrow> Inr ((totp_setting_outcome.TotpRejected, []), d1)
                  | (True, d1) \<Rightarrow> apply_setting d1)))"

definition own_context :: "mfa_session_proof \<Rightarrow> rstr option \<Rightarrow> db \<Rightarrow> audit_context" where
  "own_context proof client_ip d = \<lparr>actor = username_of (prf_admin_id proof) d, ctx_client_ip = client_ip\<rparr>"

section \<open>Keys of the account tables\<close>

definition wf_admins :: "admin_row list \<Rightarrow> bool" where
  "wf_admins rows = distinct (map adm_id rows)"

definition username_key :: "admin_row \<Rightarrow> rstr" where
  "username_key a = to_ascii_lowercase (adm_username a)"

definition wf_usernames :: "admin_row list \<Rightarrow> bool" where
  "wf_usernames rows = distinct (map username_key rows)"

definition wf_sessions :: "session_row list \<Rightarrow> bool" where
  "wf_sessions rows = distinct (map ses_token_hash rows)"

definition wf_replay :: "(int \<times> int) list \<Rightarrow> bool" where
  "wf_replay rows = distinct (map fst rows)"

definition wf_credentials :: "credential_row list \<Rightarrow> bool" where
  "wf_credentials rows = distinct (map crd_id rows)"

interpretation admin_table: keyed_table adm_id wf_admins
  by unfold_locales (simp add: wf_admins_def)

interpretation username_index: keyed_table username_key wf_usernames
  by unfold_locales (simp add: wf_usernames_def)

interpretation session_table: keyed_table ses_token_hash wf_sessions
  by unfold_locales (simp add: wf_sessions_def)

interpretation replay_table: keyed_table fst wf_replay
  by unfold_locales (simp add: wf_replay_def)

interpretation credential_table: keyed_table crd_id wf_credentials
  by unfold_locales (simp add: wf_credentials_def)

section \<open>The account invariant\<close>

text \<open>Keys are unique, sessions belong to active administrators, an administrator without TOTP
  has two security keys, and an installation with administrators has an active one.\<close>

definition auth_inv :: "db \<Rightarrow> bool" where
  "auth_inv d \<longleftrightarrow> wf_admins (admins d) \<and> wf_usernames (admins d) \<and> wf_sessions (sessions d)
     \<and> wf_replay (totp_replay d) \<and> wf_credentials (webauthn_credentials d)
     \<and> (\<forall>s\<in>set (sessions d). admin_active (ses_admin_id s) d)
     \<and> (\<forall>a\<in>set (admins d). \<not> adm_totp_enabled a \<longrightarrow> 2 \<le> credential_count (adm_id a) d)
     \<and> (admins d \<noteq> [] \<longrightarrow> sql_exists adm_active (admins d))"

lemma auth_invD:
  assumes "auth_inv d"
  shows "wf_admins (admins d)" "wf_usernames (admins d)" "wf_sessions (sessions d)"
    "wf_replay (totp_replay d)" "wf_credentials (webauthn_credentials d)"
    "\<And>s. s \<in> set (sessions d) \<Longrightarrow> admin_active (ses_admin_id s) d"
    "\<And>a. a \<in> set (admins d) \<Longrightarrow> \<not> adm_totp_enabled a \<Longrightarrow> 2 \<le> credential_count (adm_id a) d"
  using assms by (auto simp: auth_inv_def)

lemma auth_inv_frame [simp]:
  "auth_inv (d\<lparr>audit := rows\<rparr>) = auth_inv d"
  "auth_inv (d\<lparr>mfa_enrollments := es\<rparr>) = auth_inv d"
  by (simp_all add: auth_inv_def admin_active_def credential_count_def)

lemma auth_inv_sessions:
  assumes "auth_inv d" "wf_sessions ss" "ses_admin_id ` set ss \<subseteq> ses_admin_id ` set (sessions d)"
  shows "auth_inv (d\<lparr>sessions := ss\<rparr>)"
proof -
  have "admin_active (ses_admin_id s) (d\<lparr>sessions := ss\<rparr>)" if "s \<in> set ss" for s
    using that assms(3) auth_invD(6)[OF assms(1)] by (force simp: admin_active_def)
  then show ?thesis using assms(1,2) by (simp add: auth_inv_def credential_count_def)
qed

lemma auth_inv_replay:
  "auth_inv d \<Longrightarrow> wf_replay rows \<Longrightarrow> auth_inv (d\<lparr>totp_replay := rows\<rparr>)"
  by (simp add: auth_inv_def admin_active_def credential_count_def)

lemma auth_inv_delete_sessions:
  "auth_inv d \<Longrightarrow> auth_inv (d\<lparr>sessions := sql_delete P (sessions d)\<rparr>)"
  using session_table.delete by (intro auth_inv_sessions) (auto dest: auth_invD(3))

text \<open>An update of accounts that keeps identity, name, activity and does not switch TOTP off.\<close>

lemma auth_inv_update_admins:
  assumes inv: "auth_inv d"
    and f: "\<And>a. adm_id (f a) = adm_id a" "\<And>a. adm_username (f a) = adm_username a"
      "\<And>a. adm_active a \<Longrightarrow> adm_active (f a)" "\<And>a. \<not> adm_totp_enabled (f a) \<Longrightarrow> \<not> adm_totp_enabled a"
  shows "auth_inv (d\<lparr>admins := sql_update P f (admins d)\<rparr>)"
proof -
  let ?d = "d\<lparr>admins := sql_update P f (admins d)\<rparr>"
  have "admin_active i ?d" if "admin_active i d" for i
    using that f(1,3) sql_exists_update[of "\<lambda>a. adm_id a = i \<and> adm_active a" "admins d" P f]
    by (simp add: admin_active_def)
  moreover have "2 \<le> credential_count (adm_id a) ?d" if "a \<in> set (admins ?d)" "\<not> adm_totp_enabled a" for a
    using that f(1,4) auth_invD(7)[OF inv] by (auto simp: set_sql_update credential_count_def split: if_splits)
  moreover have "sql_exists adm_active (admins ?d)" if "admins ?d \<noteq> []"
    using that inv f(3) sql_exists_update[of adm_active "admins d" P f] by (simp add: auth_inv_def sql_update_def)
  moreover have "wf_admins (admins ?d)" "wf_usernames (admins ?d)"
    using admin_table.update[OF auth_invD(1)[OF inv], of P f]
      username_index.update[OF auth_invD(2)[OF inv], of P f] f(1,2) by (simp_all add: username_key_def)
  ultimately show ?thesis using inv unfolding auth_inv_def by simp
qed

section \<open>TOTP marks\<close>

text \<open>The generation of an administrator's secret and the last step accepted for it. No
  operation lowers the mark in the lexicographic order.\<close>

definition totp_generation :: "int \<Rightarrow> db \<Rightarrow> nat" where
  "totp_generation i d = (case admin_by_id i d of Some a \<Rightarrow> adm_totp_generation a | None \<Rightarrow> 0)"

definition last_step :: "int \<Rightarrow> db \<Rightarrow> int" where
  "last_step i d = (case sql_first (\<lambda>r. fst r = i) (totp_replay d) of Some r \<Rightarrow> snd r | None \<Rightarrow> - 1)"

definition mark_le :: "int \<Rightarrow> db \<Rightarrow> db \<Rightarrow> bool" where
  "mark_le i d d' \<longleftrightarrow> totp_generation i d < totp_generation i d'
     \<or> totp_generation i d = totp_generation i d' \<and> last_step i d \<le> last_step i d'"

lemma mark_le_refl [simp]: "mark_le i d d"
  by (simp add: mark_le_def)

lemma mark_le_trans: "mark_le i a b \<Longrightarrow> mark_le i b c \<Longrightarrow> mark_le i a c"
  by (auto simp: mark_le_def)

lemma mark_le_frame:
  "admins d' = admins d \<Longrightarrow> totp_replay d' = totp_replay d \<Longrightarrow> mark_le i d d'"
  by (simp add: mark_le_def totp_generation_def last_step_def admin_by_id_def)

lemma mark_le_generation:
  assumes "totp_replay d' = totp_replay d" "totp_generation i d \<le> totp_generation i d'"
  shows "mark_le i d d'"
  using assms by (auto simp: mark_le_def last_step_def)

lemma consume_effect:
  assumes inv: "wf_replay (totp_replay d)" and eq: "consume_admin_totp_step i s d = (b, d')"
  shows "\<exists>rows. d' = d\<lparr>totp_replay := rows\<rparr> \<and> wf_replay rows
    \<and> (\<forall>j. last_step j d \<le> last_step j d')
    \<and> (if b then last_step i d' = int s \<and> last_step i d < int s else d' = d)"
proof (cases "admin_totp_step_is_fresh i s d")
  case False
  then have "b = False" "d' = d" using eq by (auto simp: consume_admin_totp_step_def)
  then show ?thesis using inv by (intro exI[of _ "totp_replay d"]) simp
next
  case fresh: True
  then have less: "snd r < int s" if "r \<in> set (totp_replay d)" "fst r = i" for r
    using that by (auto simp: admin_totp_step_is_fresh_def sql_exists_iff not_le)
  show ?thesis
  proof (cases "sql_first (\<lambda>r. fst r = i) (totp_replay d)")
    case None
    then have none: "\<forall>r\<in>set (totp_replay d). fst r \<noteq> i" by (simp add: sql_first_None)
    then have d': "b = True" "d' = d\<lparr>totp_replay := totp_replay d @ [(i, int s)]\<rparr>"
      using eq fresh by (auto simp: consume_admin_totp_step_def sql_exists_iff)
    moreover have "sql_first (\<lambda>r. fst r = j) (totp_replay d @ [(i, int s)]) =
        (if j = i then Some (i, int s) else sql_first (\<lambda>r. fst r = j) (totp_replay d))" for j
      using None by (auto simp: sql_first_def find_append split: option.splits)
    ultimately show ?thesis
      using none inv replay_table.insert_fresh[of "totp_replay d" "(i, int s)"] None
      by (intro exI[of _ "totp_replay d @ [(i, int s)]"]) (auto simp: last_step_def)
  next
    case (Some r)
    note r = sql_first_Some[OF Some]
    define P where "P = (\<lambda>r. fst r = i \<and> snd r < int s)"
    define f where "f = (\<lambda>r :: int \<times> int. (fst r, int s))"
    have "sql_count P (totp_replay d) = 1"
      using replay_table.count_one[OF inv, of r P] r less[of r] by (auto simp: P_def)
    moreover have "sql_exists (\<lambda>r. fst r = i) (totp_replay d)" using r by (auto simp: sql_exists_iff)
    ultimately have d': "b = True" "d' = d\<lparr>totp_replay := sql_update P f (totp_replay d)\<rparr>"
      using eq fresh by (auto simp: consume_admin_totp_step_def P_def f_def)
    have first: "sql_first (\<lambda>r. fst r = j) (totp_replay d') =
        map_option (\<lambda>r. if P r then f r else r) (sql_first (\<lambda>r. fst r = j) (totp_replay d))" for j
      unfolding d' f_def by (simp add: sql_first_update)
    have "last_step j d \<le> last_step j d'" for j
      unfolding last_step_def first
      by (cases "sql_first (\<lambda>r. fst r = j) (totp_replay d)") (auto simp: P_def f_def)
    moreover have "last_step i d' = int s" "last_step i d < int s"
      unfolding last_step_def first using Some less[of r] r by (auto simp: P_def f_def)
    ultimately show ?thesis
      using d' replay_table.update[OF inv, of P f]
      by (intro exI[of _ "sql_update P f (totp_replay d)"]) (auto simp: f_def)
  qed
qed

lemma totp_generation_replay [simp]: "totp_generation i (d\<lparr>totp_replay := rows\<rparr>) = totp_generation i d"
  by (simp add: totp_generation_def admin_by_id_def)

lemma consume_keeps:
  assumes "auth_inv d" "consume_admin_totp_step i s d = (b, d')"
  shows "auth_inv d' \<and> mark_le j d d'"
  using consume_effect[OF auth_invD(4)[OF assms(1)] assms(2)] auth_inv_replay[OF assms(1)]
  by (auto simp: mark_le_def)

section \<open>Every account operation keeps the invariant and the marks\<close>

definition auth_ok :: "db \<Rightarrow> db \<Rightarrow> bool" where
  "auth_ok d d' \<longleftrightarrow> auth_inv d' \<and> (\<forall>i. mark_le i d d')"

lemma ok_refl [simp]: "auth_inv d \<Longrightarrow> auth_ok d d"
  by (simp add: auth_ok_def)

lemma ok_trans [trans]: "auth_ok a b \<Longrightarrow> auth_ok b c \<Longrightarrow> auth_ok a c"
  by (auto simp: auth_ok_def intro: mark_le_trans)

lemma ok_inv: "auth_ok d d' \<Longrightarrow> auth_inv d'"
  by (simp add: auth_ok_def)

lemma ok_frame:
  "auth_inv d \<Longrightarrow> auth_ok d (d\<lparr>audit := rows\<rparr>)"
  "auth_inv d \<Longrightarrow> auth_ok d (d\<lparr>mfa_enrollments := es\<rparr>)"
  by (simp_all add: auth_ok_def mark_le_frame)

lemma ok_sessions:
  "auth_inv d \<Longrightarrow> wf_sessions ss \<Longrightarrow> ses_admin_id ` set ss \<subseteq> ses_admin_id ` set (sessions d)
     \<Longrightarrow> auth_ok d (d\<lparr>sessions := ss\<rparr>)"
  by (simp add: auth_ok_def auth_inv_sessions mark_le_frame)

lemma ok_delete_sessions: "auth_inv d \<Longrightarrow> auth_ok d (d\<lparr>sessions := sql_delete P (sessions d)\<rparr>)"
  by (simp add: auth_ok_def auth_inv_delete_sessions mark_le_frame)

lemma ok_consume: "auth_inv d \<Longrightarrow> consume_admin_totp_step i s d = (b, d') \<Longrightarrow> auth_ok d d'"
  using consume_keeps by (simp add: auth_ok_def)

lemma ok_revoke:
  assumes "auth_inv d" shows "auth_ok d (revoke_admin_auth_state i d)"
proof -
  let ?d1 = "d\<lparr>sessions := sql_delete (\<lambda>s. ses_admin_id s = i) (sessions d)\<rparr>"
  have "auth_ok d ?d1" by (rule ok_delete_sessions[OF assms])
  also have "auth_ok ?d1 (revoke_admin_auth_state i d)"
    unfolding revoke_admin_auth_state_def
    using ok_frame(2)[OF ok_inv[OF \<open>auth_ok d ?d1\<close>], of "sql_delete (\<lambda>e. enr_admin_id e = i) (mfa_enrollments d)"]
    by simp
  finally show ?thesis .
qed

lemma ok_revoke_after: "auth_ok d d1 \<Longrightarrow> auth_ok d (revoke_admin_auth_state i d1)"
  using ok_trans[OF _ ok_revoke[OF ok_inv]] by blast

lemma totp_generation_update:
  assumes "\<And>a. adm_id (f a) = adm_id a"
  shows "totp_generation i (d\<lparr>admins := sql_update P f (admins d)\<rparr>) =
    (case admin_by_id i d of Some a \<Rightarrow> adm_totp_generation (if P a then f a else a) | None \<Rightarrow> 0)"
  using assms by (simp add: totp_generation_def admin_by_id_def sql_first_update split: option.splits)

lemma ok_update_admins:
  assumes inv: "auth_inv d"
    and f: "\<And>a. adm_id (f a) = adm_id a" "\<And>a. adm_username (f a) = adm_username a"
      "\<And>a. adm_active a \<Longrightarrow> adm_active (f a)" "\<And>a. \<not> adm_totp_enabled (f a) \<Longrightarrow> \<not> adm_totp_enabled a"
      "\<And>a. adm_totp_generation a \<le> adm_totp_generation (f a)"
  shows "auth_ok d (d\<lparr>admins := sql_update P f (admins d)\<rparr>)"
proof -
  have "totp_generation i d \<le> totp_generation i (d\<lparr>admins := sql_update P f (admins d)\<rparr>)" for i
    using f(5) unfolding totp_generation_update[OF f(1)] by (simp add: totp_generation_def split: option.splits)
  then show ?thesis
    using auth_inv_update_admins[OF inv f(1-4)] by (simp add: auth_ok_def mark_le_generation)
qed

lemma ok_update_revoke:
  assumes inv: "auth_inv d"
    and f: "\<And>a. adm_id (f a) = adm_id a" "\<And>a. adm_username (f a) = adm_username a"
      "\<And>a. adm_active a \<Longrightarrow> adm_active (f a)" "\<And>a. \<not> adm_totp_enabled (f a) \<Longrightarrow> \<not> adm_totp_enabled a"
      "\<And>a. adm_totp_generation a \<le> adm_totp_generation (f a)"
  shows "auth_ok d (revoke_admin_auth_state i (d\<lparr>admins := sql_update P f (admins d)\<rparr>))"
  using ok_trans[OF ok_update_admins[OF assms] ok_revoke[OF ok_inv[OF ok_update_admins[OF assms]]]] .

lemma finish_audited_ok:
  assumes "finish_audited ra now evs out d d1 = (r, d')" "auth_inv d" "auth_ok d d1"
  shows "auth_ok d d'"
proof (cases ra)
  case None
  then show ?thesis using assms by (simp add: finish_audited_def)
next
  case (Some ctx)
  then have "commit_audited now ctx evs out d d1 = (r, d')" using assms(1) by (simp add: finish_audited_def)
  then show ?thesis
    using assms(2,3) ok_trans[OF assms(3) ok_frame(1)[OF ok_inv[OF assms(3)]]]
    by (cases rule: commit_audited_cases) auto
qed

lemma commit_audited_ok:
  assumes "commit_audited now ctx evs out d d1 = (r, d')" "auth_inv d" "auth_ok d d1"
  shows "auth_ok d d'"
  using finish_audited_ok[of "Some ctx"] assms by (simp add: finish_audited_def)

lemma required_transaction_ok:
  assumes "required_transaction now ctx operation d = (r, d')" "auth_inv d"
    and "\<And>x evs d1. operation d = Inr ((x, evs), d1) \<Longrightarrow> auth_ok d d1"
  shows "auth_ok d d'"
  using assms commit_audited_ok[OF _ assms(2)]
  by (fastforce simp: required_transaction_def split: sum.splits)

lemma session_transaction_ok:
  assumes "required_transaction_for_mfa_session proof idle now ctx operation d = (r, d')" "auth_inv d"
    and "\<And>x evs d1. operation d = Inr ((x, evs), d1) \<Longrightarrow> auth_ok d d1"
  shows "auth_ok d d'"
  using assms commit_audited_ok[OF _ assms(2)]
  by (fastforce simp: required_transaction_for_mfa_session_def split: sum.splits if_splits)

subsection \<open>Sessions\<close>

lemma create_session_ok:
  assumes eq: "create_session_for_verified_password th idle token i expected csrf expires ra now d = (r, d')"
    and inv: "auth_inv d"
  shows "auth_ok d d'"
proof -
  define d1 where "d1 = delete_stale_sessions idle now d"
  have ok1: "auth_ok d d1" unfolding d1_def delete_stale_sessions_def by (rule ok_delete_sessions[OF inv])
  define row where "row = \<lparr>ses_token_hash = th token, ses_admin_id = i,
             ses_csrf_token = csrf, ses_mfa_verified = False, ses_expires_at = expires,
             ses_last_activity_at = now\<rparr>"
  have new: "auth_ok d (d1\<lparr>sessions := sessions d1 @ [row]\<rparr>)"
    if "sql_exists (\<lambda>a. adm_id a = i \<and> adm_password_hash a = expected \<and> adm_active a) (admins d1)"
      "\<not> sql_exists (\<lambda>s. ses_token_hash s = th token) (sessions d1)"
  proof -
    note inv1 = ok_inv[OF ok1]
    have "admin_active i d1" using that(1) by (auto simp: admin_active_def sql_exists_iff)
    moreover have "wf_sessions (sessions d1 @ [row])"
      using session_table.insert_fresh[OF auth_invD(3)[OF inv1], of row] that(2)
      by (auto simp: sql_exists_iff row_def)
    ultimately have "auth_inv (d1\<lparr>sessions := sessions d1 @ [row]\<rparr>)"
      using inv1 by (auto simp: auth_inv_def row_def admin_active_def credential_count_def)
    moreover have "mark_le i d1 (d1\<lparr>sessions := sessions d1 @ [row]\<rparr>)" for i by (rule mark_le_frame) simp_all
    ultimately show ?thesis using ok_trans[OF ok1] by (simp add: auth_ok_def)
  qed
  show ?thesis
    using eq new ok1 inv finish_audited_ok[OF _ inv]
    unfolding create_session_for_verified_password_def Let_def d1_def[symmetric] row_def[symmetric]
    by (auto split: if_splits option.splits)
qed

lemma session_at_ok:
  assumes "session_at th idle token now d = (s, d')" "auth_inv d"
  shows "auth_ok d d'"
proof -
  have "auth_ok d (d\<lparr>sessions := sql_update P (ses_last_activity_at_update (\<lambda>_. now)) (sessions d)\<rparr>)" for P
    using session_table.update[OF auth_invD(3)[OF assms(2)], of P "ses_last_activity_at_update (\<lambda>_. now)"]
    by (intro ok_sessions[OF assms(2)]) (auto simp: set_sql_update)
  then show ?thesis
    using assms ok_delete_sessions[OF assms(2)]
    by (auto simp: session_at_def Let_def split: option.splits if_splits)
qed

lemma rotate_ok:
  assumes inv: "auth_inv d" and eq: "rotate_session old new csrf i idle now d = Inr (n, d')"
  shows "auth_ok d d'"
proof -
  define P where "P = unverified_session old i idle now"
  define f where "f = (\<lambda>s :: session_row. s\<lparr>ses_token_hash := new, ses_csrf_token := csrf,
           ses_mfa_verified := True, ses_last_activity_at := now\<rparr>)"
  have d': "d' = d\<lparr>sessions := sql_update P f (sessions d)\<rparr>"
    and fresh: "sql_exists P (sessions d) \<Longrightarrow> new \<noteq> old \<Longrightarrow> \<not> sql_exists (\<lambda>s. ses_token_hash s = new) (sessions d)"
    using eq by (auto simp: rotate_session_def Let_def P_def f_def split: if_splits)
  note wf = auth_invD(3)[OF inv]
  have key: "ses_token_hash s = old" if "P s" for s using that by (simp add: P_def unverified_session_def)
  have "distinct (map (\<lambda>s. ses_token_hash (if P s then f s else s)) (sessions d))"
  proof (cases "\<exists>s\<in>set (sessions d). P s")
    case False
    then have "map (\<lambda>s. ses_token_hash (if P s then f s else s)) (sessions d) = map ses_token_hash (sessions d)"
      by (intro map_cong) auto
    then show ?thesis using wf unfolding wf_sessions_def by metis
  next
    case True
    then have free: "s \<in> set (sessions d) \<Longrightarrow> ses_token_hash s = new \<Longrightarrow> new = old" for s
      using fresh by (auto simp: sql_exists_iff)
    have "x = y" if "x \<in> set (sessions d)" "y \<in> set (sessions d)"
      "ses_token_hash (if P x then f x else x) = ses_token_hash (if P y then f y else y)" for x y
      using that free[of x] free[of y] key[of x] key[of y] session_table.unique[OF wf that(1,2)]
      by (auto simp: f_def split: if_splits)
    moreover have "distinct (sessions d)" using wf by (auto simp: wf_sessions_def distinct_map)
    ultimately show ?thesis by (auto simp: distinct_map inj_on_def)
  qed
  then have "wf_sessions (sql_update P f (sessions d))"
    by (simp add: wf_sessions_def sql_update_def comp_def)
  then show ?thesis
    unfolding d' by (intro ok_sessions[OF inv]) (auto simp: set_sql_update f_def)
qed

lemma verify_mfa_ok:
  assumes eq: "verify_mfa_with_totp_step th idle old new csrf i step ra now d = (r, d')" and inv: "auth_inv d"
  shows "auth_ok d d'"
proof -
  obtain b d1 where c: "consume_admin_totp_step i step d = (b, d1)" by (cases "consume_admin_totp_step i step d")
  note ok1 = ok_consume[OF inv c]
  show ?thesis
  proof (cases "rotate_session (th old) (th new) csrf i idle now d1")
    case (Inl e)
    then show ?thesis
      using eq c ok1 inv by (auto simp: verify_mfa_with_totp_step_def Let_def split: if_splits bool.splits)
  next
    case (Inr p)
    then obtain n d2 where rot: "rotate_session (th old) (th new) csrf i idle now d1 = Inr (n, d2)" by (cases p) auto
    have "auth_ok d d2" by (rule ok_trans[OF ok1 rotate_ok[OF ok_inv[OF ok1] rot]])
    then show ?thesis
      using eq c ok1 rot inv finish_audited_ok[OF _ inv]
      by (auto simp: verify_mfa_with_totp_step_def Let_def split: if_splits bool.splits)
  qed
qed

text \<open>An update of credential rows that keeps their identity and owner.\<close>

lemma ok_update_credentials:
  assumes inv: "auth_inv d"
    and f: "\<And>c. crd_id (f c) = crd_id c" "\<And>c. crd_admin_id (f c) = crd_admin_id c"
  shows "auth_ok d (d\<lparr>webauthn_credentials := sql_update Q f (webauthn_credentials d)\<rparr>)"
proof -
  let ?d = "d\<lparr>webauthn_credentials := sql_update Q f (webauthn_credentials d)\<rparr>"
  have "credential_count i ?d = credential_count i d" for i
    using f(2) by (simp add: credential_count_def sql_count_update_same)
  moreover have "wf_credentials (webauthn_credentials ?d)"
    using credential_table.update[OF auth_invD(5)[OF inv], of Q f] f(1) by simp
  ultimately have "auth_inv ?d" using inv by (simp add: auth_inv_def admin_active_def)
  then show ?thesis by (simp add: auth_ok_def mark_le_frame)
qed

lemma complete_webauthn_ok:
  assumes eq: "complete_webauthn_mfa th idle old new csrf cid i b1 b2 ra now d = (r, d')" and inv: "auth_inv d"
  shows "auth_ok d d'"
proof -
  define Q where "Q = (\<lambda>c :: credential_row. crd_id c = cid \<and> crd_admin_id c = i \<and> crd_credential_blob c = b1
                 \<and> sql_exists (unverified_session (th old) i idle now) (sessions d))"
  define f where "f = (\<lambda>c :: credential_row. c\<lparr>crd_credential_blob := b2, crd_last_used_at := Some now\<rparr>)"
  define d1 where "d1 = d\<lparr>webauthn_credentials := sql_update Q f (webauthn_credentials d)\<rparr>"
  have ok1: "auth_ok d d1" unfolding d1_def by (rule ok_update_credentials[OF inv]) (simp_all add: f_def)
  note unfold = complete_webauthn_mfa_def Let_def Q_def[symmetric] f_def[symmetric] d1_def[symmetric]
  show ?thesis
  proof (cases "rotate_session (th old) (th new) csrf i idle now d1")
    case (Inl e)
    then show ?thesis using eq inv unfolding unfold by (auto split: if_splits)
  next
    case (Inr p)
    then obtain n d2 where rot: "rotate_session (th old) (th new) csrf i idle now d1 = Inr (n, d2)" by (cases p) auto
    have "auth_ok d d2" by (rule ok_trans[OF ok1 rotate_ok[OF ok_inv[OF ok1] rot]])
    then show ?thesis
      using eq rot inv finish_audited_ok[OF _ inv] unfolding unfold by (auto split: if_splits)
  qed
qed

lemma delete_session_ok:
  "delete_session th token ctx now d = (r, d') \<Longrightarrow> auth_inv d \<Longrightarrow> auth_ok d d'"
  unfolding delete_session_def
  by (erule required_transaction_ok) (auto intro: ok_delete_sessions)

subsection \<open>Accounts\<close>

lemma eq_ignore_case_key:
  "eq_ignore_ascii_case (adm_username a) (adm_username b) \<longleftrightarrow> username_key a = username_key b"
  by (simp add: eq_ignore_ascii_case_def username_key_def)

lemma insert_admin_ok:
  assumes inv: "auth_inv d" and eq: "insert_admin username pw totp now d = Inr (i, d')"
  shows "auth_ok d d'"
proof -
  define a where "a = \<lparr>adm_id = i, adm_username = username,
          adm_password_hash = pw, adm_totp_key_id = fst totp, adm_totp_ciphertext = snd totp,
          adm_totp_generation = 1, adm_totp_enabled = True, adm_created_at = now, adm_active = True\<rparr>"
  have i: "i = next_rowid (map adm_id (admins d))"
    and free: "\<not> sql_exists (\<lambda>b. eq_ignore_ascii_case (adm_username b) (adm_username a)) (admins d)"
    and d': "d' = d\<lparr>admins := admins d @ [a]\<rparr>"
    using eq by (auto simp: insert_admin_def Let_def a_def split: if_splits)
  have fresh: "\<forall>b\<in>set (admins d). adm_id b \<noteq> adm_id a"
    using next_rowid_notin[of "map adm_id (admins d)"] by (force simp: i a_def)
  then have "wf_admins (admins d @ [a])" using admin_table.insert_fresh[OF auth_invD(1)[OF inv], of a] by simp
  moreover have "wf_usernames (admins d @ [a])"
    using username_index.insert_fresh[OF auth_invD(2)[OF inv], of a] free by (auto simp: eq_ignore_case_key sql_exists_iff)
  ultimately have "auth_inv d'"
    using inv unfolding d'
    by (auto simp: auth_inv_def a_def admin_active_def credential_count_def sql_exists_iff)
  moreover have "totp_generation j d \<le> totp_generation j d'" for j
    unfolding d' by (auto simp: totp_generation_def admin_by_id_def sql_first_def find_append a_def
        split: option.splits)
  then have "mark_le j d d'" for j by (intro mark_le_generation) (simp_all add: d')
  ultimately show ?thesis by (simp add: auth_ok_def)
qed

lemma create_initial_admin_ok:
  "create_initial_admin encrypt lower username pw secret ctx now d = (r, d') \<Longrightarrow> auth_inv d \<Longrightarrow> auth_ok d d'"
  by (auto simp: create_initial_admin_def split: sum.splits if_splits
      intro: insert_admin_ok elim!: required_transaction_ok)

lemma create_admin_ok: "create_admin username pw totp now d = Inr ((x, evs), d') \<Longrightarrow> auth_inv d \<Longrightarrow> auth_ok d d'"
  by (auto simp: create_admin_def split: sum.splits intro: insert_admin_ok)

lemma activate_admin_ok: "activate_admin i d = Inr ((x, evs), d') \<Longrightarrow> auth_inv d \<Longrightarrow> auth_ok d d'"
  by (auto simp: activate_admin_def Let_def intro!: ok_update_admins)

lemma deactivate_admin_ok:
  assumes eq: "deactivate_admin i d = Inr ((x, evs), d')" and inv: "auth_inv d"
  shows "auth_ok d d'"
proof -
  define P where "P = (\<lambda>a :: admin_row. adm_id a = i \<and> adm_active a \<and> sql_exists (\<lambda>b. adm_active b \<and> adm_id b \<noteq> i) (admins d))"
  define d1 where "d1 = d\<lparr>admins := sql_update P (adm_active_update (\<lambda>_. False)) (admins d)\<rparr>"
  show ?thesis
  proof (cases "\<exists>a. admin_by_id i d = Some a \<and> adm_active a")
    case False
    then show ?thesis
      using eq inv ok_revoke[OF inv] by (auto simp: deactivate_admin_def Let_def split: option.splits)
  next
    case True
    then obtain a where a: "admin_by_id i d = Some a" "adm_active a" by blast
    show ?thesis
    proof (cases "sql_count P (admins d) = 1")
      case False
      then have "\<not> P b" if "b \<in> set (admins d)" for b
        using that admin_table.count_one[OF auth_invD(1)[OF inv], of b
            "\<lambda>a. adm_active a \<and> sql_exists (\<lambda>b. adm_active b \<and> adm_id b \<noteq> i) (admins d)"]
        by (auto simp: P_def)
      then have "d1 = d" by (simp add: d1_def sql_update_id)
      then show ?thesis
        using eq a False inv unfolding deactivate_admin_def Let_def P_def[symmetric] d1_def[symmetric] by auto
    next
      case one: True
      then obtain b where b: "b \<in> set (admins d)" "P b" by (rule sql_count_one_member)
      then obtain c where c: "c \<in> set (admins d)" "adm_active c" "adm_id c \<noteq> i"
        by (auto simp: P_def sql_exists_iff)
      have d': "d' = revoke_admin_auth_state i d1"
        using eq a one unfolding deactivate_admin_def Let_def P_def[symmetric] d1_def[symmetric] by auto
      have act: "admin_active j d1" if "admin_active j d" "j \<noteq> i" for j
        using that sql_exists_update[of "\<lambda>a. adm_id a = j \<and> adm_active a" "admins d" P "adm_active_update (\<lambda>_. False)"]
        by (auto simp: admin_active_def d1_def P_def)
      have "admin_active (adm_id c) d1" using act[of "adm_id c"] c by (auto simp: admin_active_def sql_exists_iff)
      then have "sql_exists adm_active (admins d1)" by (auto simp: admin_active_def sql_exists_iff)
      moreover have "admin_active (ses_admin_id s) d'" if "s \<in> set (sessions d')" for s
        using that act[of "ses_admin_id s"] auth_invD(6)[OF inv, of s]
        by (auto simp: d' revoke_admin_auth_state_def d1_def admin_active_def)
      moreover have "2 \<le> credential_count (adm_id a) d'" if "a \<in> set (admins d1)" "\<not> adm_totp_enabled a" for a
        using that auth_invD(7)[OF inv]
        by (auto simp: d' revoke_admin_auth_state_def d1_def credential_count_def set_sql_update split: if_splits)
      moreover have "wf_admins (admins d1)" "wf_usernames (admins d1)"
        using admin_table.update[OF auth_invD(1)[OF inv], of P "adm_active_update (\<lambda>_. False)"]
          username_index.update[OF auth_invD(2)[OF inv], of P "adm_active_update (\<lambda>_. False)"]
        by (simp_all add: d1_def username_key_def)
      moreover have "wf_sessions (sessions d')"
        using session_table.delete[OF auth_invD(3)[OF inv]] by (simp add: d' revoke_admin_auth_state_def d1_def)
      ultimately have "auth_inv d'"
        using auth_invD(4,5)[OF inv] unfolding auth_inv_def
        by (simp add: d' revoke_admin_auth_state_def d1_def)
      moreover have "mark_le j d d'" for j
        using totp_generation_update[of "adm_active_update (\<lambda>_. False)" j P d]
        by (intro mark_le_generation)
          (auto simp: d' revoke_admin_auth_state_def d1_def totp_generation_def admin_by_id_def
            split: option.splits)
      ultimately show ?thesis by (simp add: auth_ok_def)
    qed
  qed
qed

text \<open>Replacing an administrator's secret: the new generation lets the replay mark restart and
  the old security keys go.\<close>

lemma new_secret_ok:
  assumes inv: "auth_inv d" and a: "admin_by_id i d = Some a"
    and f: "\<And>b. adm_id (f b) = adm_id b" "\<And>b. adm_username (f b) = adm_username b"
      "\<And>b. adm_active (f b) = adm_active b" "\<And>b. adm_totp_enabled (f b)"
      "\<And>b. adm_totp_generation b < adm_totp_generation (f b)"
    and creds: "\<And>j. j \<noteq> i \<Longrightarrow> sql_count (\<lambda>c. crd_admin_id c = j) cs = credential_count j d"
    and wfc: "wf_credentials cs" and wfr: "wf_replay rs"
    and replay: "\<And>j. j \<noteq> i \<Longrightarrow> sql_first (\<lambda>r. fst r = j) rs = sql_first (\<lambda>r. fst r = j) (totp_replay d)"
  shows "auth_ok d (d\<lparr>admins := sql_update (\<lambda>b. adm_id b = i) f (admins d),
    webauthn_credentials := cs, totp_replay := rs\<rparr>)"
proof -
  define d1 where "d1 = d\<lparr>admins := sql_update (\<lambda>b. adm_id b = i) f (admins d)\<rparr>"
  define d2 where "d2 = d1\<lparr>webauthn_credentials := cs, totp_replay := rs\<rparr>"
  have inv1: "auth_inv d1"
    unfolding d1_def using f by (intro auth_inv_update_admins[OF inv]) auto
  have "2 \<le> credential_count (adm_id b) d2" if "b \<in> set (admins d1)" "\<not> adm_totp_enabled b" for b
  proof -
    have "adm_id b \<noteq> i" using that f(1,4) by (auto simp: d1_def set_sql_update split: if_splits)
    then show ?thesis
      using auth_invD(7)[OF inv1 that] creds[of "adm_id b"] by (simp add: d2_def d1_def credential_count_def)
  qed
  then have "auth_inv d2"
    using inv1 wfc wfr unfolding auth_inv_def by (simp add: d2_def admin_active_def)
  moreover have "mark_le j d d2" for j
  proof (cases "j = i")
    case True
    have "adm_id a = i" using a sql_first_Some[of "\<lambda>a. adm_id a = i" "admins d" a] by (simp add: admin_by_id_def)
    then have "totp_generation i d1 = adm_totp_generation (f a)"
      unfolding d1_def totp_generation_update[OF f(1)] a by simp
    then show ?thesis
      using f(5)[of a] a True by (simp add: mark_le_def totp_generation_def d2_def admin_by_id_def)
  next
    case False
    have "totp_generation j d1 = totp_generation j d"
    proof (cases "admin_by_id j d")
      case None
      then show ?thesis unfolding d1_def totp_generation_update[OF f(1)] by (simp add: totp_generation_def)
    next
      case (Some b)
      then have "adm_id b \<noteq> i" using False sql_first_Some[of "\<lambda>a. adm_id a = j" "admins d" b] by (simp add: admin_by_id_def)
      then show ?thesis unfolding d1_def totp_generation_update[OF f(1)] by (simp add: totp_generation_def Some)
    qed
    then show ?thesis
      using replay[OF False] by (simp add: mark_le_def last_step_def d2_def totp_generation_def admin_by_id_def)
  qed
  ultimately show ?thesis by (simp add: auth_ok_def d2_def d1_def)
qed

lemma sql_first_update_off:
  "(\<And>r. P r \<Longrightarrow> \<not> Q r \<and> \<not> Q (f r)) \<Longrightarrow> sql_first Q (sql_update P f rows) = sql_first Q rows"
  by (induction rows) (auto simp: sql_first_def sql_update_def)

lemma clear_second_factors_ok:
  assumes inv: "auth_inv d" and a: "admin_by_id i d = Some a"
    and f: "\<And>b. adm_id (f b) = adm_id b" "\<And>b. adm_username (f b) = adm_username b"
      "\<And>b. adm_active (f b) = adm_active b" "\<And>b. adm_totp_enabled (f b)"
      "\<And>b. adm_totp_generation b < adm_totp_generation (f b)"
  shows "auth_ok d (clear_second_factors i (d\<lparr>admins := sql_update (\<lambda>b. adm_id b = i) f (admins d)\<rparr>))"
proof -
  have "sql_count (\<lambda>c. crd_admin_id c = j) (sql_delete (\<lambda>c. crd_admin_id c = i) (webauthn_credentials d))
      = credential_count j d" if "j \<noteq> i" for j
    using that by (auto simp: credential_count_def sql_count_def sql_delete_def filter_filter intro!: arg_cong[of _ _ length] filter_cong)
  then have "auth_ok d (d\<lparr>admins := sql_update (\<lambda>b. adm_id b = i) f (admins d),
      webauthn_credentials := sql_delete (\<lambda>c. crd_admin_id c = i) (webauthn_credentials d),
      totp_replay := sql_delete (\<lambda>r. fst r = i) (totp_replay d)\<rparr>)"
    using credential_table.delete[OF auth_invD(5)[OF inv]] replay_table.delete[OF auth_invD(4)[OF inv]]
    by (intro new_secret_ok[OF inv a f]) (auto intro!: sql_first_delete_other)
  then show ?thesis by (simp add: clear_second_factors_def)
qed

lemma recover_admin_ok:
  assumes eq: "recover_admin encrypt lower username pw secret now d = (r, d')" and inv: "auth_inv d"
  shows "auth_ok d d'"
proof (cases "sql_first (\<lambda>a. eq_ignore_ascii_case (adm_username a) username) (admins d)")
  case None
  then show ?thesis using eq inv by (auto simp: recover_admin_def split: if_splits)
next
  case (Some a)
  have a: "admin_by_id (adm_id a) d = Some a"
    unfolding admin_by_id_def
    by (rule admin_table.lookup_member[OF auth_invD(1)[OF inv]]) (use sql_first_Some[OF Some] in auto)
  show ?thesis
  proof (cases secret)
    case None
    define f where "f = (\<lambda>b :: admin_row. b\<lparr>adm_password_hash := (case pw of None \<Rightarrow> adm_password_hash b | Some h \<Rightarrow> h)\<rparr>)"
    define d2 where "d2 = d\<lparr>admins := sql_update (\<lambda>b. adm_id b = adm_id a) f (admins d)\<rparr>"
    have "auth_ok d (revoke_admin_auth_state (adm_id a) d2)"
      unfolding d2_def by (rule ok_update_revoke[OF inv]) (simp_all add: f_def)
    moreover have "d' = d \<or> (\<exists>evs out ctx. commit_audited now ctx evs out d (revoke_admin_auth_state (adm_id a) d2) = (r, d'))"
      using eq Some None by (auto simp: recover_admin_def Let_def d2_def f_def split: if_splits)
    ultimately show ?thesis using inv by (auto intro: commit_audited_ok[OF _ inv])
  next
    case (Some s)
    show ?thesis
    proof (cases "encrypt_admin_totp encrypt lower (adm_username a) s")
      case (Inl e)
      then show ?thesis
        using eq \<open>sql_first _ _ = Some a\<close> Some inv by (auto simp: recover_admin_def split: if_splits)
    next
      case (Inr totp)
      define f where "f = (\<lambda>b :: admin_row. b\<lparr>adm_password_hash := (case pw of None \<Rightarrow> adm_password_hash b | Some h \<Rightarrow> h),
          adm_totp_key_id := fst totp, adm_totp_ciphertext := snd totp,
          adm_totp_generation := adm_totp_generation b + 1, adm_totp_enabled := True\<rparr>)"
      define d2 where "d2 = clear_second_factors (adm_id a)
          (d\<lparr>admins := sql_update (\<lambda>b. adm_id b = adm_id a) f (admins d)\<rparr>)"
      have "auth_ok d d2"
        unfolding d2_def by (rule clear_second_factors_ok[OF inv a]) (simp_all add: f_def)
      then have "auth_ok d (revoke_admin_auth_state (adm_id a) d2)" by (rule ok_revoke_after)
      moreover have "\<exists>evs out ctx. commit_audited now ctx evs out d (revoke_admin_auth_state (adm_id a) d2) = (r, d')"
        using eq \<open>sql_first _ _ = Some a\<close> Some Inr
        by (auto simp: recover_admin_def Let_def d2_def f_def split: if_splits)
      ultimately show ?thesis by (auto intro: commit_audited_ok[OF _ inv])
    qed
  qed
qed

lemma change_password_ok:
  "change_admin_password_cas i expected new d = Inr ((x, evs), d') \<Longrightarrow> auth_inv d \<Longrightarrow> auth_ok d d'"
  by (auto simp: change_admin_password_cas_def Let_def split: option.splits if_splits
      intro!: ok_update_revoke)

lemma reset_password_ok:
  "reset_admin_password i new d = Inr ((x, evs), d') \<Longrightarrow> auth_inv d \<Longrightarrow> auth_ok d d'"
  by (auto simp: reset_admin_password_def Let_def split: if_splits intro!: ok_update_revoke ok_update_admins)

lemma reset_totp_ok:
  assumes eq: "reset_admin_totp i (Some (username, totp)) d = Inr ((x, evs), d')" and inv: "auth_inv d"
    and a: "admin_by_id i d = Some a"
  shows "auth_ok d d'"
proof -
  define d1 where "d1 = clear_second_factors i (set_admin_totp i totp d)"
  have "auth_ok d d1"
    unfolding d1_def set_admin_totp_def by (rule clear_second_factors_ok[OF inv a]) simp_all
  then have "auth_ok d (revoke_admin_auth_state i d1)" by (rule ok_revoke_after)
  then show ?thesis using eq by (auto simp: reset_admin_totp_def d1_def)
qed

lemma reset_totp_for_session_ok:
  assumes eq: "reset_admin_totp_for_session encrypt lower proof idle i secret ctx now d = (r, d')"
    and inv: "auth_inv d"
  shows "auth_ok d d'"
proof (cases "admin_by_id i d")
  case None
  then have "required_transaction_for_mfa_session proof idle now ctx (reset_admin_totp i None) d = (r, d')"
    using eq by (simp add: reset_admin_totp_for_session_def)
  then show ?thesis by (rule session_transaction_ok[OF _ inv]) (use inv in \<open>auto simp: reset_admin_totp_def\<close>)
next
  case (Some a)
  show ?thesis
  proof (cases "encrypt_admin_totp encrypt lower (adm_username a) secret")
    case (Inl e)
    then show ?thesis using eq Some inv by (simp add: reset_admin_totp_for_session_def)
  next
    case (Inr totp)
    then have "required_transaction_for_mfa_session proof idle now ctx
        (reset_admin_totp i (Some (adm_username a, totp))) d = (r, d')"
      using eq Some by (simp add: reset_admin_totp_for_session_def)
    then show ?thesis by (rule session_transaction_ok[OF _ inv]) (rule reset_totp_ok[OF _ inv Some])
  qed
qed

subsection \<open>Second factors\<close>

lemma cleanup_enrollments_ok: "auth_inv d \<Longrightarrow> auth_ok d (cleanup_admin_mfa_enrollments now d)"
  unfolding cleanup_admin_mfa_enrollments_def by (rule ok_frame(2))

lemma upsert_enrollment_ok: "upsert_enrollment e d = Inr d' \<Longrightarrow> auth_inv d \<Longrightarrow> auth_ok d d'"
  by (auto simp: upsert_enrollment_def intro!: ok_frame split: if_splits)

lemma start_enrollment_ok:
  assumes eq: "start_admin_mfa_enrollment i h totp step now d = Inr ((x, evs), d')" and inv: "auth_inv d"
  shows "auth_ok d d'"
proof -
  note ok0 = cleanup_enrollments_ok[OF inv, of now]
  obtain b d1 where c: "consume_admin_totp_step i step (cleanup_admin_mfa_enrollments now d) = (b, d1)" by fastforce
  note ok1 = ok_trans[OF ok0 ok_consume[OF ok_inv[OF ok0] c]]
  show ?thesis
    using eq c ok1 ok_trans[OF ok1 upsert_enrollment_ok[OF _ ok_inv[OF ok1]]]
    by (auto simp: start_admin_mfa_enrollment_def Let_def split: bool.splits sum.splits)
qed

lemma admin_mfa_enrollment_ok:
  "admin_mfa_enrollment th decrypt i token now d = (r, d') \<Longrightarrow> auth_inv d \<Longrightarrow> auth_ok d d'"
  by (auto simp: admin_mfa_enrollment_def Let_def intro: cleanup_enrollments_ok split: option.splits sum.splits)

lemma activate_enrollment_ok:
  assumes eq: "activate_admin_mfa_enrollment encrypt decrypt lower i h step now d = Inr ((x, evs), d')"
    and inv: "auth_inv d"
  shows "auth_ok d d'"
proof -
  define d1 where "d1 = cleanup_admin_mfa_enrollments now d"
  have ok1: "auth_ok d d1" unfolding d1_def by (rule cleanup_enrollments_ok[OF inv])
  show ?thesis
  proof (cases "x = Activated")
    case False
    then have "d' = d1"
      using eq unfolding activate_admin_mfa_enrollment_def d1_def[symmetric]
      by (auto simp: Let_def split: option.splits sum.splits)
    then show ?thesis using ok1 by simp
  next
    case True
    define rs where "rs = (if sql_exists (\<lambda>r. fst r = i) (totp_replay d1)
        then sql_update (\<lambda>r. fst r = i) (\<lambda>r. (fst r, int step)) (totp_replay d1)
        else totp_replay d1 @ [(i, int step)])"
    obtain totp where d': "d' = revoke_admin_auth_state i ((set_admin_totp i totp d1)\<lparr>totp_replay := rs\<rparr>)"
      and act: "admin_active i d1"
      using eq True unfolding activate_admin_mfa_enrollment_def d1_def[symmetric]
      by (auto simp: Let_def rs_def set_admin_totp_def pending_enrollment_row_def split: option.splits sum.splits if_splits)
    obtain a where a: "admin_by_id i d1 = Some a"
      using act sql_first_None[of "\<lambda>a. adm_id a = i" "admins d1"]
      by (cases "admin_by_id i d1") (auto simp: admin_by_id_def admin_active_def sql_exists_iff)
    note inv1 = ok_inv[OF ok1]
    have "wf_replay rs"
      using replay_table.update[OF auth_invD(4)[OF inv1], of "\<lambda>r. fst r = i" "\<lambda>r. (fst r, int step)"]
        replay_table.insert_fresh[OF auth_invD(4)[OF inv1], of "(i, int step)"]
      by (auto simp: rs_def sql_exists_iff)
    moreover have "sql_first (\<lambda>r. fst r = j) rs = sql_first (\<lambda>r. fst r = j) (totp_replay d1)" if "j \<noteq> i" for j
    proof -
      have "sql_first (\<lambda>r. fst r = j) (sql_update (\<lambda>r. fst r = i) (\<lambda>r. (fst r, int step)) (totp_replay d1))
          = sql_first (\<lambda>r. fst r = j) (totp_replay d1)"
        using that by (intro sql_first_update_off) auto
      then show ?thesis
        using that by (auto simp: rs_def sql_first_def find_append split: option.splits)
    qed
    ultimately have "auth_ok d1 (d1\<lparr>admins := sql_update (\<lambda>a. adm_id a = i) (\<lambda>a. a\<lparr>adm_totp_key_id := fst totp,
        adm_totp_ciphertext := snd totp, adm_totp_generation := adm_totp_generation a + 1,
        adm_totp_enabled := True\<rparr>) (admins d1), webauthn_credentials := webauthn_credentials d1, totp_replay := rs\<rparr>)"
      using auth_invD(5)[OF inv1] by (intro new_secret_ok[OF inv1 a]) (simp_all add: credential_count_def)
    then have "auth_ok d1 ((set_admin_totp i totp d1)\<lparr>totp_replay := rs\<rparr>)" by (simp add: set_admin_totp_def)
    then show ?thesis
      unfolding d' by (intro ok_revoke_after ok_trans[OF ok1])
  qed
qed

lemma insert_credential_ok:
  assumes eq: "insert_webauthn_credential i label cid blob now d = Inr (r, d')" and inv: "auth_inv d"
  shows "auth_ok d d'"
proof -
  obtain c where d': "d' = d\<lparr>webauthn_credentials := webauthn_credentials d @ [c]\<rparr>"
    and id: "crd_id c = next_rowid (map crd_id (webauthn_credentials d))"
    using eq by (auto simp: insert_webauthn_credential_def Let_def split: if_splits)
  have "\<forall>x\<in>set (webauthn_credentials d). crd_id x \<noteq> crd_id c"
    using next_rowid_notin[of "map crd_id (webauthn_credentials d)"] by (force simp: id)
  then have "wf_credentials (webauthn_credentials d')"
    using credential_table.insert_fresh[OF auth_invD(5)[OF inv], of c] by (simp add: d')
  moreover have "credential_count j d \<le> credential_count j d'" for j by (simp add: d' credential_count_def)
  ultimately have "auth_inv d'"
    using inv unfolding auth_inv_def by (auto simp: d' admin_active_def intro: order_trans)
  then show ?thesis by (simp add: auth_ok_def mark_le_frame d')
qed

lemma delete_credential_ok:
  assumes inv: "auth_inv d"
    and one: "sql_count (\<lambda>c. crd_id c = cid \<and> crd_admin_id c = i) (webauthn_credentials d) = 1"
    and count: "credential_count i d \<noteq> 2"
  shows "auth_ok d (d\<lparr>webauthn_credentials :=
    sql_delete (\<lambda>c. crd_id c = cid \<and> crd_admin_id c = i) (webauthn_credentials d)\<rparr>)"
proof -
  let ?mine = "\<lambda>c. crd_id c = cid \<and> crd_admin_id c = i"
  define d' where "d' = d\<lparr>webauthn_credentials := sql_delete ?mine (webauthn_credentials d)\<rparr>"
  have split: "credential_count j d = sql_count (\<lambda>c. ?mine c \<and> crd_admin_id c = j) (webauthn_credentials d) + credential_count j d'" for j
    using sql_count_delete_split[of "\<lambda>c. crd_admin_id c = j" ?mine "webauthn_credentials d"]
    by (simp add: credential_count_def d'_def conj_commute)
  have "sql_count (\<lambda>c. ?mine c \<and> crd_admin_id c = j) (webauthn_credentials d) = (if j = i then 1 else 0)" for j
  proof (cases "j = i")
    case True
    then have "(\<lambda>c. ?mine c \<and> crd_admin_id c = j) = ?mine" by auto
    then show ?thesis using one True by simp
  next
    case False
    then show ?thesis by (auto simp: sql_count_0)
  qed
  then have n: "credential_count j d = (if j = i then 1 else 0) + credential_count j d'" for j using split by simp
  have "2 \<le> credential_count (adm_id a) d'" if "a \<in> set (admins d)" "\<not> adm_totp_enabled a" for a
    using auth_invD(7)[OF inv that] n[of "adm_id a"] count by (auto split: if_splits)
  moreover have "wf_credentials (webauthn_credentials d')"
    using credential_table.delete[OF auth_invD(5)[OF inv]] by (simp add: d'_def)
  ultimately have "auth_inv d'" using inv unfolding auth_inv_def by (simp add: d'_def admin_active_def)
  then show ?thesis by (simp add: auth_ok_def mark_le_frame d'_def)
qed

lemma delete_with_totp_ok:
  assumes eq: "delete_credential_with_totp i cid expected generation step d = Inr ((x, evs), d')"
    and inv: "auth_inv d"
  shows "auth_ok d d'"
proof -
  obtain b d1 where c: "consume_admin_totp_step i step d = (b, d1)" by fastforce
  note ok1 = ok_consume[OF inv c]
  have same: "webauthn_credentials d1 = webauthn_credentials d" "credential_count i d1 = credential_count i d"
    using consume_effect[OF auth_invD(4)[OF inv] c] by (auto simp: credential_count_def)
  define d2 where "d2 = d1\<lparr>webauthn_credentials :=
      sql_delete (\<lambda>c. crd_id c = cid \<and> crd_admin_id c = i) (webauthn_credentials d1)\<rparr>"
  have "d' = d \<or> d' = d1 \<or> d' = revoke_admin_auth_state i d2 \<and> credential_count i d1 \<noteq> 2
      \<and> sql_count (\<lambda>c. crd_id c = cid \<and> crd_admin_id c = i) (webauthn_credentials d1) = 1"
    using eq c same by (auto simp: delete_credential_with_totp_def Let_def d2_def split: if_splits bool.splits)
  then show ?thesis
    using ok1 inv ok_revoke_after[OF ok_trans[OF ok1 delete_credential_ok[OF ok_inv[OF ok1], of cid i]], of i]
    by (auto simp: d2_def)
qed

lemma delete_without_totp_ok:
  assumes eq: "delete_credential_without_totp i cid expected d = Inr ((x, evs), d')" and inv: "auth_inv d"
  shows "auth_ok d d'"
proof -
  define d2 where "d2 = d\<lparr>webauthn_credentials :=
      sql_delete (\<lambda>c. crd_id c = cid \<and> crd_admin_id c = i) (webauthn_credentials d)\<rparr>"
  have "d' = d \<or> d' = revoke_admin_auth_state i d2 \<and> credential_count i d \<noteq> 2
      \<and> sql_count (\<lambda>c. crd_id c = cid \<and> crd_admin_id c = i) (webauthn_credentials d) = 1"
    using eq by (auto simp: delete_credential_without_totp_def Let_def d2_def split: if_splits)
  then show ?thesis using inv ok_revoke_after[OF delete_credential_ok[OF inv, of cid i], of i] by (auto simp: d2_def)
qed

lemma switch_totp_ok:
  assumes inv: "auth_inv d" and keys: "\<not> enabled \<Longrightarrow> 2 \<le> credential_count i d"
  shows "auth_ok d (d\<lparr>admins := sql_update (\<lambda>a. adm_id a = i \<and> adm_totp_enabled a \<noteq> enabled)
    (adm_totp_enabled_update (\<lambda>_. enabled)) (admins d)\<rparr>)"
proof -
  let ?P = "\<lambda>a. adm_id a = i \<and> adm_totp_enabled a \<noteq> enabled" and ?f = "adm_totp_enabled_update (\<lambda>_. enabled)"
  define d' where "d' = d\<lparr>admins := sql_update ?P ?f (admins d)\<rparr>"
  have "admin_active j d'" if "admin_active j d" for j
    using that sql_exists_update[of "\<lambda>a. adm_id a = j \<and> adm_active a" "admins d" ?P ?f]
    by (simp add: admin_active_def d'_def)
  moreover have "2 \<le> credential_count (adm_id a) d'" if "a \<in> set (admins d')" "\<not> adm_totp_enabled a" for a
    using that keys auth_invD(7)[OF inv] by (auto simp: d'_def set_sql_update credential_count_def split: if_splits)
  moreover have "sql_exists adm_active (admins d')" if "admins d' \<noteq> []"
    using that inv sql_exists_update[of adm_active "admins d" ?P ?f] by (simp add: d'_def auth_inv_def sql_update_def)
  moreover have "wf_admins (admins d')" "wf_usernames (admins d')"
    using admin_table.update[OF auth_invD(1)[OF inv], of ?P ?f]
      username_index.update[OF auth_invD(2)[OF inv], of ?P ?f] by (simp_all add: d'_def username_key_def)
  ultimately have "auth_inv d'" using inv unfolding auth_inv_def by (simp add: d'_def)
  moreover have "mark_le j d d'" for j
    using totp_generation_update[of ?f j ?P d]
    by (intro mark_le_generation) (auto simp: d'_def totp_generation_def admin_by_id_def split: option.splits)
  ultimately show ?thesis by (simp add: auth_ok_def d'_def)
qed

lemma set_totp_enabled_ok:
  assumes eq: "set_admin_totp_enabled i expected generation enabled step d = Inr ((x, evs), d')"
    and inv: "auth_inv d"
  shows "auth_ok d d'"
proof (cases "\<exists>s. step = Some s \<and> \<not> enabled")
  case False
  then show ?thesis
    using eq inv switch_totp_ok[OF inv, of True i]
    by (cases step; cases enabled) (auto simp: set_admin_totp_enabled_def Let_def split: option.splits if_splits)
next
  case True
  then obtain s where s: "step = Some s" "\<not> enabled" by blast
  obtain b d1 where c: "consume_admin_totp_step i s d = (b, d1)" by fastforce
  note ok1 = ok_consume[OF inv c]
  have same: "credential_count i d1 = credential_count i d"
    using consume_effect[OF auth_invD(4)[OF inv] c] by (auto simp: credential_count_def)
  define d2 where "d2 = d1\<lparr>admins := sql_update (\<lambda>a. adm_id a = i \<and> adm_totp_enabled a \<noteq> False)
    (adm_totp_enabled_update (\<lambda>_. False)) (admins d1)\<rparr>"
  have "d' = d \<or> d' = d1 \<or> d' = d2 \<and> 2 \<le> credential_count i d"
    using eq s c by (auto simp: set_admin_totp_enabled_def Let_def d2_def split: option.splits if_splits bool.splits)
  then show ?thesis
    using inv ok1 ok_trans[OF ok1 switch_totp_ok[OF ok_inv[OF ok1], of False i]] same by (auto simp: d2_def)
qed

end
