(* ===== verification/Share_Paths.thy ===== *)
theory Share_Paths
  imports Store
begin

text \<open>
  Shares follow the paths they point to (\<open>src/src/db/shares.rs\<close> and
  \<open>src/src/db/shares/mutations.rs\<close>): renaming a file or directory rewrites the paths and the
  search keys of the shares at or below it, deleting one deactivates them. The statements
  select rows with the SQL operator GLOB, which is modelled with its character classes, on
  patterns that \<open>glob_literal\<close> escapes. \<open>lower\<close> is the lower case mapping of one character
  (\<open>char::to_lowercase\<close>).
\<close>

section \<open>SQL text functions\<close>

text \<open>SQLite reads a text operand of these functions up to its first NUL.\<close>

definition c_str :: "rstr \<Rightarrow> rstr" where
  "c_str = takeWhile (\<lambda>c. c \<noteq> 0)"

definition sql_length :: "rstr \<Rightarrow> nat" where
  "sql_length s = length (c_str s)"

definition sql_substr_from :: "rstr \<Rightarrow> nat \<Rightarrow> rstr" where
  "sql_substr_from s n = drop (n - 1) (c_str s)"

text \<open>The members of a character class up to its closing bracket: whether \<open>c\<close> is one of
  them, and the rest of the pattern.\<close>

fun glob_class :: "nat \<Rightarrow> nat \<Rightarrow> bool \<Rightarrow> rstr \<Rightarrow> (bool \<times> rstr) option" where
  "glob_class c prior seen [] = None"
| "glob_class c prior seen [p] =
     (if p = 93 then Some (seen, []) else None)"
| "glob_class c prior seen (p # q # ps) =
     (if p = 93 then Some (seen, q # ps)
      else if p = 45 \<and> q \<noteq> 93 \<and> 0 < prior
      then glob_class c 0 (seen \<or> prior \<le> c \<and> c \<le> q) ps
      else glob_class c p (seen \<or> c = p) (q # ps))"

definition glob_bracket :: "nat \<Rightarrow> rstr \<Rightarrow> (bool \<times> rstr) option" where
  "glob_bracket c ps =
     (let (invert, ps1) = (case ps of [] \<Rightarrow> (False, []) | p # qs \<Rightarrow> if p = 94 then (True, qs) else (False, ps));
          (seen, ps2) = (case ps1 of [] \<Rightarrow> (False, []) | p # qs \<Rightarrow> if p = 93 then (c = 93, qs) else (False, ps1)) in
      map_option (\<lambda>(seen, qs). (seen \<noteq> invert, qs)) (glob_class c 0 seen ps2))"

function glob_match :: "rstr \<Rightarrow> rstr \<Rightarrow> bool" where
  "glob_match [] s = (s = [])"
| "glob_match (p # ps) [] = (p = 42 \<and> glob_match ps [])"
| "glob_match (p # ps) (c # cs) =
     (if p = 42 then glob_match ps (c # cs) \<or> glob_match (p # ps) cs
      else if p = 91 then
        (case glob_bracket c ps of
           None \<Rightarrow> False
         | Some (member, qs) \<Rightarrow> member \<and> glob_match qs cs)
      else (c = p \<or> p = 63) \<and> glob_match ps cs)"
  by pat_completeness auto
termination
  by (relation "(\<lambda>(p, s). length s) <*mlex*> measure (\<lambda>(p, s). length p)")
    (auto simp: mlex_prod_def)

definition sql_glob :: "rstr \<Rightarrow> rstr \<Rightarrow> bool" where
  "sql_glob pattern s = glob_match (c_str pattern) (c_str s)"

section \<open>Paths of shares\<close>

definition rewrite_share_path :: "rstr \<Rightarrow> rstr \<Rightarrow> rstr \<Rightarrow> bool \<Rightarrow> rstr option" where
  "rewrite_share_path candidate target replacement is_directory =
     (if candidate = target then Some replacement
      else if \<not> is_directory then None
      else if starts_with target candidate
      then (let suffix = drop (length target) candidate in
            if starts_with (lit ''/'') suffix then Some (replacement @ suffix) else None)
      else None)"

primrec glob_literal :: "rstr \<Rightarrow> rstr" where
  "glob_literal [] = []"
| "glob_literal (c # cs) =
     (if c = 42 then lit ''[*]''
      else if c = 63 then lit ''[?]''
      else if c = 91 then lit ''[[]''
      else if c = 93 then lit ''[]]''
      else [c]) @ glob_literal cs"

definition path_globs :: "rstr \<Rightarrow> rstr \<times> rstr" where
  "path_globs path = (let exact = glob_literal path in (exact, exact @ lit ''/*''))"

definition unicode_search_key :: "(nat \<Rightarrow> rstr) \<Rightarrow> rstr \<Rightarrow> rstr" where
  "unicode_search_key lower s =
     concat (map (\<lambda>c. if c = 223 then lit ''ss'' else [c]) (concat (map lower s)))"

definition path_selected :: "rstr \<Rightarrow> bool \<Rightarrow> share_row \<Rightarrow> bool" where
  "path_selected path is_directory s =
     (let (exact, subtree) = path_globs path in
      sql_glob exact (sh_relative_path s) \<or> is_directory \<and> sql_glob subtree (sh_relative_path s))"

definition moved_share :: "(nat \<Rightarrow> rstr) \<Rightarrow> rstr \<Rightarrow> rstr \<Rightarrow> share_row \<Rightarrow> share_row" where
  "moved_share lower old_path new_path s =
     s\<lparr>sh_relative_path := new_path @ sql_substr_from (sh_relative_path s) (sql_length old_path + 1),
       sh_path_search_key := unicode_search_key lower new_path
         @ sql_substr_from (sh_path_search_key s) (sql_length (unicode_search_key lower old_path) + 1),
       sh_upload_policy_epoch := sh_upload_policy_epoch s + 1\<rparr>"

definition bool_text :: "bool \<Rightarrow> rstr" where
  "bool_text b = lit (if b then ''true'' else ''false'')"

section \<open>Renaming and deleting a path\<close>

definition rename_share_paths_in_transaction ::
  "(nat \<Rightarrow> rstr) \<Rightarrow> rstr \<Rightarrow> rstr \<Rightarrow> bool \<Rightarrow> bool \<Rightarrow> db \<Rightarrow> (nat \<times> required_audit_event list) \<times> db" where
  "rename_share_paths_in_transaction lower old_path new_path is_directory recovery d =
     (let updated = sql_count (path_selected old_path is_directory) (shares d) in
      ((updated, [audit_event PathRenamed (Some new_path)
          (Some (lit ''old_path='' @ old_path @ lit '';updated_shares='' @ dec_nat updated
             @ lit '';recovery='' @ bool_text recovery))]),
       d\<lparr>shares := sql_update (path_selected old_path is_directory)
            (moved_share lower old_path new_path) (shares d)\<rparr>))"

definition rename_share_paths_and_audit ::
  "(nat \<Rightarrow> rstr) \<Rightarrow> rstr \<Rightarrow> rstr \<Rightarrow> bool \<Rightarrow> audit_context \<Rightarrow> bool \<Rightarrow> instant \<Rightarrow> db \<Rightarrow> nat outcome" where
  "rename_share_paths_and_audit lower old_path new_path is_directory ctx recovery now d =
     (let ((updated, evs), d1) =
            rename_share_paths_in_transaction lower old_path new_path is_directory recovery d in
      commit_audited now ctx evs updated d d1)"

definition deactivated_share :: "share_row \<Rightarrow> share_row" where
  "deactivated_share s = s\<lparr>sh_active := False, sh_upload_policy_epoch := sh_upload_policy_epoch s + 1\<rparr>"

definition deactivate_shares_for_path_in_transaction ::
  "rstr \<Rightarrow> bool \<Rightarrow> bool \<Rightarrow> bool \<Rightarrow> db \<Rightarrow> (nat \<times> required_audit_event list) \<times> db" where
  "deactivate_shares_for_path_in_transaction path is_directory recovery cleanup_pending d =
     (let P = (\<lambda>s. sh_active s \<and> path_selected path is_directory s);
          deactivated = sql_count P (shares d) in
      ((deactivated, [audit_event PathDeleted (Some path)
          (Some (lit ''kind='' @ lit (if is_directory then ''directory'' else ''file'')
             @ lit '';deactivated_shares='' @ dec_nat deactivated
             @ lit '';cleanup='' @ lit (if cleanup_pending then ''pending'' else ''complete'')
             @ lit '';recovery='' @ bool_text recovery))]),
       d\<lparr>shares := sql_update P deactivated_share (shares d)\<rparr>))"

definition deactivate_shares_for_path_and_audit ::
  "rstr \<Rightarrow> bool \<Rightarrow> audit_context \<Rightarrow> bool \<Rightarrow> bool \<Rightarrow> instant \<Rightarrow> db \<Rightarrow> nat outcome" where
  "deactivate_shares_for_path_and_audit path is_directory ctx recovery cleanup_pending now d =
     (let ((deactivated, evs), d1) =
            deactivate_shares_for_path_in_transaction path is_directory recovery cleanup_pending d in
      commit_audited now ctx evs deactivated d d1)"

section \<open>Escaped patterns match literally\<close>

lemma c_str_id [simp]: "0 \<notin> set s \<Longrightarrow> c_str s = s"
  by (induction s) (auto simp: c_str_def)

lemma bracket_literal [simp]:
  "glob_bracket c (42 # 93 # ps) = Some (c = 42, ps)"
  "glob_bracket c (63 # 93 # ps) = Some (c = 63, ps)"
  "glob_bracket c (91 # 93 # ps) = Some (c = 91, ps)"
  "glob_bracket c (93 # 93 # ps) = Some (c = 93, ps)"
  by (cases ps; simp add: glob_bracket_def)+

lemma glob_literal_append_match:
  "glob_match (glob_literal t @ ps) s \<longleftrightarrow> (\<exists>u. s = t @ u \<and> glob_match ps u)"
proof (induction t arbitrary: s)
  case (Cons c t)
  then show ?case by (cases s) auto
qed simp

lemma glob_star [simp]: "glob_match [42] s"
  by (induction s) auto

lemma glob_slash_star: "glob_match (lit ''/*'') s \<longleftrightarrow> (\<exists>u. s = 47 # u)"
  by (cases s) auto

lemma glob_literal_no_nul [simp]: "0 \<in> set (glob_literal t) \<longleftrightarrow> 0 \<in> set t"
  by (induction t) auto

lemma path_selected_iff:
  assumes "0 \<notin> set path" "0 \<notin> set (sh_relative_path s)"
  shows "path_selected path dir s \<longleftrightarrow> (\<exists>u. sh_relative_path s = path @ u \<and> (u = [] \<or> dir \<and> hd u = 47))"
proof -
  have "sql_glob (glob_literal path) (sh_relative_path s) \<longleftrightarrow> sh_relative_path s = path"
    using assms glob_literal_append_match[of path "[]"] by (simp add: sql_glob_def)
  moreover have "sql_glob (glob_literal path @ lit ''/*'') (sh_relative_path s)
      \<longleftrightarrow> (\<exists>u. sh_relative_path s = path @ 47 # u)"
  proof -
    have "c_str (glob_literal path @ lit ''/*'') = glob_literal path @ lit ''/*''"
      using assms by (intro c_str_id) simp
    then show ?thesis
      using assms glob_literal_append_match[of path "lit ''/*''"]
      by (auto simp: sql_glob_def glob_slash_star simp del: lit_simps)
  qed
  ultimately show ?thesis
    by (auto simp: path_selected_def path_globs_def Let_def) (metis list.exhaust_sel)+
qed

lemma rewrite_share_path_eq:
  "rewrite_share_path (t @ u) t r dir = (if u = [] then Some r else if dir \<and> hd u = 47 then Some (r @ u) else None)"
  by (cases u) (auto simp: rewrite_share_path_def Let_def)

lemma rewrite_share_path_None:
  "\<nexists>u. c = t @ u \<Longrightarrow> rewrite_share_path c t r dir = None"
  by (auto simp: rewrite_share_path_def Let_def starts_with_iff)

section \<open>Search keys\<close>

lemma search_key_append [simp]:
  "unicode_search_key lower (s @ t) = unicode_search_key lower s @ unicode_search_key lower t"
  by (simp add: unicode_search_key_def)

lemma search_key_Nil [simp]: "unicode_search_key lower [] = []"
  by (simp add: unicode_search_key_def)

text \<open>The search columns are the search keys of the path and the alias, and paths hold no NUL.\<close>

definition search_keys :: "(nat \<Rightarrow> rstr) \<Rightarrow> db \<Rightarrow> bool" where
  "search_keys lower d \<longleftrightarrow> (\<forall>s\<in>set (shares d). 0 \<notin> set (sh_relative_path s)
     \<and> sh_path_search_key s = unicode_search_key lower (sh_relative_path s)
     \<and> sh_alias_search_key s = map_option (unicode_search_key lower) (sh_alias s))"

lemma search_key_no_nul:
  assumes "\<And>c. c \<noteq> 0 \<Longrightarrow> 0 \<notin> set (lower c)" "0 \<notin> set s"
  shows "0 \<notin> set (unicode_search_key lower s)"
proof -
  have "0 \<notin> set (lower c)" if "c \<in> set s" for c
    using assms(1)[of c] assms(2) that by metis
  then have "0 \<notin> set (concat (map lower s))" by auto
  then show ?thesis by (auto simp: unicode_search_key_def split: if_splits)
qed

definition rewritten_share :: "(nat \<Rightarrow> rstr) \<Rightarrow> rstr \<Rightarrow> rstr \<Rightarrow> bool \<Rightarrow> share_row \<Rightarrow> share_row" where
  "rewritten_share lower old_path new_path is_directory s =
     (case rewrite_share_path (sh_relative_path s) old_path new_path is_directory of
        None \<Rightarrow> s
      | Some p \<Rightarrow> s\<lparr>sh_relative_path := p, sh_path_search_key := unicode_search_key lower p,
          sh_upload_policy_epoch := sh_upload_policy_epoch s + 1\<rparr>)"

lemma selected_iff_rewrite:
  assumes "0 \<notin> set path" "0 \<notin> set (sh_relative_path s)"
  shows "path_selected path dir s \<longleftrightarrow> rewrite_share_path (sh_relative_path s) path r dir \<noteq> None"
proof (cases "\<exists>u. sh_relative_path s = path @ u")
  case True
  then obtain u where u: "sh_relative_path s = path @ u" by blast
  then show ?thesis using path_selected_iff[OF assms] by (auto simp: rewrite_share_path_eq)
next
  case False
  then show ?thesis using path_selected_iff[OF assms] by (auto simp: rewrite_share_path_None)
qed

lemma moved_is_rewritten:
  assumes lower: "\<And>c. c \<noteq> 0 \<Longrightarrow> 0 \<notin> set (lower c)" and nul: "0 \<notin> set old_path" "0 \<notin> set (sh_relative_path s)"
    and key: "sh_path_search_key s = unicode_search_key lower (sh_relative_path s)"
  shows "(if path_selected old_path dir s then moved_share lower old_path new_path s else s)
    = rewritten_share lower old_path new_path dir s"
proof (cases "path_selected old_path dir s")
  case True
  then obtain u where u: "sh_relative_path s = old_path @ u" "u = [] \<or> dir \<and> hd u = 47"
    using path_selected_iff[OF nul] by blast
  have "0 \<notin> set u" using nul(2) u(1) by simp
  then have "0 \<notin> set (unicode_search_key lower u)" "0 \<notin> set (unicode_search_key lower old_path)"
    using search_key_no_nul[of lower u] search_key_no_nul[of lower old_path] lower nul(1) by simp_all
  moreover have "rewrite_share_path (old_path @ u) old_path new_path dir = Some (new_path @ u)"
    using u(2) by (auto simp: rewrite_share_path_eq)
  ultimately show ?thesis
    using True nul
    by (simp add: moved_share_def rewritten_share_def sql_substr_from_def sql_length_def u(1) key)
next
  case False
  then show ?thesis
    using selected_iff_rewrite[OF nul, of dir new_path] by (simp add: rewritten_share_def)
qed

lemma renamed_shares:
  assumes "\<And>c. c \<noteq> 0 \<Longrightarrow> 0 \<notin> set (lower c)" "0 \<notin> set old_path" "search_keys lower d"
  shows "sql_update (path_selected old_path dir) (moved_share lower old_path new_path) (shares d)
    = map (rewritten_share lower old_path new_path dir) (shares d)"
  using assms(3) moved_is_rewritten[OF assms(1,2)]
  by (auto simp: sql_update_def search_keys_def)

lemma rewritten_keeps_keys:
  assumes "0 \<notin> set new_path" "0 \<notin> set (sh_relative_path s)"
    "sh_path_search_key s = unicode_search_key lower (sh_relative_path s)"
  shows "0 \<notin> set (sh_relative_path (rewritten_share lower old_path new_path dir s))
    \<and> sh_path_search_key (rewritten_share lower old_path new_path dir s)
      = unicode_search_key lower (sh_relative_path (rewritten_share lower old_path new_path dir s))"
  using assms set_drop_subset[of "length old_path" "sh_relative_path s"]
  by (auto simp: rewritten_share_def rewrite_share_path_def Let_def split: option.splits if_splits)

lemma rewritten_same [simp]:
  "sh_id (rewritten_share lower old_path new_path dir s) = sh_id s"
  "sh_alias (rewritten_share lower old_path new_path dir s) = sh_alias s"
  "sh_alias_search_key (rewritten_share lower old_path new_path dir s) = sh_alias_search_key s"
  by (simp_all add: rewritten_share_def split: option.splits)

section \<open>Properties\<close>

text \<open>C7: renaming a path moves exactly the shares the reference function \<open>rewrite_share_path\<close>
  moves, to the paths it gives. The GLOB patterns take no character of the path as a
  wildcard; the prefix replacement by SQL character positions keeps every search key the key
  of its path even where lower casing changes the length of the text; the number reported is
  the number of shares moved, and each of them starts a new upload policy epoch. When the
  required audit record cannot be written nothing changes.\<close>

theorem rename_follows_reference:
  assumes lower: "\<And>c. c \<noteq> 0 \<Longrightarrow> 0 \<notin> set (lower c)"
    and nul: "0 \<notin> set old_path" "0 \<notin> set new_path" and keys: "search_keys lower d"
    and eq: "rename_share_paths_and_audit lower old_path new_path dir ctx recovery now d = (out, d')"
  shows "case out of
      Inl e \<Rightarrow> is_audit_unavailable e \<and> d' = d
    | Inr n \<Rightarrow> shares d' = map (rewritten_share lower old_path new_path dir) (shares d)
        \<and> n = length (filter (\<lambda>s. rewrite_share_path (sh_relative_path s) old_path new_path dir \<noteq> None) (shares d))
        \<and> search_keys lower d'"
proof -
  have sel: "sql_count (path_selected old_path dir) (shares d)
      = length (filter (\<lambda>s. rewrite_share_path (sh_relative_path s) old_path new_path dir \<noteq> None) (shares d))"
    unfolding sql_count_def
    by (rule arg_cong[where f = length], rule filter_cong[OF refl], rule selected_iff_rewrite[OF nul(1)])
      (use keys in \<open>simp add: search_keys_def\<close>)
  have keys': "\<And>s. s \<in> set (shares d) \<Longrightarrow> 0 \<notin> set (sh_relative_path (rewritten_share lower old_path new_path dir s))
      \<and> sh_path_search_key (rewritten_share lower old_path new_path dir s)
        = unicode_search_key lower (sh_relative_path (rewritten_share lower old_path new_path dir s))"
    using keys rewritten_keeps_keys[OF nul(2)] by (auto simp: search_keys_def)
  from eq show ?thesis
    unfolding rename_share_paths_and_audit_def rename_share_paths_in_transaction_def Let_def split sel
  proof (cases rule: commit_audited_cases)
    case committed
    then have "shares d' = map (rewritten_share lower old_path new_path dir) (shares d)"
      using renamed_shares[OF lower nul(1) keys, of dir new_path] by simp
    then show ?thesis using committed(1) keys keys' by (simp add: search_keys_def)
  qed simp
qed

definition example_lower :: "nat \<Rightarrow> rstr" where
  "example_lower c = [to_ascii_lower c]"

definition example_paths :: db where
  "example_paths = empty_db\<lparr>shares :=
     [example_share\<lparr>sh_relative_path := lit ''A*/x'', sh_path_search_key := lit ''a*/x''\<rparr>,
      example_share\<lparr>sh_id := 2, sh_relative_path := lit ''Ab/x'', sh_path_search_key := lit ''ab/x''\<rparr>]\<rparr>"

lemma example_paths_keys: "search_keys example_lower example_paths"
  by code_simp

lemma example_lower_no_nul: "c \<noteq> 0 \<Longrightarrow> 0 \<notin> set (example_lower c)"
  by (auto simp: example_lower_def to_ascii_lower_def)

theorem rename_follows_reference_witness:
  "\<exists>d'. rename_share_paths_and_audit example_lower (lit ''A*'') (lit ''B'') True
      \<lparr>actor = lit ''root'', ctx_client_ip = None\<rparr> False 5 example_paths = (Inr 1, d')
    \<and> map sh_relative_path (shares d') = [lit ''B/x'', lit ''Ab/x'']
    \<and> map sh_path_search_key (shares d') = [lit ''b/x'', lit ''ab/x'']"
proof -
  let ?r = "rename_share_paths_and_audit example_lower (lit ''A*'') (lit ''B'') True
      \<lparr>actor = lit ''root'', ctx_client_ip = None\<rparr> False 5 example_paths"
  have "fst ?r = Inr 1" by code_simp
  then have r: "?r = (Inr 1, snd ?r)" by (metis prod.collapse)
  have nul: "0 \<notin> set (lit ''A*'')" "0 \<notin> set (lit ''B'')" by simp_all
  have "shares (snd ?r) = map (rewritten_share example_lower (lit ''A*'') (lit ''B'') True) (shares example_paths)"
    using rename_follows_reference[OF example_lower_no_nul nul example_paths_keys r]
    unfolding sum.case by (rule conjunct1)
  moreover have "map sh_relative_path (map (rewritten_share example_lower (lit ''A*'') (lit ''B'') True)
        (shares example_paths)) = [lit ''B/x'', lit ''Ab/x'']"
    "map sh_path_search_key (map (rewritten_share example_lower (lit ''A*'') (lit ''B'') True)
        (shares example_paths)) = [lit ''b/x'', lit ''ab/x'']"
    by code_simp+
  ultimately show ?thesis using r by metis
qed

text \<open>Renaming a path and renaming it back restores the path and search key of every share,
  provided no share was at or below the new path before.\<close>

theorem rename_round_trip:
  assumes lower: "\<And>c. c \<noteq> 0 \<Longrightarrow> 0 \<notin> set (lower c)"
    and nul: "0 \<notin> set old_path" "0 \<notin> set new_path" and keys: "search_keys lower d"
    and fresh: "\<forall>s\<in>set (shares d). \<not> path_selected new_path dir s"
    and d1: "d1 = snd (rename_share_paths_in_transaction lower old_path new_path dir r1 d)"
    and d2: "d2 = snd (rename_share_paths_in_transaction lower new_path old_path dir r2 d1)"
  shows "map sh_relative_path (shares d2) = map sh_relative_path (shares d)
    \<and> map sh_path_search_key (shares d2) = map sh_path_search_key (shares d)"
proof -
  have s1: "shares d1 = map (rewritten_share lower old_path new_path dir) (shares d)"
    using renamed_shares[OF lower nul(1) keys] by (simp add: d1 rename_share_paths_in_transaction_def Let_def)
  have "search_keys lower d1"
    using keys rewritten_keeps_keys[OF nul(2)] by (auto simp: search_keys_def s1)
  then have s2: "shares d2 = map (rewritten_share lower new_path old_path dir) (shares d1)"
    using renamed_shares[OF lower nul(2)] by (simp add: d2 rename_share_paths_in_transaction_def Let_def)
  have "sh_relative_path (rewritten_share lower new_path old_path dir (rewritten_share lower old_path new_path dir s))
        = sh_relative_path s
      \<and> sh_path_search_key (rewritten_share lower new_path old_path dir (rewritten_share lower old_path new_path dir s))
        = sh_path_search_key s" if s: "s \<in> set (shares d)" for s
  proof (cases "rewrite_share_path (sh_relative_path s) old_path new_path dir")
    case None
    have "rewrite_share_path (sh_relative_path s) new_path old_path dir = None"
      using fresh s selected_iff_rewrite[OF nul(2), of s dir old_path] keys by (auto simp: search_keys_def)
    then show ?thesis using None by (simp add: rewritten_share_def)
  next
    case (Some p)
    then obtain u where "sh_relative_path s = old_path @ u" "p = new_path @ u" "u = [] \<or> dir \<and> hd u = 47"
      by (cases "\<exists>u. sh_relative_path s = old_path @ u")
        (auto simp: rewrite_share_path_eq rewrite_share_path_None split: if_splits)
    then show ?thesis using Some s keys by (auto simp: rewritten_share_def rewrite_share_path_eq search_keys_def)
  qed
  then show ?thesis by (simp add: s1 s2)
qed

theorem rename_round_trip_witness:
  "map sh_relative_path (shares (snd (rename_share_paths_in_transaction example_lower (lit ''C'') (lit ''A*'') True False
      (snd (rename_share_paths_in_transaction example_lower (lit ''A*'') (lit ''C'') True False example_paths)))))
   = [lit ''A*/x'', lit ''Ab/x'']"
proof -
  have nul: "0 \<notin> set (lit ''A*'')" "0 \<notin> set (lit ''C'')" by simp_all
  have fresh: "\<forall>s\<in>set (shares example_paths). \<not> path_selected (lit ''C'') True s" by code_simp
  have "map sh_relative_path (shares example_paths) = [lit ''A*/x'', lit ''Ab/x'']" by code_simp
  then show ?thesis
    using rename_round_trip[OF example_lower_no_nul nul example_paths_keys fresh refl refl, of False False]
    by simp
qed

text \<open>C20: once a path is deleted no active share points to it or, for a directory, below it; a
  share elsewhere is untouched, and each deactivated share starts a new upload policy epoch.\<close>

theorem deleted_path_has_no_active_share:
  assumes nul: "0 \<notin> set path" "\<forall>s\<in>set (shares d). 0 \<notin> set (sh_relative_path s)"
    and eq: "deactivate_shares_for_path_and_audit path dir ctx recovery cleanup now d = (Inr n, d')"
  shows "list_all2 (\<lambda>s s'.
      if rewrite_share_path (sh_relative_path s) path [] dir \<noteq> None \<and> sh_active s
      then s' = s\<lparr>sh_active := False, sh_upload_policy_epoch := sh_upload_policy_epoch s + 1\<rparr>
      else s' = s) (shares d) (shares d')
    \<and> (\<forall>s\<in>set (shares d'). rewrite_share_path (sh_relative_path s) path [] dir \<noteq> None \<longrightarrow> \<not> sh_active s)"
proof -
  have "shares d' = sql_update (\<lambda>s. sh_active s \<and> path_selected path dir s) deactivated_share (shares d)"
    using eq unfolding deactivate_shares_for_path_and_audit_def
      deactivate_shares_for_path_in_transaction_def Let_def split
    by (elim commit_audited_cases) auto
  moreover have "\<And>s. s \<in> set (shares d) \<Longrightarrow>
      path_selected path dir s \<longleftrightarrow> rewrite_share_path (sh_relative_path s) path [] dir \<noteq> None"
    using nul selected_iff_rewrite by blast
  ultimately show ?thesis
    by (auto simp: sql_update_def list_all2_map2 list_all2_same deactivated_share_def)
qed

theorem deleted_path_has_no_active_share_witness:
  "\<exists>d'. deactivate_shares_for_path_and_audit (lit ''Ab'') True
      \<lparr>actor = lit ''root'', ctx_client_ip = None\<rparr> False False 5 example_paths = (Inr 1, d')
    \<and> (\<forall>s\<in>set (shares d'). rewrite_share_path (sh_relative_path s) (lit ''Ab'') [] True \<noteq> None \<longrightarrow> \<not> sh_active s)"
proof -
  let ?r = "deactivate_shares_for_path_and_audit (lit ''Ab'') True
      \<lparr>actor = lit ''root'', ctx_client_ip = None\<rparr> False False 5 example_paths"
  have "fst ?r = Inr 1" by code_simp
  then have r: "?r = (Inr 1, snd ?r)" by (metis prod.collapse)
  have nul: "0 \<notin> set (lit ''Ab'')" by simp
  have "\<forall>s\<in>set (shares example_paths). 0 \<notin> set (sh_relative_path s)" by code_simp
  from deleted_path_has_no_active_share[OF nul this r] show ?thesis using r by blast
qed

end
