(* ===== verification/Quota_Ledger.thy ===== *)
theory Quota_Ledger
  imports VL_Prelude
begin

text \<open>
  The abstract contract of a quota with reservations: an amount in use, an amount
  reserved, and an optional limit. A reservation is admitted only while it fits; it is
  later settled (at most the reserved amount moves into use) or released. Download slots,
  upload files and upload bytes of a share are ledgers of this kind; the locale
  \<open>ledger_client\<close> proves once what every implementation of the contract guarantees.
\<close>

definition fits :: "nat option \<Rightarrow> nat \<Rightarrow> bool" where
  "fits limit n = (case limit of None \<Rightarrow> True | Some m \<Rightarrow> n \<le> m)"

inductive ledger_step :: "nat option \<Rightarrow> nat \<times> nat \<Rightarrow> nat \<times> nat \<Rightarrow> bool" for limit where
  reserve: "fits limit (u + p + n) \<Longrightarrow> ledger_step limit (u, p) (u, p + n)"
| settle: "n \<le> p \<Longrightarrow> k \<le> n \<Longrightarrow> ledger_step limit (u, p) (u + k, p - n)"

inductive_cases ledger_stepE: "ledger_step limit a b"

abbreviation ledger_steps :: "nat option \<Rightarrow> nat \<times> nat \<Rightarrow> nat \<times> nat \<Rightarrow> bool" where
  "ledger_steps limit \<equiv> (ledger_step limit)\<^sup>*\<^sup>*"

lemma fits_mono: "fits limit n \<Longrightarrow> k \<le> n \<Longrightarrow> fits limit k"
  by (auto simp: fits_def split: option.splits)

lemma ledger_step_fits:
  "ledger_step limit a b \<Longrightarrow> fits limit (fst a + snd a) \<Longrightarrow> fits limit (fst b + snd b)"
  by (erule ledger_stepE) (auto simp: add.assoc intro: fits_mono)

lemma ledger_step_used: "ledger_step limit a b \<Longrightarrow> fst a \<le> fst b"
  by (erule ledger_stepE) auto

lemma ledger_steps_fits:
  "ledger_steps limit a b \<Longrightarrow> fits limit (fst a + snd a) \<Longrightarrow> fits limit (fst b + snd b)"
  by (induction rule: rtranclp_induct) (auto intro: ledger_step_fits)

lemma ledger_steps_used: "ledger_steps limit a b \<Longrightarrow> fst a \<le> fst b"
  by (induction rule: rtranclp_induct) (auto dest: ledger_step_used)

lemma ledger_release: "q \<le> p \<Longrightarrow> ledger_steps limit (u, p) (u, q)"
  using ledger_step.settle[of "p - q" p 0 limit u] by (simp add: r_into_rtranclp)

lemma ledger_settle_one: "0 < p \<Longrightarrow> ledger_steps limit (u, p) (Suc u, p - 1)"
  using ledger_step.settle[of 1 p 1 limit u] by (simp add: r_into_rtranclp)

lemma ledger_reserve: "fits limit (u + q) \<Longrightarrow> p \<le> q \<Longrightarrow> ledger_steps limit (u, p) (u, q)"
  using ledger_step.reserve[of limit u p "q - p"] by (simp add: r_into_rtranclp)

lemma ledger_settle:
  "n \<le> p \<Longrightarrow> k \<le> n \<Longrightarrow> ledger_steps limit (u, p) (u + k, p - n)"
  by (auto intro: r_into_rtranclp ledger_step.settle)

lemma ledger_settle_eq:
  "p' + n = p \<Longrightarrow> k \<le> n \<Longrightarrow> u' = u + k \<Longrightarrow> ledger_steps limit (u, p) (u', p')"
  using ledger_settle[of n p k limit u] by auto

lemmas ledger_intros = ledger_release ledger_settle_one ledger_reserve ledger_settle

text \<open>A system all of whose steps act on a quota through the ledger. A step may also
  replace the limit, but only by one the current total fits.\<close>

locale ledger_client =
  fixes inv :: "'s \<Rightarrow> bool"
    and step :: "'s \<Rightarrow> 's \<Rightarrow> bool"
    and used :: "'s \<Rightarrow> nat"
    and pending :: "'s \<Rightarrow> nat"
    and limit :: "'s \<Rightarrow> nat option"
  assumes inv_step: "inv s \<Longrightarrow> step s t \<Longrightarrow> inv t"
    and step_ledger: "inv s \<Longrightarrow> step s t \<Longrightarrow> fits (limit s) (used s + pending s) \<Longrightarrow>
      (limit t = limit s \<and> ledger_steps (limit s) (used s, pending s) (used t, pending t))
      \<or> fits (limit t) (used t + pending t)"
begin

lemma step_within:
  "inv s \<Longrightarrow> step s t \<Longrightarrow> fits (limit s) (used s + pending s) \<Longrightarrow> fits (limit t) (used t + pending t)"
  using step_ledger ledger_steps_fits by fastforce

lemma reachable_within:
  assumes "step\<^sup>*\<^sup>* s t" "inv s" "fits (limit s) (used s + pending s)"
  shows "inv t \<and> fits (limit t) (used t + pending t)"
  using assms by (induction rule: rtranclp_induct) (auto intro: inv_step step_within)

lemma reachable_used_within:
  assumes "step\<^sup>*\<^sup>* s t" "inv s" "fits (limit s) (used s + pending s)"
  shows "fits (limit t) (used t)"
  using reachable_within[OF assms] by (auto intro: fits_mono)

end

end
