(* ===== verification/Upload_Quota.thy ===== *)
theory Upload_Quota
  imports Store Quota_Ledger
begin

text \<open>
  Upload quotas of a share (\<open>src/src/db/transfers/reservations.rs\<close>): a public upload holds a
  reservation of one file and of the bytes received so far, extended while the body
  streams, and is settled when the file is published or cancelled. Reservations carry the
  share's policy epoch, so that a policy change invalidates the uploads in flight. Each
  operation is one immediate transaction with the clock reading it takes.
\<close>

section \<open>Outcomes and constants\<close>

datatype reservation_begin_outcome = Reserved | ByteQuotaReached | FileQuotaReached | ShareUnavailable

datatype reservation_extend_outcome = Extended | ByteQuotaReached | NotFound | ShareUnavailable

datatype reservation_commit_outcome = Committed | NotFound | ShareUnavailable | DirectoryQuotaReached

definition UPLOAD_RESERVATION_TTL_SECONDS :: int where
  "UPLOAD_RESERVATION_TTL_SECONDS = 15 * 60"

definition MAX_PUBLIC_UPLOAD_CREATED_DIRECTORIES_PER_SHARE :: nat where
  "MAX_PUBLIC_UPLOAD_CREATED_DIRECTORIES_PER_SHARE = 256"

definition MAX_SQLITE_UNSIGNED :: nat where
  "MAX_SQLITE_UNSIGNED = i64_max"

section \<open>Operations\<close>

definition usage_of :: "db \<Rightarrow> int \<Rightarrow> usage_row" where
  "usage_of d i =
     (case sql_first (\<lambda>u. us_share_id u = i) (upload_usage d) of
        Some u \<Rightarrow> u
      | None \<Rightarrow> \<lparr>us_share_id = i, us_uploaded_bytes = 0, us_uploaded_files = 0,
                 us_created_directories = 0\<rparr>)"

definition expire_reservations :: "instant \<Rightarrow> db \<Rightarrow> db" where
  "expire_reservations now d =
     d\<lparr>upload_reservations := sql_delete (\<lambda>r. rs_expires_at r \<le> now) (upload_reservations d)\<rparr>"

definition delete_reservation :: "rstr \<Rightarrow> db \<Rightarrow> db" where
  "delete_reservation tok d =
     d\<lparr>upload_reservations := sql_delete (\<lambda>r. rs_token_hash r = tok) (upload_reservations d)\<rparr>"

definition begin_upload_reservation ::
  "(rstr \<Rightarrow> rstr) \<Rightarrow> rstr \<Rightarrow> int \<Rightarrow> nat \<Rightarrow> instant \<Rightarrow> db \<Rightarrow> reservation_begin_outcome outcome" where
  "begin_upload_reservation th token i epoch now d =
     (let d1 = expire_reservations now d in
      case sql_first (\<lambda>s. sh_id s = i \<and> sh_upload_policy_epoch s = epoch) (shares d1) of
        None \<Rightarrow> (Inr reservation_begin_outcome.ShareUnavailable, d1)
      | Some s \<Rightarrow>
          (case (sh_max_upload_total_size s, sh_max_upload_files s) of
             (Some total_limit, Some file_limit) \<Rightarrow>
               if \<not> sh_active s \<or> \<not> unexpired (sh_expires_at s) now \<or> \<not> sh_is_directory s
                  \<or> \<not> can_upload (sh_permission s)
               then (Inr reservation_begin_outcome.ShareUnavailable, d1)
               else if total_limit \<le> us_uploaded_bytes (usage_of d1 i)
               then (Inr reservation_begin_outcome.ByteQuotaReached, d1)
               else if file_limit \<le> saturating_add (us_uploaded_files (usage_of d1 i))
                      (sql_count (\<lambda>r. rs_share_id r = i \<and> rs_upload_policy_epoch r = epoch)
                         (upload_reservations d1))
               then (Inr FileQuotaReached, d1)
               else if sql_exists (\<lambda>r. rs_token_hash r = th token) (upload_reservations d1)
               then (Inl ConstraintUnique, d)
               else (Inr Reserved,
                 d1\<lparr>upload_reservations := upload_reservations d1 @
                   [\<lparr>rs_token_hash = th token, rs_share_id = i, rs_reserved_bytes = 0,
                     rs_created_at = now, rs_expires_at = now + seconds UPLOAD_RESERVATION_TTL_SECONDS,
                     rs_upload_policy_epoch = epoch\<rparr>]\<rparr>)
           | _ \<Rightarrow> (Inr reservation_begin_outcome.ShareUnavailable, d1)))"

definition available_upload_share_total_limit ::
  "int \<Rightarrow> nat \<Rightarrow> instant \<Rightarrow> db \<Rightarrow> nat option" where
  "available_upload_share_total_limit i epoch now d =
     (case sql_first (\<lambda>s. sh_id s = i \<and> sh_upload_policy_epoch s = epoch \<and> sh_active s
              \<and> unexpired (sh_expires_at s) now \<and> sh_is_directory s
              \<and> sh_permission s \<in> set [UploadOnly, DownloadUpload]
              \<and> sh_max_upload_files s \<noteq> None) (shares d) of
        None \<Rightarrow> None
      | Some s \<Rightarrow> sh_max_upload_total_size s)"

definition extend_upload_reservation_up_to ::
  "(rstr \<Rightarrow> rstr) \<Rightarrow> rstr \<Rightarrow> nat \<Rightarrow> nat \<Rightarrow> instant \<Rightarrow> db
     \<Rightarrow> (reservation_extend_outcome \<times> nat) outcome" where
  "extend_upload_reservation_up_to th token minimum preferred now d =
     (if preferred < minimum then (Inl InvalidQuery, d)
      else
        let tok = th token; d1 = expire_reservations now d in
        case sql_first (\<lambda>r. rs_token_hash r = tok) (upload_reservations d1) of
          None \<Rightarrow> (Inr (reservation_extend_outcome.NotFound, 0), d1)
        | Some r \<Rightarrow>
            (case available_upload_share_total_limit (rs_share_id r) (rs_upload_policy_epoch r) now d1 of
               None \<Rightarrow> (Inr (reservation_extend_outcome.ShareUnavailable, 0), delete_reservation tok d1)
             | Some total_limit \<Rightarrow>
                 if minimum < rs_reserved_bytes r then (Inl InvalidQuery, d)
                 else if MAX_SQLITE_UNSIGNED < minimum
                 then (Inr (reservation_extend_outcome.ByteQuotaReached, rs_reserved_bytes r), d1)
                 else
                   let uploaded = us_uploaded_bytes (usage_of d1 (rs_share_id r));
                       other = sql_sum (\<lambda>x. rs_share_id x = rs_share_id r \<and> rs_token_hash x \<noteq> tok
                                 \<and> rs_upload_policy_epoch x = rs_upload_policy_epoch r)
                                 rs_reserved_bytes (upload_reservations d1);
                       available = Option.bind (checked_sub total_limit uploaded)
                                     (\<lambda>remaining. checked_sub remaining other) in
                   case available of
                     None \<Rightarrow> (Inr (reservation_extend_outcome.ByteQuotaReached, rs_reserved_bytes r), d1)
                   | Some remaining \<Rightarrow>
                       if remaining < minimum
                       then (Inr (reservation_extend_outcome.ByteQuotaReached, rs_reserved_bytes r), d1)
                       else
                         let reserved = (if preferred \<le> remaining \<and> preferred \<le> MAX_SQLITE_UNSIGNED
                                         then preferred else minimum) in
                         (Inr (Extended, reserved),
                          d1\<lparr>upload_reservations := sql_update (\<lambda>x. rs_token_hash x = tok)
                            (\<lambda>x. x\<lparr>rs_reserved_bytes := reserved,
                                   rs_expires_at := now + seconds UPLOAD_RESERVATION_TTL_SECONDS\<rparr>)
                            (upload_reservations d1)\<rparr>)))"

definition extend_upload_reservation ::
  "(rstr \<Rightarrow> rstr) \<Rightarrow> rstr \<Rightarrow> nat \<Rightarrow> instant \<Rightarrow> db \<Rightarrow> reservation_extend_outcome outcome" where
  "extend_upload_reservation th token bytes now d =
     (case extend_upload_reservation_up_to th token bytes bytes now d of
        (Inl e, d') \<Rightarrow> (Inl e, d')
      | (Inr (out, _), d') \<Rightarrow> (Inr out, d'))"

text \<open>The upsert on \<open>public_upload_usage\<close>.\<close>

definition add_usage :: "int \<Rightarrow> nat \<Rightarrow> nat \<Rightarrow> usage_row list \<Rightarrow> usage_row list" where
  "add_usage i bytes dirs rows =
     (if sql_exists (\<lambda>u. us_share_id u = i) rows
      then sql_update (\<lambda>u. us_share_id u = i)
             (\<lambda>u. u\<lparr>us_uploaded_bytes := us_uploaded_bytes u + bytes,
                    us_uploaded_files := us_uploaded_files u + 1,
                    us_created_directories := us_created_directories u + dirs\<rparr>) rows
      else rows @ [\<lparr>us_share_id = i, us_uploaded_bytes = bytes, us_uploaded_files = 1,
                    us_created_directories = dirs\<rparr>])"

text \<open>The operation row that the same transaction marks as charged.\<close>

definition chargeable :: "rstr \<Rightarrow> int \<Rightarrow> operation_row \<Rightarrow> bool" where
  "chargeable h i op \<longleftrightarrow> op_id_hash op = h \<and> op_scope op = ShareScope i
     \<and> op_state op = Committing \<and> \<not> op_quota_charged op"

definition commit_upload_reservation ::
  "(rstr \<Rightarrow> rstr) \<Rightarrow> rstr \<Rightarrow> nat \<Rightarrow> nat \<Rightarrow> audit_context option \<Rightarrow> rstr option \<Rightarrow> instant \<Rightarrow> db
     \<Rightarrow> reservation_commit_outcome outcome" where
  "commit_upload_reservation th token bytes dirs required_audit operation_hash now d =
     (let tok = th token; d1 = expire_reservations now d in
      case sql_first (\<lambda>r. rs_token_hash r = tok) (upload_reservations d1) of
        None \<Rightarrow> (Inr reservation_commit_outcome.NotFound, d1)
      | Some r \<Rightarrow>
          (let i = rs_share_id r in
           if available_upload_share_total_limit i (rs_upload_policy_epoch r) now d1 = None
           then (Inr reservation_commit_outcome.ShareUnavailable, delete_reservation tok d1)
           else if MAX_SQLITE_UNSIGNED < bytes then (Inl InvalidQuery, d)
           else if rs_reserved_bytes r < bytes then (Inl InvalidQuery, d)
           else if (case checked_add (us_created_directories (usage_of d1 i)) dirs of
                      None \<Rightarrow> True
                    | Some n \<Rightarrow> MAX_PUBLIC_UPLOAD_CREATED_DIRECTORIES_PER_SHARE < n)
           then (Inr DirectoryQuotaReached, delete_reservation tok d1)
           else if (case operation_hash of None \<Rightarrow> False
                    | Some h \<Rightarrow> sql_count (chargeable h i) (upload_operations d1) \<noteq> 1)
           then (Inl InvalidQuery, d)
           else
             let ops = (case operation_hash of None \<Rightarrow> upload_operations d1
                        | Some h \<Rightarrow> sql_update (chargeable h i) (op_quota_charged_update (\<lambda>_. True))
                                     (upload_operations d1));
                 d2 = delete_reservation tok
                   (d1\<lparr>upload_operations := ops, upload_usage := add_usage i bytes dirs (upload_usage d1)\<rparr>);
                 evs = [audit_event UploadQuotaCommitted (Some (dec_int i))
                   (Some (lit ''bytes='' @ dec_nat bytes @ lit '';files=1;directories='' @ dec_nat dirs))] in
             case required_audit of
               None \<Rightarrow> (Inr Committed, d2)
             | Some ctx \<Rightarrow> commit_audited now ctx evs Committed d d2))"

definition cancel_upload_reservation :: "(rstr \<Rightarrow> rstr) \<Rightarrow> rstr \<Rightarrow> db \<Rightarrow> bool outcome" where
  "cancel_upload_reservation th token d =
     (Inr (sql_count (\<lambda>r. rs_token_hash r = th token) (upload_reservations d) = 1),
      delete_reservation (th token) d)"

section \<open>The byte and file ledgers of a share\<close>

definition current_reservation :: "db \<Rightarrow> int \<Rightarrow> reservation_row \<Rightarrow> bool" where
  "current_reservation d i r \<longleftrightarrow> rs_share_id r = i
     \<and> map_option sh_upload_policy_epoch (share_by_id d i) = Some (rs_upload_policy_epoch r)"

definition byte_ledger :: "db \<Rightarrow> int \<Rightarrow> nat \<times> nat" where
  "byte_ledger d i = (us_uploaded_bytes (usage_of d i),
     sql_sum (current_reservation d i) rs_reserved_bytes (upload_reservations d))"

definition file_ledger :: "db \<Rightarrow> int \<Rightarrow> nat \<times> nat" where
  "file_ledger d i = (us_uploaded_files (usage_of d i),
     sql_count (current_reservation d i) (upload_reservations d))"

definition byte_limit :: "db \<Rightarrow> int \<Rightarrow> nat option" where
  "byte_limit d i = (case share_by_id d i of None \<Rightarrow> None | Some s \<Rightarrow> sh_max_upload_total_size s)"

definition file_limit :: "db \<Rightarrow> int \<Rightarrow> nat option" where
  "file_limit d i = (case share_by_id d i of None \<Rightarrow> None | Some s \<Rightarrow> sh_max_upload_files s)"

text \<open>No reservation is from a future policy epoch, directory creation stays capped, and a
  file limit is a value of a SQLite INTEGER column.\<close>

definition wf_uploads :: "db \<Rightarrow> bool" where
  "wf_uploads d \<longleftrightarrow> wf_store d
     \<and> (\<forall>r\<in>set (upload_reservations d). \<forall>s\<in>set (shares d).
           sh_id s = rs_share_id r \<longrightarrow> rs_upload_policy_epoch r \<le> sh_upload_policy_epoch s)
     \<and> (\<forall>u\<in>set (upload_usage d).
           us_created_directories u \<le> MAX_PUBLIC_UPLOAD_CREATED_DIRECTORIES_PER_SHARE)
     \<and> (\<forall>s\<in>set (shares d). pred_option (\<lambda>m. m \<le> MAX_SQLITE_UNSIGNED) (sh_max_upload_files s))"

definition upload_refines :: "db \<Rightarrow> db \<Rightarrow> bool" where
  "upload_refines d d' \<longleftrightarrow>
     wf_uploads d' \<and> shares d' = shares d \<and> grants d' = grants d \<and> leases d' = leases d
     \<and> (\<forall>i. ledger_steps (byte_limit d i) (byte_ledger d i) (byte_ledger d' i)
           \<and> ledger_steps (file_limit d i) (file_ledger d i) (file_ledger d' i))"

lemma upload_refines_refl: "wf_uploads d \<Longrightarrow> upload_refines d d"
  by (simp add: upload_refines_def)

lemma limits_frame:
  "shares d' = shares d \<Longrightarrow> byte_limit d' = byte_limit d \<and> file_limit d' = file_limit d
     \<and> current_reservation d' = current_reservation d"
  by (simp add: byte_limit_def file_limit_def share_by_id_def current_reservation_def fun_eq_iff)

lemma upload_refines_trans [trans]:
  assumes "upload_refines a b" "upload_refines b c" shows "upload_refines a c"
proof -
  have "byte_limit b = byte_limit a" "file_limit b = file_limit a"
    using assms(1) limits_frame[of b a] by (auto simp: upload_refines_def)
  then show ?thesis using assms unfolding upload_refines_def by (metis rtranclp_trans)
qed

lemma upload_refines_wf: "upload_refines d d' \<Longrightarrow> wf_uploads d'"
  by (simp add: upload_refines_def)

lemma wf_uploads_store: "wf_uploads d \<Longrightarrow> wf_store d"
  by (simp add: wf_uploads_def)

lemma delete_reservations_wf:
  "wf_uploads d \<Longrightarrow> wf_uploads (d\<lparr>upload_reservations := sql_delete P (upload_reservations d)\<rparr>)"
  using reservation_table.delete[of "upload_reservations d" P]
  by (auto simp: wf_uploads_def wf_store_def share_refs_def)

lemma delete_reservations_refines:
  "wf_uploads d \<Longrightarrow>
     upload_refines d (d\<lparr>upload_reservations := sql_delete P (upload_reservations d)\<rparr>)"
  using limits_frame[of "d\<lparr>upload_reservations := sql_delete P (upload_reservations d)\<rparr>" d]
  by (auto simp: upload_refines_def delete_reservations_wf byte_ledger_def file_ledger_def
      usage_of_def sql_sum_delete_le sql_count_delete_le intro!: ledger_release)

lemma expire_refines: "wf_uploads d \<Longrightarrow> upload_refines d (expire_reservations now d)"
  unfolding expire_reservations_def by (rule delete_reservations_refines)

lemma delete_reservation_refines: "wf_uploads d \<Longrightarrow> upload_refines d (delete_reservation tok d)"
  unfolding delete_reservation_def by (rule delete_reservations_refines)

lemma upload_refines_audit:
  "upload_refines d d' \<Longrightarrow> wf_audit rows \<Longrightarrow> upload_refines d (d'\<lparr>audit := rows\<rparr>)"
  using limits_frame[of "d'\<lparr>audit := rows\<rparr>" d']
  by (auto simp: upload_refines_def wf_uploads_def wf_store_audit byte_ledger_def file_ledger_def
      usage_of_def)

lemma share_epoch_lookup:
  assumes "wf_store d"
    and "sql_first (\<lambda>s. sh_id s = i \<and> sh_upload_policy_epoch s = e \<and> P s) (shares d) = Some s"
  shows "share_by_id d i = Some s \<and> sh_upload_policy_epoch s = e \<and> P s"
  using sql_first_Some[OF assms(2)] share_by_id_member[OF assms(1)] by auto

section \<open>Beginning and extending\<close>

lemma begin_reservation_refines:
  assumes wf: "wf_uploads d" and eq: "begin_upload_reservation th token i epoch now d = (r, d')"
  shows "upload_refines d d'"
proof -
  define d1 where "d1 = expire_reservations now d"
  have exp: "upload_refines d d1" unfolding d1_def by (rule expire_refines[OF wf])
  note wf1 = upload_refines_wf[OF exp]
  define row where "row = \<lparr>rs_token_hash = th token, rs_share_id = i, rs_reserved_bytes = 0,
      rs_created_at = now, rs_expires_at = now + seconds UPLOAD_RESERVATION_TTL_SECONDS,
      rs_upload_policy_epoch = epoch\<rparr>"
  have "d' = d \<or> d' = d1 \<or> d' = d1\<lparr>upload_reservations := upload_reservations d1 @ [row]\<rparr>
      \<and> (\<exists>s m. sql_first (\<lambda>s. sh_id s = i \<and> sh_upload_policy_epoch s = epoch) (shares d1) = Some s
           \<and> sh_max_upload_files s = Some m
           \<and> saturating_add (us_uploaded_files (usage_of d1 i))
               (sql_count (\<lambda>r. rs_share_id r = i \<and> rs_upload_policy_epoch r = epoch)
                  (upload_reservations d1)) < m)
      \<and> (\<forall>x\<in>set (upload_reservations d1). rs_token_hash x \<noteq> th token)"
    using eq unfolding begin_upload_reservation_def Let_def d1_def[symmetric] row_def[symmetric]
    by (auto simp: sql_exists_iff not_le split: option.splits if_splits)
  then consider "d' = d" | "d' = d1"
    | s m where "d' = d1\<lparr>upload_reservations := upload_reservations d1 @ [row]\<rparr>"
      "sql_first (\<lambda>s. sh_id s = i \<and> sh_upload_policy_epoch s = epoch) (shares d1) = Some s"
      "sh_max_upload_files s = Some m"
      "saturating_add (us_uploaded_files (usage_of d1 i))
         (sql_count (\<lambda>r. rs_share_id r = i \<and> rs_upload_policy_epoch r = epoch) (upload_reservations d1)) < m"
      "\<forall>x\<in>set (upload_reservations d1). rs_token_hash x \<noteq> th token"
    by blast
  then show ?thesis
  proof cases
    case (3 s m)
    have s: "share_by_id d1 i = Some s" "sh_upload_policy_epoch s = epoch"
      using share_epoch_lookup[of d1 i epoch "\<lambda>_. True" s] 3(2) wf_uploads_store[OF wf1] by auto
    have cur: "current_reservation d1 i = (\<lambda>r. rs_share_id r = i \<and> rs_upload_policy_epoch r = epoch)"
      using s by (auto simp: current_reservation_def)
    have room: "us_uploaded_files (usage_of d1 i)
        + sql_count (current_reservation d1 i) (upload_reservations d1) < m"
    proof -
      have "m \<le> MAX_SQLITE_UNSIGNED"
        using wf1 share_by_id_Some[OF s(1)] 3(3) by (fastforce simp: wf_uploads_def)
      then have "m \<le> u64_max" by (simp add: MAX_SQLITE_UNSIGNED_def i64_max_def u64_max_def)
      then show ?thesis using 3(4) unfolding cur saturating_add_def by linarith
    qed
    have "wf_uploads d'"
      using wf1 s(2) share_by_id_Some[OF s(1)] 3(5) reservation_table.insert_fresh[of "upload_reservations d1" row]
        share_table.unique[OF wf_storeD(1)[OF wf_uploads_store[OF wf1]]]
      unfolding 3(1) wf_uploads_def wf_store_def share_refs_def row_def by auto
    moreover have "ledger_steps (byte_limit d1 j) (byte_ledger d1 j) (byte_ledger d' j)"
      "ledger_steps (file_limit d1 j) (file_ledger d1 j) (file_ledger d' j)" for j
      using room s 3(3) limits_frame[of d' d1] unfolding 3(1)
      by (auto simp: byte_ledger_def file_ledger_def usage_of_def file_limit_def fits_def row_def
          current_reservation_def intro!: ledger_reserve)
    ultimately have "upload_refines d1 d'" unfolding upload_refines_def 3(1) by simp
    then show ?thesis by (rule upload_refines_trans[OF exp])
  qed (use exp upload_refines_refl[OF wf] in simp_all)
qed


lemma available_limit_Some:
  assumes "wf_store d" "available_upload_share_total_limit i e now d = Some m"
  shows "\<exists>s. share_by_id d i = Some s \<and> sh_upload_policy_epoch s = e \<and> sh_max_upload_total_size s = Some m"
proof -
  obtain s where "s \<in> set (shares d)" "sh_id s = i" "sh_upload_policy_epoch s = e"
    "sh_max_upload_total_size s = Some m"
    using assms(2)
    by (auto simp: available_upload_share_total_limit_def split: option.splits dest!: sql_first_Some)
  then show ?thesis using share_by_id_member[OF assms(1)] by blast
qed

lemma extend_refines_update:
  assumes wf: "wf_uploads d" and r: "r \<in> set (upload_reservations d)"
    and s: "share_by_id d (rs_share_id r) = Some s" "sh_upload_policy_epoch s = rs_upload_policy_epoch r"
      "sh_max_upload_total_size s = Some m"
    and room: "us_uploaded_bytes (usage_of d (rs_share_id r))
        + sql_sum (\<lambda>x. rs_share_id x = rs_share_id r \<and> rs_token_hash x \<noteq> rs_token_hash r
            \<and> rs_upload_policy_epoch x = rs_upload_policy_epoch r) rs_reserved_bytes (upload_reservations d)
        + n \<le> m"
    and grows: "rs_reserved_bytes r \<le> n"
  shows "upload_refines d (d\<lparr>upload_reservations := sql_update (\<lambda>x. rs_token_hash x = rs_token_hash r)
            (\<lambda>x. x\<lparr>rs_reserved_bytes := n, rs_expires_at := e\<rparr>) (upload_reservations d)\<rparr>)"
proof -
  let ?rows = "upload_reservations d"
  let ?f = "\<lambda>x. x\<lparr>rs_reserved_bytes := n, rs_expires_at := e\<rparr>"
  define d' where "d' = d\<lparr>upload_reservations := sql_update (\<lambda>x. rs_token_hash x = rs_token_hash r) ?f ?rows\<rparr>"
  have rows': "upload_reservations d' = sql_update (\<lambda>x. rs_token_hash x = rs_token_hash r) ?f ?rows"
    and same: "shares d' = shares d" "upload_usage d' = upload_usage d" "grants d' = grants d"
      "leases d' = leases d"
    by (simp_all add: d'_def)
  note wfr = wf_storeD(6)[OF wf_uploads_store[OF wf]]
  have frame: "byte_limit d' = byte_limit d" "file_limit d' = file_limit d"
    "current_reservation d' = current_reservation d"
    using limits_frame[OF same(1)] by auto
  have cur: "current_reservation d i (?f x) = current_reservation d i x" for i x
    by (simp add: current_reservation_def)
  have "wf_uploads d'"
    using wf reservation_table.update[OF wfr, of "\<lambda>x. rs_token_hash x = rs_token_hash r" ?f]
    unfolding wf_uploads_def wf_store_def d'_def
    by (auto simp: share_refs_def set_sql_update)
  moreover have "file_ledger d' i = file_ledger d i" for i
    using cur by (simp add: file_ledger_def usage_of_def same frame rows' sql_count_update_same)
  moreover have "ledger_steps (byte_limit d i) (byte_ledger d i) (byte_ledger d' i)" for i
  proof (cases "i = rs_share_id r")
    case True
    then have on: "current_reservation d i r" using s by (simp add: current_reservation_def)
    have sum: "sql_sum (current_reservation d i) rs_reserved_bytes (upload_reservations d') + rs_reserved_bytes r
        = sql_sum (current_reservation d i) rs_reserved_bytes ?rows + n"
      using reservation_table.sum_update_one[OF wfr r, of "current_reservation d i" ?f rs_reserved_bytes]
        cur on by (simp add: rows')
    have "sql_sum (current_reservation d i) rs_reserved_bytes (sql_delete (\<lambda>x. rs_token_hash x = rs_token_hash r) ?rows)
        = sql_sum (\<lambda>x. rs_share_id x = rs_share_id r \<and> rs_token_hash x \<noteq> rs_token_hash r
            \<and> rs_upload_policy_epoch x = rs_upload_policy_epoch r) rs_reserved_bytes ?rows"
      unfolding sql_sum_def sql_delete_def filter_filter
      by (rule arg_cong[where f = "\<lambda>xs. sum_list (map rs_reserved_bytes xs)"], rule filter_cong)
        (use s True in \<open>auto simp: current_reservation_def\<close>)
    then have "us_uploaded_bytes (usage_of d i)
        + sql_sum (current_reservation d i) rs_reserved_bytes (upload_reservations d') \<le> m"
      using room True on sum
        reservation_table.sum_delete_one[OF wfr r, of "current_reservation d i" rs_reserved_bytes] by simp
    then show ?thesis
      using sum grows s True
      by (auto simp: byte_ledger_def usage_of_def same frame byte_limit_def fits_def intro!: ledger_reserve)
  next
    case False
    then have "\<not> current_reservation d i r" by (simp add: current_reservation_def)
    then show ?thesis
      using reservation_table.sum_update_one[OF wfr r, of "current_reservation d i" ?f rs_reserved_bytes] cur
      by (simp add: byte_ledger_def usage_of_def same frame rows')
  qed
  ultimately show ?thesis
    unfolding d'_def[symmetric] upload_refines_def using same by simp
qed

lemma extend_refines:
  assumes wf: "wf_uploads d"
    and eq: "extend_upload_reservation_up_to th token minimum preferred now d = (out, d')"
  shows "upload_refines d d'"
proof -
  define d1 where "d1 = expire_reservations now d"
  have exp: "upload_refines d d1" unfolding d1_def by (rule expire_refines[OF wf])
  note wf1 = upload_refines_wf[OF exp]
  note unfold = extend_upload_reservation_up_to_def Let_def d1_def[symmetric]
  have err: "upload_refines d d" by (rule upload_refines_refl[OF wf])
  have del: "upload_refines d (delete_reservation (th token) d1)"
    by (rule upload_refines_trans[OF exp delete_reservation_refines[OF wf1]])
  show ?thesis
  proof (cases "preferred < minimum")
    case True
    then show ?thesis using eq err by (simp add: unfold)
  next
    case pref: False
    show ?thesis
    proof (cases "sql_first (\<lambda>r. rs_token_hash r = th token) (upload_reservations d1)")
      case None
      then show ?thesis using eq exp pref by (simp add: unfold)
    next
      case (Some r)
      note r = sql_first_Some[OF Some]
      show ?thesis
      proof (cases "available_upload_share_total_limit (rs_share_id r) (rs_upload_policy_epoch r) now d1")
        case None
        then show ?thesis using eq del pref Some by (simp add: unfold)
      next
        case lim: (Some m)
        obtain s where s: "share_by_id d1 (rs_share_id r) = Some s"
          "sh_upload_policy_epoch s = rs_upload_policy_epoch r" "sh_max_upload_total_size s = Some m"
          using available_limit_Some[OF wf_uploads_store[OF wf1] lim] by blast
        define uploaded where "uploaded = us_uploaded_bytes (usage_of d1 (rs_share_id r))"
        define other where "other = sql_sum (\<lambda>x. rs_share_id x = rs_share_id r \<and> rs_token_hash x \<noteq> th token
            \<and> rs_upload_policy_epoch x = rs_upload_policy_epoch r) rs_reserved_bytes (upload_reservations d1)"
        define n where "n = (if preferred \<le> m - uploaded - other \<and> preferred \<le> MAX_SQLITE_UNSIGNED
            then preferred else minimum)"
        define d2 where "d2 = d1\<lparr>upload_reservations := sql_update (\<lambda>x. rs_token_hash x = th token)
            (\<lambda>x. x\<lparr>rs_reserved_bytes := n, rs_expires_at := now + seconds UPLOAD_RESERVATION_TTL_SECONDS\<rparr>)
            (upload_reservations d1)\<rparr>"
        have "d' = d \<or> d' = d1 \<or> d' = d2 \<and> rs_reserved_bytes r \<le> minimum
            \<and> uploaded \<le> m \<and> other \<le> m - uploaded \<and> minimum \<le> m - uploaded - other"
        proof -
          note defs = unfold pref Some lim uploaded_def other_def checked_sub_def
          consider "minimum < rs_reserved_bytes r \<or> MAX_SQLITE_UNSIGNED < minimum"
            | "rs_reserved_bytes r \<le> minimum" "minimum \<le> MAX_SQLITE_UNSIGNED"
              "m < uploaded \<or> m - uploaded < other \<or> m - uploaded - other < minimum"
            | "rs_reserved_bytes r \<le> minimum" "minimum \<le> MAX_SQLITE_UNSIGNED" "uploaded \<le> m"
              "other \<le> m - uploaded" "minimum \<le> m - uploaded - other" by linarith
          then show ?thesis
          proof cases
            case 1
            then show ?thesis using eq by (simp add: defs split: if_splits)
          next
            case 2
            then show ?thesis using eq by (simp add: defs split: if_splits)
          next
            case 3
            then have "d' = d2" using eq by (simp add: defs d2_def n_def)
            then show ?thesis using 3 by simp
          qed
        qed
        moreover have "upload_refines d1 d2"
          if "rs_reserved_bytes r \<le> minimum" "uploaded \<le> m" "other \<le> m - uploaded"
            "minimum \<le> m - uploaded - other"
        proof -
          have "uploaded + other + n \<le> m" "rs_reserved_bytes r \<le> n"
            using that pref by (auto simp: n_def)
          then show ?thesis
            using extend_refines_update[OF wf1 _ s, of n] r unfolding d2_def uploaded_def other_def by simp
        qed
        ultimately show ?thesis using err exp upload_refines_trans[OF exp] by blast
      qed
    qed
  qed
qed


section \<open>Settling\<close>

lemma usage_of_add_usage:
  assumes "upload_usage d' = add_usage i b n (upload_usage d)"
  shows "us_uploaded_bytes (usage_of d' j) = us_uploaded_bytes (usage_of d j) + (if j = i then b else 0)"
    and "us_uploaded_files (usage_of d' j) = us_uploaded_files (usage_of d j) + (if j = i then 1 else 0)"
    and "us_created_directories (usage_of d' j) = us_created_directories (usage_of d j) + (if j = i then n else 0)"
proof -
  let ?f = "\<lambda>u. u\<lparr>us_uploaded_bytes := us_uploaded_bytes u + b, us_uploaded_files := Suc (us_uploaded_files u),
      us_created_directories := us_created_directories u + n\<rparr>"
  have first: "sql_first (\<lambda>u. us_share_id u = j) (upload_usage d') =
      (if j = i then Some (case sql_first (\<lambda>u. us_share_id u = i) (upload_usage d) of
          Some u \<Rightarrow> ?f u
        | None \<Rightarrow> \<lparr>us_share_id = i, us_uploaded_bytes = b, us_uploaded_files = 1, us_created_directories = n\<rparr>)
       else sql_first (\<lambda>u. us_share_id u = j) (upload_usage d))"
  proof (cases "sql_first (\<lambda>u. us_share_id u = i) (upload_usage d)")
    case None
    then have "add_usage i b n (upload_usage d) = upload_usage d @
        [\<lparr>us_share_id = i, us_uploaded_bytes = b, us_uploaded_files = 1, us_created_directories = n\<rparr>]"
      by (auto simp: add_usage_def sql_exists_iff sql_first_None)
    then show ?thesis
      using None assms by (auto simp: sql_first_def find_append split: option.splits)
  next
    case (Some u)
    then have "add_usage i b n (upload_usage d) = sql_update (\<lambda>u. us_share_id u = i) ?f (upload_usage d)"
      using sql_first_Some[OF Some] by (auto simp: add_usage_def sql_exists_iff)
    then have "sql_first (\<lambda>u. us_share_id u = j) (upload_usage d') =
        map_option (\<lambda>u. if us_share_id u = i then ?f u else u) (sql_first (\<lambda>u. us_share_id u = j) (upload_usage d))"
      using assms by (simp add: sql_first_update)
    note upd = this
    show ?thesis
    proof (cases "j = i")
      case True
      then show ?thesis using upd Some sql_first_Some[OF Some] by simp
    next
      case False
      show ?thesis
      proof (cases "sql_first (\<lambda>u. us_share_id u = j) (upload_usage d)")
        case None
        then show ?thesis using upd False by simp
      next
        case (Some v)
        then show ?thesis using upd False sql_first_Some[OF Some] by simp
      qed
    qed
  qed
  show "us_uploaded_bytes (usage_of d' j) = us_uploaded_bytes (usage_of d j) + (if j = i then b else 0)"
    "us_uploaded_files (usage_of d' j) = us_uploaded_files (usage_of d j) + (if j = i then 1 else 0)"
    "us_created_directories (usage_of d' j) = us_created_directories (usage_of d j) + (if j = i then n else 0)"
    by (auto simp: usage_of_def first split: option.splits)
qed

lemma add_usage_wf:
  assumes "wf_usage rows" shows "wf_usage (add_usage i b n rows)"
proof (cases "sql_exists (\<lambda>u. us_share_id u = i) rows")
  case True
  then show ?thesis using usage_table.update[OF assms] by (simp add: add_usage_def)
next
  case False
  then show ?thesis
    using assms by (auto simp: add_usage_def sql_exists_iff intro!: usage_table.insert_fresh)
qed

lemma set_add_usage:
  "u \<in> set (add_usage i b n rows) \<Longrightarrow>
     u \<in> set rows \<or> us_share_id u = i \<and> (us_created_directories u = n \<and> (\<forall>v\<in>set rows. us_share_id v \<noteq> i)
       \<or> (\<exists>v\<in>set rows. us_share_id v = i \<and> us_created_directories u = us_created_directories v + n))"
  by (auto simp: add_usage_def sql_exists_iff set_sql_update split: if_splits)

lemma usage_of_member:
  "wf_usage (upload_usage d) \<Longrightarrow> u \<in> set (upload_usage d) \<Longrightarrow> usage_of d (us_share_id u) = u"
  using usage_table.lookup_member[of "upload_usage d" u "\<lambda>x. us_share_id x = us_share_id u"]
  by (simp add: usage_of_def)

lemma usage_of_absent:
  "\<forall>v\<in>set (upload_usage d). us_share_id v \<noteq> i \<Longrightarrow> us_created_directories (usage_of d i) = 0"
  by (auto simp: usage_of_def sql_first_None[symmetric])

lemma settle_refines:
  assumes wf: "wf_uploads d" and r: "r \<in> set (upload_reservations d)"
    and s: "share_by_id d (rs_share_id r) = Some s" "sh_upload_policy_epoch s = rs_upload_policy_epoch r"
    and b: "b \<le> rs_reserved_bytes r"
    and dirs: "us_created_directories (usage_of d (rs_share_id r)) + n
        \<le> MAX_PUBLIC_UPLOAD_CREATED_DIRECTORIES_PER_SHARE"
    and ops: "wf_operations ops"
  shows "upload_refines d (delete_reservation (rs_token_hash r)
      (d\<lparr>upload_operations := ops, upload_usage := add_usage (rs_share_id r) b n (upload_usage d)\<rparr>))"
proof -
  let ?i = "rs_share_id r" and ?rows = "upload_reservations d"
  define d' where "d' = delete_reservation (rs_token_hash r)
      (d\<lparr>upload_operations := ops, upload_usage := add_usage ?i b n (upload_usage d)\<rparr>)"
  have rows': "upload_reservations d' = sql_delete (\<lambda>x. rs_token_hash x = rs_token_hash r) ?rows"
    and same: "shares d' = shares d" "grants d' = grants d" "leases d' = leases d" "audit d' = audit d"
    and usage': "upload_usage d' = add_usage ?i b n (upload_usage d)" "upload_operations d' = ops"
    by (simp_all add: d'_def delete_reservation_def)
  note wfs = wf_uploads_store[OF wf]
  note wfr = wf_storeD(6)[OF wfs]
  have frame: "byte_limit d' = byte_limit d" "file_limit d' = file_limit d"
    "current_reservation d' = current_reservation d"
    using limits_frame[OF same(1)] by auto
  have cur: "current_reservation d j r = (j = ?i)" for j
    using s by (auto simp: current_reservation_def)
  have "us_share_id ` set (upload_usage d') \<subseteq> share_refs d"
  proof (rule image_subsetI)
    fix u assume "u \<in> set (upload_usage d')"
    then have "u \<in> set (upload_usage d) \<or> us_share_id u = ?i"
      using set_add_usage[of u ?i b n "upload_usage d"] unfolding usage' by blast
    then show "us_share_id u \<in> share_refs d"
      using wf_storeD(11)[OF wfs] wf_storeD(12)[OF wfs] r by blast
  qed
  moreover have "rs_share_id ` set (upload_reservations d') \<subseteq> share_refs d"
    using wf_storeD(12)[OF wfs] unfolding rows' by auto
  ultimately have "wf_store d'"
    unfolding wf_store_def share_refs_cong[OF same(1)] same usage'
    using wf_storeD(1-4,8-10)[OF wfs] add_usage_wf[OF wf_storeD(5)[OF wfs], of ?i b n]
      reservation_table.delete[OF wfr, of "\<lambda>x. rs_token_hash x = rs_token_hash r"] ops
    unfolding rows' by blast
  moreover have "us_created_directories u \<le> MAX_PUBLIC_UPLOAD_CREATED_DIRECTORIES_PER_SHARE"
    if u: "u \<in> set (upload_usage d')" for u
  proof -
    have old: "\<forall>v\<in>set (upload_usage d). us_created_directories v
        \<le> MAX_PUBLIC_UPLOAD_CREATED_DIRECTORIES_PER_SHARE"
      using wf by (simp add: wf_uploads_def)
    consider "u \<in> set (upload_usage d)"
      | "us_created_directories u = n"
      | v where "v \<in> set (upload_usage d)" "us_share_id v = ?i"
          "us_created_directories u = us_created_directories v + n"
      using set_add_usage[of u ?i b n "upload_usage d"] u unfolding usage' by blast
    then show ?thesis
    proof cases
      case 3
      then show ?thesis using dirs usage_of_member[OF wf_storeD(5)[OF wfs] 3(1)] by simp
    qed (use old dirs in auto)
  qed
  ultimately have "wf_uploads d'"
    using wf by (simp add: wf_uploads_def same rows')
  moreover have "ledger_steps (byte_limit d j) (byte_ledger d j) (byte_ledger d' j)" for j
  proof -
    have "sql_sum (current_reservation d j) rs_reserved_bytes (upload_reservations d')
        + (if j = ?i then rs_reserved_bytes r else 0)
        = sql_sum (current_reservation d j) rs_reserved_bytes ?rows"
      using reservation_table.sum_delete_one[OF wfr r, of "current_reservation d j" rs_reserved_bytes] cur
      by (simp add: rows')
    then show ?thesis
      unfolding byte_ledger_def frame usage_of_add_usage(1)[OF usage'(1)]
      by (rule ledger_settle_eq) (use b in auto)
  qed
  moreover have "ledger_steps (file_limit d j) (file_ledger d j) (file_ledger d' j)" for j
  proof -
    have "sql_count (current_reservation d j) (upload_reservations d') + (if j = ?i then 1 else 0)
        = sql_count (current_reservation d j) ?rows"
      using reservation_table.count_delete_one[OF wfr r, of "current_reservation d j"] cur
      by (simp add: rows')
    then show ?thesis
      unfolding file_ledger_def frame usage_of_add_usage(2)[OF usage'(1)]
      by (rule ledger_settle_eq) auto
  qed
  ultimately show ?thesis
    unfolding d'_def[symmetric] upload_refines_def using same by simp
qed

lemma charge_operation_wf:
  "wf_operations ops \<Longrightarrow>
     wf_operations (sql_update (chargeable h i) (op_quota_charged_update (\<lambda>_. True)) ops)"
  by (rule operation_table.update) simp_all

lemma cancel_reservation_refines:
  "wf_uploads d \<Longrightarrow> upload_refines d (snd (cancel_upload_reservation th token d))"
  by (simp add: cancel_upload_reservation_def delete_reservation_refines)

text \<open>What a commit does, case by case: nothing, drop the reservation, or settle it.\<close>

lemma commit_cases:
  assumes eq: "commit_upload_reservation th token bytes dirs ra oh now d = (out, d')"
  obtains (rolled_back) "d' = d" "\<exists>e. out = Inl e"
  | (released) "d' = expire_reservations now d \<or> d' = delete_reservation (th token) (expire_reservations now d)"
      "out \<noteq> Inr Committed"
  | (settled) r ops where
      "sql_first (\<lambda>r. rs_token_hash r = th token) (upload_reservations (expire_reservations now d)) = Some r"
      "available_upload_share_total_limit (rs_share_id r) (rs_upload_policy_epoch r) now
         (expire_reservations now d) \<noteq> None"
      "bytes \<le> rs_reserved_bytes r"
      "us_created_directories (usage_of (expire_reservations now d) (rs_share_id r)) + dirs
         \<le> MAX_PUBLIC_UPLOAD_CREATED_DIRECTORIES_PER_SHARE"
      "ops = (case oh of None \<Rightarrow> upload_operations d
         | Some h \<Rightarrow> sql_update (chargeable h (rs_share_id r)) (op_quota_charged_update (\<lambda>_. True))
             (upload_operations d))"
      "\<And>h. oh = Some h \<Longrightarrow> sql_count (chargeable h (rs_share_id r)) (upload_operations d) = 1"
      "\<exists>new. out = Inr Committed
         \<and> (wf_audit (audit d) \<longrightarrow> wf_audit (audit d @ new))
         \<and> d' = (delete_reservation (th token) ((expire_reservations now d)
             \<lparr>upload_operations := ops, upload_usage := add_usage (rs_share_id r) bytes dirs (upload_usage d)\<rparr>))
             \<lparr>audit := audit d @ new\<rparr>"
proof -
  define d1 where "d1 = expire_reservations now d"
  have same: "upload_operations d1 = upload_operations d" "upload_usage d1 = upload_usage d" "audit d1 = audit d"
    by (simp_all add: d1_def expire_reservations_def)
  note unfold = commit_upload_reservation_def Let_def d1_def[symmetric]
  show thesis
  proof (cases "sql_first (\<lambda>r. rs_token_hash r = th token) (upload_reservations d1)")
    case None
    then show thesis using eq by (intro released) (auto simp: unfold)
  next
    case (Some r)
    define ops where "ops = (case oh of None \<Rightarrow> upload_operations d
         | Some h \<Rightarrow> sql_update (chargeable h (rs_share_id r)) (op_quota_charged_update (\<lambda>_. True))
             (upload_operations d))"
    define d2 where "d2 = delete_reservation (th token) (d1\<lparr>upload_operations := ops,
        upload_usage := add_usage (rs_share_id r) bytes dirs (upload_usage d)\<rparr>)"
    have a2: "audit d2 = audit d" by (simp add: d2_def delete_reservation_def same)
    let ?miss = "available_upload_share_total_limit (rs_share_id r) (rs_upload_policy_epoch r) now d1 = None"
    let ?bad = "MAX_SQLITE_UNSIGNED < bytes \<or> rs_reserved_bytes r < bytes"
    let ?full = "case checked_add (us_created_directories (usage_of d1 (rs_share_id r))) dirs of
        None \<Rightarrow> True | Some n \<Rightarrow> MAX_PUBLIC_UPLOAD_CREATED_DIRECTORIES_PER_SHARE < n"
    let ?unbound = "case oh of None \<Rightarrow> False
        | Some h \<Rightarrow> sql_count (chargeable h (rs_share_id r)) (upload_operations d) \<noteq> 1"
    consider "?miss \<or> \<not> ?bad \<and> ?full" | "\<not> ?miss" "?bad \<or> \<not> ?full \<and> ?unbound"
      | "\<not> ?miss" "\<not> ?bad" "\<not> ?full" "\<not> ?unbound" by blast
    then show thesis
    proof cases
      case 1
      then show thesis using eq by (intro released) (auto simp: unfold Some split: if_splits)
    next
      case 2
      then show thesis using eq unfolding unfold same
        by (intro rolled_back) (auto simp: Some split: if_splits)
    next
      case 3
      have dirs: "us_created_directories (usage_of d1 (rs_share_id r)) + dirs
          \<le> MAX_PUBLIC_UPLOAD_CREATED_DIRECTORIES_PER_SHARE"
        using 3(3) by (auto simp: checked_add_def split: if_splits option.splits)
      have bound: "sql_count (chargeable h (rs_share_id r)) (upload_operations d) = 1" if "oh = Some h" for h
        using 3(4) that by simp
      have fin: "(case ra of None \<Rightarrow> (Inr Committed, d2)
          | Some ctx \<Rightarrow> commit_audited now ctx [audit_event UploadQuotaCommitted (Some (dec_int (rs_share_id r)))
              (Some (lit ''bytes='' @ dec_nat bytes @ lit '';files=1;directories='' @ dec_nat dirs))]
              Committed d d2) = (out, d')"
        using eq 3 unfolding unfold same d2_def ops_def by (simp add: Some)
      note settled' = settled[OF Some[unfolded d1_def] 3(1)[unfolded d1_def] _ dirs[unfolded d1_def]
          ops_def bound, folded d1_def, folded d2_def]
      show thesis
      proof (cases ra)
        case None
        then show thesis
          using fin 3(2) a2 by (intro settled') (auto intro!: exI[of _ "[]"])
      next
        case (Some ctx)
        then have "commit_audited now ctx [audit_event UploadQuotaCommitted (Some (dec_int (rs_share_id r)))
              (Some (lit ''bytes='' @ dec_nat bytes @ lit '';files=1;directories='' @ dec_nat dirs))]
              Committed d d2 = (out, d')" using fin by simp
        then show thesis
        proof (cases rule: commit_audited_cases)
          case (failed e)
          then show thesis by (intro rolled_back) auto
        next
          case (committed new)
          then show thesis using 3(2) a2 by (intro settled') (auto intro!: exI[of _ new])
        qed
      qed
    qed
  qed
qed

lemma commit_refines:
  assumes wf: "wf_uploads d"
    and eq: "commit_upload_reservation th token bytes dirs ra oh now d = (out, d')"
  shows "upload_refines d d'"
  using eq
proof (cases rule: commit_cases)
  case rolled_back
  then show ?thesis using upload_refines_refl[OF wf] by simp
next
  case released
  then show ?thesis
    using expire_refines[OF wf, of now]
      upload_refines_trans[OF _ delete_reservation_refines[OF upload_refines_wf[OF expire_refines[OF wf, of now]]]]
    by auto
next
  case (settled r ops)
  define d1 where "d1 = expire_reservations now d"
  have exp: "upload_refines d d1" unfolding d1_def by (rule expire_refines[OF wf])
  note wf1 = upload_refines_wf[OF exp]
  have same: "upload_operations d1 = upload_operations d" "upload_usage d1 = upload_usage d" "audit d1 = audit d"
    by (simp_all add: d1_def expire_reservations_def)
  have r: "r \<in> set (upload_reservations d1)" "rs_token_hash r = th token"
    using sql_first_Some[OF settled(1)] by (auto simp: d1_def)
  obtain s where s: "share_by_id d1 (rs_share_id r) = Some s" "sh_upload_policy_epoch s = rs_upload_policy_epoch r"
    using settled(2) available_limit_Some[OF wf_uploads_store[OF wf1]] by (fastforce simp: d1_def)
  have "wf_operations ops"
    using wf_storeD(7)[OF wf_uploads_store[OF wf]] settled(5) charge_operation_wf by (auto split: option.splits)
  from settle_refines[OF wf1 r(1) s settled(3) settled(4)[folded d1_def] this]
  have "upload_refines d (delete_reservation (th token)
      (d1\<lparr>upload_operations := ops, upload_usage := add_usage (rs_share_id r) bytes dirs (upload_usage d)\<rparr>))"
    using upload_refines_trans[OF exp] by (simp add: r same)
  moreover obtain new where "wf_audit (audit d @ new)" "d' = (delete_reservation (th token)
      (d1\<lparr>upload_operations := ops, upload_usage := add_usage (rs_share_id r) bytes dirs (upload_usage d)\<rparr>))
      \<lparr>audit := audit d @ new\<rparr>"
    using settled(7) wf_storeD(8)[OF wf_uploads_store[OF wf]] by (auto simp: d1_def)
  ultimately show ?thesis using upload_refines_audit by simp
qed

section \<open>Every schedule of upload operations\<close>

inductive upload_step :: "(rstr \<Rightarrow> rstr) \<Rightarrow> db \<Rightarrow> db \<Rightarrow> bool" for th where
  begin_upload: "begin_upload_reservation th token i epoch now d = (out, d') \<Longrightarrow> upload_step th d d'"
| extend: "extend_upload_reservation_up_to th token minimum preferred now d = (out, d') \<Longrightarrow> upload_step th d d'"
| commit: "commit_upload_reservation th token bytes dirs ra oh now d = (out, d') \<Longrightarrow> upload_step th d d'"
| cancel: "cancel_upload_reservation th token d = (out, d') \<Longrightarrow> upload_step th d d'"

lemma upload_step_refines_ledgers:
  assumes "upload_step th d d'" "wf_uploads d" shows "upload_refines d d'"
  using assms
proof (cases rule: upload_step.cases)
  case (cancel token out)
  then show ?thesis using cancel_reservation_refines[OF assms(2), of th token] by simp
next
  case commit
  then show ?thesis using commit_refines[OF assms(2)] by blast
qed (use assms(2) begin_reservation_refines extend_refines in blast)+

lemma upload_refines_limits:
  assumes "upload_refines d d'"
  shows "byte_limit d' = byte_limit d" "file_limit d' = file_limit d"
  using limits_frame[of d' d] assms by (auto simp: upload_refines_def)


interpretation upload_files: ledger_client wf_uploads "upload_step th" "\<lambda>d. fst (file_ledger d i)"
  "\<lambda>d. snd (file_ledger d i)" "\<lambda>d. file_limit d i" for th i
proof
  fix d d' assume d: "wf_uploads d" "upload_step th d d'"
  note ref = upload_step_refines_ledgers[OF d(2,1)]
  show "wf_uploads d'" by (rule upload_refines_wf[OF ref])
  show "(file_limit d' i = file_limit d i \<and> ledger_steps (file_limit d i)
        (fst (file_ledger d i), snd (file_ledger d i)) (fst (file_ledger d' i), snd (file_ledger d' i)))
      \<or> fits (file_limit d' i) (fst (file_ledger d' i) + snd (file_ledger d' i))"
    using ref upload_refines_limits[OF ref] by (simp add: upload_refines_def)
qed

section \<open>Properties\<close>

lemma usage_of_cong: "upload_usage d' = upload_usage d \<Longrightarrow> usage_of d' i = usage_of d i"
  by (simp add: usage_of_def)

lemma deleted_reservation_absent:
  "\<not> sql_exists (\<lambda>r. rs_token_hash r = tok) (upload_reservations ((delete_reservation tok d)\<lparr>audit := a\<rparr>))"
  by (auto simp: delete_reservation_def sql_exists_iff)

text \<open>C15: committing a reservation charges exactly what was published. When it reports
  \<open>Committed\<close> there was an unexpired reservation of that token, of at least the published
  bytes, made under the current policy epoch of an available share; the share's usage grows
  by these bytes, one file and the new directories, every other share's usage is unchanged,
  and the reservation is gone. Every other result leaves all usage as it was.\<close>

theorem commit_charges_exactly:
  assumes eq: "commit_upload_reservation th token bytes dirs ra oh now d = (out, d')"
  shows "if out = Inr Committed
    then \<exists>r\<in>set (upload_reservations d). rs_token_hash r = th token \<and> now < rs_expires_at r
       \<and> bytes \<le> rs_reserved_bytes r
       \<and> available_upload_share_total_limit (rs_share_id r) (rs_upload_policy_epoch r) now d \<noteq> None
       \<and> \<not> sql_exists (\<lambda>r. rs_token_hash r = th token) (upload_reservations d')
       \<and> (\<forall>i. us_uploaded_bytes (usage_of d' i) =
                us_uploaded_bytes (usage_of d i) + (if i = rs_share_id r then bytes else 0)
            \<and> us_uploaded_files (usage_of d' i) =
                us_uploaded_files (usage_of d i) + (if i = rs_share_id r then 1 else 0)
            \<and> us_created_directories (usage_of d' i) =
                us_created_directories (usage_of d i) + (if i = rs_share_id r then dirs else 0))
    else \<forall>i. usage_of d' i = usage_of d i"
  using eq
proof (cases rule: commit_cases)
  case (settled r ops)
  define d1 where "d1 = expire_reservations now d"
  from settled(7) obtain new where out: "out = Inr Committed" and d': "d' = (delete_reservation (th token)
      (d1\<lparr>upload_operations := ops, upload_usage := add_usage (rs_share_id r) bytes dirs (upload_usage d)\<rparr>))
      \<lparr>audit := audit d @ new\<rparr>" by (auto simp: d1_def)
  have r: "r \<in> set (upload_reservations d)" "rs_token_hash r = th token" "now < rs_expires_at r"
    using sql_first_Some[OF settled(1)] by (auto simp: expire_reservations_def)
  have "available_upload_share_total_limit (rs_share_id r) (rs_upload_policy_epoch r) now d \<noteq> None"
    using settled(2) by (simp add: available_upload_share_total_limit_def expire_reservations_def)
  moreover have usage': "upload_usage d' = add_usage (rs_share_id r) bytes dirs (upload_usage d)"
    by (simp add: d' delete_reservation_def)
  moreover have "\<not> sql_exists (\<lambda>r. rs_token_hash r = th token) (upload_reservations d')"
    unfolding d' by (rule deleted_reservation_absent)
  ultimately show ?thesis
    using out r settled(3) usage_of_add_usage[OF usage'] by auto
qed (auto intro!: usage_of_cong simp: expire_reservations_def delete_reservation_def)

definition example_upload :: db where
  "example_upload =
     snd (extend_upload_reservation (\<lambda>x. x) [7] 40 20
       (snd (begin_upload_reservation (\<lambda>x. x) [7] 1 0 10 example_db)))"

theorem commit_charges_exactly_witness:
  "\<exists>d'. commit_upload_reservation (\<lambda>x. x) [7] 30 2 None None 30 example_upload = (Inr Committed, d')
     \<and> us_uploaded_bytes (usage_of d' 1) = 30 \<and> us_uploaded_files (usage_of d' 1) = 1"
proof -
  let ?r = "commit_upload_reservation (\<lambda>x. x) [7] 30 2 None None 30 example_upload"
  have "fst ?r = Inr Committed" by code_simp
  then have r: "?r = (Inr Committed, snd ?r)" by (metis prod.collapse)
  have "map rs_share_id (upload_reservations example_upload) = [1]"
    "us_uploaded_bytes (usage_of example_upload 1) = 0" "us_uploaded_files (usage_of example_upload 1) = 0"
    by code_simp+
  then have "us_uploaded_bytes (usage_of (snd ?r) 1) = 30 \<and> us_uploaded_files (usage_of (snd ?r) 1) = 1"
    using commit_charges_exactly[OF r] by auto
  then show ?thesis using r by blast
qed












end
