(* ===== verification/Share_Admin.thy ===== *)
theory Share_Admin
  imports Admin_Accounts Share_Paths Upload_Quota
begin

text \<open>
  Shares as an administrator manages them (\<open>src/src/db/shares/query.rs\<close>,
  \<open>src/src/db/shares/mutations.rs\<close>): creation with its limits, lookup by token, alias and id,
  activation, the upload controls, the password and deletion. An operation an administrator's
  session authorizes is a closure that \<open>required_transaction_for_mfa_session\<close> runs.
\<close>

section \<open>Reading a share\<close>

record share =
  shr_id :: int
  shr_token :: rstr
  shr_alias :: "rstr option"
  shr_relative_path :: rstr
  shr_is_directory :: bool
  shr_permission :: permission
  shr_expires_at :: "instant option"
  shr_max_downloads :: "nat option"
  shr_max_upload_size :: "nat option"
  shr_max_upload_total_size :: "nat option"
  shr_max_upload_files :: "nat option"
  shr_uploaded_bytes :: nat
  shr_uploaded_files :: nat
  shr_download_count :: nat
  shr_active :: bool
  shr_password_hash :: "rstr option"
  shr_upload_conflict_strategy :: upload_conflict_strategy
  shr_created_at :: instant
  shr_upload_policy_epoch :: nat

definition share_token_aad :: "rstr \<Rightarrow> rstr" where
  "share_token_aad token_digest = lit ''shares.token:'' @ token_digest"

definition map_share :: "decrypt \<Rightarrow> db \<Rightarrow> share_row \<Rightarrow> db_error + share" where
  "map_share decrypt d s =
     (case decrypt (sh_token_key_id s) (sh_token_ciphertext s) (share_token_aad (sh_token_hash s)) of
        Inl e \<Rightarrow> Inl e
      | Inr token \<Rightarrow> Inr \<lparr>shr_id = sh_id s, shr_token = token, shr_alias = sh_alias s,
          shr_relative_path = sh_relative_path s, shr_is_directory = sh_is_directory s,
          shr_permission = sh_permission s, shr_expires_at = sh_expires_at s,
          shr_max_downloads = sh_max_downloads s, shr_max_upload_size = sh_max_upload_size s,
          shr_max_upload_total_size = sh_max_upload_total_size s,
          shr_max_upload_files = sh_max_upload_files s,
          shr_uploaded_bytes = us_uploaded_bytes (usage_of d (sh_id s)),
          shr_uploaded_files = us_uploaded_files (usage_of d (sh_id s)),
          shr_download_count = sh_download_count s, shr_active = sh_active s,
          shr_password_hash = sh_password_hash s,
          shr_upload_conflict_strategy = sh_upload_conflict_strategy s,
          shr_created_at = sh_created_at s, shr_upload_policy_epoch = sh_upload_policy_epoch s\<rparr>)"

definition query_share :: "decrypt \<Rightarrow> (share_row \<Rightarrow> bool) \<Rightarrow> db \<Rightarrow> db_error + share option" where
  "query_share decrypt P d =
     (case sql_first P (shares d) of
        None \<Rightarrow> Inr None
      | Some s \<Rightarrow> (case map_share decrypt d s of Inl e \<Rightarrow> Inl e | Inr share \<Rightarrow> Inr (Some share)))"

definition share_by_id_in_transaction :: "decrypt \<Rightarrow> int \<Rightarrow> db \<Rightarrow> db_error + share option" where
  "share_by_id_in_transaction decrypt i = query_share decrypt (\<lambda>s. sh_id s = i)"

definition share_by_token :: "decrypt \<Rightarrow> (rstr \<Rightarrow> rstr) \<Rightarrow> rstr \<Rightarrow> db \<Rightarrow> db_error + share option" where
  "share_by_token decrypt th token = query_share decrypt (\<lambda>s. sh_token_hash s = th token)"

definition share_by_alias :: "decrypt \<Rightarrow> rstr \<Rightarrow> db \<Rightarrow> db_error + share option" where
  "share_by_alias decrypt alias = query_share decrypt (\<lambda>s. sh_alias s = Some alias)"

definition share_available :: "instant \<Rightarrow> share_row \<Rightarrow> bool" where
  "share_available now s \<longleftrightarrow> sh_active s \<and> unexpired (sh_expires_at s) now
     \<and> (case sh_max_downloads s of None \<Rightarrow> True | Some m \<Rightarrow> sh_download_count s < m)"

record shares_summary =
  smy_available :: nat
  smy_protected :: nat

definition share_summary :: "instant \<Rightarrow> db \<Rightarrow> shares_summary" where
  "share_summary now d =
     \<lparr>smy_available = sql_sum (\<lambda>_. True) (\<lambda>s. if share_available now s then 1 else 0) (shares d),
      smy_protected = sql_sum (\<lambda>_. True) (\<lambda>s. if sh_password_hash s \<noteq> None then 1 else 0) (shares d)\<rparr>"

definition count_available_shares :: "instant \<Rightarrow> db \<Rightarrow> nat" where
  "count_available_shares now d = sql_count (share_available now) (shares d)"

definition count_active_shares_for_path :: "rstr \<Rightarrow> bool \<Rightarrow> db \<Rightarrow> nat" where
  "count_active_shares_for_path path is_directory d =
     sql_count (\<lambda>s. sh_active s \<and> path_selected path is_directory s) (shares d)"

section \<open>Creating a share\<close>

definition upload_limits_rejected ::
  "bool \<Rightarrow> permission \<Rightarrow> nat option \<Rightarrow> nat option \<Rightarrow> nat option \<Rightarrow> bool" where
  "upload_limits_rejected is_dir permission upload_max upload_total upload_files \<longleftrightarrow>
     (is_dir \<and> can_upload permission) \<noteq> (upload_total \<noteq> None \<and> upload_files \<noteq> None)
     \<or> (case upload_total of None \<Rightarrow> False | Some n \<Rightarrow> n = 0 \<or> MAX_SQLITE_UNSIGNED < n)
     \<or> (case upload_files of None \<Rightarrow> False | Some n \<Rightarrow> n = 0 \<or> MAX_SQLITE_UNSIGNED < n)
     \<or> (case (upload_total, upload_max) of (Some all, Some single) \<Rightarrow> all < single | _ \<Rightarrow> False)"

text \<open>The columns the insert binds; \<open>rusqlite\<close> refuses an unsigned value a SQLite INTEGER
  cannot hold, the schema checks that limits are positive, token hashes and aliases are unique
  and the creator exists.\<close>

definition insert_share :: "share_row \<Rightarrow> db \<Rightarrow> db_error + int \<times> db" where
  "insert_share s d =
     (if \<not> list_all (\<lambda>v. case v of None \<Rightarrow> True | Some n \<Rightarrow> n \<le> i64_max)
           [sh_max_downloads s, sh_max_upload_size s, sh_max_upload_total_size s, sh_max_upload_files s]
      then Inl ToSqlConversionFailure
      else if list_ex (\<lambda>v. v = Some 0)
           [sh_max_downloads s, sh_max_upload_size s, sh_max_upload_total_size s, sh_max_upload_files s]
      then Inl ConstraintCheck
      else if sql_exists (\<lambda>x. sh_token_hash x = sh_token_hash s
             \<or> sh_alias s \<noteq> None \<and> sh_alias x = sh_alias s) (shares d)
      then Inl ConstraintUnique
      else if \<not> sql_exists (\<lambda>a. adm_id a = sh_created_by s) (admins d)
      then Inl ConstraintForeignKey
      else
        let i = next_rowid (map sh_id (shares d)) in
        Inr (i, d\<lparr>shares := shares d @ [s\<lparr>sh_id := i\<rparr>]\<rparr>))"

record share_spec =
  sp_alias :: "rstr option"
  sp_path :: rstr
  sp_is_dir :: bool
  sp_permission :: permission
  sp_expires :: "instant option"
  sp_max :: "nat option"
  sp_upload_max :: "nat option"
  sp_upload_total :: "nat option"
  sp_upload_files :: "nat option"
  sp_password_hash :: "rstr option"
  sp_upload_conflict_strategy :: upload_conflict_strategy

definition new_share_row ::
  "(nat \<Rightarrow> rstr) \<Rightarrow> rstr \<Rightarrow> nat \<times> rstr \<Rightarrow> share_spec \<Rightarrow> int \<Rightarrow> instant \<Rightarrow> share_row" where
  "new_share_row lower token_digest enc sp admin now =
     \<lparr>sh_id = 0, sh_token_hash = token_digest, sh_token_key_id = fst enc, sh_token_ciphertext = snd enc,
      sh_alias = sp_alias sp, sh_relative_path = sp_path sp, sh_is_directory = sp_is_dir sp,
      sh_permission = sp_permission sp, sh_expires_at = sp_expires sp, sh_max_downloads = sp_max sp,
      sh_max_upload_size = sp_upload_max sp, sh_max_upload_total_size = sp_upload_total sp,
      sh_max_upload_files = sp_upload_files sp, sh_download_count = 0, sh_active = True,
      sh_created_by = admin, sh_created_at = now, sh_password_hash = sp_password_hash sp,
      sh_upload_conflict_strategy = sp_upload_conflict_strategy sp, sh_upload_policy_epoch = 0,
      sh_alias_search_key = map_option (unicode_search_key lower) (sp_alias sp),
      sh_path_search_key = unicode_search_key lower (sp_path sp)\<rparr>"

definition create_share ::
  "decrypt \<Rightarrow> share_row \<Rightarrow> rstr option \<Rightarrow> db \<Rightarrow> db_error + ((int \<times> share) \<times> required_audit_event list) \<times> db" where
  "create_share decrypt row detail d =
     (case insert_share row d of
        Inl e \<Rightarrow> Inl e
      | Inr (i, d1) \<Rightarrow>
          (case share_by_id_in_transaction decrypt i d1 of
             Inl e \<Rightarrow> Inl e
           | Inr None \<Rightarrow> Inl QueryReturnedNoRows
           | Inr (Some share) \<Rightarrow> Inr (((i, share), [audit_event ShareCreated (Some (dec_int i)) detail]), d1)))"

definition create_share_with_upload_limits_for_mfa_session ::
  "encrypt \<Rightarrow> decrypt \<Rightarrow> (nat \<Rightarrow> rstr) \<Rightarrow> (rstr \<Rightarrow> rstr) \<Rightarrow> mfa_session_proof \<Rightarrow> int \<Rightarrow> rstr \<Rightarrow> share_spec
     \<Rightarrow> audit_context \<Rightarrow> rstr option \<Rightarrow> instant \<Rightarrow> db \<Rightarrow> (int \<times> share) session_bound outcome" where
  "create_share_with_upload_limits_for_mfa_session encrypt decrypt lower th proof idle token sp ctx detail now d =
     (if upload_limits_rejected (sp_is_dir sp) (sp_permission sp) (sp_upload_max sp)
           (sp_upload_total sp) (sp_upload_files sp)
      then (Inl InvalidQuery, d)
      else case encrypt token (share_token_aad (th token)) of
        Inl e \<Rightarrow> (Inl e, d)
      | Inr enc \<Rightarrow>
          required_transaction_for_mfa_session proof idle now ctx
            (create_share decrypt (new_share_row lower (th token) enc sp (prf_admin_id proof) now) detail) d)"

section \<open>Changing a share\<close>

definition set_share_active ::
  "int \<Rightarrow> bool \<Rightarrow> audit_action \<Rightarrow> db \<Rightarrow> db_error + (bool \<times> required_audit_event list) \<times> db" where
  "set_share_active i active action d =
     (let changed = (sql_count (\<lambda>s. sh_id s = i) (shares d) = 1) in
      Inr ((changed, if changed then [audit_event action (Some (dec_int i)) None] else []),
        d\<lparr>shares := sql_update (\<lambda>s. sh_id s = i)
           (\<lambda>s. s\<lparr>sh_upload_policy_epoch := sh_upload_policy_epoch s + (if sh_active s \<noteq> active then 1 else 0),
                  sh_active := active\<rparr>) (shares d)\<rparr>))"

datatype share_controls_outcome = Updated | NotFound | QuotaConflict

definition coalesce :: "'a option \<Rightarrow> 'a \<Rightarrow> 'a" where
  "coalesce v x = (case v of None \<Rightarrow> x | Some y \<Rightarrow> y)"

definition controls_change ::
  "bool option \<Rightarrow> upload_conflict_strategy option \<Rightarrow> (nat \<times> nat) option \<Rightarrow> share_row \<Rightarrow> bool" where
  "controls_change active strategy limits s \<longleftrightarrow>
     active \<notin> {None, Some (sh_active s)}
     \<or> strategy \<notin> {None, Some (sh_upload_conflict_strategy s)}
     \<or> (case limits of None \<Rightarrow> False
        | Some (all, files) \<Rightarrow> sh_max_upload_total_size s \<noteq> Some all \<or> sh_max_upload_files s \<noteq> Some files)"

definition controlled_share ::
  "bool option \<Rightarrow> upload_conflict_strategy option \<Rightarrow> (nat \<times> nat) option \<Rightarrow> share_row \<Rightarrow> share_row" where
  "controlled_share active strategy limits s =
     s\<lparr>sh_upload_policy_epoch :=
         sh_upload_policy_epoch s + (if controls_change active strategy limits s then 1 else 0),
       sh_active := coalesce active (sh_active s),
       sh_upload_conflict_strategy := coalesce strategy (sh_upload_conflict_strategy s),
       sh_max_upload_total_size := coalesce (map_option (\<lambda>l. Some (fst l)) limits) (sh_max_upload_total_size s),
       sh_max_upload_files := coalesce (map_option (\<lambda>l. Some (snd l)) limits) (sh_max_upload_files s)\<rparr>"

definition apply_controls ::
  "decrypt \<Rightarrow> int \<Rightarrow> bool option \<Rightarrow> upload_conflict_strategy option \<Rightarrow> (nat \<times> nat) option
     \<Rightarrow> required_audit_event list \<Rightarrow> db
     \<Rightarrow> db_error + ((share_controls_outcome \<times> share option) \<times> required_audit_event list) \<times> db" where
  "apply_controls decrypt i active strategy limits evs d =
     (let d1 = d\<lparr>shares := sql_update (\<lambda>s. sh_id s = i) (controlled_share active strategy limits) (shares d)\<rparr> in
      case share_by_id_in_transaction decrypt i d1 of
        Inl e \<Rightarrow> Inl e
      | Inr None \<Rightarrow> Inl QueryReturnedNoRows
      | Inr (Some share) \<Rightarrow> Inr (((Updated, Some share), evs), d1))"

definition exceeds :: "nat option \<Rightarrow> nat \<Rightarrow> bool" where
  "exceeds used limit = (case used of None \<Rightarrow> True | Some n \<Rightarrow> limit < n)"

definition update_share_controls ::
  "decrypt \<Rightarrow> int \<Rightarrow> bool option \<Rightarrow> upload_conflict_strategy option \<Rightarrow> (nat \<times> nat) option
     \<Rightarrow> required_audit_event list \<Rightarrow> instant \<Rightarrow> db
     \<Rightarrow> db_error + ((share_controls_outcome \<times> share option) \<times> required_audit_event list) \<times> db" where
  "update_share_controls decrypt i active strategy limits evs now d =
     (let d1 = expire_reservations now d in
      case share_by_id d1 i of
        None \<Rightarrow> Inr (((share_controls_outcome.NotFound, None), []), d1)
      | Some s \<Rightarrow>
          let P = (\<lambda>r. rs_share_id r = i \<and> rs_upload_policy_epoch r = sh_upload_policy_epoch s);
              used_bytes = checked_add (us_uploaded_bytes (usage_of d1 i))
                             (sql_sum P rs_reserved_bytes (upload_reservations d1));
              used_files = checked_add (us_uploaded_files (usage_of d1 i))
                             (sql_count P (upload_reservations d1)) in
          case limits of
            None \<Rightarrow> apply_controls decrypt i active strategy limits evs d1
          | Some (all, files) \<Rightarrow>
              if all = 0 \<or> files = 0 \<or> MAX_SQLITE_UNSIGNED < all \<or> MAX_SQLITE_UNSIGNED < files
                 \<or> \<not> sh_is_directory s \<or> \<not> can_upload (sh_permission s)
              then Inl InvalidQuery
              else if exceeds used_bytes all \<or> exceeds used_files files
              then Inr (((QuotaConflict, None), []), d1)
              else apply_controls decrypt i active strategy limits evs d1)"

definition delete_share :: "int \<Rightarrow> db \<Rightarrow> db_error + (bool \<times> required_audit_event list) \<times> db" where
  "delete_share i d =
     (let deleted = (sql_count (\<lambda>s. sh_id s = i) (shares d) = 1) in
      Inr ((deleted, if deleted then [audit_event ShareDeleted (Some (dec_int i)) None] else []),
        delete_shares (\<lambda>s. sh_id s = i) d))"

definition set_share_password ::
  "int \<Rightarrow> rstr option \<Rightarrow> audit_action \<Rightarrow> db \<Rightarrow> db_error + (bool \<times> required_audit_event list) \<times> db" where
  "set_share_password i hash action d =
     (let changed = (sql_count (\<lambda>s. sh_id s = i) (shares d) = 1) in
      Inr ((changed, if changed then [audit_event action (Some (dec_int i)) None] else []),
        d\<lparr>shares := sql_update (\<lambda>s. sh_id s = i)
             (\<lambda>s. s\<lparr>sh_upload_policy_epoch := sh_upload_policy_epoch s + 1, sh_password_hash := hash\<rparr>) (shares d),
          unlock_sessions := sql_delete (\<lambda>u. unl_share_id u = i) (unlock_sessions d)\<rparr>))"

end
