(* ===== verification/Transfer_Leases.thy ===== *)
theory Transfer_Leases
  imports Store Quota_Ledger
begin

text \<open>
  Counted public transfers (\<open>src/src/db/transfers.rs\<close>, \<open>src/src/db/transfers/leases.rs\<close>,
  \<open>statistics.rs\<close>). A client session that downloads a resource of a share holds a grant;
  every HTTP request of that session holds a lease on the grant. A grant reserves one
  download of the share until its first lease completes, which counts it exactly once.
  Each operation is one immediate transaction, given the clock reading \<open>now\<close> it takes, the
  token hash \<open>th\<close> and the rendering \<open>month\<close> of a UTC month, which come from third-party
  crates.
\<close>

section \<open>Outcomes\<close>

datatype transfer_access_state =
    Unauthorized | Available | ExistingGrant int bool | LimitReached | ShareUnavailable

datatype lease_begin_outcome =
    Unauthorized | AlreadyCounted | NewLease | LimitReached | ShareUnavailable

datatype availability_outcome =
    Unauthorized | Available | AlreadyCounted | LimitReached | ShareUnavailable

datatype lease_complete_outcome = Counted | AlreadyCounted | NotFound

datatype lease_cancel_outcome = Cancelled | NotFound

datatype lease_heartbeat_outcome = Extended | CappedAndCounted | CappedAlreadyCounted | NotFound

section \<open>Constants and statistics\<close>

definition TRANSFER_SESSION_TTL_SECONDS :: int where
  "TRANSFER_SESSION_TTL_SECONDS = 15 * 60"

definition TRANSFER_LEASE_MAX_LIFETIME_SECONDS :: int where
  "TRANSFER_LEASE_MAX_LIFETIME_SECONDS = 24 * 60 * 60"

definition transfer_expiry :: "instant \<Rightarrow> instant" where
  "transfer_expiry now = now + seconds TRANSFER_SESSION_TTL_SECONDS"

definition valid_utc_month :: "rstr \<Rightarrow> bool" where
  "valid_utc_month m =
     (case m of
        [y1, y2, y3, y4, dash, m1, m2] \<Rightarrow>
          dash = 45 \<and> list_all ascii_digit [y1, y2, y3, y4] \<and> list_all ascii_digit [m1, m2]
          \<and> 1 \<le> (m1 - 48) * 10 + (m2 - 48) \<and> (m1 - 48) * 10 + (m2 - 48) \<le> 12
      | _ \<Rightarrow> False)"

text \<open>The upsert on \<open>transfer_monthly_counts\<close>; its CHECK accepts exactly the valid months.\<close>

definition increment_transfer_monthly_count :: "rstr \<Rightarrow> rstr \<Rightarrow> db \<Rightarrow> db_error + db" where
  "increment_transfer_monthly_count m action d =
     (if action \<notin> set [lit ''download'', lit ''zip_download'', lit ''preview''] then Inr d
      else if \<not> valid_utc_month m then Inl ConstraintCheck
      else Inr (d\<lparr>monthly_counts :=
        (if map_of (monthly_counts d) (m, action) = None then monthly_counts d @ [((m, action), 1)]
         else sql_update (\<lambda>r. fst r = (m, action)) (\<lambda>r. (fst r, snd r + 1)) (monthly_counts d))\<rparr>))"

definition transfer_monthly_count :: "db \<Rightarrow> rstr \<Rightarrow> rstr \<Rightarrow> nat" where
  "transfer_monthly_count d m action =
     (case map_of (monthly_counts d) (m, action) of None \<Rightarrow> 0 | Some n \<Rightarrow> n)"

definition required_transfer_audit_action :: "rstr \<Rightarrow> db_error + audit_action" where
  "required_transfer_audit_action action =
     (if action = lit ''download'' then Inr Download
      else if action = lit ''zip_download'' then Inr ZipDownload
      else if action = lit ''preview'' then Inr Preview
      else Inl InvalidQuery)"

section \<open>Cleanup\<close>

definition live_lease :: "lease_row list \<Rightarrow> instant \<Rightarrow> int \<Rightarrow> bool" where
  "live_lease ls now gid = sql_exists (\<lambda>l. ls_grant_id l = gid \<and> now < ls_expires_at l) ls"

definition cleanup_transfer_state :: "instant \<Rightarrow> db \<Rightarrow> db" where
  "cleanup_transfer_state now d =
     (let d1 = d\<lparr>leases := sql_delete (\<lambda>l. ls_expires_at l \<le> now) (leases d)\<rparr>;
          d2 = delete_grants (\<lambda>g. gr_expires_at g \<le> now) d1 in
      delete_grants (\<lambda>g. \<not> gr_counted g \<and> \<not> live_lease (leases d2) now (gr_id g)) d2)"

definition cleanup_transfer_state_before_heartbeat :: "instant \<Rightarrow> rstr \<Rightarrow> db \<Rightarrow> db" where
  "cleanup_transfer_state_before_heartbeat now current d =
     (let d1 = d\<lparr>leases :=
            sql_delete (\<lambda>l. ls_expires_at l \<le> now \<and> ls_token_hash l \<noteq> current) (leases d)\<rparr>;
          held = (\<lambda>ls g. sql_exists (\<lambda>l. ls_token_hash l = current \<and> ls_grant_id l = gr_id g) ls);
          d2 = delete_grants (\<lambda>g. \<not> held (leases d1) g \<and> gr_expires_at g \<le> now) d1 in
      delete_grants (\<lambda>g. \<not> gr_counted g \<and> \<not> held (leases d2) g
                          \<and> \<not> live_lease (leases d2) now (gr_id g)) d2)"

section \<open>Admission\<close>

definition pending_live_grants :: "db \<Rightarrow> int \<Rightarrow> instant \<Rightarrow> nat" where
  "pending_live_grants d i now =
     sql_count (\<lambda>g. gr_share_id g = i \<and> \<not> gr_counted g \<and> now < gr_expires_at g
                     \<and> live_lease (leases d) now (gr_id g)) (grants d)"

definition transfer_access_state ::
  "(rstr \<Rightarrow> rstr) \<Rightarrow> rstr \<Rightarrow> int \<Rightarrow> rstr option \<Rightarrow> rstr \<Rightarrow> rstr \<Rightarrow> instant \<Rightarrow> db
     \<Rightarrow> transfer_access_state" where
  "transfer_access_state th session i unlock resource action now d =
     (case sql_first (\<lambda>s. sh_id s = i \<and> sh_active s \<and> unexpired (sh_expires_at s) now
                          \<and> sh_permission s \<in> set [DownloadOnly, DownloadUpload]) (shares d) of
        None \<Rightarrow> transfer_access_state.ShareUnavailable
      | Some s \<Rightarrow>
          if sh_password_hash s \<noteq> None
             \<and> \<not> (case unlock of
                    None \<Rightarrow> False
                  | Some tok \<Rightarrow> sql_exists (\<lambda>u. unl_token_hash u = th tok \<and> unl_share_id u = i
                                  \<and> now < unl_expires_at u) (unlock_sessions d))
          then transfer_access_state.Unauthorized
          else
            (case sql_first (\<lambda>g. gr_session_token_hash g = session \<and> gr_share_id g = i
                    \<and> gr_resource_key g = resource \<and> gr_action g = action \<and> now < gr_expires_at g
                    \<and> (gr_counted g \<or> live_lease (leases d) now (gr_id g))) (grants d) of
               Some g \<Rightarrow> ExistingGrant (gr_id g) (gr_counted g)
             | None \<Rightarrow>
                 (case sh_max_downloads s of
                    None \<Rightarrow> transfer_access_state.Available
                  | Some m \<Rightarrow>
                      if m \<le> sh_download_count s + pending_live_grants d i now
                      then transfer_access_state.LimitReached
                      else transfer_access_state.Available)))"

definition check_authorized_transfer_availability ::
  "(rstr \<Rightarrow> rstr) \<Rightarrow> rstr \<Rightarrow> int \<Rightarrow> rstr option \<Rightarrow> rstr \<Rightarrow> rstr \<Rightarrow> instant \<Rightarrow> db
     \<Rightarrow> availability_outcome" where
  "check_authorized_transfer_availability th session_token i unlock resource action now d =
     (case transfer_access_state th (th session_token) i unlock resource action now d of
        transfer_access_state.Unauthorized \<Rightarrow> availability_outcome.Unauthorized
      | transfer_access_state.Available \<Rightarrow> availability_outcome.Available
      | ExistingGrant _ counted \<Rightarrow>
          (if counted then availability_outcome.AlreadyCounted else availability_outcome.Available)
      | transfer_access_state.LimitReached \<Rightarrow> availability_outcome.LimitReached
      | transfer_access_state.ShareUnavailable \<Rightarrow> availability_outcome.ShareUnavailable)"

definition active_transfer_reservations :: "int \<Rightarrow> instant \<Rightarrow> db \<Rightarrow> nat" where
  "active_transfer_reservations i now d = pending_live_grants d i now"

section \<open>Beginning a request\<close>

definition new_lease :: "rstr \<Rightarrow> int \<Rightarrow> instant \<Rightarrow> lease_row" where
  "new_lease tok gid now =
     \<lparr>ls_token_hash = tok, ls_grant_id = gid, ls_created_at = now, ls_heartbeat_at = now,
      ls_expires_at = transfer_expiry now\<rparr>"

definition new_grant :: "int \<Rightarrow> rstr \<Rightarrow> int \<Rightarrow> rstr \<Rightarrow> rstr \<Rightarrow> instant \<Rightarrow> grant_row" where
  "new_grant gid session i resource action now =
     \<lparr>gr_id = gid, gr_session_token_hash = session, gr_share_id = i, gr_resource_key = resource,
      gr_action = action, gr_counted = False, gr_created_at = now,
      gr_expires_at = transfer_expiry now\<rparr>"

definition begin_authorized_transfer_lease ::
  "(rstr \<Rightarrow> rstr) \<Rightarrow> rstr \<Rightarrow> rstr \<Rightarrow> int \<Rightarrow> rstr option \<Rightarrow> rstr \<Rightarrow> rstr \<Rightarrow> instant \<Rightarrow> db
     \<Rightarrow> lease_begin_outcome outcome" where
  "begin_authorized_transfer_lease th session_token lease_token i unlock resource action now d =
     (let session = th session_token; tok = th lease_token; d1 = cleanup_transfer_state now d in
      case transfer_access_state th session i unlock resource action now d1 of
        transfer_access_state.Unauthorized \<Rightarrow> (Inr lease_begin_outcome.Unauthorized, d)
      | ExistingGrant gid counted \<Rightarrow>
          (let d2 = (if counted then d1
                     else d1\<lparr>grants := sql_update (\<lambda>g. gr_id g = gid)
                            (gr_expires_at_update (\<lambda>_. transfer_expiry now)) (grants d1)\<rparr>) in
           case insert_lease (new_lease tok gid now) d2 of
             Inl e \<Rightarrow> (Inl e, d)
           | Inr d3 \<Rightarrow>
               (Inr (if counted then lease_begin_outcome.AlreadyCounted
                     else lease_begin_outcome.NewLease), d3))
      | transfer_access_state.LimitReached \<Rightarrow> (Inr lease_begin_outcome.LimitReached, d1)
      | transfer_access_state.ShareUnavailable \<Rightarrow> (Inr lease_begin_outcome.ShareUnavailable, d1)
      | transfer_access_state.Available \<Rightarrow>
          (let gid = next_rowid (map gr_id (grants d1)) in
           case insert_grant (new_grant gid session i resource action now) d1 of
             Inl e \<Rightarrow> (Inl e, d)
           | Inr d2 \<Rightarrow>
               (case insert_lease (new_lease tok gid now) d2 of
                  Inl e \<Rightarrow> (Inl e, d)
                | Inr d3 \<Rightarrow> (Inr lease_begin_outcome.NewLease, d3))))"

definition begin_transfer_lease ::
  "(rstr \<Rightarrow> rstr) \<Rightarrow> rstr \<Rightarrow> rstr \<Rightarrow> int \<Rightarrow> rstr \<Rightarrow> rstr \<Rightarrow> instant \<Rightarrow> db
     \<Rightarrow> lease_begin_outcome outcome" where
  "begin_transfer_lease th session_token lease_token i resource action now d =
     begin_authorized_transfer_lease th session_token lease_token i None resource action now d"

section \<open>Completing, cancelling and keeping a request alive\<close>

text \<open>\<open>leases JOIN grants ON grants.id=leases.grant_id WHERE leases.token_hash=?\<close>\<close>

definition lease_and_grant :: "rstr \<Rightarrow> db \<Rightarrow> (lease_row \<times> grant_row) option" where
  "lease_and_grant tok d =
     (case sql_first (\<lambda>l. ls_token_hash l = tok) (leases d) of
        None \<Rightarrow> None
      | Some l \<Rightarrow> map_option (\<lambda>g. (l, g)) (sql_first (\<lambda>g. gr_id g = ls_grant_id l) (grants d)))"

definition delete_lease :: "rstr \<Rightarrow> db \<Rightarrow> db" where
  "delete_lease tok d = d\<lparr>leases := sql_delete (\<lambda>l. ls_token_hash l = tok) (leases d)\<rparr>"

text \<open>The three statements that count an uncounted grant; both updates must touch one row.\<close>

definition count_grant ::
  "(instant \<Rightarrow> rstr) \<Rightarrow> instant \<Rightarrow> grant_row \<Rightarrow> db \<Rightarrow> db_error + db" where
  "count_grant month now g d =
     (if sql_count (\<lambda>s. sh_id s = gr_share_id g) (shares d) \<noteq> 1 then Inl QueryReturnedNoRows
      else if sql_count (\<lambda>x. gr_id x = gr_id g \<and> \<not> gr_counted x) (grants d) \<noteq> 1
      then Inl QueryReturnedNoRows
      else increment_transfer_monthly_count (month now) (gr_action g)
        (d\<lparr>shares := sql_update (\<lambda>s. sh_id s = gr_share_id g)
                     (sh_download_count_update Suc) (shares d),
           grants := sql_update (\<lambda>x. gr_id x = gr_id g \<and> \<not> gr_counted x)
                     (\<lambda>x. x\<lparr>gr_counted := True, gr_expires_at := transfer_expiry now\<rparr>) (grants d)\<rparr>))"

definition transfer_audit_events ::
  "grant_row \<Rightarrow> rstr \<Rightarrow> db_error + required_audit_event list" where
  "transfer_audit_events g detail =
     result_bind (required_transfer_audit_action (gr_action g))
       (\<lambda>a. Inr [audit_event a (Some (dec_int (gr_share_id g))) (Some detail)])"

definition complete_transfer_lease ::
  "(rstr \<Rightarrow> rstr) \<Rightarrow> (instant \<Rightarrow> rstr) \<Rightarrow> rstr \<Rightarrow> audit_context option \<Rightarrow> instant \<Rightarrow> db
     \<Rightarrow> lease_complete_outcome outcome" where
  "complete_transfer_lease th month lease_token required_audit now d =
     (let tok = th lease_token; d1 = cleanup_transfer_state now d in
      case lease_and_grant tok d1 of
        None \<Rightarrow> (Inr lease_complete_outcome.NotFound, d1)
      | Some (l, g) \<Rightarrow>
          if \<not> (now < ls_expires_at l \<and> now < gr_expires_at g)
          then (Inr lease_complete_outcome.NotFound, d1)
          else if gr_counted g
          then (Inr lease_complete_outcome.AlreadyCounted, delete_lease tok d1)
          else (case count_grant month now g d1 of
                  Inl e \<Rightarrow> (Inl e, d)
                | Inr d2 \<Rightarrow>
                    (let d3 = delete_lease tok d2 in
                     case required_audit of
                       None \<Rightarrow> (Inr Counted, d3)
                     | Some ctx \<Rightarrow>
                         (case transfer_audit_events g (lit ''completed transfer session'') of
                            Inl e \<Rightarrow> (Inl e, d)
                          | Inr evs \<Rightarrow> commit_audited now ctx evs Counted d d3))))"

definition cancel_transfer_lease ::
  "(rstr \<Rightarrow> rstr) \<Rightarrow> rstr \<Rightarrow> instant \<Rightarrow> db \<Rightarrow> lease_cancel_outcome outcome" where
  "cancel_transfer_lease th lease_token now d =
     (let tok = th lease_token; d1 = cleanup_transfer_state now d in
      case lease_and_grant tok d1 of
        None \<Rightarrow> (Inr lease_cancel_outcome.NotFound, d1)
      | Some (l, g) \<Rightarrow>
          (let d2 = delete_lease tok d1 in
           (Inr Cancelled,
            if gr_counted g then d2
            else delete_grants (\<lambda>x. gr_id x = gr_id g \<and> \<not> gr_counted x
                   \<and> \<not> sql_exists (\<lambda>l. ls_grant_id l = gr_id g) (leases d2)) d2)))"

text \<open>\<open>SELECT MAX(expires_at)\<close>; NULL for no rows would violate NOT NULL.\<close>

definition max_lease_expiry :: "int \<Rightarrow> lease_row list \<Rightarrow> instant option" where
  "max_lease_expiry gid ls =
     (case map ls_expires_at (filter (\<lambda>l. ls_grant_id l = gid) ls) of
        [] \<Rightarrow> None
      | e # es \<Rightarrow> Some (foldl max e es))"

definition heartbeat_transfer_lease ::
  "(rstr \<Rightarrow> rstr) \<Rightarrow> (instant \<Rightarrow> rstr) \<Rightarrow> rstr \<Rightarrow> audit_context option \<Rightarrow> instant \<Rightarrow> db
     \<Rightarrow> lease_heartbeat_outcome outcome" where
  "heartbeat_transfer_lease th month lease_token required_audit now d =
     (let tok = th lease_token; d1 = cleanup_transfer_state_before_heartbeat now tok d in
      case lease_and_grant tok d1 of
        None \<Rightarrow> (Inr lease_heartbeat_outcome.NotFound, cleanup_transfer_state now d1)
      | Some (l, g) \<Rightarrow>
          (let absolute = ls_created_at l + seconds TRANSFER_LEASE_MAX_LIFETIME_SECONDS in
           if absolute \<le> now
           then
             (if gr_counted g
              then (Inr CappedAlreadyCounted, cleanup_transfer_state now (delete_lease tok d1))
              else (case count_grant month now g d1 of
                      Inl e \<Rightarrow> (Inl e, d)
                    | Inr d2 \<Rightarrow>
                        (let d3 = cleanup_transfer_state now (delete_lease tok d2) in
                         case required_audit of
                           None \<Rightarrow> (Inr CappedAndCounted, d3)
                         | Some ctx \<Rightarrow>
                             (case transfer_audit_events g (lit ''capped transfer session'') of
                                Inl e \<Rightarrow> (Inl e, d)
                              | Inr evs \<Rightarrow> commit_audited now ctx evs CappedAndCounted d d3))))
           else if ls_expires_at l \<le> now
           then (Inr lease_heartbeat_outcome.NotFound, cleanup_transfer_state now d1)
           else
             (let d2 = d1\<lparr>leases := sql_update (\<lambda>l. ls_token_hash l = tok)
                     (\<lambda>l. l\<lparr>ls_heartbeat_at := now, ls_expires_at := min (transfer_expiry now) absolute\<rparr>)
                     (leases d1)\<rparr> in
              if gr_counted g then (Inr Extended, d2)
              else (case max_lease_expiry (gr_id g) (leases d2) of
                      None \<Rightarrow> (Inl ConstraintCheck, d)
                    | Some e \<Rightarrow>
                        (Inr Extended,
                         d2\<lparr>grants := sql_update (\<lambda>x. gr_id x = gr_id g)
                              (gr_expires_at_update (\<lambda>_. e)) (grants d2)\<rparr>)))))"

section \<open>The download ledger of a share\<close>

definition pending_grants :: "db \<Rightarrow> int \<Rightarrow> nat" where
  "pending_grants d i = sql_count (\<lambda>g. gr_share_id g = i \<and> \<not> gr_counted g) (grants d)"

definition download_ledger :: "db \<Rightarrow> int \<Rightarrow> nat \<times> nat" where
  "download_ledger d i =
     ((case share_by_id d i of None \<Rightarrow> 0 | Some s \<Rightarrow> sh_download_count s), pending_grants d i)"

definition download_limit :: "db \<Rightarrow> int \<Rightarrow> nat option" where
  "download_limit d i = (case share_by_id d i of None \<Rightarrow> None | Some s \<Rightarrow> sh_max_downloads s)"

text \<open>What a transfer transaction does to the rest of the store: the shares keep every
  column but the download counter, and the upload tables are not touched.\<close>

definition transfer_frame :: "db \<Rightarrow> db \<Rightarrow> bool" where
  "transfer_frame d d' \<longleftrightarrow>
     map (sh_download_count_update (\<lambda>_. 0)) (shares d') =
       map (sh_download_count_update (\<lambda>_. 0)) (shares d)
     \<and> upload_usage d' = upload_usage d \<and> upload_reservations d' = upload_reservations d
     \<and> upload_operations d' = upload_operations d"

definition refines_ledger :: "db \<Rightarrow> db \<Rightarrow> bool" where
  "refines_ledger d d' \<longleftrightarrow>
     wf_store d' \<and> transfer_frame d d'
     \<and> (\<forall>i. download_limit d' i = download_limit d i
           \<and> ledger_steps (download_limit d i) (download_ledger d i) (download_ledger d' i))"

lemma refines_refl: "wf_store d \<Longrightarrow> refines_ledger d d"
  by (simp add: refines_ledger_def transfer_frame_def)

lemma refines_trans [trans]:
  "refines_ledger a b \<Longrightarrow> refines_ledger b c \<Longrightarrow> refines_ledger a c"
  unfolding refines_ledger_def transfer_frame_def by (metis rtranclp_trans)

lemma refines_wf: "refines_ledger d d' \<Longrightarrow> wf_store d'"
  by (simp add: refines_ledger_def)

lemma refines_release:
  assumes "wf_store d'" "shares d' = shares d" "\<And>i. pending_grants d' i \<le> pending_grants d i"
    and "upload_usage d' = upload_usage d" "upload_reservations d' = upload_reservations d"
    and "upload_operations d' = upload_operations d"
  shows "refines_ledger d d'"
  using assms
  by (auto simp: refines_ledger_def transfer_frame_def download_limit_def download_ledger_def
      share_by_id_def intro: ledger_release)

section \<open>Cleanup only releases\<close>

lemma delete_leases_wf:
  "wf_store d \<Longrightarrow> wf_store (d\<lparr>leases := sql_delete P (leases d)\<rparr>)"
  using lease_table.delete[of "leases d" P] by (auto simp: wf_store_def share_refs_def)

lemma delete_grants_refines:
  "wf_store d \<Longrightarrow> refines_ledger d (delete_grants P d)"
  by (rule refines_release)
    (simp_all add: delete_grants_wf pending_grants_def sql_count_delete_le)

lemma delete_leases_refines:
  "wf_store d \<Longrightarrow> refines_ledger d (d\<lparr>leases := sql_delete P (leases d)\<rparr>)"
  by (rule refines_release) (simp_all add: delete_leases_wf pending_grants_def)

lemma cleanup_refines:
  assumes "wf_store d" shows "refines_ledger d (cleanup_transfer_state now d)"
proof -
  let ?d1 = "d\<lparr>leases := sql_delete (\<lambda>l. ls_expires_at l \<le> now) (leases d)\<rparr>"
  let ?d2 = "delete_grants (\<lambda>g. gr_expires_at g \<le> now) ?d1"
  have 1: "refines_ledger d ?d1" by (rule delete_leases_refines[OF assms])
  have 2: "refines_ledger ?d1 ?d2" by (rule delete_grants_refines[OF refines_wf[OF 1]])
  show ?thesis
    unfolding cleanup_transfer_state_def Let_def
    using refines_trans[OF 1 refines_trans[OF 2 delete_grants_refines[OF refines_wf[OF 2]]]] .
qed

lemma heartbeat_cleanup_refines:
  assumes "wf_store d" shows "refines_ledger d (cleanup_transfer_state_before_heartbeat now tok d)"
proof -
  let ?d1 = "d\<lparr>leases := sql_delete (\<lambda>l. ls_expires_at l \<le> now \<and> ls_token_hash l \<noteq> tok) (leases d)\<rparr>"
  let ?d2 = "delete_grants (\<lambda>g. \<not> sql_exists (\<lambda>l. ls_token_hash l = tok \<and> ls_grant_id l = gr_id g)
      (leases ?d1) \<and> gr_expires_at g \<le> now) ?d1"
  have 1: "refines_ledger d ?d1" by (rule delete_leases_refines[OF assms])
  have 2: "refines_ledger ?d1 ?d2" by (rule delete_grants_refines[OF refines_wf[OF 1]])
  show ?thesis
    unfolding cleanup_transfer_state_before_heartbeat_def Let_def
    using refines_trans[OF 1 refines_trans[OF 2 delete_grants_refines[OF refines_wf[OF 2]]]] .
qed

text \<open>After cleanup every grant is unexpired and every uncounted grant has a live lease, so
  the live reservations admission counts are all the reservations there are.\<close>

lemma cleanup_simps [simp]:
  "shares (cleanup_transfer_state now d) = shares d"
  "unlock_sessions (cleanup_transfer_state now d) = unlock_sessions d"
  "audit (cleanup_transfer_state now d) = audit d"
  "runtime_settings (cleanup_transfer_state now d) = runtime_settings d"
  by (simp_all add: cleanup_transfer_state_def Let_def)

lemma cleanup_leases_live:
  "l \<in> set (leases (cleanup_transfer_state now d)) \<Longrightarrow> now < ls_expires_at l \<and> l \<in> set (leases d)"
  by (auto simp: cleanup_transfer_state_def Let_def delete_grants_leases)

lemma cleanup_grant_live:
  assumes "wf_store d" "g \<in> set (grants (cleanup_transfer_state now d))"
  shows "now < gr_expires_at g"
    and "gr_counted g \<or> live_lease (leases (cleanup_transfer_state now d)) now (gr_id g)"
proof -
  let ?d1 = "d\<lparr>leases := sql_delete (\<lambda>l. ls_expires_at l \<le> now) (leases d)\<rparr>"
  let ?d2 = "delete_grants (\<lambda>g. gr_expires_at g \<le> now) ?d1"
  let ?P = "\<lambda>g. \<not> gr_counted g \<and> \<not> live_lease (leases ?d2) now (gr_id g)"
  have eq: "cleanup_transfer_state now d = delete_grants ?P ?d2"
    by (simp add: cleanup_transfer_state_def Let_def)
  have g: "g \<in> set (grants ?d2)" "\<not> ?P g" using assms(2) by (simp_all add: eq)
  then show "now < gr_expires_at g" by simp
  have "wf_grants (grants ?d2)"
    using wf_storeD(2)[OF assms(1)] grant_table.delete by simp
  then have uniq: "h = g" if "h \<in> set (grants ?d2)" "gr_id h = gr_id g" for h
    using that g(1) grant_table.unique by blast
  show "gr_counted g \<or> live_lease (leases (cleanup_transfer_state now d)) now (gr_id g)"
  proof (cases "gr_counted g")
    case False
    then obtain l where l: "l \<in> set (leases ?d2)" "ls_grant_id l = gr_id g" "now < ls_expires_at l"
      using g(2) by (auto simp: live_lease_def sql_exists_iff)
    then have "l \<in> set (leases (delete_grants ?P ?d2))"
      using uniq g(2) unfolding delete_grants_leases[of ?P ?d2] by fastforce
    then show ?thesis using l unfolding eq live_lease_def sql_exists_iff by blast
  qed simp
qed

lemma cleanup_pending_live:
  assumes "wf_store d"
  shows "pending_live_grants (cleanup_transfer_state now d) i now
           = pending_grants (cleanup_transfer_state now d) i"
  unfolding pending_live_grants_def pending_grants_def
  by (rule sql_count_cong) (use cleanup_grant_live[OF assms] in auto)

section \<open>Every transaction acts through the ledger\<close>

lemma increment_Inr:
  "increment_transfer_monthly_count m a d = Inr d' \<Longrightarrow> \<exists>mc. d' = d\<lparr>monthly_counts := mc\<rparr>"
  by (auto simp: increment_transfer_monthly_count_def split: if_splits
      intro: exI[of _ "monthly_counts d"])

lemma refines_frame_update:
  "refines_ledger d (d'\<lparr>monthly_counts := mc\<rparr>) = refines_ledger d d'"
  by (simp add: refines_ledger_def transfer_frame_def download_limit_def download_ledger_def
      share_by_id_def pending_grants_def)

lemma refines_audit:
  "refines_ledger d d' \<Longrightarrow> wf_audit rows \<Longrightarrow> refines_ledger d (d'\<lparr>audit := rows\<rparr>)"
  by (auto simp: refines_ledger_def transfer_frame_def download_limit_def download_ledger_def
      share_by_id_def pending_grants_def wf_store_audit)

lemma count_pending:
  assumes "wf_grants gs" "g \<in> set gs" "\<not> gr_counted g"
    and "Q = (\<lambda>x. gr_id x = gr_id g \<and> \<not> gr_counted x)"
    and "\<And>x. gr_counted (f x)"
  shows "sql_count (\<lambda>x. gr_share_id x = i \<and> \<not> gr_counted x) (sql_update Q f gs)
       + (if i = gr_share_id g then 1 else 0)
       = sql_count (\<lambda>x. gr_share_id x = i \<and> \<not> gr_counted x) gs"
proof -
  let ?P = "\<lambda>x. gr_share_id x = i \<and> \<not> gr_counted x"
  have "sql_count (\<lambda>x. ?P x \<and> Q x) gs = (if i = gr_share_id g then 1 else 0)"
  proof (cases "i = gr_share_id g")
    case True
    have "sql_count (\<lambda>x. ?P x \<and> Q x) gs = sql_count (\<lambda>x. gr_id x = gr_id g \<and> ?P x) gs"
      by (rule sql_count_cong) (auto simp: assms(4))
    then show ?thesis using grant_table.count_one[OF assms(1,2), of ?P] assms(3) True by simp
  next
    case False
    have "sql_count (\<lambda>x. ?P x \<and> Q x) gs = 0"
      using grant_table.unique[OF assms(1,2)] False unfolding sql_count_0 assms(4) by fastforce
    then show ?thesis using False by simp
  qed
  then show ?thesis using sql_count_update_off[of gs Q ?P f] assms(5) by simp
qed

lemma count_grant_refines:
  assumes wf: "wf_store d" and g: "g \<in> set (grants d)" "\<not> gr_counted g"
    and eq: "count_grant month now g d = Inr d'"
  shows "refines_ledger d d'"
proof -
  let ?Q = "\<lambda>x. gr_id x = gr_id g \<and> \<not> gr_counted x"
  let ?f = "\<lambda>x. x\<lparr>gr_counted := True, gr_expires_at := transfer_expiry now\<rparr>"
  let ?S = "\<lambda>s. sh_id s = gr_share_id g"
  let ?d1 = "d\<lparr>shares := sql_update ?S (sh_download_count_update Suc) (shares d)\<rparr>"
  define d2 where "d2 = ?d1\<lparr>grants := sql_update ?Q ?f (grants ?d1)\<rparr>"
  obtain mc where mc: "d' = d2\<lparr>monthly_counts := mc\<rparr>"
    using eq increment_Inr[of "month now" "gr_action g" d2 d']
    by (auto simp: count_grant_def d2_def split: if_splits)
  have wf2: "wf_store d2"
    unfolding d2_def
    by (intro update_grants_wf update_shares_wf wf) (simp_all add: grant_identity_def)
  have share: "share_by_id d2 i =
      map_option (\<lambda>s. if ?S s then sh_download_count_update Suc s else s) (share_by_id d i)" for i
    unfolding share_by_id_def d2_def by (simp add: sql_first_update)
  have pend: "pending_grants d2 i + (if i = gr_share_id g then 1 else 0) = pending_grants d i" for i
    unfolding pending_grants_def d2_def
    using count_pending[OF wf_storeD(2)[OF wf] g, of ?Q ?f i] by simp
  have "ledger_steps L (download_ledger d i) (download_ledger d2 i)" for L i
  proof (cases "i = gr_share_id g")
    case True
    have "i \<in> share_refs d" using True g(1) wf_storeD(9)[OF wf] by blast
    then obtain s where s: "share_by_id d i = Some s" "sh_id s = i"
      using share_by_id_member[OF wf] by (auto simp: share_refs_def)
    moreover have "pending_grants d2 i = pending_grants d i - 1" "0 < pending_grants d i"
      using True pend[of i] by simp_all
    ultimately show ?thesis
      using True ledger_settle_one[of "pending_grants d i" L "sh_download_count s"]
      by (simp add: download_ledger_def share)
  next
    case False
    then have "share_by_id d2 i = share_by_id d i"
      using share_by_id_Some[of d i] by (cases "share_by_id d i") (auto simp: share)
    then show ?thesis using False pend[of i] by (simp add: download_ledger_def)
  qed
  moreover have "download_limit d2 i = download_limit d i" for i
    by (cases "share_by_id d i") (simp_all add: download_limit_def share)
  moreover have "transfer_frame d d2"
    by (simp add: transfer_frame_def sql_update_def d2_def)
  ultimately have "refines_ledger d d2" using wf2 by (simp add: refines_ledger_def)
  then show ?thesis unfolding mc refines_frame_update .
qed

lemma lease_and_grant_Some:
  "lease_and_grant tok d = Some (l, g) \<Longrightarrow>
     l \<in> set (leases d) \<and> ls_token_hash l = tok \<and> g \<in> set (grants d) \<and> gr_id g = ls_grant_id l"
  by (auto simp: lease_and_grant_def split: option.splits dest!: sql_first_Some)

lemma delete_lease_refines: "wf_store d \<Longrightarrow> refines_ledger d (delete_lease tok d)"
  unfolding delete_lease_def by (rule delete_leases_refines)

lemma commit_audited_refines:
  assumes "refines_ledger d d1" "wf_store d" "commit_audited now ctx evs out d d1 = (r, d')"
  shows "refines_ledger d d'"
  using assms(3)
proof (cases rule: commit_audited_cases)
  case failed
  then show ?thesis using assms(2) refines_refl by simp
next
  case (committed new)
  then show ?thesis using refines_audit[OF assms(1)] wf_storeD(8)[OF refines_wf[OF assms(1)]] by simp
qed

lemma extend_grant_refines:
  "wf_store d \<Longrightarrow> refines_ledger d (d\<lparr>grants := sql_update Q (gr_expires_at_update (\<lambda>_. e)) (grants d)\<rparr>)"
  by (rule refines_release)
    (auto simp: pending_grants_def sql_count_update_same update_grants_wf grant_identity_def)

lemma insert_lease_refines:
  "wf_store d \<Longrightarrow> insert_lease l d = Inr d' \<Longrightarrow> ls_grant_id l \<in> gr_id ` set (grants d) \<Longrightarrow>
     refines_ledger d d'"
  by (rule refines_release) (auto simp: insert_lease_Inr pending_grants_def intro: insert_lease_wf)

lemma insert_grant_refines:
  assumes wf: "wf_store d" and ins: "insert_grant g d = Inr d'" and fresh: "\<not> gr_counted g"
    and s: "share_by_id d (gr_share_id g) = Some s"
    and room: "fits (sh_max_downloads s) (Suc (sh_download_count s + pending_grants d (gr_share_id g)))"
  shows "refines_ledger d d'"
proof -
  have d': "d' = d\<lparr>grants := grants d @ [g]\<rparr>"
    and new: "\<forall>x\<in>set (grants d). gr_id x \<noteq> gr_id g \<and> grant_identity x \<noteq> grant_identity g"
    using ins by (auto simp: insert_grant_def sql_exists_iff split: if_splits)
  have "gr_share_id g \<in> share_refs d" using share_by_id_Some[OF s] unfolding share_refs_def by force
  then have "wf_store d'"
    using wf grant_table.insert_fresh[of "grants d" g] grant_identity_index.insert_fresh[of "grants d" g] new
    unfolding d' by (auto simp: wf_store_def share_refs_def)
  moreover have "ledger_steps (download_limit d i) (download_ledger d i) (download_ledger d' i)" for i
    using room s fresh
    by (auto simp: download_limit_def download_ledger_def share_by_id_def d' pending_grants_def
        intro!: ledger_reserve)
  ultimately show ?thesis
    by (simp add: refines_ledger_def transfer_frame_def download_limit_def share_by_id_def d')
qed

lemma access_existing:
  assumes "transfer_access_state th session i unlock resource action now d = ExistingGrant gid counted"
  shows "\<exists>g\<in>set (grants d). gr_id g = gid \<and> gr_counted g = counted \<and> gr_share_id g = i
    \<and> gr_session_token_hash g = session \<and> gr_resource_key g = resource \<and> gr_action g = action"
  using assms
  by (auto simp: transfer_access_state_def split: option.splits if_splits dest!: sql_first_Some)

lemma access_available:
  assumes "wf_store d"
    and "transfer_access_state th session i unlock resource action now d = transfer_access_state.Available"
  shows "\<exists>s. share_by_id d i = Some s
    \<and> fits (sh_max_downloads s) (Suc (sh_download_count s + pending_live_grants d i now))"
proof -
  from assms(2) obtain s where s: "s \<in> set (shares d)" "sh_id s = i"
    "fits (sh_max_downloads s) (Suc (sh_download_count s + pending_live_grants d i now))"
    by (auto simp: transfer_access_state_def fits_def split: option.splits if_splits
        dest!: sql_first_Some)
  then show ?thesis using share_by_id_member[OF assms(1)] by blast
qed

theorem begin_refines:
  assumes wf: "wf_store d"
    and eq: "begin_authorized_transfer_lease th st lt i unlock resource action now d = (r, d')"
  shows "refines_ledger d d'"
proof -
  let ?d1 = "cleanup_transfer_state now d"
  have clean: "refines_ledger d ?d1" by (rule cleanup_refines[OF wf])
  note wf1 = refines_wf[OF clean]
  note unfold = begin_authorized_transfer_lease_def Let_def
  show ?thesis
  proof (cases "transfer_access_state th (th st) i unlock resource action now ?d1")
    case Unauthorized
    then show ?thesis using eq refines_refl[OF wf] by (simp add: unfold)
  next
    case Available
    obtain s where s: "share_by_id ?d1 i = Some s"
      "fits (sh_max_downloads s) (Suc (sh_download_count s + pending_grants ?d1 i))"
      using access_available[OF wf1 Available] cleanup_pending_live[OF wf] by auto
    let ?gid = "next_rowid (map gr_id (grants ?d1))"
    let ?g = "new_grant ?gid (th st) i resource action now"
    show ?thesis
    proof (cases "insert_grant ?g ?d1")
      case (Inl e)
      then show ?thesis using eq Available refines_refl[OF wf] by (simp add: unfold)
    next
      case (Inr d2)
      have ins: "refines_ledger ?d1 d2"
        by (rule insert_grant_refines[OF wf1 Inr]) (use s in \<open>simp_all add: new_grant_def\<close>)
      have "?gid \<in> gr_id ` set (grants d2)"
        using Inr by (auto simp: insert_grant_def new_grant_def split: if_splits)
      then have "refines_ledger d2 d3" if "insert_lease (new_lease (th lt) ?gid now) d2 = Inr d3" for d3
        using insert_lease_refines[OF refines_wf[OF ins] that] by (simp add: new_lease_def)
      then show ?thesis
        using eq Available Inr refines_refl[OF wf] refines_trans[OF clean] refines_trans[OF ins]
        by (auto simp: unfold split: sum.splits)
    qed
  next
    case (ExistingGrant gid counted)
    define d2 where "d2 = (if counted then ?d1 else ?d1\<lparr>grants := sql_update (\<lambda>g. gr_id g = gid)
        (gr_expires_at_update (\<lambda>_. transfer_expiry now)) (grants ?d1)\<rparr>)"
    have ext: "refines_ledger ?d1 d2"
      using extend_grant_refines[OF wf1] refines_refl[OF wf1] by (simp add: d2_def)
    have "gr_id ` set (grants d2) = gr_id ` set (grants ?d1)"
      by (simp add: d2_def image_update_key)
    then have "gid \<in> gr_id ` set (grants d2)" using access_existing[OF ExistingGrant] by auto
    then have "refines_ledger d2 d3" if "insert_lease (new_lease (th lt) gid now) d2 = Inr d3" for d3
      using insert_lease_refines[OF refines_wf[OF ext] that] by (simp add: new_lease_def)
    then show ?thesis
      using eq ExistingGrant refines_refl[OF wf] refines_trans[OF clean] refines_trans[OF ext]
      by (auto simp: unfold d2_def[symmetric] split: sum.splits)
  next
    case LimitReached
    then show ?thesis using eq clean by (simp add: unfold)
  next
    case ShareUnavailable
    then show ?thesis using eq clean by (simp add: unfold)
  qed
qed

text \<open>Counting a grant, dropping its lease and writing the audit event, as completion and
  the lifetime cap both do.\<close>

lemma count_and_audit_refines:
  assumes "wf_store d" "refines_ledger d d1" "g \<in> set (grants d1)" "\<not> gr_counted g"
    and "count_grant month now g d1 = Inr d2"
    and "\<And>x. wf_store x \<Longrightarrow> refines_ledger x (k x)"
    and "(case required_audit of None \<Rightarrow> (Inr out, k (delete_lease tok d2))
        | Some ctx \<Rightarrow> (case evs of Inl e \<Rightarrow> (Inl e, d)
            | Inr es \<Rightarrow> commit_audited now ctx es out d (k (delete_lease tok d2)))) = (r, d')"
  shows "refines_ledger d d'"
proof -
  have "refines_ledger d d2"
    using refines_trans[OF assms(2) count_grant_refines[OF refines_wf[OF assms(2)] assms(3-5)]] .
  then have "refines_ledger d (k (delete_lease tok d2))"
    using delete_lease_refines assms(6) refines_trans refines_wf by metis
  then show ?thesis
    using assms(1,7) refines_refl commit_audited_refines[OF _ assms(1)]
    by (auto split: option.splits sum.splits)
qed

theorem complete_refines:
  assumes wf: "wf_store d" and eq: "complete_transfer_lease th month lt ra now d = (r, d')"
  shows "refines_ledger d d'"
proof -
  let ?d1 = "cleanup_transfer_state now d"
  have clean: "refines_ledger d ?d1" by (rule cleanup_refines[OF wf])
  note unfold = complete_transfer_lease_def Let_def
  show ?thesis
  proof (cases "lease_and_grant (th lt) ?d1")
    case None
    then show ?thesis using eq clean by (simp add: unfold)
  next
    case (Some p)
    then obtain l g where lg: "lease_and_grant (th lt) ?d1 = Some (l, g)" by (cases p) auto
    note in_d1 = lease_and_grant_Some[OF lg]
    consider "\<not> (now < ls_expires_at l \<and> now < gr_expires_at g)"
      | "now < ls_expires_at l \<and> now < gr_expires_at g" "gr_counted g"
      | "now < ls_expires_at l \<and> now < gr_expires_at g" "\<not> gr_counted g" by blast
    then show ?thesis
    proof cases
      case 1
      then show ?thesis using eq clean lg by (simp add: unfold)
    next
      case 2
      then show ?thesis
        using eq lg refines_trans[OF clean delete_lease_refines[OF refines_wf[OF clean]]]
        by (auto simp: unfold)
    next
      case 3
      show ?thesis
      proof (cases "count_grant month now g ?d1")
        case (Inl e)
        then show ?thesis using eq lg 3 refines_refl[OF wf] by (simp add: unfold)
      next
        case (Inr d2)
        show ?thesis
          by (rule count_and_audit_refines[OF wf clean _ 3(2) Inr,
                where k = "\<lambda>x. x" and tok = "th lt" and required_audit = ra and out = Counted])
            (use eq lg 3 Inr in_d1 refines_refl in \<open>simp_all add: unfold\<close>)
      qed
    qed
  qed
qed

theorem cancel_refines:
  assumes wf: "wf_store d" and eq: "cancel_transfer_lease th lt now d = (r, d')"
  shows "refines_ledger d d'"
proof -
  let ?d1 = "cleanup_transfer_state now d"
  have clean: "refines_ledger d ?d1" by (rule cleanup_refines[OF wf])
  have del: "refines_ledger d (delete_lease (th lt) ?d1)"
    by (rule refines_trans[OF clean delete_lease_refines[OF refines_wf[OF clean]]])
  show ?thesis
    using eq clean del refines_trans[OF del delete_grants_refines[OF refines_wf[OF del]]]
    by (auto simp: cancel_transfer_lease_def Let_def split: option.splits if_splits)
qed

theorem heartbeat_refines:
  assumes wf: "wf_store d" and eq: "heartbeat_transfer_lease th month lt ra now d = (r, d')"
  shows "refines_ledger d d'"
proof -
  define d1 where "d1 = cleanup_transfer_state_before_heartbeat now (th lt) d"
  have clean: "refines_ledger d d1"
    unfolding d1_def by (rule heartbeat_cleanup_refines[OF wf])
  have full: "refines_ledger d (cleanup_transfer_state now d1)"
    by (rule refines_trans[OF clean cleanup_refines[OF refines_wf[OF clean]]])
  note unfold = heartbeat_transfer_lease_def Let_def d1_def[symmetric]
  show ?thesis
  proof (cases "lease_and_grant (th lt) d1")
    case None
    then show ?thesis using eq full by (simp add: unfold)
  next
    case (Some p)
    then obtain l g where lg: "lease_and_grant (th lt) d1 = Some (l, g)" by (cases p) auto
    note in_d1 = lease_and_grant_Some[OF lg]
    let ?abs = "ls_created_at l + seconds TRANSFER_LEASE_MAX_LIFETIME_SECONDS"
    consider (capped) "?abs \<le> now" | (dead) "now < ?abs" "ls_expires_at l \<le> now"
      | (alive) "now < ?abs" "now < ls_expires_at l" by linarith
    then show ?thesis
    proof cases
      case capped
      have del: "refines_ledger d (cleanup_transfer_state now (delete_lease (th lt) d1))"
        using clean delete_lease_refines cleanup_refines refines_trans refines_wf by metis
      show ?thesis
      proof (cases "gr_counted g")
        case True
        then show ?thesis using eq lg capped del by (simp add: unfold)
      next
        case False
        show ?thesis
        proof (cases "count_grant month now g d1")
          case (Inl e)
          then show ?thesis using eq lg capped False refines_refl[OF wf] by (simp add: unfold)
        next
          case (Inr d2)
          show ?thesis
            by (rule count_and_audit_refines[OF wf clean _ False Inr,
                  where k = "cleanup_transfer_state now" and tok = "th lt" and required_audit = ra
                    and out = CappedAndCounted])
              (use eq lg capped False Inr in_d1 cleanup_refines in \<open>simp_all add: unfold\<close>)
        qed
      qed
    next
      case dead
      then show ?thesis using eq lg full by (simp add: unfold)
    next
      case alive
      define d2 where "d2 = d1\<lparr>leases := sql_update (\<lambda>l. ls_token_hash l = th lt)
          (\<lambda>l. l\<lparr>ls_heartbeat_at := now, ls_expires_at := min (transfer_expiry now) ?abs\<rparr>)
          (leases d1)\<rparr>"
      have "refines_ledger d1 d2"
        unfolding d2_def
        by (rule refines_release)
          (simp_all add: update_leases_wf[OF refines_wf[OF clean]] pending_grants_def)
      then have two: "refines_ledger d d2" by (rule refines_trans[OF clean])
      then show ?thesis
        using eq lg alive refines_refl[OF wf]
          refines_trans[OF two extend_grant_refines[OF refines_wf[OF two]]]
        by (auto simp: unfold d2_def[symmetric] split: if_splits option.splits)
    qed
  qed
qed

section \<open>Transfers as a transition system\<close>

inductive transfer_step :: "(rstr \<Rightarrow> rstr) \<Rightarrow> (instant \<Rightarrow> rstr) \<Rightarrow> db \<Rightarrow> db \<Rightarrow> bool" for th month where
  begin_lease: "begin_authorized_transfer_lease th st lt i unlock resource action now d = (r, d')
    \<Longrightarrow> transfer_step th month d d'"
| complete_lease: "complete_transfer_lease th month lt ra now d = (r, d') \<Longrightarrow> transfer_step th month d d'"
| cancel_lease: "cancel_transfer_lease th lt now d = (r, d') \<Longrightarrow> transfer_step th month d d'"
| heartbeat_lease: "heartbeat_transfer_lease th month lt ra now d = (r, d') \<Longrightarrow> transfer_step th month d d'"

inductive_cases transfer_stepE: "transfer_step th month d d'"

lemma transfer_step_refines_ledger_lemma:
  "wf_store d \<Longrightarrow> transfer_step th month d d' \<Longrightarrow> refines_ledger d d'"
  by (erule transfer_stepE)
    (auto intro: begin_refines complete_refines cancel_refines heartbeat_refines)

interpretation downloads: ledger_client wf_store "transfer_step th month"
    "\<lambda>d. fst (download_ledger d i)" "\<lambda>d. snd (download_ledger d i)" "\<lambda>d. download_limit d i"
  for th month i
proof
  fix d d' assume step: "wf_store d" "transfer_step th month d d'"
  show "wf_store d'" by (rule refines_wf[OF transfer_step_refines_ledger_lemma[OF step]])
  show "download_limit d' i = download_limit d i \<and>
      ledger_steps (download_limit d i) (fst (download_ledger d i), snd (download_ledger d i))
        (fst (download_ledger d' i), snd (download_ledger d' i))
      \<or> fits (download_limit d' i) (fst (download_ledger d' i) + snd (download_ledger d' i))"
    using transfer_step_refines_ledger_lemma[OF step] by (simp add: refines_ledger_def)
qed

section \<open>What a live lease guarantees\<close>

lemma cleanup_keeps:
  assumes wf: "wf_store d" and l: "l \<in> set (leases d)" "now < ls_expires_at l"
    and g: "g \<in> set (grants d)" "gr_id g = ls_grant_id l" "now < gr_expires_at g"
  shows "l \<in> set (leases (cleanup_transfer_state now d))"
    and "g \<in> set (grants (cleanup_transfer_state now d))"
proof -
  let ?d1 = "d\<lparr>leases := sql_delete (\<lambda>l. ls_expires_at l \<le> now) (leases d)\<rparr>"
  let ?d2 = "delete_grants (\<lambda>g. gr_expires_at g \<le> now) ?d1"
  let ?P = "\<lambda>g. \<not> gr_counted g \<and> \<not> live_lease (leases ?d2) now (gr_id g)"
  have uniq: "h = g" if "h \<in> set (grants d)" "gr_id h = ls_grant_id l" for h
    using that g(1,2) grant_table.unique[OF wf_storeD(2)[OF wf]] by metis
  have l2: "l \<in> set (leases ?d2)"
    unfolding delete_grants_leases using l uniq g(3) by fastforce
  then have "live_lease (leases ?d2) now (gr_id g)"
    using l(2) g(2) by (auto simp: live_lease_def sql_exists_iff)
  then have "\<not> ?P g" by simp
  then show "g \<in> set (grants (cleanup_transfer_state now d))"
    using g by (simp add: cleanup_transfer_state_def Let_def)
  have "l \<in> set (leases (delete_grants ?P ?d2))"
    unfolding delete_grants_leases[of ?P] using l2 uniq \<open>\<not> ?P g\<close> by fastforce
  then show "l \<in> set (leases (cleanup_transfer_state now d))"
    by (simp add: cleanup_transfer_state_def Let_def)
qed

lemma lease_and_grant_member:
  assumes "wf_store d" "l \<in> set (leases d)" "g \<in> set (grants d)" "gr_id g = ls_grant_id l"
  shows "lease_and_grant (ls_token_hash l) d = Some (l, g)"
proof -
  have "sql_first (\<lambda>x. ls_token_hash x = ls_token_hash l) (leases d) = Some l"
    by (rule lease_table.lookup_member) (use assms wf_storeD(4) in auto)
  moreover have "sql_first (\<lambda>x. gr_id x = ls_grant_id l) (grants d) = Some g"
    by (rule grant_table.lookup_member) (use assms wf_storeD(2) in auto)
  ultimately show ?thesis by (simp add: lease_and_grant_def)
qed

definition counted_action :: "rstr \<Rightarrow> bool" where
  "counted_action a \<longleftrightarrow> a \<in> set [lit ''download'', lit ''zip_download'', lit ''preview'']"

lemma count_grant_total:
  assumes "wf_store d" "g \<in> set (grants d)" "\<not> gr_counted g"
    and "valid_utc_month (month now)"
  shows "\<exists>d'. count_grant month now g d = Inr d'"
proof -
  obtain s where s: "s \<in> set (shares d)" "sh_id s = gr_share_id g"
    using assms(2) wf_storeD(9)[OF assms(1)] by (auto simp: share_refs_def)
  have "sql_count (\<lambda>x. sh_id x = gr_share_id g) (shares d) = 1"
    using share_table.count_one[OF wf_storeD(1)[OF assms(1)] s(1), of "\<lambda>_. True"] s(2) by simp
  moreover have "sql_count (\<lambda>x. gr_id x = gr_id g \<and> \<not> gr_counted x) (grants d) = 1"
    using grant_table.count_one[OF wf_storeD(2)[OF assms(1)] assms(2), of "\<lambda>x. \<not> gr_counted x"]
      assms(3) by simp
  ultimately show ?thesis
    using assms(4) by (auto simp: count_grant_def increment_transfer_monthly_count_def)
qed

lemma complete_live_lease:
  assumes wf: "wf_store d" and l: "l \<in> set (leases d)" "ls_token_hash l = th lt" "now < ls_expires_at l"
    and g: "g \<in> set (grants d)" "gr_id g = ls_grant_id l" "now < gr_expires_at g"
    and m: "valid_utc_month (month now)"
  shows "fst (complete_transfer_lease th month lt None now d)
           = Inr (if gr_counted g then lease_complete_outcome.AlreadyCounted else Counted)"
proof -
  let ?d1 = "cleanup_transfer_state now d"
  note wf1 = refines_wf[OF cleanup_refines[OF wf, of now]]
  note kept = cleanup_keeps[OF wf l(1,3) g]
  have lg: "lease_and_grant (th lt) ?d1 = Some (l, g)"
    using lease_and_grant_member[OF wf1 kept g(2)] l(2) by simp
  show ?thesis
  proof (cases "gr_counted g")
    case True
    then show ?thesis using lg l(3) g(3) by (simp add: complete_transfer_lease_def Let_def)
  next
    case False
    obtain d2 where "count_grant month now g ?d1 = Inr d2"
      using count_grant_total[of ?d1 g month now] wf1 kept(2) False m by blast
    then show ?thesis using lg l(3) g(3) False by (simp add: complete_transfer_lease_def Let_def)
  qed
qed

lemma begin_new_lease:
  assumes wf: "wf_store d"
    and eq: "begin_authorized_transfer_lease th st lt i unlock resource action now d
               = (Inr lease_begin_outcome.NewLease, d')"
  shows "\<exists>l\<in>set (leases d'). \<exists>g\<in>set (grants d'). ls_token_hash l = th lt
    \<and> ls_expires_at l = transfer_expiry now \<and> gr_id g = ls_grant_id l \<and> \<not> gr_counted g
    \<and> gr_expires_at g = transfer_expiry now \<and> gr_share_id g = i \<and> gr_action g = action"
proof -
  let ?d1 = "cleanup_transfer_state now d"
  show ?thesis
  proof (cases "transfer_access_state th (th st) i unlock resource action now ?d1")
    case (ExistingGrant gid counted)
    then have counted: "\<not> counted"
      using eq by (auto simp: begin_authorized_transfer_lease_def Let_def split: sum.splits if_splits)
    then obtain g where g: "g \<in> set (grants ?d1)" "gr_id g = gid" "\<not> gr_counted g"
      "gr_share_id g = i" "gr_action g = action"
      using access_existing[OF ExistingGrant] by auto
    have "d' = ?d1\<lparr>grants := sql_update (\<lambda>g. gr_id g = gid)
        (gr_expires_at_update (\<lambda>_. transfer_expiry now)) (grants ?d1),
        leases := leases ?d1 @ [new_lease (th lt) gid now]\<rparr>"
      using eq ExistingGrant counted
      by (auto simp: begin_authorized_transfer_lease_def Let_def insert_lease_def split: sum.splits if_splits)
    moreover have "g\<lparr>gr_expires_at := transfer_expiry now\<rparr> \<in> set (sql_update (\<lambda>g. gr_id g = gid)
        (gr_expires_at_update (\<lambda>_. transfer_expiry now)) (grants ?d1))"
      using g(1,2) by (auto simp: set_sql_update intro!: image_eqI[of _ _ g])
    ultimately show ?thesis using g
      by (intro bexI[of _ "new_lease (th lt) gid now"] bexI[of _ "g\<lparr>gr_expires_at := transfer_expiry now\<rparr>"])
        (simp_all add: new_lease_def)
  next
    case Available
    then show ?thesis
      using eq
      by (auto simp: begin_authorized_transfer_lease_def Let_def insert_lease_def insert_grant_def
          new_lease_def new_grant_def split: sum.splits if_splits)
  qed (use eq in \<open>auto simp: begin_authorized_transfer_lease_def Let_def\<close>)
qed

section \<open>Properties\<close>

lemma example_db_wf: "wf_store example_db"
  by (simp add: wf_store_def example_db_def empty_db_def wf_shares_def wf_grants_def
      wf_grant_identities_def wf_leases_def wf_usage_def wf_reservations_def wf_operations_def
      wf_audit_def share_refs_def)

text \<open>C14: every transfer transaction (begin, complete, cancel, heartbeat, at any clock
  reading) keeps the store consistent and acts on each share's download quota only through
  the abstract ledger: it releases reservations, reserves a slot that fits under
  \<open>max_downloads\<close>, or turns exactly one reservation into one counted download.\<close>

theorem transfer_step_refines_ledger:
  assumes "wf_store d" "transfer_step th month d d'"
  shows "wf_store d' \<and> download_limit d' i = download_limit d i
    \<and> ledger_steps (download_limit d i) (download_ledger d i) (download_ledger d' i)"
  using transfer_step_refines_ledger_lemma[OF assms] by (simp add: refines_ledger_def)

theorem transfer_step_refines_ledger_witness:
  "ledger_steps (Some 1) (0, 0)
     (download_ledger (snd (begin_authorized_transfer_lease (\<lambda>x. x) [1] [2] 1 None [3] [4] 10 example_db)) 1)
   \<and> download_ledger (snd (begin_authorized_transfer_lease (\<lambda>x. x) [1] [2] 1 None [3] [4] 10 example_db)) 1
       = (0, 1)"
proof -
  let ?r = "begin_authorized_transfer_lease (\<lambda>x. x) [1] [2] 1 None [3] [4] 10 example_db"
  have "transfer_step (\<lambda>x. x) (\<lambda>_. []) example_db (snd ?r)"
    by (rule transfer_step.begin_lease[of _ "[1]" "[2]" 1 None "[3]" "[4]" 10 _ "fst ?r"]) simp
  then have "ledger_steps (download_limit example_db 1) (download_ledger example_db 1) (download_ledger (snd ?r) 1)"
    using transfer_step_refines_ledger[OF example_db_wf, of _ _ "snd ?r" 1] by blast
  moreover have "download_limit example_db 1 = Some 1" "download_ledger example_db 1 = (0, 0)"
    "download_ledger (snd ?r) 1 = (0, 1)"
    by code_simp+
  ultimately show ?thesis by simp
qed

text \<open>A request that was granted a new lease and completes before the lease expires is
  counted: the reservation it holds cannot be lost to cleanup.\<close>

theorem begin_then_complete_counts:
  assumes "wf_store d"
    and "begin_authorized_transfer_lease th st lt i unlock resource action t d
           = (Inr lease_begin_outcome.NewLease, d1)"
    and "t \<le> t'" "t' < transfer_expiry t" "valid_utc_month (month t')"
  shows "fst (complete_transfer_lease th month lt None t' d1) = Inr Counted"
proof -
  obtain l g where lg: "l \<in> set (leases d1)" "g \<in> set (grants d1)" "ls_token_hash l = th lt"
    "ls_expires_at l = transfer_expiry t" "gr_id g = ls_grant_id l" "\<not> gr_counted g"
    "gr_expires_at g = transfer_expiry t"
    using begin_new_lease[OF assms(1,2)] by blast
  show ?thesis
    using complete_live_lease[of d1 l th lt t' g month] begin_refines[OF assms(1,2)] refines_wf lg assms(4,5)
    by auto
qed

theorem begin_then_complete_counts_witness:
  "fst (complete_transfer_lease (\<lambda>x. x) (\<lambda>_. lit ''2026-11'') [2] None 500
     (snd (begin_authorized_transfer_lease (\<lambda>x. x) [1] [2] 1 None [3] (lit ''download'') 10 example_db)))
   = Inr Counted"
proof -
  let ?r = "begin_authorized_transfer_lease (\<lambda>x. x) [1] [2] 1 None [3] (lit ''download'') 10 example_db"
  have "fst ?r = Inr lease_begin_outcome.NewLease" by code_simp
  then have "?r = (Inr lease_begin_outcome.NewLease, snd ?r)" by (metis prod.collapse)
  moreover have "500 < transfer_expiry 10" "valid_utc_month (lit ''2026-11'')" by code_simp+
  ultimately show ?thesis
    using begin_then_complete_counts[OF example_db_wf, where t = 10 and t' = 500 and lt = "[2]"
        and month = "\<lambda>_. lit ''2026-11''"] by simp
qed

text \<open>Beginning a request fails only when its lease token is already in use: in
  particular the UNIQUE constraint on a grant's identity is never hit, because after
  cleanup a grant with that identity is live and is reused.\<close>

theorem begin_total:
  assumes wf: "wf_store d" and "resource \<noteq> []" "action \<noteq> []"
    and fresh: "\<forall>l\<in>set (leases d). ls_token_hash l \<noteq> th lt"
  shows "\<exists>out d'. begin_authorized_transfer_lease th st lt i unlock resource action now d = (Inr out, d')"
proof -
  let ?d1 = "cleanup_transfer_state now d"
  have lease: "\<exists>d3. insert_lease (new_lease (th lt) gid now) d2 = Inr d3"
    if "set (leases d2) \<subseteq> set (leases d)" for gid d2
    using that fresh by (auto simp: insert_lease_def sql_exists_iff new_lease_def)
  have sub: "set (leases ?d1) \<subseteq> set (leases d)" using cleanup_leases_live by blast
  show ?thesis
  proof (cases "transfer_access_state th (th st) i unlock resource action now ?d1")
    case Available
    let ?gid = "next_rowid (map gr_id (grants ?d1))"
    let ?g = "new_grant ?gid (th st) i resource action now"
    have "grant_identity g \<noteq> grant_identity ?g" if "g \<in> set (grants ?d1)" for g
    proof
      assume "grant_identity g = grant_identity ?g"
      then have "gr_session_token_hash g = th st \<and> gr_share_id g = i \<and> gr_resource_key g = resource
          \<and> gr_action g = action \<and> now < gr_expires_at g
          \<and> (gr_counted g \<or> live_lease (leases ?d1) now (gr_id g))"
        using cleanup_grant_live[OF wf that] by (simp add: grant_identity_def new_grant_def)
      then show False
        using Available that
        by (auto simp: transfer_access_state_def sql_first_None split: option.splits if_splits)
    qed
    moreover have "gr_id g \<noteq> ?gid" if "g \<in> set (grants ?d1)" for g
      using that next_rowid_fresh[of "gr_id g" "map gr_id (grants ?d1)"] by auto
    ultimately have "insert_grant ?g ?d1 = Inr (?d1\<lparr>grants := grants ?d1 @ [?g]\<rparr>)"
      using assms(2,3) by (auto simp: insert_grant_def sql_exists_iff new_grant_def)
    then show ?thesis
      using Available lease[of "?d1\<lparr>grants := grants ?d1 @ [?g]\<rparr>" ?gid] sub
      by (auto simp: begin_authorized_transfer_lease_def Let_def split: sum.splits)
  next
    case (ExistingGrant gid counted)
    then show ?thesis
      using lease[of ?d1 gid] lease[of "?d1\<lparr>grants := sql_update (\<lambda>g. gr_id g = gid)
          (gr_expires_at_update (\<lambda>_. transfer_expiry now)) (grants ?d1)\<rparr>" gid] sub
      by (cases counted) (auto simp: begin_authorized_transfer_lease_def Let_def)
  qed (auto simp: begin_authorized_transfer_lease_def Let_def)
qed

theorem begin_total_witness:
  "\<exists>out d'. begin_authorized_transfer_lease (\<lambda>x. x) [1] [2] 1 None [3] [4] 10 example_db = (Inr out, d')"
  by (rule begin_total[OF example_db_wf]) (simp_all add: example_db_def empty_db_def)


lemma count_grant_effect:
  assumes wf: "wf_store d" and g: "g \<in> set (grants d)" "\<not> gr_counted g"
    and eq: "count_grant month now g d = Inr d'"
  shows "fst (download_ledger d' i) = fst (download_ledger d i) + (if i = gr_share_id g then 1 else 0)"
    and "g\<lparr>gr_counted := True, gr_expires_at := transfer_expiry now\<rparr> \<in> set (grants d')"
proof -
  let ?S = "\<lambda>s. sh_id s = gr_share_id g"
  define d2 where "d2 = d\<lparr>shares := sql_update ?S (sh_download_count_update Suc) (shares d),
      grants := sql_update (\<lambda>x. gr_id x = gr_id g \<and> \<not> gr_counted x)
        (\<lambda>x. x\<lparr>gr_counted := True, gr_expires_at := transfer_expiry now\<rparr>) (grants d)\<rparr>"
  have "increment_transfer_monthly_count (month now) (gr_action g) d2 = Inr d'"
    using eq by (simp add: count_grant_def d2_def split: if_splits)
  then obtain mc where "d' = d2\<lparr>monthly_counts := mc\<rparr>" using increment_Inr by blast
  note d' = this[unfolded d2_def]
  show "g\<lparr>gr_counted := True, gr_expires_at := transfer_expiry now\<rparr> \<in> set (grants d')"
    unfolding d' using g by (auto simp: set_sql_update intro!: image_eqI[of _ _ g])
  have share: "share_by_id d' i =
      map_option (\<lambda>s. if ?S s then sh_download_count_update Suc s else s) (share_by_id d i)"
    unfolding share_by_id_def d' by (simp add: sql_first_update)
  have "\<exists>s. share_by_id d (gr_share_id g) = Some s"
    using wf_storeD(9)[OF wf] g(1) share_by_id_member[OF wf] by (fastforce simp: share_refs_def)
  then show "fst (download_ledger d' i) = fst (download_ledger d i) + (if i = gr_share_id g then 1 else 0)"
    using share_by_id_Some[of d i]
    by (cases "share_by_id d i") (auto simp: download_ledger_def share)
qed

lemma download_ledger_fst_frame:
  "shares d' = shares d \<Longrightarrow> fst (download_ledger d' i) = fst (download_ledger d i)"
  by (simp add: download_ledger_def share_by_id_def)

text \<open>A completion counts one download of the lease's share exactly when it reports
  \<open>Counted\<close>, and then leaves the grant counted, so every later completion of a request of
  the same session for the same resource reports \<open>AlreadyCounted\<close> and counts nothing.\<close>

theorem complete_counts_once:
  assumes wf: "wf_store d"
    and eq: "complete_transfer_lease th month lt ra now d = (Inr out, d')"
  shows "if out = Counted
    then \<exists>g\<in>set (grants d). \<not> gr_counted g
       \<and> g\<lparr>gr_counted := True, gr_expires_at := transfer_expiry now\<rparr> \<in> set (grants d')
       \<and> (\<forall>i. fst (download_ledger d' i) =
              fst (download_ledger d i) + (if i = gr_share_id g then 1 else 0))
    else \<forall>i. fst (download_ledger d' i) = fst (download_ledger d i)"
proof -
  let ?d1 = "cleanup_transfer_state now d"
  note wf1 = refines_wf[OF cleanup_refines[OF wf, of now]]
  note unfold = complete_transfer_lease_def Let_def
  show ?thesis
  proof (cases "\<exists>l g. lease_and_grant (th lt) ?d1 = Some (l, g)
      \<and> now < ls_expires_at l \<and> now < gr_expires_at g \<and> \<not> gr_counted g")
    case False
    have "out \<noteq> Counted \<and> shares d' = shares d"
    proof (cases "lease_and_grant (th lt) ?d1")
      case None
      then show ?thesis using eq by (auto simp: unfold)
    next
      case (Some p)
      obtain l g where "p = (l, g)" by (cases p)
      then have lg: "lease_and_grant (th lt) ?d1 = Some (l, g)"
        "\<not> (now < ls_expires_at l \<and> now < gr_expires_at g) \<or> gr_counted g"
        using Some False by auto
      then show ?thesis
        using eq by (cases "now < ls_expires_at l \<and> now < gr_expires_at g")
          (auto simp: unfold delete_lease_def)
    qed
    then show ?thesis using download_ledger_fst_frame[of d' d] by simp
  next
    case True
    then obtain l g where lg: "lease_and_grant (th lt) ?d1 = Some (l, g)" "now < ls_expires_at l"
      "now < gr_expires_at g" "\<not> gr_counted g" by blast
    have g1: "g \<in> set (grants ?d1)" using lease_and_grant_Some[OF lg(1)] by simp
    then have g0: "g \<in> set (grants d)" by (simp add: cleanup_transfer_state_def Let_def)
    obtain d2 where d2: "count_grant month now g ?d1 = Inr d2"
      using eq lg by (cases "count_grant month now g ?d1") (auto simp: unfold)
    have fin: "out = Counted \<and> shares d' = shares d2 \<and> grants d' = grants d2"
    proof (cases ra)
      case None
      then show ?thesis using eq lg d2 by (auto simp: unfold delete_lease_def)
    next
      case (Some ctx)
      then obtain evs where "commit_audited now ctx evs Counted d (delete_lease (th lt) d2) = (Inr out, d')"
        using eq lg d2
        by (cases "transfer_audit_events g (lit ''completed transfer session'')") (auto simp: unfold simp del: lit_simps)
      then show ?thesis by (cases rule: commit_audited_cases) (auto simp: delete_lease_def)
    qed
    have "fst (download_ledger d' i) = fst (download_ledger d i) + (if i = gr_share_id g then 1 else 0)" for i
      using fin count_grant_effect(1)[OF wf1 g1 lg(4) d2, of i]
        download_ledger_fst_frame[of d' d2 i] download_ledger_fst_frame[of ?d1 d i] by simp
    moreover have "g\<lparr>gr_counted := True, gr_expires_at := transfer_expiry now\<rparr> \<in> set (grants d')"
      using fin count_grant_effect(2)[OF wf1 g1 lg(4) d2] by simp
    ultimately show ?thesis using fin g0 lg(4) by auto
  qed
qed

theorem complete_counts_once_witness:
  "\<exists>d'. complete_transfer_lease (\<lambda>x. x) (\<lambda>_. lit ''2026-11'') [2] None 500
     (snd (begin_authorized_transfer_lease (\<lambda>x. x) [1] [2] 1 None [3] (lit ''download'') 10 example_db))
     = (Inr Counted, d') \<and> fst (download_ledger d' 1) = 1"
proof -
  let ?d = "snd (begin_authorized_transfer_lease (\<lambda>x. x) [1] [2] 1 None [3] (lit ''download'') 10 example_db)"
  let ?r = "complete_transfer_lease (\<lambda>x. x) (\<lambda>_. lit ''2026-11'') [2] None 500 ?d"
  have wf: "wf_store ?d" using begin_refines[OF example_db_wf] refines_wf by (metis prod.collapse)
  have "fst ?r = Inr Counted" by code_simp
  then have r: "?r = (Inr Counted, snd ?r)" by (metis prod.collapse)
  obtain g where "g \<in> set (grants ?d)"
    "\<forall>i. fst (download_ledger (snd ?r) i) = fst (download_ledger ?d i) + (if i = gr_share_id g then 1 else 0)"
    using complete_counts_once[OF wf r] by auto
  moreover have "map gr_share_id (grants ?d) = [1]" "fst (download_ledger ?d 1) = 0" by code_simp+
  ultimately have "fst (download_ledger (snd ?r) 1) = 1" by auto
  then show ?thesis using r by blast
qed


end
