(* ===== verification/Upload_Operations.thy ===== *)
theory Upload_Operations
  imports Store
begin

text \<open>
  Resumable upload operations (\<open>src/src/db/upload_operations.rs\<close>). A client obtains an
  operation, claims it for one request, and the request moves it through the states of
  \<open>op_state\<close> to a final one. Tokens, clock readings and the set of operations that a live
  request of this process owns are arguments; JSON rendering and parsing of a result are
  the parameters \<open>to_json\<close> and \<open>from_json\<close>.
\<close>

section \<open>Constants and views\<close>

definition OPERATION_RETENTION_HOURS :: int where
  "OPERATION_RETENTION_HOURS = 24"

definition MAX_UNUSED_PER_SCOPE :: nat where
  "MAX_UNUSED_PER_SCOPE = 64"

definition MAX_UNUSED_GLOBAL :: nat where
  "MAX_UNUSED_GLOBAL = 4096"

definition MAX_ALL_PER_SCOPE :: nat where
  "MAX_ALL_PER_SCOPE = 4096"

definition MAX_ALL_GLOBAL :: nat where
  "MAX_ALL_GLOBAL = 65536"

definition operation_expiry :: "instant \<Rightarrow> instant" where
  "operation_expiry now = now + seconds (OPERATION_RETENTION_HOURS * 3600)"

fun scope_id :: "op_scope \<Rightarrow> int" where
  "scope_id (AdminScope i) = i"
| "scope_id (ShareScope i) = i"

record 'j upload_operation_view =
  view_state :: op_state
  view_expires_at :: instant
  view_result :: "'j option"
  view_fingerprint :: "rstr option"

datatype 'j upload_operation_claim = Started | Existing "'j upload_operation_view" | Unavailable

section \<open>Operations\<close>

definition unused_operation :: "operation_row \<Rightarrow> bool" where
  "unused_operation op \<longleftrightarrow> op_state op \<in> {Ready, Retryable}"

definition pending_operation :: "operation_row \<Rightarrow> bool" where
  "pending_operation op \<longleftrightarrow> op_state op \<in> {Processing, Committing}"

definition expire_operations :: "instant \<Rightarrow> operation_row list \<Rightarrow> operation_row list" where
  "expire_operations now = sql_delete (\<lambda>op. op_expires_at op \<le> now
     \<and> op_state op \<in> {Ready, Retryable, Completed, Rejected, OutcomeUnknown})"

definition create_upload_operation ::
  "(rstr \<Rightarrow> rstr) \<Rightarrow> rstr \<Rightarrow> op_scope \<Rightarrow> instant \<Rightarrow> db \<Rightarrow> (rstr \<times> instant) option outcome" where
  "create_upload_operation th id_token scope now d =
     (if scope_id scope \<le> 0 then (Inl InvalidQuery, d)
      else
        let ops = expire_operations now (upload_operations d) in
        if MAX_UNUSED_PER_SCOPE \<le> sql_count (\<lambda>op. op_scope op = scope \<and> unused_operation op) ops
           \<or> MAX_UNUSED_GLOBAL \<le> sql_count unused_operation ops
           \<or> MAX_ALL_PER_SCOPE \<le> sql_count (\<lambda>op. op_scope op = scope) ops
           \<or> MAX_ALL_GLOBAL \<le> sql_count (\<lambda>_. True) ops
        then (Inr None, d)
        else if sql_exists (\<lambda>op. op_id_hash op = th id_token) ops then (Inl ConstraintUnique, d)
        else (Inr (Some (id_token, operation_expiry now)),
          d\<lparr>upload_operations := ops @
            [\<lparr>op_id_hash = th id_token, op_scope = scope, op_state = Ready, op_created_at = now,
              op_expires_at = operation_expiry now, op_fingerprint = None, op_result_json = None,
              op_fragment_name = None, op_quota_charged = False\<rparr>]\<rparr>))"

definition upload_operation ::
  "(rstr \<Rightarrow> rstr) \<Rightarrow> (rstr \<Rightarrow> 'j option) \<Rightarrow> op_scope \<Rightarrow> rstr \<Rightarrow> instant \<Rightarrow> db
     \<Rightarrow> db_error + 'j upload_operation_view option" where
  "upload_operation th from_json scope id_token now d =
     (case sql_first (\<lambda>op. op_id_hash op = th id_token \<and> op_scope op = scope) (upload_operations d) of
        None \<Rightarrow> Inr None
      | Some op \<Rightarrow>
          if op_expires_at op \<le> now \<and> \<not> pending_operation op then Inr None
          else
            let view = (\<lambda>result. Inr (Some \<lparr>view_state =
                    (if op_state op = Committing then Processing else op_state op),
                  view_expires_at = op_expires_at op, view_result = result,
                  view_fingerprint = op_fingerprint op\<rparr>)) in
            case op_result_json op of
              None \<Rightarrow> view None
            | Some json \<Rightarrow> (case from_json json of None \<Rightarrow> Inl InvalidQuery | Some v \<Rightarrow> view (Some v)))"

definition claimable :: "rstr \<Rightarrow> op_scope \<Rightarrow> instant \<Rightarrow> operation_row \<Rightarrow> bool" where
  "claimable h scope now op \<longleftrightarrow> op_id_hash op = h \<and> op_scope op = scope \<and> unused_operation op
     \<and> now < op_expires_at op"

text \<open>The claim reads the clock twice: for the update and for the view of a row that it did
  not start.\<close>

definition claim_upload_operation ::
  "(rstr \<Rightarrow> rstr) \<Rightarrow> (rstr \<Rightarrow> 'j option) \<Rightarrow> op_scope \<Rightarrow> rstr \<Rightarrow> instant \<Rightarrow> instant \<Rightarrow> db
     \<Rightarrow> 'j upload_operation_claim outcome" where
  "claim_upload_operation th from_json scope id_token now later d =
     (let changed = sql_count (claimable (th id_token) scope now) (upload_operations d);
          d1 = d\<lparr>upload_operations := sql_update (claimable (th id_token) scope now)
                  (op_state_update (\<lambda>_. Processing)) (upload_operations d)\<rparr> in
      if changed = 1 then (Inr Started, d1)
      else (case upload_operation th from_json scope id_token later d1 of
              Inl e \<Rightarrow> (Inl e, d1)
            | Inr None \<Rightarrow> (Inr Unavailable, d1)
            | Inr (Some view) \<Rightarrow> (Inr (Existing view), d1)))"

text \<open>The operations below run one \<open>UPDATE\<close> each and report whether it changed one row.\<close>

definition update_operation ::
  "(operation_row \<Rightarrow> bool) \<Rightarrow> (operation_row \<Rightarrow> operation_row) \<Rightarrow> db \<Rightarrow> bool outcome" where
  "update_operation P f d =
     (Inr (sql_count P (upload_operations d) = 1),
      d\<lparr>upload_operations := sql_update P f (upload_operations d)\<rparr>)"

definition bind_upload_fingerprint :: "rstr \<Rightarrow> rstr \<Rightarrow> rstr \<Rightarrow> db \<Rightarrow> bool outcome" where
  "bind_upload_fingerprint h fingerprint fragment =
     update_operation
       (\<lambda>op. op_id_hash op = h \<and> pending_operation op
          \<and> (op_fingerprint op = None \<or> op_fingerprint op = Some fingerprint))
       (\<lambda>op. op\<lparr>op_fingerprint := Some fingerprint, op_fragment_name := Some fragment\<rparr>)"

definition make_retryable :: "operation_row \<Rightarrow> operation_row" where
  "make_retryable op = op\<lparr>op_state := Retryable, op_fragment_name := None, op_fingerprint := None\<rparr>"

definition release_upload_operation :: "rstr \<Rightarrow> db \<Rightarrow> unit outcome" where
  "release_upload_operation h d =
     (Inr (), d\<lparr>upload_operations := sql_update (\<lambda>op. op_id_hash op = h \<and> op_state op = Processing)
        make_retryable (upload_operations d)\<rparr>)"

definition mark_upload_committing :: "rstr \<Rightarrow> db \<Rightarrow> bool outcome" where
  "mark_upload_committing h =
     update_operation (\<lambda>op. op_id_hash op = h \<and> op_state op = Processing)
       (op_state_update (\<lambda>_. Committing))"

definition finish_upload_operation ::
  "('j \<Rightarrow> rstr) \<Rightarrow> rstr \<Rightarrow> op_state \<Rightarrow> 'j option \<Rightarrow> instant \<Rightarrow> db \<Rightarrow> bool outcome" where
  "finish_upload_operation to_json h st result now d =
     (if st \<notin> {Retryable, Completed, Rejected, OutcomeUnknown} then (Inl InvalidQuery, d)
      else update_operation (\<lambda>op. op_id_hash op = h \<and> pending_operation op)
        (\<lambda>op. op\<lparr>op_state := st, op_result_json := map_option to_json result,
           op_expires_at := (if st = Retryable then op_expires_at op else operation_expiry now),
           op_fingerprint := (if st = Retryable then None else op_fingerprint op),
           op_fragment_name := (if st = OutcomeUnknown then op_fragment_name op else None)\<rparr>) d)"

definition recover_pending ::
  "rstr set \<Rightarrow> instant \<Rightarrow> rstr \<times> op_state \<Rightarrow> operation_row list \<Rightarrow> operation_row list" where
  "recover_pending active now p ops =
     (case p of (h, st) \<Rightarrow>
        if h \<in> active then ops
        else if st = Processing
        then sql_update (\<lambda>op. op_id_hash op = h \<and> op_state op = Processing) make_retryable ops
        else sql_update (\<lambda>op. op_id_hash op = h \<and> op_state op = Committing)
               (\<lambda>op. op\<lparr>op_state := OutcomeUnknown, op_expires_at := operation_expiry now\<rparr>) ops)"

definition recover_upload_operations :: "rstr set \<Rightarrow> instant \<Rightarrow> db \<Rightarrow> unit outcome" where
  "recover_upload_operations active now d =
     (let pending = map (\<lambda>op. (op_id_hash op, op_state op)) (filter pending_operation (upload_operations d)) in
      (Inr (), d\<lparr>upload_operations := fold (recover_pending active now) pending (upload_operations d)\<rparr>))"

definition protects_fragment :: "instant \<Rightarrow> operation_row \<Rightarrow> bool" where
  "protects_fragment now op \<longleftrightarrow> op_state op \<in> {Committing, OutcomeUnknown}
     \<and> (op_state op = Committing \<or> now < op_expires_at op)"

definition protected_upload_fragments :: "instant \<Rightarrow> db \<Rightarrow> rstr set" where
  "protected_upload_fragments now d =
     set (List.map_filter op_fragment_name (filter (protects_fragment now) (upload_operations d)))"

section \<open>Recovery row by row\<close>

definition recovered :: "rstr set \<Rightarrow> instant \<Rightarrow> operation_row \<Rightarrow> operation_row" where
  "recovered active now op =
     (if op_id_hash op \<in> active then op
      else if op_state op = Processing then make_retryable op
      else if op_state op = Committing
      then op\<lparr>op_state := OutcomeUnknown, op_expires_at := operation_expiry now\<rparr>
      else op)"

lemma recover_pending_row:
  assumes "st \<in> {Processing, Committing}"
  shows "recover_pending active now (h, st) ops
    = map (\<lambda>op. if op_id_hash op = h \<and> op_state op = st then recovered active now op else op) ops"
  using assms
  by (auto simp: recover_pending_def sql_update_def recovered_def intro!: map_idI[symmetric])

lemma fold_recover_pending:
  assumes "\<forall>p\<in>set ps. snd p \<in> {Processing, Committing}"
  shows "fold (recover_pending active now) ps ops
    = map (\<lambda>op. if (op_id_hash op, op_state op) \<in> set ps then recovered active now op else op) ops"
  using assms
proof (induction ps arbitrary: ops)
  case (Cons p ps)
  obtain h st where p: "p = (h, st)" by (cases p)
  have st: "st \<in> {Processing, Committing}" using Cons.prems p by simp
  have final: "(op_id_hash (recovered active now op), op_state (recovered active now op)) \<in> set ps
      \<Longrightarrow> recovered active now (recovered active now op) = recovered active now op" for op
    by (auto simp: recovered_def make_retryable_def)
  show ?case
    using Cons.IH[of "recover_pending active now (h, st) ops"] Cons.prems final
    by (auto simp: p recover_pending_row[OF st])
qed simp

lemma recover_rows:
  "upload_operations (snd (recover_upload_operations active now d))
     = map (recovered active now) (upload_operations d)"
proof -
  let ?ps = "map (\<lambda>op. (op_id_hash op, op_state op)) (filter pending_operation (upload_operations d))"
  have "\<forall>p\<in>set ?ps. snd p \<in> {Processing, Committing}" by (auto simp: pending_operation_def)
  then have "fold (recover_pending active now) ?ps (upload_operations d)
      = map (\<lambda>op. if (op_id_hash op, op_state op) \<in> set ?ps then recovered active now op else op)
          (upload_operations d)"
    by (rule fold_recover_pending)
  also have "\<dots> = map (recovered active now) (upload_operations d)"
    by (rule map_cong[OF refl]) (auto simp: recovered_def pending_operation_def)
  finally show ?thesis by (simp add: recover_upload_operations_def Let_def)
qed

section \<open>The life cycle\<close>

inductive op_edge :: "op_state \<Rightarrow> op_state \<Rightarrow> bool" where
  stay: "op_edge s s"
| claim: "s \<in> {Ready, Retryable} \<Longrightarrow> op_edge s Processing"
| enter: "op_edge Processing Committing"
| leave: "s \<in> {Processing, Committing} \<Longrightarrow> t \<in> {Retryable, Completed, Rejected, OutcomeUnknown} \<Longrightarrow> op_edge s t"

inductive_simps op_edge_iff: "op_edge s t"

inductive_cases op_edge_finalE: "op_edge Completed t" "op_edge Rejected t" "op_edge OutcomeUnknown t"

text \<open>A row changes only along the edges, and keeps its identity, scope, creation time and
  charge.\<close>

definition row_step :: "operation_row \<Rightarrow> operation_row \<Rightarrow> bool" where
  "row_step op op' \<longleftrightarrow> op_id_hash op' = op_id_hash op \<and> op_scope op' = op_scope op
     \<and> op_created_at op' = op_created_at op \<and> op_quota_charged op' = op_quota_charged op
     \<and> op_edge (op_state op) (op_state op')"

text \<open>All operations of the component, for one owner of operation \<open>h\<close>: a request that holds
  \<open>h\<close> is the only one to release, commit or finish it, and recovery sees \<open>h\<close> as active.
  With \<open>h = None\<close> no operation is held.\<close>

inductive operation_step :: "(rstr \<Rightarrow> rstr) \<Rightarrow> rstr option \<Rightarrow> db \<Rightarrow> db \<Rightarrow> bool" for th held where
  create: "create_upload_operation th tok scope now d = (out, d') \<Longrightarrow> operation_step th held d d'"
| claim: "claim_upload_operation th (from_json :: rstr \<Rightarrow> rstr option) scope tok now later d = (out', d')
     \<Longrightarrow> operation_step th held d d'"
| bind: "bind_upload_fingerprint h f frag d = (b, d') \<Longrightarrow> operation_step th held d d'"
| release: "release_upload_operation h d = (u, d') \<Longrightarrow> held \<noteq> Some h \<Longrightarrow> operation_step th held d d'"
| mark: "mark_upload_committing h d = (b, d') \<Longrightarrow> operation_step th held d d'"
| finish: "finish_upload_operation (to_json :: rstr \<Rightarrow> rstr) h st res now d = (b, d') \<Longrightarrow> held \<noteq> Some h
     \<Longrightarrow> operation_step th held d d'"
| recover: "recover_upload_operations active now d = (u, d') \<Longrightarrow> set_option held \<subseteq> active
     \<Longrightarrow> operation_step th held d d'"

lemma row_step_refl [simp]: "row_step op op"
  by (simp add: row_step_def op_edge.stay)

lemma row_step_recovered [simp]: "row_step op (recovered active now op)"
  by (auto simp: row_step_def recovered_def make_retryable_def op_edge_iff)

text \<open>Every step but a creation maps the rows along \<open>row_step\<close>; the rows of the held
  operation stay pending.\<close>

definition rows_mapped :: "rstr option \<Rightarrow> db \<Rightarrow> db \<Rightarrow> bool" where
  "rows_mapped held d d' \<longleftrightarrow> (\<exists>f. d' = d\<lparr>upload_operations := map f (upload_operations d)\<rparr>
     \<and> (\<forall>op. row_step op (f op))
     \<and> (\<forall>op. held = Some (op_id_hash op) \<and> pending_operation op \<longrightarrow> pending_operation (f op)))"

lemma rows_mapped_update:
  assumes "\<And>op. P op \<Longrightarrow> row_step op (f op)"
    and "\<And>op. held = Some (op_id_hash op) \<Longrightarrow> P op \<Longrightarrow> pending_operation op \<Longrightarrow> pending_operation (f op)"
  shows "rows_mapped held d (d\<lparr>upload_operations := sql_update P f (upload_operations d)\<rparr>)"
  unfolding rows_mapped_def sql_update_def
  using assms by (intro exI[of _ "\<lambda>op. if P op then f op else op"]) auto

lemma rows_mapped_refl: "rows_mapped held d d"
  unfolding rows_mapped_def by (intro exI[of _ "\<lambda>op. op"]) simp

lemma update_operation_snd:
  "snd (update_operation P f d) = d\<lparr>upload_operations := sql_update P f (upload_operations d)\<rparr>"
  by (simp add: update_operation_def)

lemma claim_snd:
  "snd (claim_upload_operation th fj scope tok now later d) =
     d\<lparr>upload_operations := sql_update (claimable (th tok) scope now) (op_state_update (\<lambda>_. Processing))
        (upload_operations d)\<rparr>"
  by (auto simp: claim_upload_operation_def Let_def split: sum.splits option.splits)

lemma step_maps_rows:
  assumes "operation_step th held d d'"
  shows "rows_mapped held d d' \<or> (\<exists>tok scope now out. create_upload_operation th tok scope now d = (out, d'))"
  using assms
proof (cases rule: operation_step.cases)
  case (claim fj scope tok now later out')
  then have "d' = snd (claim_upload_operation th fj scope tok now later d)" by simp
  then show ?thesis
    by (auto simp: claim_snd row_step_def claimable_def unused_operation_def pending_operation_def
        intro!: disjI1 rows_mapped_update op_edge.claim)
next
  case (bind h f frag b)
  then have "d' = snd (bind_upload_fingerprint h f frag d)" by simp
  then show ?thesis
    by (auto simp: bind_upload_fingerprint_def update_operation_snd row_step_def op_edge.stay
        pending_operation_def intro!: disjI1 rows_mapped_update)
next
  case (release h u)
  then show ?thesis
    by (auto simp: release_upload_operation_def row_step_def make_retryable_def op_edge_iff
        intro!: disjI1 rows_mapped_update)
next
  case (mark h b)
  then have "d' = snd (mark_upload_committing h d)" by simp
  then show ?thesis
    by (auto simp: mark_upload_committing_def update_operation_snd row_step_def op_edge_iff
        pending_operation_def intro!: disjI1 rows_mapped_update)
next
  case (finish tj h st res now b)
  then show ?thesis
    by (auto simp: finish_upload_operation_def update_operation_def row_step_def op_edge_iff
        pending_operation_def rows_mapped_refl split: if_splits intro!: disjI1 rows_mapped_update)
next
  case (recover active now u)
  then have "d' = d\<lparr>upload_operations := map (recovered active now) (upload_operations d)\<rparr>"
    using recover_rows[of active now d] by (auto simp: recover_upload_operations_def Let_def)
  moreover have "recovered active now op = op" if "held = Some (op_id_hash op)" for op
    using recover(2) that by (auto simp: recovered_def)
  ultimately have "rows_mapped held d d'"
    unfolding rows_mapped_def by (intro exI[of _ "recovered active now"]) auto
  then show ?thesis ..
qed auto

section \<open>Invariants of every schedule\<close>

definition operations_bounded :: "db \<Rightarrow> bool" where
  "operations_bounded d \<longleftrightarrow> wf_operations (upload_operations d)
     \<and> length (upload_operations d) \<le> MAX_ALL_GLOBAL
     \<and> (\<forall>scope. sql_count (\<lambda>op. op_scope op = scope) (upload_operations d) \<le> MAX_ALL_PER_SCOPE)"

lemma map_row_step_keys:
  "(\<And>op. row_step op (f op)) \<Longrightarrow> map op_id_hash (map f ops) = map op_id_hash ops"
  "(\<And>op. row_step op (f op)) \<Longrightarrow> map op_scope (map f ops) = map op_scope ops"
  by (auto simp: row_step_def)

lemma sql_count_map_scope:
  "sql_count (\<lambda>op. op_scope op = scope) ops = count_list (map op_scope ops) scope"
  by (induction ops) (auto simp: sql_count_def)

lemma rows_mapped_bounded:
  assumes "rows_mapped held d d'" "operations_bounded d" shows "operations_bounded d'"
proof -
  obtain f where f: "d' = d\<lparr>upload_operations := map f (upload_operations d)\<rparr>" "\<And>op. row_step op (f op)"
    using assms(1) by (auto simp: rows_mapped_def)
  show ?thesis
    using assms(2) map_row_step_keys[OF f(2), of "upload_operations d"]
    unfolding operations_bounded_def sql_count_map_scope wf_operations_def f(1)
    by (simp del: map_map map_eq_conv)
qed

lemma create_bounded:
  assumes "create_upload_operation th tok scope now d = (out, d')" "operations_bounded d"
  shows "operations_bounded d'"
proof -
  define ops where "ops = expire_operations now (upload_operations d)"
  define row where "row = \<lparr>op_id_hash = th tok, op_scope = scope, op_state = Ready, op_created_at = now,
      op_expires_at = operation_expiry now, op_fingerprint = None, op_result_json = None,
      op_fragment_name = None, op_quota_charged = False\<rparr>"
  have less: "sql_count P ops \<le> sql_count P (upload_operations d)" for P
    unfolding ops_def expire_operations_def by (rule sql_count_delete_le)
  have len: "length ops = sql_count (\<lambda>_. True) ops" by (simp add: sql_count_def)
  have wf: "wf_operations ops"
    using assms(2) operation_table.delete unfolding ops_def expire_operations_def operations_bounded_def by blast
  have "d' = d \<or> d' = d\<lparr>upload_operations := ops @ [row]\<rparr>
      \<and> \<not> sql_exists (\<lambda>op. op_id_hash op = th tok) ops
      \<and> sql_count (\<lambda>op. op_scope op = scope) ops < MAX_ALL_PER_SCOPE
      \<and> sql_count (\<lambda>_. True) ops < MAX_ALL_GLOBAL"
    using assms(1) unfolding create_upload_operation_def Let_def ops_def[symmetric] row_def[symmetric]
    by (simp add: not_le split: if_splits)
  then consider "d' = d"
    | "d' = d\<lparr>upload_operations := ops @ [row]\<rparr>" "\<forall>op\<in>set ops. op_id_hash op \<noteq> op_id_hash row"
      "sql_count (\<lambda>op. op_scope op = scope) ops < MAX_ALL_PER_SCOPE" "length ops < MAX_ALL_GLOBAL"
    by (auto simp: sql_exists_iff row_def len)
  then show ?thesis
  proof cases
    case 2
    have "sql_count (\<lambda>op. op_scope op = x) (ops @ [row]) \<le> MAX_ALL_PER_SCOPE" for x
      using less[of "\<lambda>op. op_scope op = x"] assms(2) 2(3)
      by (auto simp: operations_bounded_def row_def intro: order_trans)
    then show ?thesis
      using 2 operation_table.insert_fresh[OF wf, of row] by (simp add: operations_bounded_def)
  qed (use assms(2) in simp)
qed

lemma step_bounded: "operation_step th held d d' \<Longrightarrow> operations_bounded d \<Longrightarrow> operations_bounded d'"
  using step_maps_rows rows_mapped_bounded create_bounded by blast




section \<open>Properties\<close>





definition example_operations :: db where
  "example_operations = snd (create_upload_operation (\<lambda>x. x) [5] (ShareScope 1) 10 example_db)"



text \<open>C19: the table stays bounded. From an empty table every schedule of operations keeps
  identifiers unique, at most 4096 operations per owner and 65536 in all.\<close>

theorem operations_stay_bounded:
  assumes "upload_operations d = []" "(operation_step th None)\<^sup>*\<^sup>* d d'"
  shows "distinct (map op_id_hash (upload_operations d')) \<and> length (upload_operations d') \<le> 65536
     \<and> length (filter (\<lambda>op. op_scope op = scope) (upload_operations d')) \<le> 4096"
proof -
  have "operations_bounded d'"
    using assms(2)
  proof (induction rule: rtranclp_induct)
    case base
    then show ?case using assms(1) by (simp add: operations_bounded_def wf_operations_def)
  qed (rule step_bounded)
  then show ?thesis
    by (simp add: operations_bounded_def wf_operations_def MAX_ALL_GLOBAL_def MAX_ALL_PER_SCOPE_def sql_count_def)
qed

theorem operations_stay_bounded_witness:
  "distinct (map op_id_hash (upload_operations example_operations))
     \<and> length (upload_operations example_operations) \<le> 65536"
proof -
  have "(operation_step (\<lambda>x. x) None)\<^sup>*\<^sup>* example_db example_operations"
    unfolding example_operations_def by (intro r_into_rtranclp operation_step.create[OF surjective_pairing])
  then show ?thesis
    using operations_stay_bounded[of example_db "\<lambda>x. x" example_operations "ShareScope 1"]
    by (simp add: example_db_def empty_db_def)
qed

text \<open>C18: recovery never offers an entered commit for a retry. An operation of no live
  request is no longer pending; one that had entered its commit ends as \<open>OutcomeUnknown\<close> and
  one that had not becomes \<open>Retryable\<close>; and every fragment of an entered commit that cleanup
  had to leave alone is still protected, for the whole retention period.\<close>

theorem recovery_safe:
  assumes "recover_upload_operations active now d = (out, d')"
    and "now \<le> t" "t < operation_expiry now"
  shows "(\<forall>op\<in>set (upload_operations d'). pending_operation op \<longrightarrow> op_id_hash op \<in> active)
    \<and> list_all2 (\<lambda>op op'. op_id_hash op' = op_id_hash op
        \<and> (op_state op = Committing \<and> op_id_hash op \<notin> active \<longrightarrow> op_state op' = OutcomeUnknown)
        \<and> (op_state op' = Retryable \<longrightarrow> op_state op \<in> {Retryable, Processing}))
        (upload_operations d) (upload_operations d')
    \<and> (\<forall>op\<in>set (upload_operations d). op_state op = Committing \<longrightarrow>
         set_option (op_fragment_name op) \<subseteq> protected_upload_fragments t d')"
proof -
  have rows: "upload_operations d' = map (recovered active now) (upload_operations d)"
    using recover_rows[of active now d] assms(1) by simp
  have "\<forall>op\<in>set (upload_operations d'). pending_operation op \<longrightarrow> op_id_hash op \<in> active"
    unfolding rows by (auto simp: recovered_def pending_operation_def make_retryable_def)
  moreover have "list_all2 (\<lambda>op op'. op_id_hash op' = op_id_hash op
        \<and> (op_state op = Committing \<and> op_id_hash op \<notin> active \<longrightarrow> op_state op' = OutcomeUnknown)
        \<and> (op_state op' = Retryable \<longrightarrow> op_state op \<in> {Retryable, Processing}))
        (upload_operations d) (upload_operations d')"
    unfolding rows list_all2_map2
    by (rule list_all2_same[THEN iffD2]) (auto simp: recovered_def make_retryable_def)
  moreover have "frag \<in> protected_upload_fragments t d'"
    if "op \<in> set (upload_operations d)" "op_state op = Committing" "op_fragment_name op = Some frag" for op frag
  proof -
    have "protects_fragment t (recovered active now op)"
      "op_fragment_name (recovered active now op) = Some frag"
      using that assms(3) by (auto simp: recovered_def protects_fragment_def)
    then show ?thesis
      using that(1) unfolding protected_upload_fragments_def rows
      by (force simp: List.map_filter_def)
  qed
  ultimately show ?thesis by fastforce
qed

definition example_committing :: db where
  "example_committing = snd (mark_upload_committing [5] (snd (bind_upload_fingerprint [5] [6] [7]
     (snd (claim_upload_operation (\<lambda>x. x) (\<lambda>_. Some ()) (ShareScope 1) [5] 20 20 example_operations)))))"

theorem recovery_safe_witness:
  "map op_state (upload_operations example_committing) = [Committing]
   \<and> [7] \<in> protected_upload_fragments 60 (snd (recover_upload_operations {} 50 example_committing))"
proof -
  have "map op_state (upload_operations example_committing) = [Committing]
      \<and> map op_fragment_name (upload_operations example_committing) = [Some [7]]" by code_simp
  moreover have "(60 :: int) < operation_expiry 50" by code_simp
  ultimately show ?thesis
    using recovery_safe[of "{}" 50 example_committing _ _ 60, OF surjective_pairing] by auto
qed

text \<open>What a finished upload reports is what a replay of it sees. Until the retention
  period ends, looking the operation up gives the final state and the stored result back.\<close>

theorem finish_then_lookup:
  assumes wf: "wf_operations (upload_operations d)"
    and json: "\<And>v. from_json (to_json v) = Some v"
    and fin: "finish_upload_operation to_json (th tok) st result now d = (Inr True, d')"
    and scope: "\<And>op. op \<in> set (upload_operations d) \<Longrightarrow> op_id_hash op = th tok \<Longrightarrow> op_scope op = scope"
    and st: "st \<noteq> Retryable" and t: "t < operation_expiry now"
  shows "\<exists>view. upload_operation th from_json scope tok t d' = Inr (Some view)
    \<and> view_state view = st \<and> view_result view = result \<and> view_expires_at view = operation_expiry now"
proof -
  let ?P = "\<lambda>op. op_id_hash op = th tok \<and> pending_operation op"
  define f where "f = (\<lambda>op :: operation_row. op\<lparr>op_state := st, op_result_json := map_option to_json result,
      op_expires_at := operation_expiry now, op_fingerprint := op_fingerprint op,
      op_fragment_name := (if st = OutcomeUnknown then op_fragment_name op else None)\<rparr>)"
  have final: "st \<in> {Completed, Rejected, OutcomeUnknown}"
    using fin st by (auto simp: finish_upload_operation_def split: if_splits)
  have one: "sql_count ?P (upload_operations d) = 1"
    and d': "d' = d\<lparr>upload_operations := sql_update ?P f (upload_operations d)\<rparr>"
    using fin st by (auto simp: finish_upload_operation_def update_operation_def f_def split: if_splits)
  obtain op where op: "op \<in> set (upload_operations d)" "?P op"
    using one sql_count_0[of ?P "upload_operations d"] by fastforce
  have "f op \<in> set (upload_operations d')"
    unfolding d' using op by (auto simp: set_sql_update intro!: image_eqI[of _ _ op])
  moreover have "wf_operations (upload_operations d')"
    using operation_table.update[OF wf, of ?P f] by (simp add: d' f_def)
  ultimately have "sql_first (\<lambda>x. op_id_hash x = th tok \<and> op_scope x = scope) (upload_operations d') = Some (f op)"
    using operation_table.lookup_member[of "upload_operations d'" "f op"
        "\<lambda>x. op_id_hash x = th tok \<and> op_scope x = scope"] scope[OF op(1)] op(2)
    by (simp add: f_def)
  then show ?thesis
    using t final json by (auto simp: upload_operation_def f_def pending_operation_def split: option.splits)
qed

theorem finish_then_lookup_witness:
  "\<exists>view. upload_operation (\<lambda>x. x) Some (ShareScope 1) [5] 90
       (snd (finish_upload_operation (\<lambda>v. v) [5] Completed (Some [8]) 80 example_committing)) = Inr (Some view)
     \<and> view_state view = Completed \<and> view_result view = Some [8]"
proof -
  let ?r = "finish_upload_operation (\<lambda>v. v) [5] Completed (Some [8]) 80 example_committing"
  have "fst ?r = Inr True" by code_simp
  then have r: "?r = (Inr True, snd ?r)" by (metis prod.collapse)
  have "wf_operations (upload_operations example_committing)" "(90 :: int) < operation_expiry 80"
    "\<forall>op\<in>set (upload_operations example_committing). op_scope op = ShareScope 1" by code_simp+
  then show ?thesis
    using finish_then_lookup[of example_committing Some "\<lambda>v. v" "\<lambda>x. x" "[5]" Completed "Some [8]" 80 "snd ?r"
        "ShareScope 1" 90] r by auto
qed

end
