(* ===== verification/Share_Safety.thy ===== *)
theory Share_Safety
  imports Share_Admin Transfer_Leases Upload_Operations
begin

text \<open>
  Quotas of shares under every schedule of the operations that touch them: public downloads
  (\<open>transfer_step\<close>), public uploads (\<open>upload_step\<close>), everything an administrator or the file
  manager does to shares (\<open>share_step\<close>), and, as an arbitrary environment, whatever leaves the
  tables of shares, transfers and quotas alone. The three ledgers of each share are interpreted on the
  combined system.
\<close>

section \<open>Steps\<close>

inductive share_step ::
  "encrypt \<Rightarrow> decrypt \<Rightarrow> (nat \<Rightarrow> rstr) \<Rightarrow> (rstr \<Rightarrow> rstr) \<Rightarrow> int \<Rightarrow> db \<Rightarrow> db \<Rightarrow> bool" for encrypt decrypt lower th idle where
  create: "create_share_with_upload_limits_for_mfa_session encrypt decrypt lower th proof idle token sp ctx detail now d
      = (out, d') \<Longrightarrow> share_step encrypt decrypt lower th idle d d'"
| set_active: "required_transaction_for_mfa_session proof idle now ctx (set_share_active i active action) d = (out, d')
      \<Longrightarrow> share_step encrypt decrypt lower th idle d d'"
| set_controls: "required_transaction_for_mfa_session proof idle now ctx
      (update_share_controls decrypt i active' strategy limits evs now) d = (out', d')
      \<Longrightarrow> share_step encrypt decrypt lower th idle d d'"
| delete: "required_transaction_for_mfa_session proof idle now ctx (delete_share i) d = (out, d')
      \<Longrightarrow> share_step encrypt decrypt lower th idle d d'"
| set_password: "required_transaction_for_mfa_session proof idle now ctx (set_share_password i hash action) d = (out, d')
      \<Longrightarrow> share_step encrypt decrypt lower th idle d d'"
| rename: "rename_share_paths_and_audit lower old_path new_path dir ctx recovery now d = (n, d')
      \<Longrightarrow> share_step encrypt decrypt lower th idle d d'"
| deactivate: "deactivate_shares_for_path_and_audit path dir ctx recovery cleanup now d = (n, d')
      \<Longrightarrow> share_step encrypt decrypt lower th idle d d'"

inductive system_step ::
  "encrypt \<Rightarrow> decrypt \<Rightarrow> (nat \<Rightarrow> rstr) \<Rightarrow> (rstr \<Rightarrow> rstr) \<Rightarrow> (instant \<Rightarrow> rstr) \<Rightarrow> int \<Rightarrow> db \<Rightarrow> db \<Rightarrow> bool"
  for encrypt decrypt lower th month idle where
  download: "transfer_step th month d d' \<Longrightarrow> system_step encrypt decrypt lower th month idle d d'"
| upload: "upload_step th d d' \<Longrightarrow> system_step encrypt decrypt lower th month idle d d'"
| administer: "share_step encrypt decrypt lower th idle d d' \<Longrightarrow> system_step encrypt decrypt lower th month idle d d'"
| environment: "shares d' = shares d \<Longrightarrow> grants d' = grants d \<Longrightarrow> leases d' = leases d \<Longrightarrow>
    upload_usage d' = upload_usage d \<Longrightarrow> upload_reservations d' = upload_reservations d \<Longrightarrow>
    wf_operations (upload_operations d') \<Longrightarrow> wf_audit (audit d') \<Longrightarrow>
    system_step encrypt decrypt lower th month idle d d'"

section \<open>One step keeps every quota\<close>

definition bytes_fit :: "db \<Rightarrow> int \<Rightarrow> bool" where
  "bytes_fit d i \<longleftrightarrow> fits (byte_limit d i) (fst (byte_ledger d i) + snd (byte_ledger d i))"

definition files_fit :: "db \<Rightarrow> int \<Rightarrow> bool" where
  "files_fit d i \<longleftrightarrow> fits (file_limit d i) (fst (file_ledger d i) + snd (file_ledger d i))"

definition downloads_fit :: "db \<Rightarrow> int \<Rightarrow> bool" where
  "downloads_fit d i \<longleftrightarrow> fits (download_limit d i) (fst (download_ledger d i) + snd (download_ledger d i))"

definition quota_safe :: "db \<Rightarrow> db \<Rightarrow> bool" where
  "quota_safe d d' \<longleftrightarrow> wf_uploads d'
     \<and> (\<forall>i. (bytes_fit d i \<longrightarrow> bytes_fit d' i) \<and> (files_fit d i \<longrightarrow> files_fit d' i)
          \<and> (downloads_fit d i \<longrightarrow> downloads_fit d' i))"

lemmas fit_defs = bytes_fit_def files_fit_def downloads_fit_def byte_ledger_def file_ledger_def
  download_ledger_def byte_limit_def file_limit_def download_limit_def pending_grants_def

lemma quota_safe_refl: "wf_uploads d \<Longrightarrow> quota_safe d d"
  by (simp add: quota_safe_def)

lemma quota_safe_trans [trans]: "quota_safe a b \<Longrightarrow> quota_safe b c \<Longrightarrow> quota_safe a c"
  by (auto simp: quota_safe_def)

lemma fit_frame:
  assumes "shares d' = shares d" "grants d' = grants d" "upload_usage d' = upload_usage d"
    "upload_reservations d' = upload_reservations d"
  shows "bytes_fit d' = bytes_fit d \<and> files_fit d' = files_fit d \<and> downloads_fit d' = downloads_fit d"
  using assms limits_frame[of d' d]
  by (intro conjI ext) (simp_all add: fit_defs usage_of_def share_by_id_def)

lemma quota_safe_frame:
  assumes "quota_safe d d'" "wf_uploads d''" "shares d'' = shares d'" "grants d'' = grants d'"
    "upload_usage d'' = upload_usage d'" "upload_reservations d'' = upload_reservations d'"
  shows "quota_safe d d''"
  using assms fit_frame[OF assms(3-6)] by (simp add: quota_safe_def)

lemma quota_safe_audit: "quota_safe d d' \<Longrightarrow> wf_audit rows \<Longrightarrow> quota_safe d (d'\<lparr>audit := rows\<rparr>)"
  by (rule quota_safe_frame) (auto simp: quota_safe_def wf_uploads_def wf_store_audit)

lemma wf_uploads_audit: "wf_uploads d \<Longrightarrow> wf_audit (audit d)"
  by (simp add: wf_uploads_def wf_store_def)

lemma commit_audited_safe:
  assumes "commit_audited now ctx evs out d d1 = (r, d')" "wf_uploads d" "quota_safe d d1"
  shows "quota_safe d d'"
  using assms(1)
proof (cases rule: commit_audited_cases)
  case (committed new)
  have "wf_audit (audit d1)" using assms(3) by (simp add: quota_safe_def wf_uploads_audit)
  then show ?thesis using committed quota_safe_audit[OF assms(3)] by simp
qed (use assms(2) quota_safe_refl in simp)

lemma session_transaction_safe:
  assumes "required_transaction_for_mfa_session proof idle now ctx operation d = (r, d')" "wf_uploads d"
    and "\<And>x evs d1. operation d = Inr ((x, evs), d1) \<Longrightarrow> quota_safe d d1"
  shows "quota_safe d d'"
  using assms commit_audited_safe[OF _ assms(2)] quota_safe_refl[OF assms(2)]
  by (fastforce simp: required_transaction_for_mfa_session_def split: sum.splits if_splits)

subsection \<open>Downloads and uploads\<close>

lemma frame_share_by_id:
  assumes "transfer_frame d d'"
  shows "map_option (sh_download_count_update (\<lambda>_. 0)) (share_by_id d' i)
    = map_option (sh_download_count_update (\<lambda>_. 0)) (share_by_id d i)"
  using assms sql_first_map[of "\<lambda>s. sh_id s = i" "sh_download_count_update (\<lambda>_. 0)" "shares d"]
    sql_first_map[of "\<lambda>s. sh_id s = i" "sh_download_count_update (\<lambda>_. 0)" "shares d'"]
  by (simp add: transfer_frame_def share_by_id_def)

lemma same_but_count:
  assumes "map_option (sh_download_count_update (\<lambda>_. 0)) a = map_option (sh_download_count_update (\<lambda>_. 0)) b"
  shows "map_option sh_upload_policy_epoch a = map_option sh_upload_policy_epoch b"
    "(case a of None \<Rightarrow> None | Some s \<Rightarrow> sh_max_upload_total_size s)
      = (case b of None \<Rightarrow> None | Some s \<Rightarrow> sh_max_upload_total_size s)"
    "(case a of None \<Rightarrow> None | Some s \<Rightarrow> sh_max_upload_files s)
      = (case b of None \<Rightarrow> None | Some s \<Rightarrow> sh_max_upload_files s)"
  using assms by (cases a; cases b; auto simp: share_row.defs; metis share_row.ext_inject share_row.surjective share_row.update_convs(14))+

lemma transfer_frame_member:
  assumes "transfer_frame d d'" "s' \<in> set (shares d')"
  obtains s where "s \<in> set (shares d)" "sh_id s = sh_id s'"
    "sh_upload_policy_epoch s = sh_upload_policy_epoch s'" "sh_max_upload_files s = sh_max_upload_files s'"
proof -
  let ?z = "sh_download_count_update (\<lambda>_. 0)"
  have "?z s' \<in> ?z ` set (shares d)"
    using assms by (metis transfer_frame_def image_eqI set_map)
  then obtain s where s: "s \<in> set (shares d)" "?z s' = ?z s" by blast
  have "sh_id (?z s) = sh_id s'" "sh_upload_policy_epoch (?z s) = sh_upload_policy_epoch s'"
    "sh_max_upload_files (?z s) = sh_max_upload_files s'"
    unfolding s(2)[symmetric] by simp_all
  then show thesis using that s(1) by simp
qed

lemma transfer_safe:
  assumes "wf_uploads d" "refines_ledger d d'" shows "quota_safe d d'"
proof -
  have fr: "transfer_frame d d'" and wf: "wf_store d'" using assms(2) by (auto simp: refines_ledger_def)
  have "wf_uploads d'"
    using assms(1) wf fr by (auto simp: wf_uploads_def transfer_frame_def elim!: transfer_frame_member[OF fr]) (metis transfer_frame_member[OF fr])+
  moreover have "bytes_fit d' i = bytes_fit d i" "files_fit d' i = files_fit d i" for i
  proof -
    note same = same_but_count[OF frame_share_by_id[OF fr, of i]]
    have "current_reservation d' i = current_reservation d i"
      using same(1) by (simp add: fun_eq_iff current_reservation_def)
    then show "bytes_fit d' i = bytes_fit d i" "files_fit d' i = files_fit d i"
      using fr same(2,3) by (simp_all add: fit_defs usage_of_def transfer_frame_def)
  qed
  moreover have "downloads_fit d i \<longrightarrow> downloads_fit d' i" for i
    using assms(2) ledger_steps_fits[of "download_limit d i" "download_ledger d i" "download_ledger d' i"]
    by (simp add: refines_ledger_def downloads_fit_def)
  ultimately show ?thesis by (simp add: quota_safe_def)
qed

lemma upload_safe:
  assumes "upload_refines d d'" shows "quota_safe d d'"
proof -
  have lim: "byte_limit d' = byte_limit d" "file_limit d' = file_limit d"
    using upload_refines_limits[OF assms] .
  have "downloads_fit d' i = downloads_fit d i" for i
    using assms by (simp add: upload_refines_def fit_defs share_by_id_def)
  moreover have "bytes_fit d i \<longrightarrow> bytes_fit d' i" "files_fit d i \<longrightarrow> files_fit d' i" for i
    using assms ledger_steps_fits unfolding upload_refines_def bytes_fit_def files_fit_def lim by blast+
  ultimately show ?thesis using assms by (simp add: quota_safe_def upload_refines_def)
qed

subsection \<open>Administration\<close>

lemma later_epoch_pending:
  assumes wf: "wf_uploads d" and s: "share_by_id d i = Some s" and s': "share_by_id d' i = Some s'"
    and epoch: "sh_upload_policy_epoch s \<le> sh_upload_policy_epoch s'"
    and res: "upload_reservations d' = upload_reservations d" and r: "r \<in> set (upload_reservations d)"
  shows "current_reservation d' i r \<Longrightarrow> current_reservation d i r"
  using wf share_by_id_Some[OF s] s s' epoch r
  by (fastforce simp: current_reservation_def wf_uploads_def)

lemma update_shares_safe:
  assumes wf: "wf_uploads d"
    and same: "\<And>s. sh_id (f s) = sh_id s" "\<And>s. sh_max_downloads (f s) = sh_max_downloads s"
      "\<And>s. sh_download_count (f s) = sh_download_count s"
      "\<And>s. sh_upload_policy_epoch s \<le> sh_upload_policy_epoch (f s)"
    and files: "\<And>s. s \<in> set (shares d) \<Longrightarrow> P s \<Longrightarrow> sh_max_upload_files (f s) = sh_max_upload_files s
      \<or> pred_option (\<lambda>m. m \<le> MAX_SQLITE_UNSIGNED) (sh_max_upload_files (f s))
        \<and> fits (sh_max_upload_files (f s)) (fst (file_ledger d (sh_id s)) + snd (file_ledger d (sh_id s)))"
    and bytes: "\<And>s. s \<in> set (shares d) \<Longrightarrow> P s \<Longrightarrow> sh_max_upload_total_size (f s) = sh_max_upload_total_size s
      \<or> fits (sh_max_upload_total_size (f s)) (fst (byte_ledger d (sh_id s)) + snd (byte_ledger d (sh_id s)))"
  shows "quota_safe d (d\<lparr>shares := sql_update P f (shares d)\<rparr>)"
proof -
  define d' where "d' = d\<lparr>shares := sql_update P f (shares d)\<rparr>"
  have look: "share_by_id d' i = map_option (\<lambda>s. if P s then f s else s) (share_by_id d i)" for i
    unfolding share_by_id_def d'_def using sql_first_update[of "shares d" P "\<lambda>s. sh_id s = i" f] same(1) by simp
  have fields: "upload_usage d' = upload_usage d" "upload_reservations d' = upload_reservations d"
    "grants d' = grants d" by (simp_all add: d'_def)
  have "wf_uploads d'"
  proof -
    have "\<forall>r\<in>set (upload_reservations d'). \<forall>s\<in>set (shares d'). sh_id s = rs_share_id r
        \<longrightarrow> rs_upload_policy_epoch r \<le> sh_upload_policy_epoch s"
    proof (intro ballI impI)
      fix r s assume a: "r \<in> set (upload_reservations d')" "s \<in> set (shares d')" "sh_id s = rs_share_id r"
      then obtain s0 where s0: "s0 \<in> set (shares d)" "s = (if P s0 then f s0 else s0)"
        by (auto simp: d'_def set_sql_update)
      then have "rs_upload_policy_epoch r \<le> sh_upload_policy_epoch s0"
        using wf a same(1) unfolding wf_uploads_def fields by (metis (full_types))
      then show "rs_upload_policy_epoch r \<le> sh_upload_policy_epoch s"
        using s0(2) same(4)[of s0] by auto
    qed
    moreover have "wf_store d'" unfolding d'_def using wf same(1) by (intro update_shares_wf) (auto simp: wf_uploads_def)
    moreover have "\<forall>s\<in>set (shares d'). pred_option (\<lambda>m. m \<le> MAX_SQLITE_UNSIGNED) (sh_max_upload_files s)"
      using wf files by (fastforce simp: d'_def set_sql_update wf_uploads_def)
    ultimately show ?thesis using wf by (auto simp: wf_uploads_def fields)
  qed
  moreover have "(bytes_fit d i \<longrightarrow> bytes_fit d' i) \<and> (files_fit d i \<longrightarrow> files_fit d' i)
      \<and> (downloads_fit d i \<longrightarrow> downloads_fit d' i)" for i
  proof (cases "share_by_id d i")
    case None
    then show ?thesis by (simp add: fit_defs fits_def look)
  next
    case (Some s)
    let ?s = "if P s then f s else s"
    have s': "share_by_id d' i = Some ?s" by (simp add: look Some)
    have "snd (byte_ledger d' i) \<le> snd (byte_ledger d i)" "snd (file_ledger d' i) \<le> snd (file_ledger d i)"
      using later_epoch_pending[OF wf Some s'] same(4) unfolding byte_ledger_def file_ledger_def fields snd_conv
      by (auto intro!: sql_sum_mono sql_count_mono)
    moreover have "fst (byte_ledger d' i) = fst (byte_ledger d i)" "fst (file_ledger d' i) = fst (file_ledger d i)"
      by (simp_all add: byte_ledger_def file_ledger_def usage_of_def fields)
    ultimately have "bytes_fit d i \<longrightarrow> bytes_fit d' i" "files_fit d i \<longrightarrow> files_fit d' i"
      using bytes[of s] files[of s] share_by_id_Some[OF Some] Some s'
      by (auto simp: bytes_fit_def files_fit_def byte_limit_def file_limit_def elim!: fits_mono)
    moreover have "downloads_fit d' i = downloads_fit d i"
      using same(2,3) by (simp add: downloads_fit_def download_limit_def download_ledger_def pending_grants_def
          fields s' Some)
    ultimately show ?thesis by simp
  qed
  ultimately show ?thesis by (simp add: quota_safe_def d'_def)
qed

lemma insert_share_Inr:
  assumes "insert_share s d = Inr (i, d')"
  shows "d' = d\<lparr>shares := shares d @ [s\<lparr>sh_id := i\<rparr>]\<rparr>" "i \<notin> share_refs d"
    "pred_option (\<lambda>m. m \<le> i64_max) (sh_max_upload_files s)"
    "\<forall>x\<in>set (shares d). sh_token_hash x \<noteq> sh_token_hash s \<and> (sh_alias s \<noteq> None \<longrightarrow> sh_alias x \<noteq> sh_alias s)"
proof -
  have "d' = d\<lparr>shares := shares d @ [s\<lparr>sh_id := i\<rparr>]\<rparr> \<and> i = next_rowid (map sh_id (shares d))
      \<and> pred_option (\<lambda>m. m \<le> i64_max) (sh_max_upload_files s)
      \<and> (\<forall>x\<in>set (shares d). sh_token_hash x \<noteq> sh_token_hash s \<and> (sh_alias s \<noteq> None \<longrightarrow> sh_alias x \<noteq> sh_alias s))"
    using assms unfolding insert_share_def
    by (auto simp: Let_def sql_exists_iff split: if_splits option.splits)
  moreover have "next_rowid (map sh_id (shares d)) \<notin> share_refs d"
    using next_rowid_notin[of "map sh_id (shares d)"] by (simp add: share_refs_def)
  ultimately show "d' = d\<lparr>shares := shares d @ [s\<lparr>sh_id := i\<rparr>]\<rparr>" "i \<notin> share_refs d"
    "pred_option (\<lambda>m. m \<le> i64_max) (sh_max_upload_files s)"
    "\<forall>x\<in>set (shares d). sh_token_hash x \<noteq> sh_token_hash s \<and> (sh_alias s \<noteq> None \<longrightarrow> sh_alias x \<noteq> sh_alias s)"
    by auto
qed

lemma fresh_share_unused:
  assumes "wf_store d" "i \<notin> share_refs d"
  shows "usage_of d i = \<lparr>us_share_id = i, us_uploaded_bytes = 0, us_uploaded_files = 0, us_created_directories = 0\<rparr>"
    "\<forall>r\<in>set (upload_reservations d). rs_share_id r \<noteq> i" "\<forall>g\<in>set (grants d). gr_share_id g \<noteq> i"
    "share_by_id d i = None"
proof -
  have "sql_first (\<lambda>u. us_share_id u = i) (upload_usage d) = None"
    using assms wf_storeD(11)[OF assms(1)] by (auto simp: sql_first_None)
  then show "usage_of d i = \<lparr>us_share_id = i, us_uploaded_bytes = 0, us_uploaded_files = 0, us_created_directories = 0\<rparr>"
    by (simp add: usage_of_def)
  show "\<forall>r\<in>set (upload_reservations d). rs_share_id r \<noteq> i" "\<forall>g\<in>set (grants d). gr_share_id g \<noteq> i"
    using assms wf_storeD(9,12)[OF assms(1)] by auto
  show "share_by_id d i = None" using assms(2) by (auto simp: share_by_id_def sql_first_None share_refs_def)
qed

lemma insert_share_safe:
  assumes ins: "insert_share s d = Inr (i, d')" and wf: "wf_uploads d" and count: "sh_download_count s = 0"
  shows "quota_safe d d'"
proof -
  note new = insert_share_Inr[OF ins] and wf' = wf_uploads_store[OF wf]
  note unused = fresh_share_unused[OF wf' new(2)]
  have look: "share_by_id d' j = (if j = i then Some (s\<lparr>sh_id := i\<rparr>) else share_by_id d j)" for j
    using unused(4) by (auto simp: new(1) share_by_id_def sql_first_append split: option.splits)
  have fields: "upload_usage d' = upload_usage d" "upload_reservations d' = upload_reservations d"
    "grants d' = grants d" by (simp_all add: new(1))
  have "wf_shares (shares d')"
    using share_table.insert_fresh[OF wf_storeD(1)[OF wf'], of "s\<lparr>sh_id := i\<rparr>"] new(2)
    by (auto simp: new(1) share_refs_def)
  then have "wf_store d'" using wf' by (auto simp: wf_store_def new(1) share_refs_def)
  then have "wf_uploads d'"
    using wf unused(2) new(3) by (auto simp: wf_uploads_def new(1) MAX_SQLITE_UNSIGNED_def)
  moreover have "bytes_fit d' j" "files_fit d' j" "downloads_fit d' j" if "j = i" for j
  proof -
    have "usage_of d' i = usage_of d i" by (simp add: usage_of_def fields)
    moreover have "sql_sum (current_reservation d' i) rs_reserved_bytes (upload_reservations d') = 0"
      "sql_count (current_reservation d' i) (upload_reservations d') = 0" "pending_grants d' i = 0"
      using unused(2,3) by (auto intro!: sql_sum_0 simp: sql_count_0 fields current_reservation_def pending_grants_def)
    ultimately show "bytes_fit d' j" "files_fit d' j" "downloads_fit d' j"
      using unused(1) count that
      by (simp_all add: bytes_fit_def files_fit_def downloads_fit_def byte_ledger_def file_ledger_def
          download_ledger_def look fits_def split: option.splits)
  qed
  moreover have "bytes_fit d' j = bytes_fit d j" "files_fit d' j = files_fit d j" "downloads_fit d' j = downloads_fit d j"
    if "j \<noteq> i" for j
  proof -
    have "current_reservation d' j = current_reservation d j"
      using that by (simp add: fun_eq_iff current_reservation_def look)
    then show "bytes_fit d' j = bytes_fit d j" "files_fit d' j = files_fit d j" "downloads_fit d' j = downloads_fit d j"
      using that by (simp_all add: fit_defs usage_of_def fields look)
  qed
  ultimately show ?thesis unfolding quota_safe_def by metis
qed

lemma delete_shares_simps:
  "shares (delete_shares P d) = sql_delete P (shares d)"
  "grants (delete_shares P d) = sql_delete (\<lambda>g. list_ex (\<lambda>s. sh_id s = gr_share_id g) (filter P (shares d))) (grants d)"
  "upload_usage (delete_shares P d) = sql_delete (\<lambda>u. list_ex (\<lambda>s. sh_id s = us_share_id u) (filter P (shares d))) (upload_usage d)"
  "upload_reservations (delete_shares P d) = sql_delete (\<lambda>r. list_ex (\<lambda>s. sh_id s = rs_share_id r) (filter P (shares d))) (upload_reservations d)"
  "upload_operations (delete_shares P d) = upload_operations d" "audit (delete_shares P d) = audit d"
  "leases (delete_shares P d) = leases (delete_grants (\<lambda>g. list_ex (\<lambda>s. sh_id s = gr_share_id g) (filter P (shares d))) d)"
  by (simp_all add: delete_shares_def Let_def)

lemma delete_shares_wf:
  assumes "wf_store d" shows "wf_store (delete_shares P d)"
proof -
  let ?G = "\<lambda>g. list_ex (\<lambda>s. sh_id s = gr_share_id g) (filter P (shares d))"
  have g: "wf_store (delete_grants ?G d)" by (rule delete_grants_wf[OF assms])
  have keep: "i \<in> share_refs (delete_shares P d)"
    if "i \<in> share_refs d" "\<not> list_ex (\<lambda>s. sh_id s = i) (filter P (shares d))" for i
    using that by (fastforce simp: share_refs_def delete_shares_simps list_ex_iff)
  show ?thesis
    using wf_storeD[OF assms] wf_storeD(4,10)[OF g] keep
      share_table.delete[of "shares d" P] grant_table.delete[of "grants d"] grant_identity_index.delete[of "grants d"]
      usage_table.delete[of "upload_usage d"] reservation_table.delete[of "upload_reservations d"]
    unfolding wf_store_def[of "delete_shares P d"] delete_shares_simps by (auto simp: image_subset_iff)
qed

lemma delete_share_safe:
  assumes wf: "wf_uploads d" shows "quota_safe d (delete_shares (\<lambda>s. sh_id s = i) d)"
proof -
  define d' where "d' = delete_shares (\<lambda>s. sh_id s = i) d"
  note fields = delete_shares_simps[of "\<lambda>s. sh_id s = i" d, folded d'_def]
  have "wf_uploads d'"
    using wf delete_shares_wf[OF wf_uploads_store[OF wf], of "\<lambda>s. sh_id s = i"]
    by (auto simp: wf_uploads_def d'_def[symmetric] fields)
  moreover have "share_by_id d' i = None" by (auto simp: share_by_id_def sql_first_None fields)
  then have "bytes_fit d' i" "files_fit d' i" "downloads_fit d' i" by (simp_all add: fit_defs fits_def)
  moreover have "bytes_fit d' j = bytes_fit d j" "files_fit d' j = files_fit d j" "downloads_fit d' j = downloads_fit d j"
    if j: "j \<noteq> i" for j
  proof -
    have of_gone: "\<not> list_ex (\<lambda>s. sh_id s = j) (filter (\<lambda>s. sh_id s = i) (shares d))" using j by (simp add: list_ex_iff)
    have look: "share_by_id d' j = share_by_id d j"
      unfolding share_by_id_def fields using j by (intro sql_first_delete_other) auto
    have "usage_of d' j = usage_of d j"
      unfolding usage_of_def fields using of_gone by (subst sql_first_delete_other) auto
    moreover have cur: "current_reservation d' j = current_reservation d j"
      by (simp add: fun_eq_iff current_reservation_def look)
    have "sql_sum (current_reservation d j) rs_reserved_bytes (upload_reservations d')
        = sql_sum (current_reservation d j) rs_reserved_bytes (upload_reservations d)"
      "sql_count (current_reservation d j) (upload_reservations d') = sql_count (current_reservation d j) (upload_reservations d)"
      "pending_grants d' j = pending_grants d j"
      unfolding fields pending_grants_def using of_gone
      by (auto intro!: sql_sum_delete_other sql_count_delete_other simp: current_reservation_def)
    ultimately show "bytes_fit d' j = bytes_fit d j" "files_fit d' j = files_fit d j" "downloads_fit d' j = downloads_fit d j"
      by (simp_all add: bytes_fit_def files_fit_def downloads_fit_def byte_ledger_def file_ledger_def
          download_ledger_def byte_limit_def file_limit_def download_limit_def look cur)
  qed
  ultimately show ?thesis unfolding quota_safe_def d'_def[symmetric] by metis
qed

lemma create_share_cases:
  assumes "create_share decrypt row detail d = Inr (((i, share), evs), d')"
  shows "insert_share row d = Inr (i, d')" "share_by_id_in_transaction decrypt i d' = Inr (Some share)"
  using assms by (auto simp: create_share_def split: sum.splits prod.splits option.splits)

lemma create_safe:
  assumes eq: "create_share_with_upload_limits_for_mfa_session encrypt decrypt lower th proof idle token sp ctx detail now d
      = (out, d')" and wf: "wf_uploads d"
  shows "quota_safe d d'"
proof -
  consider "d' = d" | enc where "required_transaction_for_mfa_session proof idle now ctx
      (create_share decrypt (new_share_row lower (th token) enc sp (prf_admin_id proof) now) detail) d = (out, d')"
    using eq unfolding create_share_with_upload_limits_for_mfa_session_def by (auto split: if_splits sum.splits)
  then show ?thesis
  proof cases
    case 2
    then show ?thesis
    proof (rule session_transaction_safe[OF _ wf])
      fix x evs d1
      assume "create_share decrypt (new_share_row lower (th token) enc sp (prf_admin_id proof) now) detail d
        = Inr ((x, evs), d1)"
      then show "quota_safe d d1"
        using insert_share_safe[OF create_share_cases(1) wf, of decrypt _ detail "fst x" "snd x" evs d1]
        by (simp add: new_share_row_def)
    qed
  qed (simp add: quota_safe_refl[OF wf])
qed

lemma set_active_safe:
  "set_share_active i active action d = Inr ((x, evs), d') \<Longrightarrow> wf_uploads d \<Longrightarrow> quota_safe d d'"
  by (auto simp: set_share_active_def Let_def intro!: update_shares_safe)

lemma delete_share_step_safe:
  "delete_share i d = Inr ((x, evs), d') \<Longrightarrow> wf_uploads d \<Longrightarrow> quota_safe d d'"
  by (auto simp: delete_share_def Let_def intro!: delete_share_safe)

lemma set_password_safe:
  assumes "set_share_password i hash action d = Inr ((x, evs), d')" "wf_uploads d" shows "quota_safe d d'"
proof -
  let ?f = "\<lambda>s. s\<lparr>sh_upload_policy_epoch := sh_upload_policy_epoch s + 1, sh_password_hash := hash\<rparr>"
  have up: "quota_safe d (d\<lparr>shares := sql_update (\<lambda>s. sh_id s = i) ?f (shares d)\<rparr>)"
    using assms(2) by (intro update_shares_safe) auto
  have d': "d' = d\<lparr>shares := sql_update (\<lambda>s. sh_id s = i) ?f (shares d),
      unlock_sessions := sql_delete (\<lambda>u. unl_share_id u = i) (unlock_sessions d)\<rparr>"
    using assms(1) by (auto simp: set_share_password_def Let_def)
  show ?thesis
    using up unfolding d' by (rule quota_safe_frame)
      (use up in \<open>auto simp: quota_safe_def wf_uploads_def wf_store_def share_refs_def\<close>)
qed

lemma rename_safe:
  assumes "rename_share_paths_and_audit lower old_path new_path dir ctx recovery now d = (n, d')" "wf_uploads d"
  shows "quota_safe d d'"
  using assms(1) unfolding rename_share_paths_and_audit_def rename_share_paths_in_transaction_def Let_def split
  by (rule commit_audited_safe) (use assms(2) in \<open>auto intro!: update_shares_safe simp: moved_share_def\<close>)

lemma deactivate_safe:
  assumes "deactivate_shares_for_path_and_audit path dir ctx recovery cleanup now d = (n, d')" "wf_uploads d"
  shows "quota_safe d d'"
  using assms(1) unfolding deactivate_shares_for_path_and_audit_def deactivate_shares_for_path_in_transaction_def
    Let_def split
  by (rule commit_audited_safe) (use assms(2) in \<open>auto intro!: update_shares_safe simp: deactivated_share_def\<close>)

lemma apply_controls_Inr:
  assumes "apply_controls decrypt i active strategy limits evs d = Inr (((out, share), evs'), d')"
  shows "out = Updated" "evs' = evs" "share_by_id_in_transaction decrypt i d' = Inr share"
    "d' = d\<lparr>shares := sql_update (\<lambda>s. sh_id s = i) (controlled_share active strategy limits) (shares d)\<rparr>"
  using assms unfolding apply_controls_def Let_def by (auto split: sum.splits option.splits)

lemma not_exceeds: "\<not> exceeds (checked_add a b) m \<Longrightarrow> a + b \<le> m"
  by (auto simp: exceeds_def checked_add_def split: if_splits)

lemma controls_cases:
  assumes "update_share_controls decrypt i active strategy limits evs now d = Inr (((out, share), evs'), d')"
  obtains (unchanged) "d' = expire_reservations now d" "out \<noteq> Updated" "share = None" "evs' = []"
  | (updated) s where "out = Updated" "share_by_id d i = Some s"
      "d' = (expire_reservations now d)\<lparr>shares := sql_update (\<lambda>s. sh_id s = i)
         (controlled_share active strategy limits) (shares d)\<rparr>"
      "share_by_id_in_transaction decrypt i d' = Inr share" "evs' = evs"
      "\<And>all files. limits = Some (all, files) \<Longrightarrow> 0 < all \<and> 0 < files \<and> files \<le> MAX_SQLITE_UNSIGNED
         \<and> sh_is_directory s \<and> can_upload (sh_permission s)
         \<and> fst (byte_ledger (expire_reservations now d) i) + snd (byte_ledger (expire_reservations now d) i) \<le> all
         \<and> fst (file_ledger (expire_reservations now d) i) + snd (file_ledger (expire_reservations now d) i) \<le> files"
proof -
  define d1 where "d1 = expire_reservations now d"
  have sh: "share_by_id d1 i = share_by_id d i" "shares d1 = shares d"
    by (simp_all add: d1_def expire_reservations_def share_by_id_def)
  note eq = assms[unfolded update_share_controls_def Let_def d1_def[symmetric] sh(1)]
  show thesis
  proof (cases "share_by_id d i")
    case None
    then show thesis using eq unchanged by (simp add: d1_def)
  next
    case s: (Some s)
    have cur: "(\<lambda>r. rs_share_id r = i \<and> rs_upload_policy_epoch r = sh_upload_policy_epoch s) = current_reservation d1 i"
      using s by (auto simp: fun_eq_iff current_reservation_def sh)
    note eq' = eq[unfolded s option.case cur]
    show thesis
    proof (cases limits)
      case None
      then have app: "apply_controls decrypt i active strategy None evs d1 = Inr (((out, share), evs'), d')"
        using eq' by simp
      show thesis
        by (rule updated[OF apply_controls_Inr(1)[OF app] s _ apply_controls_Inr(3,2)[OF app]])
          (use apply_controls_Inr(4)[OF app] sh(2) None in \<open>simp_all add: d1_def\<close>)
    next
      case l: (Some l)
      obtain all files where l': "l = (all, files)" by (cases l)
      note eq'' = eq'[unfolded l l' option.case prod.case]
      show thesis
      proof (cases "apply_controls decrypt i active strategy (Some (all, files)) evs d1 = Inr (((out, share), evs'), d')")
        case app: True
        have "fst (byte_ledger d1 i) + snd (byte_ledger d1 i) \<le> all \<and> fst (file_ledger d1 i) + snd (file_ledger d1 i) \<le> files
            \<and> 0 < all \<and> 0 < files \<and> files \<le> MAX_SQLITE_UNSIGNED \<and> sh_is_directory s \<and> can_upload (sh_permission s)"
          using eq'' apply_controls_Inr(1)[OF app] unfolding byte_ledger_def file_ledger_def
          by (auto dest!: not_exceeds split: if_splits)
        then show thesis
          by (intro updated[OF apply_controls_Inr(1)[OF app] s _ apply_controls_Inr(3,2)[OF app]])
            (use apply_controls_Inr(4)[OF app] sh(2) l l' in \<open>simp_all add: d1_def\<close>)
      next
        case False
        then show thesis using eq'' unchanged by (auto simp: d1_def split: if_splits)
      qed
    qed
  qed
qed

lemma controls_safe:
  assumes "update_share_controls decrypt i active strategy limits evs now d = Inr ((x, evs'), d')" "wf_uploads d"
  shows "quota_safe d d'"
proof -
  define d1 where "d1 = expire_reservations now d"
  have safe1: "quota_safe d d1" unfolding d1_def by (rule upload_safe[OF expire_refines[OF assms(2)]])
  then have wf1: "wf_uploads d1" by (simp add: quota_safe_def)
  have sh: "shares d1 = shares d" by (simp add: d1_def expire_reservations_def)
  obtain out share where x: "x = (out, share)" by (cases x)
  from assms(1)[unfolded x] show ?thesis
  proof (cases rule: controls_cases)
    case unchanged
    then show ?thesis using safe1 by (simp add: d1_def)
  next
    case (updated s)
    have "quota_safe d1 (d1\<lparr>shares := sql_update (\<lambda>s. sh_id s = i) (controlled_share active strategy limits) (shares d1)\<rparr>)"
      using updated(6) by (intro update_shares_safe[OF wf1])
        (auto simp: controlled_share_def coalesce_def fits_def d1_def[symmetric] split: option.splits)
    then show ?thesis using quota_safe_trans[OF safe1] updated(3) by (simp add: d1_def[symmetric] sh)
  qed
qed

lemma share_step_safe: "share_step encrypt decrypt lower th idle d d' \<Longrightarrow> wf_uploads d \<Longrightarrow> quota_safe d d'"
  by (induction rule: share_step.induct)
    (auto intro: create_safe rename_safe deactivate_safe
      elim!: session_transaction_safe intro: set_active_safe controls_safe delete_share_step_safe set_password_safe)

lemma environment_safe:
  assumes "wf_uploads d" "shares d' = shares d" "grants d' = grants d" "leases d' = leases d"
    "upload_usage d' = upload_usage d" "upload_reservations d' = upload_reservations d"
    "wf_operations (upload_operations d')" "wf_audit (audit d')"
  shows "quota_safe d d'"
  using quota_safe_refl[OF assms(1)] by (rule quota_safe_frame)
    (use assms share_refs_cong[OF assms(2)] in \<open>auto simp: wf_uploads_def wf_store_def\<close>)

lemma system_step_safe:
  "system_step encrypt decrypt lower th month idle d d' \<Longrightarrow> wf_uploads d \<Longrightarrow> quota_safe d d'"
  by (induction rule: system_step.induct)
    (auto intro: transfer_safe transfer_step_refines_ledger_lemma wf_uploads_store upload_safe
      upload_step_refines_ledgers share_step_safe environment_safe)

section \<open>The ledgers on the whole system\<close>

interpretation system_bytes: ledger_client wf_uploads "system_step encrypt decrypt lower th month idle"
  "\<lambda>d. fst (byte_ledger d i)" "\<lambda>d. snd (byte_ledger d i)" "\<lambda>d. byte_limit d i"
  for encrypt decrypt lower th month idle i
  by unfold_locales (auto dest!: system_step_safe simp: quota_safe_def bytes_fit_def)

interpretation system_files: ledger_client wf_uploads "system_step encrypt decrypt lower th month idle"
  "\<lambda>d. fst (file_ledger d i)" "\<lambda>d. snd (file_ledger d i)" "\<lambda>d. file_limit d i"
  for encrypt decrypt lower th month idle i
  by unfold_locales (auto dest!: system_step_safe simp: quota_safe_def files_fit_def)

interpretation system_downloads: ledger_client wf_uploads "system_step encrypt decrypt lower th month idle"
  "\<lambda>d. fst (download_ledger d i)" "\<lambda>d. snd (download_ledger d i)" "\<lambda>d. download_limit d i"
  for encrypt decrypt lower th month idle i
  by unfold_locales (auto dest!: system_step_safe simp: quota_safe_def downloads_fit_def)

section \<open>Properties\<close>

lemma empty_wf_uploads: "wf_uploads empty_db"
  by (simp add: empty_db_def wf_uploads_def wf_store_def share_refs_def wf_shares_def wf_grants_def
      wf_grant_identities_def wf_leases_def wf_usage_def wf_reservations_def wf_operations_def wf_audit_def)

text \<open>C1: however downloads, uploads, share administration and the rest of the program
  interleave, starting from a fresh store, no share ever exceeds a limit it has: completed plus
  started downloads stay within the download limit, stored plus reserved bytes within the upload
  size limit, stored files plus uploads in flight within the file limit; and this stays so when
  an administrator lowers a limit while uploads are running.\<close>

theorem quotas_never_exceeded:
  assumes "(system_step encrypt decrypt lower th month idle)\<^sup>*\<^sup>* empty_db d" and "s \<in> set (shares d)"
  shows "fits (sh_max_downloads s) (sh_download_count s + pending_grants d (sh_id s))
    \<and> fits (sh_max_upload_total_size s) (us_uploaded_bytes (usage_of d (sh_id s))
        + sql_sum (current_reservation d (sh_id s)) rs_reserved_bytes (upload_reservations d))
    \<and> fits (sh_max_upload_files s) (us_uploaded_files (usage_of d (sh_id s))
        + sql_count (current_reservation d (sh_id s)) (upload_reservations d))"
proof -
  have start: "fits (byte_limit empty_db i) n" "fits (file_limit empty_db i) n" "fits (download_limit empty_db i) n" for i n
    by (simp_all add: byte_limit_def file_limit_def download_limit_def empty_db_def share_by_id_def sql_first_def fits_def)
  note bytes = system_bytes.reachable_within[OF assms(1) empty_wf_uploads start(1), of "sh_id s"]
    and files = system_files.reachable_within[OF assms(1) empty_wf_uploads start(2), of "sh_id s"]
    and downloads = system_downloads.reachable_within[OF assms(1) empty_wf_uploads start(3), of "sh_id s"]
  have "share_by_id d (sh_id s) = Some s"
    using bytes assms(2) by (intro share_by_id_member) (auto simp: wf_uploads_def)
  then show ?thesis
    using bytes files downloads
    by (simp add: byte_limit_def file_limit_def download_limit_def byte_ledger_def file_ledger_def download_ledger_def)
qed

definition example_proof :: mfa_session_proof where
  "example_proof = \<lparr>prf_token_hash = lit ''s'', prf_admin_id = 1\<rparr>"

definition example_admin_db :: db where
  "example_admin_db = empty_db\<lparr>
     admins := [\<lparr>adm_id = 1, adm_username = lit ''root'', adm_password_hash = lit ''p'', adm_totp_key_id = 1,
       adm_totp_ciphertext = lit ''c'', adm_totp_generation = 1, adm_totp_enabled = True, adm_created_at = 0,
       adm_active = True\<rparr>],
     sessions := [\<lparr>ses_token_hash = lit ''s'', ses_admin_id = 1, ses_csrf_token = lit ''x'',
       ses_mfa_verified = True, ses_expires_at = 1000000000000, ses_last_activity_at = 1\<rparr>]\<rparr>"

definition example_spec :: share_spec where
  "example_spec = \<lparr>sp_alias = Some (lit ''docs''), sp_path = lit ''docs'', sp_is_dir = True,
     sp_permission = DownloadUpload, sp_expires = None, sp_max = Some 1, sp_upload_max = Some 50,
     sp_upload_total = Some 100, sp_upload_files = Some 2, sp_password_hash = None,
     sp_upload_conflict_strategy = Reject\<rparr>"

definition example_seal :: encrypt where
  "example_seal secret aad = Inr (1, secret)"

definition example_open :: decrypt where
  "example_open key_id ciphertext aad = Inr ciphertext"

definition example_ctx :: audit_context where
  "example_ctx = \<lparr>actor = lit ''root'', ctx_client_ip = None\<rparr>"

definition example_created :: "(int \<times> share) session_bound outcome" where
  "example_created = create_share_with_upload_limits_for_mfa_session example_seal example_open example_lower (\<lambda>x. x)
     example_proof 30 (lit ''tok'') example_spec example_ctx None 2 example_admin_db"

definition example_uploading :: db where
  "example_uploading = snd (extend_upload_reservation_up_to (\<lambda>x. x) [7] 40 60 20
     (snd (begin_upload_reservation (\<lambda>x. x) [7] 1 0 10 (snd example_created))))"

lemma reachable_wf:
  "(system_step encrypt decrypt lower th month idle)\<^sup>*\<^sup>* empty_db d \<Longrightarrow> wf_uploads d"
  by (induction rule: rtranclp_induct) (auto intro: empty_wf_uploads system_bytes.inv_step)

lemma example_uploading_reachable:
  "(system_step example_seal example_open example_lower (\<lambda>x. x) (\<lambda>_. lit ''2026-01'') 30)\<^sup>*\<^sup>* empty_db example_uploading"
  (is "?S\<^sup>*\<^sup>* _ _")
proof -
  have "?S empty_db example_admin_db"
    by (rule system_step.environment)
      (simp_all add: example_admin_db_def empty_db_def wf_operations_def wf_audit_def)
  moreover have "?S example_admin_db (snd example_created)"
    by (rule system_step.administer, rule share_step.create) (simp add: example_created_def prod_eq_iff)
  moreover have "?S (snd example_created) (snd (begin_upload_reservation (\<lambda>x. x) [7] 1 0 10 (snd example_created)))"
    by (rule system_step.upload, rule upload_step.begin_upload) (simp add: prod_eq_iff)
  moreover have "?S (snd (begin_upload_reservation (\<lambda>x. x) [7] 1 0 10 (snd example_created))) example_uploading"
    by (rule system_step.upload, rule upload_step.extend) (simp add: example_uploading_def prod_eq_iff)
  ultimately show ?thesis by (meson rtranclp.intros)
qed

theorem quotas_never_exceeded_witness:
  "(system_step example_seal example_open example_lower (\<lambda>x. x) (\<lambda>_. lit ''2026-01'') 30)\<^sup>*\<^sup>* empty_db example_uploading
   \<and> map sh_max_upload_total_size (shares example_uploading) = [Some 100]
   \<and> map rs_reserved_bytes (upload_reservations example_uploading) = [60]
   \<and> us_uploaded_files (usage_of example_uploading 1) + sql_count (current_reservation example_uploading 1)
        (upload_reservations example_uploading) \<le> 2"
proof -
  let ?s = "hd (shares example_uploading)"
  have "length (shares example_uploading) = 1" by code_simp
  then have mem: "?s \<in> set (shares example_uploading)" by (intro hd_in_set) auto
  have s: "sh_id ?s = 1" "sh_max_upload_files ?s = Some 2" by code_simp+
  have rows: "map sh_max_upload_total_size (shares example_uploading) = [Some 100]"
    "map rs_reserved_bytes (upload_reservations example_uploading) = [60]" by code_simp+
  have "us_uploaded_files (usage_of example_uploading 1) + sql_count (current_reservation example_uploading 1)
      (upload_reservations example_uploading) \<le> 2"
    using quotas_never_exceeded[OF example_uploading_reachable mem] unfolding s fits_def by simp
  then show ?thesis using example_uploading_reachable rows by blast
qed

end
