(* ===== verification/Share_Policy.thy ===== *)
theory Share_Policy
  imports Share_Safety
begin

text \<open>
  What an administrator's change to a share means for the uploads and sessions that depend on
  it: a change of policy starts a new epoch and thereby stops every upload in flight, a new
  password ends the unlock sessions, a deletion leaves no row behind; and a created share is
  found again by its token and its alias.
\<close>

lemma authorized_effect:
  assumes "required_transaction_for_mfa_session proof idle now ctx operation d = (Inr (Authorized x), d')"
  obtains evs d1 new where "operation d = Inr ((x, evs), d1)" "d' = d1\<lparr>audit := audit d1 @ new\<rparr>"
proof -
  obtain out evs d1 where op: "operation d = Inr ((out, evs), d1)"
    and fin: "commit_audited now ctx evs (Authorized out) d d1 = (Inr (Authorized x), d')"
    using assms by (auto simp: required_transaction_for_mfa_session_def split: if_splits sum.splits)
  from fin show thesis
  proof (cases rule: commit_audited_cases)
    case (committed new)
    then show thesis using that op by simp
  qed simp
qed

section \<open>Policy epochs\<close>

definition upload_policy ::
  "share_row \<Rightarrow> rstr \<times> bool \<times> permission \<times> bool \<times> rstr option \<times> upload_conflict_strategy \<times> nat option \<times> nat option" where
  "upload_policy s = (sh_relative_path s, sh_is_directory s, sh_permission s, sh_active s, sh_password_hash s,
     sh_upload_conflict_strategy s, sh_max_upload_total_size s, sh_max_upload_files s)"

definition policy_guard :: "db \<Rightarrow> db \<Rightarrow> bool" where
  "policy_guard d d' \<longleftrightarrow> set (upload_reservations d') \<subseteq> set (upload_reservations d)
     \<and> (\<forall>i s s'. share_by_id d i = Some s \<longrightarrow> share_by_id d' i = Some s' \<longrightarrow>
          upload_policy s' = upload_policy s \<or> sh_upload_policy_epoch s < sh_upload_policy_epoch s')"

lemma guard_frame:
  "policy_guard d d' \<Longrightarrow> shares d'' = shares d' \<Longrightarrow> set (upload_reservations d'') \<subseteq> set (upload_reservations d')
     \<Longrightarrow> policy_guard d d''"
  unfolding policy_guard_def share_by_id_def by auto

lemma guard_refl: "policy_guard d d"
  by (simp add: policy_guard_def)

lemma guard_commit:
  assumes "commit_audited now ctx evs out d d1 = (r, d')" "policy_guard d d1" shows "policy_guard d d'"
  using assms(1)
proof (cases rule: commit_audited_cases)
  case (committed new)
  then show ?thesis using guard_frame[OF assms(2), of d'] by simp
qed (simp add: guard_refl)

lemma guard_session:
  assumes "required_transaction_for_mfa_session proof idle now ctx operation d = (r, d')"
    and "\<And>x evs d1. operation d = Inr ((x, evs), d1) \<Longrightarrow> policy_guard d d1"
  shows "policy_guard d d'"
  using assms guard_commit guard_refl[of d]
  by (fastforce simp: required_transaction_for_mfa_session_def split: sum.splits if_splits)

lemma guard_update:
  assumes "\<And>s. sh_id (f s) = sh_id s"
    and "\<And>s. upload_policy (f s) = upload_policy s \<or> sh_upload_policy_epoch s < sh_upload_policy_epoch (f s)"
  shows "policy_guard d (d\<lparr>shares := sql_update P f (shares d)\<rparr>)"
proof -
  have "share_by_id (d\<lparr>shares := sql_update P f (shares d)\<rparr>) i
      = map_option (\<lambda>s. if P s then f s else s) (share_by_id d i)" for i
    unfolding share_by_id_def using sql_first_update[of "shares d" P "\<lambda>s. sh_id s = i" f] assms(1) by simp
  then show ?thesis using assms(2) by (auto simp: policy_guard_def)
qed

lemma controlled_policy:
  "upload_policy (controlled_share active strategy limits s) = upload_policy s
     \<or> sh_upload_policy_epoch s < sh_upload_policy_epoch (controlled_share active strategy limits s)"
  by (auto simp: controlled_share_def controls_change_def upload_policy_def coalesce_def split: option.splits prod.splits)

lemma insert_share_guard: "insert_share s d = Inr (i, d') \<Longrightarrow> policy_guard d d'"
  using insert_share_Inr(1)[of s d i d']
  by (auto simp: policy_guard_def share_by_id_def sql_first_append)

lemma create_guard:
  assumes "create_share_with_upload_limits_for_mfa_session encrypt decrypt lower th proof idle token sp ctx detail now d
      = (out, d')"
  shows "policy_guard d d'"
proof -
  consider "d' = d" | enc where "required_transaction_for_mfa_session proof idle now ctx
      (create_share decrypt (new_share_row lower (th token) enc sp (prf_admin_id proof) now) detail) d = (out, d')"
    using assms unfolding create_share_with_upload_limits_for_mfa_session_def by (auto split: if_splits sum.splits)
  then show ?thesis
  proof cases
    case 2
    then show ?thesis
    proof (rule guard_session)
      fix x evs d1
      assume "create_share decrypt (new_share_row lower (th token) enc sp (prf_admin_id proof) now) detail d
        = Inr ((x, evs), d1)"
      then show "policy_guard d d1"
        using insert_share_guard[OF create_share_cases(1), of decrypt _ detail d "fst x" "snd x" evs d1] by simp
    qed
  qed (simp add: guard_refl)
qed

lemma controls_guard:
  assumes "update_share_controls decrypt i active strategy limits evs now d = Inr ((x, evs'), d')"
  shows "policy_guard d d'"
proof -
  obtain out share where x: "x = (out, share)" by (cases x)
  have sub: "set (upload_reservations (expire_reservations now d)) \<subseteq> set (upload_reservations d)"
    by (auto simp: expire_reservations_def)
  from assms[unfolded x] show ?thesis
  proof (cases rule: controls_cases)
    case unchanged
    then show ?thesis using guard_frame[OF guard_refl, of d'] sub by (simp add: expire_reservations_def)
  next
    case (updated s)
    have "policy_guard d (d\<lparr>shares := sql_update (\<lambda>s. sh_id s = i) (controlled_share active strategy limits) (shares d)\<rparr>)"
      by (rule guard_update) (simp_all add: controlled_policy, simp add: controlled_share_def)
    then show ?thesis by (rule guard_frame) (use sub in \<open>auto simp: updated(3)\<close>)
  qed
qed

lemma delete_guard: "delete_share i d = Inr ((x, evs), d') \<Longrightarrow> policy_guard d d'"
proof -
  assume "delete_share i d = Inr ((x, evs), d')"
  then have d': "d' = delete_shares (\<lambda>s. sh_id s = i) d" by (simp add: delete_share_def Let_def)
  have "share_by_id d' j = Some s' \<Longrightarrow> share_by_id d j = Some s'" for j s'
    using sql_first_delete_other[of "shares d" "\<lambda>s. sh_id s = j" "\<lambda>s. sh_id s = i"]
    unfolding share_by_id_def d' delete_shares_simps by (cases "j = i") (auto dest: sql_first_Some)
  then show ?thesis unfolding policy_guard_def by (fastforce simp: d' delete_shares_simps)
qed

lemma password_guard: "set_share_password i hash action d = Inr ((x, evs), d') \<Longrightarrow> policy_guard d d'"
proof -
  let ?f = "\<lambda>s. s\<lparr>sh_upload_policy_epoch := sh_upload_policy_epoch s + 1, sh_password_hash := hash\<rparr>"
  assume "set_share_password i hash action d = Inr ((x, evs), d')"
  moreover have "policy_guard d (d\<lparr>shares := sql_update (\<lambda>s. sh_id s = i) ?f (shares d)\<rparr>)"
    by (rule guard_update) simp_all
  ultimately show ?thesis by (auto simp: set_share_password_def Let_def elim!: guard_frame)
qed

lemma active_guard: "set_share_active i active action d = Inr ((x, evs), d') \<Longrightarrow> policy_guard d d'"
  by (auto simp: set_share_active_def Let_def upload_policy_def intro!: guard_update split: if_splits)

lemma rename_guard:
  "rename_share_paths_and_audit lower old_path new_path dir ctx recovery now d = (n, d') \<Longrightarrow> policy_guard d d'"
  unfolding rename_share_paths_and_audit_def rename_share_paths_in_transaction_def Let_def split
  by (erule guard_commit) (auto intro!: guard_update simp: moved_share_def)

lemma deactivate_guard:
  "deactivate_shares_for_path_and_audit path dir ctx recovery cleanup now d = (n, d') \<Longrightarrow> policy_guard d d'"
  unfolding deactivate_shares_for_path_and_audit_def deactivate_shares_for_path_in_transaction_def Let_def split
  by (erule guard_commit) (auto intro!: guard_update simp: deactivated_share_def)

lemma share_step_guard: "share_step encrypt decrypt lower th idle d d' \<Longrightarrow> policy_guard d d'"
  by (induction rule: share_step.induct)
    (auto intro: create_guard rename_guard deactivate_guard elim!: guard_session
      intro: active_guard controls_guard delete_guard password_guard)

text \<open>C2: a change of policy stops the uploads in flight. After any administrative step that
  removes the share or changes its path, permission, activation, password, conflict strategy or
  upload limits, an upload reserved before that step can be neither extended nor committed, at
  whatever time it tries, and nothing is charged for it.\<close>

theorem policy_change_stops_uploads:
  assumes wf: "wf_uploads d" and step: "share_step encrypt decrypt lower th idle d d'"
    and s: "share_by_id d (rs_share_id r) = Some s"
    and changed: "case share_by_id d' (rs_share_id r) of None \<Rightarrow> True
       | Some s' \<Rightarrow> upload_policy s' \<noteq> upload_policy s"
    and r: "r \<in> set (upload_reservations d)" "rs_token_hash r = th token"
    and commit: "commit_upload_reservation th token bytes dirs ra oh now d' = (out, d'')"
    and extend: "extend_upload_reservation_up_to th token minimum preferred now' d' = (out', d''')"
  shows "out \<noteq> Inr Committed \<and> upload_usage d'' = upload_usage d'
    \<and> (\<forall>n. out' \<noteq> Inr (reservation_extend_outcome.Extended, n))"
proof -
  note guard = share_step_guard[OF step]
  have stale: "available_upload_share_total_limit (rs_share_id x) (rs_upload_policy_epoch x) t (expire_reservations t' d') = None"
    if x: "sql_first (\<lambda>r. rs_token_hash r = th token) (upload_reservations (expire_reservations t' d')) = Some x" for x t t'
  proof -
    have "x \<in> set (upload_reservations d)" "rs_token_hash x = th token"
      using sql_first_Some[OF x] guard by (auto simp: policy_guard_def expire_reservations_def)
    then have xr: "x = r"
      using r reservation_table.unique[OF wf_storeD(6)[OF wf_uploads_store[OF wf]]] by metis
    have "rs_upload_policy_epoch r \<le> sh_upload_policy_epoch s"
      using wf r(1) share_by_id_Some[OF s] by (auto simp: wf_uploads_def)
    then have "\<forall>s'. share_by_id d' (rs_share_id r) = Some s' \<longrightarrow> rs_upload_policy_epoch r < sh_upload_policy_epoch s'"
      using guard s changed by (fastforce simp: policy_guard_def)
    moreover have "wf_store d'" using share_step_safe[OF step wf] by (simp add: quota_safe_def wf_uploads_store)
    ultimately have "\<forall>s'\<in>set (shares d'). sh_id s' = rs_share_id r \<longrightarrow> sh_upload_policy_epoch s' \<noteq> rs_upload_policy_epoch r"
      using share_by_id_member[of d'] by (metis nat_less_le)
    then have "sql_first (\<lambda>s. sh_id s = rs_share_id r \<and> sh_upload_policy_epoch s = rs_upload_policy_epoch r
        \<and> sh_active s \<and> unexpired (sh_expires_at s) t \<and> sh_is_directory s
        \<and> sh_permission s \<in> set [UploadOnly, DownloadUpload] \<and> sh_max_upload_files s \<noteq> None)
        (shares (expire_reservations t' d')) = None"
      by (auto simp: sql_first_None expire_reservations_def)
    then show ?thesis unfolding xr available_upload_share_total_limit_def by simp
  qed
  have "out \<noteq> Inr Committed \<and> upload_usage d'' = upload_usage d'"
    using commit
  proof (cases rule: commit_cases)
    case (settled x ops)
    then show ?thesis using stale[OF settled(1)] by simp
  qed (auto simp: expire_reservations_def delete_reservation_def)
  moreover have "out' \<noteq> Inr (reservation_extend_outcome.Extended, n)" for n
    using extend stale unfolding extend_upload_reservation_up_to_def Let_def
    by (auto split: if_splits option.splits)
  ultimately show ?thesis by blast
qed

definition example_deactivated :: "bool session_bound outcome" where
  "example_deactivated = required_transaction_for_mfa_session example_proof 30 22 example_ctx
     (set_share_active 1 False ShareDeactivated) example_uploading"

theorem policy_change_stops_uploads_witness:
  "fst example_deactivated = Inr (Authorized True)
   \<and> fst (commit_upload_reservation (\<lambda>x. x) [7] 30 0 None None 23 (snd example_deactivated)) \<noteq> Inr Committed"
proof -
  let ?r = "hd (upload_reservations example_uploading)" and ?s = "hd (shares example_uploading)"
    and ?c = "commit_upload_reservation (\<lambda>x. x) [7] 30 0 None None 23 (snd example_deactivated)"
    and ?e = "extend_upload_reservation_up_to (\<lambda>x. x) [7] 70 70 23 (snd example_deactivated)"
  have step: "share_step example_seal example_open example_lower (\<lambda>x. x) 30 example_uploading (snd example_deactivated)"
    by (rule share_step.set_active) (simp add: example_deactivated_def prod_eq_iff)
  have out: "fst example_deactivated = Inr (Authorized True)" by code_simp
  have "length (upload_reservations example_uploading) = 1" "length (shares example_uploading) = 1" by code_simp+
  then have mem: "?r \<in> set (upload_reservations example_uploading)" "?s \<in> set (shares example_uploading)"
    by (auto intro!: hd_in_set)
  have ids: "rs_token_hash ?r = [7]" "rs_share_id ?r = 1" "sh_id ?s = 1" by code_simp+
  have s: "share_by_id example_uploading (rs_share_id ?r) = Some ?s"
    using share_by_id_member[OF wf_uploads_store[OF reachable_wf[OF example_uploading_reachable]] mem(2)] ids by simp
  have changed: "case share_by_id (snd example_deactivated) (rs_share_id ?r) of None \<Rightarrow> True
      | Some s' \<Rightarrow> upload_policy s' \<noteq> upload_policy ?s"
    unfolding ids by code_simp
  have "?c = (fst ?c, snd ?c)" "?e = (fst ?e, snd ?e)" by simp_all
  from policy_change_stops_uploads[OF reachable_wf[OF example_uploading_reachable] step s changed mem(1) ids(1) this]
  show ?thesis using out by blast
qed



text \<open>a created share is found again. With encryption that decrypts what it encrypted,
  the share that creation returns is what a lookup by its token, by its id and by its alias
  returns; it carries the token, the path, the permission, the limits and the password it was
  created with, is active and has no downloads or uploads yet.\<close>

theorem created_share_is_found:
  assumes wf: "wf_store d"
    and crypto: "\<And>secret aad k c. encrypt secret aad = Inr (k, c) \<Longrightarrow> decrypt k c aad = Inr secret"
    and eq: "create_share_with_upload_limits_for_mfa_session encrypt decrypt lower th proof idle token sp ctx detail now d
      = (Inr (Authorized (i, share)), d')"
  shows "share_by_token decrypt th token d' = Inr (Some share)
    \<and> share_by_id_in_transaction decrypt i d' = Inr (Some share)
    \<and> (\<forall>a. sp_alias sp = Some a \<longrightarrow> share_by_alias decrypt a d' = Inr (Some share))
    \<and> shr_id share = i \<and> shr_token share = token \<and> shr_relative_path share = sp_path sp
    \<and> shr_permission share = sp_permission sp \<and> shr_max_downloads share = sp_max sp
    \<and> shr_max_upload_total_size share = sp_upload_total sp \<and> shr_max_upload_files share = sp_upload_files sp
    \<and> shr_password_hash share = sp_password_hash sp \<and> shr_active share
    \<and> shr_download_count share = 0 \<and> shr_uploaded_bytes share = 0 \<and> shr_uploaded_files share = 0"
proof -
  obtain k c where enc: "encrypt token (share_token_aad (th token)) = Inr (k, c)"
    and tr: "required_transaction_for_mfa_session proof idle now ctx
      (create_share decrypt (new_share_row lower (th token) (k, c) sp (prf_admin_id proof) now) detail) d
      = (Inr (Authorized (i, share)), d')"
    using eq unfolding create_share_with_upload_limits_for_mfa_session_def by (auto split: if_splits sum.splits)
  define row where "row = new_share_row lower (th token) (k, c) sp (prf_admin_id proof) now"
  obtain evs d1 new where cr: "create_share decrypt row detail d = Inr (((i, share), evs), d1)"
    and d': "d' = d1\<lparr>audit := audit d1 @ new\<rparr>"
    using tr unfolding row_def[symmetric] by (elim authorized_effect) auto
  note ins = insert_share_Inr[OF create_share_cases(1)[OF cr]]
  define r where "r = row\<lparr>sh_id := i\<rparr>"
  have sh: "shares d' = shares d @ [r]" and us: "upload_usage d' = upload_usage d" by (simp_all add: d' ins(1) r_def)
  have old: "\<forall>x\<in>set (shares d). sh_id x \<noteq> i \<and> sh_token_hash x \<noteq> th token
      \<and> (sp_alias sp \<noteq> None \<longrightarrow> sh_alias x \<noteq> sp_alias sp)"
    using ins(2,4) by (auto simp: share_refs_def row_def new_share_row_def)
  have found: "sql_first P (shares d') = Some r" if "P r" "\<forall>x\<in>set (shares d). \<not> P x" for P
    using that by (simp add: sh sql_first_append sql_first_None[THEN iffD2])
  have "usage_of d1 = usage_of d'" by (simp add: fun_eq_iff usage_of_def d')
  then have "map_share decrypt d1 r = map_share decrypt d' r" by (simp add: map_share_def split: sum.splits)
  moreover have "share_by_id_in_transaction decrypt i d1 = Inr (Some share)" by (rule create_share_cases(2)[OF cr])
  moreover have "shares d1 = shares d'" by (simp add: d')
  ultimately have ms: "map_share decrypt d' r = Inr share"
    using found[of "\<lambda>s. sh_id s = i"] old
    by (auto simp: share_by_id_in_transaction_def query_share_def r_def split: sum.splits)
  have by_id: "share_by_id_in_transaction decrypt i d' = Inr (Some share)"
    using found[of "\<lambda>s. sh_id s = i"] old ms by (simp add: share_by_id_in_transaction_def query_share_def r_def)
  have by_token: "share_by_token decrypt th token d' = Inr (Some share)"
    using found[of "\<lambda>s. sh_token_hash s = th token"] old ms
    by (simp add: share_by_token_def query_share_def r_def row_def new_share_row_def)
  have by_alias: "share_by_alias decrypt a d' = Inr (Some share)" if "sp_alias sp = Some a" for a
    using found[of "\<lambda>s. sh_alias s = Some a"] old ms that
    by (simp add: share_by_alias_def query_share_def r_def row_def new_share_row_def)
  have "usage_of d' i = usage_of d i" by (simp add: usage_of_def us)
  then have "shr_id share = i \<and> shr_token share = token \<and> shr_relative_path share = sp_path sp
    \<and> shr_permission share = sp_permission sp \<and> shr_max_downloads share = sp_max sp
    \<and> shr_max_upload_total_size share = sp_upload_total sp \<and> shr_max_upload_files share = sp_upload_files sp
    \<and> shr_password_hash share = sp_password_hash sp \<and> shr_active share
    \<and> shr_download_count share = 0 \<and> shr_uploaded_bytes share = 0 \<and> shr_uploaded_files share = 0"
    using ms crypto[OF enc] fresh_share_unused(1)[OF wf ins(2)]
    by (auto simp: map_share_def r_def row_def new_share_row_def)
  then show ?thesis using by_id by_token by_alias by simp
qed

theorem created_share_is_found_witness:
  "\<exists>share d'. example_created = (Inr (Authorized (1, share)), d')
     \<and> share_by_token example_open (\<lambda>x. x) (lit ''tok'') d' = Inr (Some share) \<and> shr_token share = lit ''tok''"
proof -
  have "case fst example_created of Inr (Authorized (i, _)) \<Rightarrow> i = 1 | _ \<Rightarrow> False" by code_simp
  then obtain share where r: "example_created = (Inr (Authorized (1, share)), snd example_created)"
    by (auto split: sum.splits session_bound.splits) (metis prod.collapse)
  have wf: "wf_store example_admin_db"
    by (simp add: example_admin_db_def empty_db_def wf_store_def share_refs_def wf_shares_def wf_grants_def
      wf_grant_identities_def wf_leases_def wf_usage_def wf_reservations_def wf_operations_def wf_audit_def)
  have crypto: "example_seal secret aad = Inr (k, c) \<Longrightarrow> example_open k c aad = Inr secret" for secret aad k c
    by (simp add: example_seal_def example_open_def)
  show ?thesis
    using created_share_is_found[OF wf crypto r[unfolded example_created_def]] r by (auto simp: example_created_def)
qed

end
