(* ===== verification/Runtime_Settings.thy ===== *)
theory Runtime_Settings
  imports Configuration Share_Policy "HOL-Library.List_Lexorder" "HOL-Library.Multiset"
begin

text \<open>
  Settings an administrator edits while the server runs (\<open>src/src/runtime.rs\<close>,
  \<open>src/src/db/runtime_settings.rs\<close>, \<open>commit_runtime_settings\<close> in \<open>src/src/http_auth/runtime.rs\<close>,
  \<open>settings_snapshot\<close> in \<open>src/src/state/runtime.rs\<close>, \<open>runtime_settings_from_persisted\<close> in
  \<open>src/src/lib.rs\<close>): parsing and validating them, storing them as text, publishing them in memory
  together with the commit, and reading them back at the next start. The service for security
  keys is a parameter of type \<open>'w\<close> that \<open>make_webauthn\<close> builds from the public URL.
\<close>

section \<open>Settings\<close>

record settings =
  rt_public_base_url :: rstr
  rt_max_upload_size :: nat
  rt_blocked_extensions :: "rstr list"
  rt_share_password_min_length :: nat
  rt_share_password_max_length :: nat
  rt_share_unlock_minutes :: int
  rt_max_zip_size :: nat
  rt_max_zip_files :: nat
  rt_max_search_entries :: nat
  rt_max_search_results :: nat
  rt_max_preview_size :: nat
  rt_preview_extensions :: "rstr list"
  rt_image_preview_extensions :: "rstr list"
  rt_pdf_preview_enabled :: bool
  rt_max_media_preview_size :: nat
  rt_audit_client_ip_enabled :: bool

definition k_public_base_url :: rstr where
  "k_public_base_url = lit ''public_base_url''"

definition k_max_upload_size :: rstr where
  "k_max_upload_size = lit ''max_upload_size''"

definition k_blocked_extensions :: rstr where
  "k_blocked_extensions = lit ''blocked_extensions''"

definition k_share_password_min_length :: rstr where
  "k_share_password_min_length = lit ''share_password_min_length''"

definition k_share_password_max_length :: rstr where
  "k_share_password_max_length = lit ''share_password_max_length''"

definition k_share_unlock_minutes :: rstr where
  "k_share_unlock_minutes = lit ''share_unlock_minutes''"

definition k_max_zip_size :: rstr where
  "k_max_zip_size = lit ''max_zip_size''"

definition k_max_zip_files :: rstr where
  "k_max_zip_files = lit ''max_zip_files''"

definition k_max_search_entries :: rstr where
  "k_max_search_entries = lit ''max_search_entries''"

definition k_max_search_results :: rstr where
  "k_max_search_results = lit ''max_search_results''"

definition k_max_preview_size :: rstr where
  "k_max_preview_size = lit ''max_preview_size''"

definition k_preview_extensions :: rstr where
  "k_preview_extensions = lit ''preview_extensions''"

definition k_image_preview_extensions :: rstr where
  "k_image_preview_extensions = lit ''image_preview_extensions''"

definition k_pdf_preview_enabled :: rstr where
  "k_pdf_preview_enabled = lit ''pdf_preview_enabled''"

definition k_max_media_preview_size :: rstr where
  "k_max_media_preview_size = lit ''max_media_preview_size''"

definition k_audit_client_ip_enabled :: rstr where
  "k_audit_client_ip_enabled = lit ''audit_client_ip_enabled''"

definition changed_keys :: "settings \<Rightarrow> settings \<Rightarrow> rstr list" where
  "changed_keys s t =
     (let changed = (\<lambda>b k. if b then [k] else []) in
      changed (rt_public_base_url s \<noteq> rt_public_base_url t) k_public_base_url
      @ changed (rt_max_upload_size s \<noteq> rt_max_upload_size t) k_max_upload_size
      @ changed (rt_blocked_extensions s \<noteq> rt_blocked_extensions t) k_blocked_extensions
      @ changed (rt_share_password_min_length s \<noteq> rt_share_password_min_length t) k_share_password_min_length
      @ changed (rt_share_password_max_length s \<noteq> rt_share_password_max_length t) k_share_password_max_length
      @ changed (rt_share_unlock_minutes s \<noteq> rt_share_unlock_minutes t) k_share_unlock_minutes
      @ changed (rt_max_zip_size s \<noteq> rt_max_zip_size t) k_max_zip_size
      @ changed (rt_max_zip_files s \<noteq> rt_max_zip_files t) k_max_zip_files
      @ changed (rt_max_search_entries s \<noteq> rt_max_search_entries t) k_max_search_entries
      @ changed (rt_max_search_results s \<noteq> rt_max_search_results t) k_max_search_results
      @ changed (rt_max_preview_size s \<noteq> rt_max_preview_size t) k_max_preview_size
      @ changed (rt_preview_extensions s \<noteq> rt_preview_extensions t) k_preview_extensions
      @ changed (rt_image_preview_extensions s \<noteq> rt_image_preview_extensions t) k_image_preview_extensions
      @ changed (rt_pdf_preview_enabled s \<noteq> rt_pdf_preview_enabled t) k_pdf_preview_enabled
      @ changed (rt_max_media_preview_size s \<noteq> rt_max_media_preview_size t) k_max_media_preview_size
      @ changed (rt_audit_client_ip_enabled s \<noteq> rt_audit_client_ip_enabled t) k_audit_client_ip_enabled)"


section \<open>Parsing values\<close>






fun split_any :: "(nat \<Rightarrow> bool) \<Rightarrow> rstr \<Rightarrow> rstr list" where
  "split_any P [] = [[]]"
| "split_any P (c # cs) =
     (if P c then [] # split_any P cs
      else (case split_any P cs of [] \<Rightarrow> [[c]] | p # ps \<Rightarrow> (c # p) # ps))"






definition extension_is_blocked :: "rstr \<Rightarrow> rstr list \<Rightarrow> bool" where
  "extension_is_blocked name blocked =
     (let extension = (case path_extension name of None \<Rightarrow> [] | Some e \<Rightarrow> e) in
      list_ex (\<lambda>v. eq_ignore_ascii_case (dropWhile (\<lambda>c. c = 46) v) extension) blocked)"


section \<open>Applying and validating\<close>










section \<open>Storing\<close>








section \<open>Publishing\<close>








section \<open>Canonical settings\<close>




lemma digit_not_space: "ascii_digit c \<Longrightarrow> \<not> is_whitespace c"
  by (auto simp: ascii_digit_def is_whitespace_def)

lemma dropWhile_hd: "xs = [] \<or> \<not> P (hd xs) \<Longrightarrow> dropWhile P xs = xs"
  by (cases xs) auto

lemma trim_end_id: "xs = [] \<or> \<not> P (last xs) \<Longrightarrow> trim_end_matches P xs = xs"
  by (cases xs rule: rev_cases) (auto simp: trim_end_matches_def)

lemma str_trim_plain: "list_all (\<lambda>c. \<not> is_whitespace c) s \<Longrightarrow> str_trim s = s"
proof -
  assume a: "list_all (\<lambda>c. \<not> is_whitespace c) s"
  then have "s = [] \<or> \<not> is_whitespace (hd s)" "s = [] \<or> \<not> is_whitespace (last s)"
    by (auto simp: list_all_iff)
  then show ?thesis by (simp add: str_trim_def dropWhile_hd trim_end_id)
qed

lemma str_trim_dec_nat [simp]: "str_trim (dec_nat n) = dec_nat n"
  using dec_nat_digits[of n] by (intro str_trim_plain) (auto simp: list_all_iff digit_not_space)






section \<open>Extension lists\<close>

lemma split_any_not_Nil [simp]: "split_any P s \<noteq> []"
  by (induction s) (auto split: list.splits)










section \<open>Edits keep settings canonical\<close>













section \<open>Stored settings\<close>














section \<open>Commit and restart\<close>









end
