(* ===== verification/Upload_Policy.thy ===== *)
theory Upload_Policy
  imports Runtime_Settings
begin

text \<open>
  The upload, preview and password policies that the HTTP adapters and the services share
  (\<open>src/src/policy.rs\<close>): the conflict strategy of a share, the structure of an upload form,
  the target of a public upload, the availability of a share and the kind of a preview.
\<close>

section \<open>Conflict strategy\<close>

datatype share_upload_policy_error =
  UploadPermissionRequiresDirectory | OverwriteRequiresDirectoryUpload | OverwriteDisabledForExternalWriters

definition share_upload_conflict_strategy ::
  "bool \<Rightarrow> permission \<Rightarrow> bool \<Rightarrow> bool \<Rightarrow> share_upload_policy_error + upload_conflict_strategy" where
  "share_upload_conflict_strategy is_directory permission overwrite_requested external_writers =
     (if can_upload permission \<and> \<not> is_directory then Inl UploadPermissionRequiresDirectory
      else if \<not> overwrite_requested then Inr Reject
      else if external_writers then Inl OverwriteDisabledForExternalWriters
      else if \<not> is_directory \<or> \<not> can_upload permission then Inl OverwriteRequiresDirectoryUpload
      else Inr OverwriteAllowed)"

section \<open>The fields of an upload form\<close>

datatype upload_form_field = UploadId | Path | FolderPath | Overwrite | Csrf | File | Unknown

datatype upload_form_state_error =
  TooManyFields | DuplicateOrLatePath | DuplicateOrLateFolderPath | DuplicateOverwrite
  | DuplicateOrLateCsrf | DuplicateOrLateUploadId | MultipleFiles | UnknownField

record upload_form_state =
  fields_seen :: nat
  saw_path :: bool
  saw_folder_path :: bool
  saw_overwrite :: bool
  saw_csrf :: bool
  saw_file :: bool
  saw_upload_id :: bool

definition default_form_state :: upload_form_state where
  "default_form_state = \<lparr>fields_seen = 0, saw_path = False, saw_folder_path = False, saw_overwrite = False,
     saw_csrf = False, saw_file = False, saw_upload_id = False\<rparr>"

definition observe :: "upload_form_state \<Rightarrow> upload_form_field \<Rightarrow> nat \<Rightarrow> (upload_form_state_error + unit) \<times> upload_form_state" where
  "observe st field maximum_fields =
     (let st = st\<lparr>fields_seen := saturating_add (fields_seen st) 1\<rparr> in
      if maximum_fields < fields_seen st then (Inl TooManyFields, st)
      else case field of
        UploadId \<Rightarrow> (if saw_upload_id st \<or> saw_file st then Inl DuplicateOrLateUploadId else Inr (), st\<lparr>saw_upload_id := True\<rparr>)
      | Path \<Rightarrow> (if saw_path st \<or> saw_file st then Inl DuplicateOrLatePath else Inr (), st\<lparr>saw_path := True\<rparr>)
      | FolderPath \<Rightarrow>
          (if saw_folder_path st \<or> saw_file st then Inl DuplicateOrLateFolderPath else Inr (), st\<lparr>saw_folder_path := True\<rparr>)
      | Overwrite \<Rightarrow> (if saw_overwrite st then Inl DuplicateOverwrite else Inr (), st\<lparr>saw_overwrite := True\<rparr>)
      | Csrf \<Rightarrow> (if saw_csrf st \<or> saw_file st then Inl DuplicateOrLateCsrf else Inr (), st\<lparr>saw_csrf := True\<rparr>)
      | File \<Rightarrow> (if saw_file st then Inl MultipleFiles else Inr (), st\<lparr>saw_file := True\<rparr>)
      | Unknown \<Rightarrow> (Inl UnknownField, st))"

text \<open>A form as the adapters read it: field after field, up to the first error.\<close>

fun observe_fields :: "upload_form_state \<Rightarrow> upload_form_field list \<Rightarrow> nat \<Rightarrow> upload_form_state_error + upload_form_state" where
  "observe_fields st [] maximum_fields = Inr st"
| "observe_fields st (f # fs) maximum_fields =
     (case observe st f maximum_fields of
        (Inl e, _) \<Rightarrow> Inl e
      | (Inr _, st') \<Rightarrow> observe_fields st' fs maximum_fields)"

section \<open>The target of a public upload\<close>

datatype public_upload_policy_error = ShareRejected | InvalidPath | InvalidFilename | BlockedExtension | TooLarge

definition backslash_to_slash :: "rstr \<Rightarrow> rstr" where
  "backslash_to_slash = map (\<lambda>c. if c = 92 then 47 else c)"

definition normalize_public_upload_subdir :: "permission \<Rightarrow> rstr \<Rightarrow> public_upload_policy_error + rstr" where
  "normalize_public_upload_subdir permission v =
     (if \<not> can_upload permission then Inl ShareRejected
      else if permission = UploadOnly then Inr []
      else case validate_relative v of
        Inl _ \<Rightarrow> Inl InvalidPath
      | Inr path \<Rightarrow> Inr (backslash_to_slash path))"

definition validate_public_upload_filename :: "rstr \<Rightarrow> rstr list \<Rightarrow> public_upload_policy_error + rstr" where
  "validate_public_upload_filename filename blocked_extensions =
     (case safe_admin_filename filename of
        Inl _ \<Rightarrow> Inl InvalidFilename
      | Inr n \<Rightarrow> if extension_is_blocked n blocked_extensions then Inl BlockedExtension else Inr n)"

definition add_upload_bytes :: "nat \<Rightarrow> nat \<Rightarrow> nat \<Rightarrow> public_upload_policy_error + nat" where
  "add_upload_bytes upload_total chunk maximum =
     (case checked_add upload_total chunk of
        None \<Rightarrow> Inl TooLarge
      | Some new_total \<Rightarrow> if new_total \<le> maximum then Inr new_total else Inl TooLarge)"

section \<open>Availability, passwords and previews\<close>

datatype share_availability = Available | Inactive | Expired | LimitReached

definition share_availability :: "share \<Rightarrow> instant \<Rightarrow> share_availability" where
  "share_availability s now =
     (if \<not> shr_active s then Inactive
      else if (case shr_expires_at s of None \<Rightarrow> False | Some expires \<Rightarrow> expires \<le> now) then Expired
      else if (case shr_max_downloads s of None \<Rightarrow> False | Some maximum \<Rightarrow> maximum \<le> shr_download_count s) then LimitReached
      else Available)"

definition MAX_PASSWORD_BYTES :: nat where
  "MAX_PASSWORD_BYTES = 1024"

datatype share_password_validation = PasswordValid | InvalidCharacterLength | TooManyBytes

definition validate_share_password :: "settings \<Rightarrow> rstr \<Rightarrow> share_password_validation" where
  "validate_share_password s password =
     (let characters = length password in
      if characters < rt_share_password_min_length s \<or> rt_share_password_max_length s < characters then InvalidCharacterLength
      else if MAX_PASSWORD_BYTES < str_len password then TooManyBytes
      else PasswordValid)"

definition valid_share_password :: "settings \<Rightarrow> rstr \<Rightarrow> bool" where
  "valid_share_password s password \<longleftrightarrow> validate_share_password s password = PasswordValid"

datatype preview_kind = Text | Image rstr | Pdf

definition content_type :: "preview_kind \<Rightarrow> rstr" where
  "content_type k =
     (case k of Text \<Rightarrow> lit ''text/plain; charset=utf-8'' | Image t \<Rightarrow> t | Pdf \<Rightarrow> lit ''application/pdf'')"

definition is_media :: "preview_kind \<Rightarrow> bool" where
  "is_media k = (case k of Image _ \<Rightarrow> True | Pdf \<Rightarrow> True | Text \<Rightarrow> False)"

definition image_content_type :: "rstr \<Rightarrow> rstr option" where
  "image_content_type extension =
     (if extension = lit ''jpg'' \<or> extension = lit ''jpeg'' then Some (lit ''image/jpeg'')
      else if extension = lit ''png'' then Some (lit ''image/png'')
      else if extension = lit ''gif'' then Some (lit ''image/gif'')
      else if extension = lit ''webp'' then Some (lit ''image/webp'')
      else if extension = lit ''bmp'' then Some (lit ''image/bmp'')
      else if extension = lit ''avif'' then Some (lit ''image/avif'')
      else None)"

definition preview_kind :: "rstr \<Rightarrow> settings \<Rightarrow> preview_kind option" where
  "preview_kind path s =
     (case path_extension path of
        None \<Rightarrow> None
      | Some raw \<Rightarrow>
          (let extension = to_ascii_lowercase (dropWhile (\<lambda>c. c = 46) raw) in
           if list_ex (\<lambda>allowed. eq_ignore_ascii_case allowed extension) (rt_preview_extensions s) then Some Text
           else if rt_pdf_preview_enabled s \<and> extension = lit ''pdf'' then Some Pdf
           else if list_ex (\<lambda>allowed. eq_ignore_ascii_case allowed extension) (rt_image_preview_extensions s)
             then map_option Image (image_content_type extension)
           else None))"

definition preview_allowed :: "rstr \<Rightarrow> settings \<Rightarrow> bool" where
  "preview_allowed path s \<longleftrightarrow> preview_kind path s \<noteq> None"

definition preview_metadata_allowed :: "rstr \<Rightarrow> settings \<Rightarrow> bool" where
  "preview_metadata_allowed path s =
     (let extension = to_ascii_lowercase (case path_extension path of None \<Rightarrow> [] | Some e \<Rightarrow> e) in
      extension \<in> set (rt_preview_extensions s)
      \<or> (rt_pdf_preview_enabled s \<and> extension = lit ''pdf'')
      \<or> extension \<in> set (rt_image_preview_extensions s))"

section \<open>Forms\<close>

text \<open>What a form may be: no unknown field, no field twice, and only the overwrite option after the file.\<close>

definition well_formed_form :: "upload_form_field list \<Rightarrow> bool" where
  "well_formed_form fs \<longleftrightarrow> Unknown \<notin> set fs \<and> distinct fs
     \<and> (\<forall>before after. fs = before @ File # after \<longrightarrow> set after \<subseteq> {Overwrite})"

lemma well_formed_snoc:
  "well_formed_form (fs @ [f]) \<longleftrightarrow> well_formed_form fs \<and> f \<noteq> Unknown \<and> f \<notin> set fs \<and> (File \<in> set fs \<longrightarrow> f = Overwrite)"
proof -
  have "(\<forall>before after. fs @ [f] = before @ File # after \<longrightarrow> set after \<subseteq> {Overwrite})
      \<longleftrightarrow> (\<forall>before after. fs = before @ File # after \<longrightarrow> set after \<subseteq> {Overwrite}) \<and> (File \<in> set fs \<longrightarrow> f = Overwrite)"
    (is "?l \<longleftrightarrow> ?r")
  proof
    assume l: ?l
    have "set after \<subseteq> {Overwrite} \<and> f = Overwrite" if "fs = before @ File # after" for before after
      using l[rule_format, of before "after @ [f]"] that by simp
    then show ?r by (metis split_list)
  next
    assume r: ?r
    show ?l
    proof (intro allI impI)
      fix before after
      assume a: "fs @ [f] = before @ File # after"
      show "set after \<subseteq> {Overwrite}"
      proof (cases after rule: rev_cases)
        case (snoc zs z)
        then have "fs = before @ File # zs" "f = z" using a by auto
        then show ?thesis using r snoc by auto
      qed simp
    qed
  qed
  then show ?thesis by (auto simp: well_formed_form_def)
qed

lemma well_formed_prefix: "well_formed_form (fs @ gs) \<Longrightarrow> well_formed_form fs"
  by (induction gs rule: rev_induct) (auto simp: well_formed_snoc simp flip: append_assoc)

lemma well_formed_short: "well_formed_form fs \<Longrightarrow> length fs \<le> 6"
proof -
  assume "well_formed_form fs"
  then have "distinct fs" "set fs \<subseteq> {UploadId, Path, FolderPath, Overwrite, Csrf, File}"
    using upload_form_field.exhaust by (auto simp: well_formed_form_def)
  moreover have "card {UploadId, Path, FolderPath, Overwrite, Csrf, File} = 6" by simp
  ultimately show ?thesis by (metis card_mono distinct_card finite.emptyI finite_insert)
qed

text \<open>The state that has seen a form.\<close>

definition form_state_of :: "upload_form_field list \<Rightarrow> upload_form_state" where
  "form_state_of fs = \<lparr>fields_seen = length fs, saw_path = (Path \<in> set fs), saw_folder_path = (FolderPath \<in> set fs),
     saw_overwrite = (Overwrite \<in> set fs), saw_csrf = (Csrf \<in> set fs), saw_file = (File \<in> set fs),
     saw_upload_id = (UploadId \<in> set fs)\<rparr>"

lemma observe_form:
  assumes "well_formed_form fs"
  shows "maximum_fields < length fs + 1 \<Longrightarrow> fst (observe (form_state_of fs) f maximum_fields) = Inl TooManyFields"
    "\<not> maximum_fields < length fs + 1 \<Longrightarrow> fst (observe (form_state_of fs) f maximum_fields) = Inr () \<longleftrightarrow> well_formed_form (fs @ [f])"
    "\<not> maximum_fields < length fs + 1 \<Longrightarrow> f \<noteq> Unknown \<Longrightarrow> snd (observe (form_state_of fs) f maximum_fields) = form_state_of (fs @ [f])"
proof -
  have seen: "saturating_add (length fs) 1 = length fs + 1"
    using well_formed_short[OF assms] by (simp add: saturating_add_exact u64_max_def)
  show "maximum_fields < length fs + 1 \<Longrightarrow> fst (observe (form_state_of fs) f maximum_fields) = Inl TooManyFields"
    using seen by (simp add: observe_def form_state_of_def Let_def)
  show "\<not> maximum_fields < length fs + 1 \<Longrightarrow> fst (observe (form_state_of fs) f maximum_fields) = Inr () \<longleftrightarrow> well_formed_form (fs @ [f])"
    using seen assms by (cases f) (auto simp: observe_def form_state_of_def Let_def well_formed_snoc)
  show "\<not> maximum_fields < length fs + 1 \<Longrightarrow> f \<noteq> Unknown \<Longrightarrow> snd (observe (form_state_of fs) f maximum_fields) = form_state_of (fs @ [f])"
    using seen by (cases f) (auto simp: observe_def form_state_of_def Let_def)
qed

lemma observe_fields_from:
  "well_formed_form fs \<Longrightarrow> length fs \<le> maximum_fields \<Longrightarrow>
     observe_fields (form_state_of fs) gs maximum_fields = Inr st
       \<longleftrightarrow> well_formed_form (fs @ gs) \<and> length (fs @ gs) \<le> maximum_fields \<and> st = form_state_of (fs @ gs)"
proof (induction gs arbitrary: fs)
  case (Cons g gs)
  note o = observe_form[OF Cons.prems(1), where f = g and maximum_fields = maximum_fields]
  show ?case
  proof (cases "maximum_fields < length fs + 1")
    case True
    then obtain st' where "observe (form_state_of fs) g maximum_fields = (Inl TooManyFields, st')"
      using o(1) by (metis prod.collapse)
    then show ?thesis using True by simp
  next
    case False
    show ?thesis
    proof (cases "well_formed_form (fs @ [g])")
      case True
      then have "g \<noteq> Unknown" by (simp add: well_formed_snoc)
      then have "observe (form_state_of fs) g maximum_fields = (Inr (), form_state_of (fs @ [g]))"
        using o(2,3)[OF False] True by (metis prod.collapse)
      then show ?thesis using Cons.IH[OF True] False by simp
    next
      case bad: False
      then obtain e st' where "observe (form_state_of fs) g maximum_fields = (Inl e, st')"
        using o(2)[OF False] by (metis old.sum.exhaust old.unit.exhaust prod.collapse)
      moreover have "\<not> well_formed_form (fs @ g # gs)" using bad well_formed_prefix[of "fs @ [g]" gs] by auto
      ultimately show ?thesis by simp
    qed
  qed
qed auto

text \<open>an upload form is accepted exactly when it is well formed. Reading the fields one by one
  succeeds iff there are at most the allowed number, none is unknown, none occurs twice and the path,
  folder, CSRF and upload id fields come before the file; the state then records exactly the fields
  seen, so that a form without a file is recognised.\<close>

theorem upload_form_exact:
  "observe_fields default_form_state fs maximum_fields = Inr st
     \<longleftrightarrow> well_formed_form fs \<and> length fs \<le> maximum_fields \<and> st = form_state_of fs"
proof -
  have "default_form_state = form_state_of []" by (simp add: default_form_state_def form_state_of_def)
  then show ?thesis using observe_fields_from[of "[]"] by (simp add: well_formed_form_def)
qed

section \<open>Targets\<close>

lemma backslash_to_slash_id [simp]: "92 \<notin> set s \<Longrightarrow> backslash_to_slash s = s"
  unfolding backslash_to_slash_def by (rule map_idI) auto

lemma normalize_public_upload_subdir_InrD:
  assumes "normalize_public_upload_subdir permission v = Inr dir"
  shows "can_upload permission" "permission = UploadOnly \<longrightarrow> dir = []" "\<exists>raw. validate_relative raw = Inr dir"
proof -
  have root: "validate_relative [] = Inr []" by code_simp
  have "92 \<notin> set p" if "validate_relative v = Inr p" for p
    using validate_relative_InrD[OF that] set_path_of[of "path_names v"] by fastforce
  then show "can_upload permission" "permission = UploadOnly \<longrightarrow> dir = []" "\<exists>raw. validate_relative raw = Inr dir"
    using assms root by (auto simp: normalize_public_upload_subdir_def split: if_splits sum.splits)
qed

text \<open>The policy and the database agree on which shares are available.\<close>

lemma share_availability_matches_sql:
  assumes "map_share decrypt d s = Inr share"
  shows "share_availability share now = Available \<longleftrightarrow> share_available now s"
  using assms by (auto simp: map_share_def share_availability_def share_available_def unexpired_def
      split: sum.splits option.splits)

lemma add_upload_bytes_Inr [simp]:
  "add_upload_bytes upload_total chunk maximum = Inr n \<longleftrightarrow> n = upload_total + chunk \<and> n \<le> maximum \<and> n \<le> u64_max"
  by (auto simp: add_upload_bytes_def checked_add_def split: if_splits)

text \<open>A preview is only ever sent with a content type from a fixed list.\<close>

lemma preview_content_type:
  assumes "preview_kind path s = Some k"
  shows "content_type k \<in> set [lit ''text/plain; charset=utf-8'', lit ''application/pdf'', lit ''image/jpeg'', lit ''image/png'',
    lit ''image/gif'', lit ''image/webp'', lit ''image/bmp'', lit ''image/avif'']"
proof -
  have img: "content_type (Image t) \<in> set [lit ''image/jpeg'', lit ''image/png'', lit ''image/gif'', lit ''image/webp'',
      lit ''image/bmp'', lit ''image/avif'']" if "image_content_type e = Some t" for e t
    using that unfolding image_content_type_def content_type_def by (auto simp del: lit_simps split: if_splits)
  have "k = Text \<or> k = Pdf \<or> (\<exists>e t. k = Image t \<and> image_content_type e = Some t)"
    using assms unfolding preview_kind_def Let_def by (auto simp del: lit_simps split: option.splits if_splits)
  then show ?thesis
  proof (elim disjE exE conjE)
    fix e t
    assume "k = Image t" "image_content_type e = Some t"
    then show ?thesis using img[of e t] unfolding list.set by blast
  qed (simp_all add: content_type_def del: lit_simps)
qed

end
