(* ===== verification/Upload_Form.thy ===== *)
theory Upload_Form
  imports Upload_Policy Upload_Quota
begin

text \<open>
  Reading a multipart upload and recognising its repetition: the upload id and the replay fingerprint
  (\<open>src/src/upload_operation.rs\<close>), the form parser, staging and fingerprint of public uploads
  (\<open>src/src/public_upload_transport/\<close>: \<open>multipart.rs\<close>, \<open>mod.rs\<close>, \<open>reservation.rs\<close>) and of
  administrator uploads (\<open>src/src/web/files/admin_upload_flow.rs\<close>, \<open>admin_upload.rs\<close>). The multipart
  library delivers a list of fields, each with the events of its body; the clock, the disk and the
  directory descriptors answer through the events and an environment record.
\<close>

section \<open>Texts\<close>

text \<open>\<open>String::from_utf8\<close>.\<close>

definition continuation :: "nat \<Rightarrow> bool" where
  "continuation b \<longleftrightarrow> 128 \<le> b \<and> b < 192"

fun from_utf8 :: "nat list \<Rightarrow> rstr option" where
  "from_utf8 [] = Some []"
| "from_utf8 (a # bs) =
     (if a < 128 then map_option ((#) a) (from_utf8 bs)
      else if a < 224 then
        (case bs of
           b # rest \<Rightarrow>
             (let v = (a - 192) * 64 + (b - 128) in
              if 192 \<le> a \<and> continuation b \<and> 128 \<le> v then map_option ((#) v) (from_utf8 rest) else None)
         | _ \<Rightarrow> None)
      else if a < 240 then
        (case bs of
           b # c # rest \<Rightarrow>
             (let v = (a - 224) * 4096 + (b - 128) * 64 + (c - 128) in
              if continuation b \<and> continuation c \<and> 2048 \<le> v \<and> \<not> (55296 \<le> v \<and> v \<le> 57343)
              then map_option ((#) v) (from_utf8 rest) else None)
         | _ \<Rightarrow> None)
      else
        (case bs of
           b # c # e # rest \<Rightarrow>
             (let v = (a - 240) * 262144 + (b - 128) * 4096 + (c - 128) * 64 + (e - 128) in
              if a < 248 \<and> continuation b \<and> continuation c \<and> continuation e \<and> 65536 \<le> v \<and> v \<le> 1114111
              then map_option ((#) v) (from_utf8 rest) else None)
         | _ \<Rightarrow> None))"

definition constant_time_eq :: "rstr \<Rightarrow> rstr \<Rightarrow> bool" where
  "constant_time_eq expected supplied \<longleftrightarrow> str_len expected = str_len supplied \<and> expected = supplied"

section \<open>Multipart bodies\<close>

datatype staged_file_error = FileTooLarge | CapacityUnavailable | InsufficientStorage | StorageFull | OtherIo

text \<open>A chunk with the clock readings and the answer of the disk when it is handled; a read error,
  which may be the request timeout.\<close>

record chunk =
  ck_bytes :: rstr
  ck_now :: instant
  ck_elapsed :: int
  ck_write :: "staged_file_error option"

datatype body_event = Chunk chunk | ReadError bool

record form_field =
  ff_name :: "rstr option"
  ff_file_name :: "rstr option"
  ff_body :: "body_event list"

record multipart =
  mp_fields :: "form_field list"
  mp_error :: "bool option"

datatype text_error = TextRead bool | TextInvalid

fun limited_multipart_text :: "nat \<Rightarrow> rstr \<Rightarrow> body_event list \<Rightarrow> text_error + rstr" where
  "limited_multipart_text maximum v [] = (case from_utf8 v of None \<Rightarrow> Inl TextInvalid | Some s \<Rightarrow> Inr s)"
| "limited_multipart_text maximum v (ReadError timed_out # es) = Inl (TextRead timed_out)"
| "limited_multipart_text maximum v (Chunk c # es) =
     (case checked_add (length v) (length (ck_bytes c)) of
        None \<Rightarrow> Inl TextInvalid
      | Some len \<Rightarrow> if maximum < len then Inl TextInvalid else limited_multipart_text maximum (v @ ck_bytes c) es)"

definition MAX_UPLOAD_PATH_FIELD_BYTES :: nat where
  "MAX_UPLOAD_PATH_FIELD_BYTES = 4 * 1024"

definition MAX_UPLOAD_OPTION_FIELD_BYTES :: nat where
  "MAX_UPLOAD_OPTION_FIELD_BYTES = 16"

section \<open>The upload id\<close>

datatype upload_prefix_kind = PrefixId | PrefixPath | PrefixFolderPath | PrefixOverwrite | PrefixCsrf

record upload_prefix_field =
  up_kind :: upload_prefix_kind
  up_value :: rstr

record upload_id_selection =
  sel_id :: rstr
  sel_prefix :: "upload_prefix_field list"

definition valid_upload_id :: "rstr \<Rightarrow> bool" where
  "valid_upload_id i \<longleftrightarrow> str_len i = 43 \<and> list_all (\<lambda>c. ascii_alphanumeric c \<or> c = 45 \<or> c = 95) i"

text \<open>\<open>limited_text\<close>, with the messages of \<open>upload_operation.rs\<close>.\<close>

fun limited_text :: "nat \<Rightarrow> rstr \<Rightarrow> body_event list \<Rightarrow> string + rstr" where
  "limited_text maximum v [] = (case from_utf8 v of None \<Rightarrow> Inl ''Invalid upload field'' | Some s \<Rightarrow> Inr s)"
| "limited_text maximum v (ReadError timed_out # es) = Inl ''Invalid upload field''"
| "limited_text maximum v (Chunk c # es) =
     (case checked_add (length v) (length (ck_bytes c)) of
        None \<Rightarrow> Inl ''Upload field is too large''
      | Some len \<Rightarrow> if maximum < len then Inl ''Upload field is too large'' else limited_text maximum (v @ ck_bytes c) es)"

definition n_upload_id :: rstr where "n_upload_id = lit ''upload_id''"
definition n_path :: rstr where "n_path = lit ''path''"
definition n_folder_path :: rstr where "n_folder_path = lit ''folder_path''"
definition n_overwrite_existing :: rstr where "n_overwrite_existing = lit ''overwrite_existing''"
definition n_csrf :: rstr where "n_csrf = lit ''csrf''"
definition n_file :: rstr where "n_file = lit ''file''"

definition prefix_kind :: "rstr option \<Rightarrow> string + upload_prefix_kind \<times> nat" where
  "prefix_kind name =
     (if name = Some n_upload_id then Inr (PrefixId, 64)
      else if name = Some n_path then Inr (PrefixPath, MAX_UPLOAD_PATH_FIELD_BYTES)
      else if name = Some n_folder_path then Inr (PrefixFolderPath, MAX_UPLOAD_PATH_FIELD_BYTES)
      else if name = Some n_overwrite_existing then Inr (PrefixOverwrite, MAX_UPLOAD_OPTION_FIELD_BYTES)
      else if name = Some n_csrf then Inr (PrefixCsrf, 512)
      else if name = Some n_file then Inl ''Upload ID must precede the file''
      else Inl ''Unknown multipart field'')"

text \<open>The loop of \<open>take_upload_id\<close>; the fields left in the multipart stream are returned with the
  selection.\<close>

fun take_prefix ::
  "form_field list \<Rightarrow> bool option \<Rightarrow> upload_prefix_field list \<Rightarrow> string + upload_id_selection \<times> form_field list" where
  "take_prefix [] err prefix = (if err = None then Inl ''Upload ID required'' else Inl ''Invalid upload ID'')"
| "take_prefix (f # fs) err prefix =
     (if 6 \<le> length prefix then Inl ''Too many multipart fields''
      else case prefix_kind (ff_name f) of
        Inl e \<Rightarrow> Inl e
      | Inr (kind, maximum) \<Rightarrow>
          (case limited_text maximum [] (ff_body f) of
             Inl e \<Rightarrow> Inl e
           | Inr v \<Rightarrow>
               (let prefix = prefix @ [\<lparr>up_kind = kind, up_value = v\<rparr>] in
                if kind = PrefixId then
                  (if valid_upload_id v then Inr (\<lparr>sel_id = v, sel_prefix = prefix\<rparr>, fs) else Inl ''Invalid upload ID'')
                else take_prefix fs err prefix)))"

text \<open>The header \<open>idempotency-key\<close>: absent, not visible ASCII, or a text.\<close>

definition take_upload_id :: "multipart \<Rightarrow> rstr option option \<Rightarrow> string + upload_id_selection \<times> multipart" where
  "take_upload_id mp header =
     (case header of
        Some None \<Rightarrow> Inl ''Invalid upload ID''
      | Some (Some i) \<Rightarrow>
          if valid_upload_id i then Inr (\<lparr>sel_id = i, sel_prefix = []\<rparr>, mp) else Inl ''Invalid upload ID''
      | None \<Rightarrow>
          (case take_prefix (mp_fields mp) (mp_error mp) [] of
             Inl e \<Rightarrow> Inl e
           | Inr (sel, rest) \<Rightarrow> Inr (sel, mp\<lparr>mp_fields := rest\<rparr>)))"

section \<open>The fingerprint of a repeated request\<close>

datatype replay_kind = Admin rstr | Public permission "rstr option" bool

text \<open>The metadata that is serialised and hashed.\<close>

datatype metadata =
  AdminMetadata (m_name: rstr) (m_directory: rstr) (m_overwrite: bool) (m_size: nat) (m_digest: rstr)
  | PublicMetadata (m_name: rstr) (m_base: rstr) (m_folder: rstr) (m_overwrite: bool) (m_size: nat) (m_digest: rstr)

record replay_state =
  rp_base :: "rstr option"
  rp_folder :: "rstr option"
  rp_overwrite :: "bool option"
  rp_csrf_seen :: bool
  rp_id_seen :: bool
  rp_fields :: nat
  rp_file :: "(rstr \<times> nat \<times> rstr) option"

definition empty_replay :: replay_state where
  "empty_replay = \<lparr>rp_base = None, rp_folder = None, rp_overwrite = None, rp_csrf_seen = False, rp_id_seen = False,
     rp_fields = 0, rp_file = None\<rparr>"

definition ensure_field_limit :: "nat \<Rightarrow> string + unit" where
  "ensure_field_limit field_count = (if 6 < field_count then Inl ''Too many multipart fields'' else Inr ())"

definition relative_text :: "rstr \<Rightarrow> rstr option" where
  "relative_text raw = (case validate_relative raw of Inl _ \<Rightarrow> None | Inr path \<Rightarrow> Some (backslash_to_slash path))"

definition replay_base :: "replay_kind \<Rightarrow> rstr \<Rightarrow> string + rstr" where
  "replay_base kind raw =
     (case kind of
        Admin _ \<Rightarrow> (case relative_text raw of None \<Rightarrow> Inl ''Invalid upload path'' | Some p \<Rightarrow> Inr p)
      | Public permission _ _ \<Rightarrow>
          (case normalize_public_upload_subdir permission raw of
             Inl _ \<Rightarrow> Inl ''Invalid upload path''
           | Inr p \<Rightarrow> Inr p))"

definition replay_csrf_ok :: "replay_kind \<Rightarrow> rstr \<Rightarrow> bool" where
  "replay_csrf_ok kind supplied =
     (case (case kind of Admin csrf \<Rightarrow> Some csrf | Public _ csrf _ \<Rightarrow> csrf) of
        None \<Rightarrow> True
      | Some expected \<Rightarrow> constant_time_eq expected supplied)"

definition replay_prefix_field :: "rstr \<Rightarrow> replay_kind \<Rightarrow> replay_state \<Rightarrow> upload_prefix_field \<Rightarrow> string + replay_state" where
  "replay_prefix_field expected_id kind st field =
     (let st = st\<lparr>rp_fields := rp_fields st + 1\<rparr>; v = up_value field in
      case ensure_field_limit (rp_fields st) of
        Inl e \<Rightarrow> Inl e
      | Inr _ \<Rightarrow>
          (case up_kind field of
             PrefixId \<Rightarrow>
               if rp_id_seen st then Inl ''Invalid or duplicate upload field''
               else if \<not> constant_time_eq expected_id v then Inl ''Upload IDs disagree''
               else Inr (st\<lparr>rp_id_seen := True\<rparr>)
           | PrefixPath \<Rightarrow>
               if rp_base st \<noteq> None then Inl ''Invalid or duplicate upload field''
               else (case replay_base kind v of Inl e \<Rightarrow> Inl e | Inr p \<Rightarrow> Inr (st\<lparr>rp_base := Some p\<rparr>))
           | PrefixFolderPath \<Rightarrow>
               if rp_folder st \<noteq> None then Inl ''Invalid or duplicate upload field''
               else (case relative_text v of None \<Rightarrow> Inl ''Invalid folder path'' | Some p \<Rightarrow> Inr (st\<lparr>rp_folder := Some p\<rparr>))
           | PrefixOverwrite \<Rightarrow>
               if rp_overwrite st \<noteq> None then Inl ''Invalid or duplicate upload field''
               else Inr (st\<lparr>rp_overwrite := Some (v = [49])\<rparr>)
           | PrefixCsrf \<Rightarrow>
               if rp_csrf_seen st then Inl ''Invalid or duplicate upload field''
               else if \<not> replay_csrf_ok kind v then Inl ''Invalid CSRF proof''
               else Inr (st\<lparr>rp_csrf_seen := True\<rparr>)))"

fun parse_replay_prefix :: "rstr \<Rightarrow> replay_kind \<Rightarrow> replay_state \<Rightarrow> upload_prefix_field list \<Rightarrow> string + replay_state" where
  "parse_replay_prefix expected_id kind st [] = Inr st"
| "parse_replay_prefix expected_id kind st (f # fs) =
     (case replay_prefix_field expected_id kind st f of
        Inl e \<Rightarrow> Inl e
      | Inr st' \<Rightarrow> parse_replay_prefix expected_id kind st' fs)"

fun replay_size :: "nat \<Rightarrow> body_event list \<Rightarrow> string + nat \<times> rstr" where
  "replay_size sz [] = Inr (sz, [])"
| "replay_size sz (ReadError timed_out # es) = Inl ''Upload aborted''"
| "replay_size sz (Chunk c # es) =
     (case checked_add sz (length (ck_bytes c)) of
        None \<Rightarrow> Inl ''Upload is too large''
      | Some n \<Rightarrow>
          if MAX_UPLOAD_SIZE < n then Inl ''Upload is too large''
          else (case replay_size n es of Inl e \<Rightarrow> Inl e | Inr (m, bytes) \<Rightarrow> Inr (m, ck_bytes c @ bytes)))"

text \<open>\<open>sha\<close> is the lower-case hexadecimal SHA-256 of a byte string.\<close>

definition hash_replayed_file :: "(rstr \<Rightarrow> rstr) \<Rightarrow> form_field \<Rightarrow> string + rstr \<times> nat \<times> rstr" where
  "hash_replayed_file sha f =
     (case ff_file_name f of
        None \<Rightarrow> Inl ''File name missing''
      | Some raw \<Rightarrow>
          (case safe_admin_filename raw of
             Inl _ \<Rightarrow> Inl ''Invalid file name''
           | Inr name \<Rightarrow>
               (case replay_size 0 (ff_body f) of
                  Inl e \<Rightarrow> Inl e
                | Inr (sz, bytes) \<Rightarrow> Inr (name, sz, sha bytes))))"

definition text_field :: "nat \<Rightarrow> form_field \<Rightarrow> (rstr \<Rightarrow> string + 'a) \<Rightarrow> string + 'a" where
  "text_field maximum f k = (case limited_text maximum [] (ff_body f) of Inl e \<Rightarrow> Inl e | Inr v \<Rightarrow> k v)"

definition replay_field :: "(rstr \<Rightarrow> rstr) \<Rightarrow> rstr \<Rightarrow> replay_kind \<Rightarrow> replay_state \<Rightarrow> form_field \<Rightarrow> string + replay_state" where
  "replay_field sha expected_id kind st f =
     (let st = st\<lparr>rp_fields := rp_fields st + 1\<rparr>; name = (case ff_name f of None \<Rightarrow> [] | Some n \<Rightarrow> n) in
      case ensure_field_limit (rp_fields st) of
        Inl e \<Rightarrow> Inl e
      | Inr _ \<Rightarrow>
          if name = n_upload_id \<and> \<not> rp_id_seen st \<and> rp_file st = None then
            text_field 64 f (\<lambda>supplied.
              if \<not> constant_time_eq expected_id supplied then Inl ''Upload IDs disagree'' else Inr (st\<lparr>rp_id_seen := True\<rparr>))
          else if name = n_path \<and> rp_base st = None \<and> rp_file st = None then
            text_field MAX_UPLOAD_PATH_FIELD_BYTES f (\<lambda>raw.
              case replay_base kind raw of Inl e \<Rightarrow> Inl e | Inr p \<Rightarrow> Inr (st\<lparr>rp_base := Some p\<rparr>))
          else if name = n_folder_path \<and> rp_folder st = None \<and> rp_file st = None then
            text_field MAX_UPLOAD_PATH_FIELD_BYTES f (\<lambda>raw.
              case relative_text raw of None \<Rightarrow> Inl ''Invalid folder path'' | Some p \<Rightarrow> Inr (st\<lparr>rp_folder := Some p\<rparr>))
          else if name = n_overwrite_existing \<and> rp_overwrite st = None then
            (if (case kind of Admin _ \<Rightarrow> True | Public _ _ _ \<Rightarrow> False) \<and> rp_file st \<noteq> None
             then Inl ''Upload option was submitted too late''
             else text_field MAX_UPLOAD_OPTION_FIELD_BYTES f (\<lambda>raw. Inr (st\<lparr>rp_overwrite := Some (raw = [49])\<rparr>)))
          else if name = n_csrf \<and> \<not> rp_csrf_seen st \<and> rp_file st = None then
            text_field 512 f (\<lambda>supplied.
              if \<not> replay_csrf_ok kind supplied then Inl ''Invalid CSRF proof'' else Inr (st\<lparr>rp_csrf_seen := True\<rparr>))
          else if name = n_file \<and> rp_file st = None then
            (case hash_replayed_file sha f of Inl e \<Rightarrow> Inl e | Inr file \<Rightarrow> Inr (st\<lparr>rp_file := Some file\<rparr>))
          else Inl ''Invalid or duplicate upload field'')"

fun replay_fields ::
  "(rstr \<Rightarrow> rstr) \<Rightarrow> rstr \<Rightarrow> replay_kind \<Rightarrow> replay_state \<Rightarrow> form_field list \<Rightarrow> bool option \<Rightarrow> string + replay_state" where
  "replay_fields sha expected_id kind st [] err = (if err = None then Inr st else Inl ''Invalid upload'')"
| "replay_fields sha expected_id kind st (f # fs) err =
     (case replay_field sha expected_id kind st f of
        Inl e \<Rightarrow> Inl e
      | Inr st' \<Rightarrow> replay_fields sha expected_id kind st' fs err)"

definition finish_replay_fingerprint :: "(rstr \<Rightarrow> rstr) \<Rightarrow> (metadata \<Rightarrow> rstr) \<Rightarrow> replay_kind \<Rightarrow> replay_state \<Rightarrow> string + rstr" where
  "finish_replay_fingerprint sha json kind st =
     (case rp_file st of
        None \<Rightarrow> Inl ''File is missing''
      | Some (name, sz, digest) \<Rightarrow>
          (let overwrite = (case rp_overwrite st of None \<Rightarrow> False | Some b \<Rightarrow> b) in
           case kind of
             Admin _ \<Rightarrow>
               (if \<not> rp_csrf_seen st then Inl ''CSRF proof missing''
                else case rp_base st of
                  None \<Rightarrow> Inl ''Upload path missing''
                | Some base \<Rightarrow>
                    (let directory = (case rp_folder st of
                        None \<Rightarrow> base
                      | Some folder \<Rightarrow> if base = [] \<or> base = [46] then folder else base @ [47] @ folder) in
                     Inr (sha (json (AdminMetadata name directory overwrite sz digest)))))
           | Public _ csrf csrf_header_valid \<Rightarrow>
               (if csrf \<noteq> None \<and> \<not> rp_csrf_seen st \<and> \<not> csrf_header_valid then Inl ''CSRF proof missing''
                else Inr (sha (json (PublicMetadata name (case rp_base st of None \<Rightarrow> [] | Some b \<Rightarrow> b)
                       (case rp_folder st of None \<Rightarrow> [] | Some b \<Rightarrow> b) overwrite sz digest))))))"

definition replay_fingerprint ::
  "(rstr \<Rightarrow> rstr) \<Rightarrow> (metadata \<Rightarrow> rstr) \<Rightarrow> multipart \<Rightarrow> rstr \<Rightarrow> upload_prefix_field list \<Rightarrow> replay_kind \<Rightarrow> string + rstr" where
  "replay_fingerprint sha json mp expected_id prefix kind =
     (case parse_replay_prefix expected_id kind empty_replay prefix of
        Inl e \<Rightarrow> Inl e
      | Inr st \<Rightarrow>
          (case replay_fields sha expected_id kind st (mp_fields mp) (mp_error mp) of
             Inl e \<Rightarrow> Inl e
           | Inr st' \<Rightarrow> finish_replay_fingerprint sha json kind st'))"

section \<open>Staging\<close>

datatype phase_error = Rejection rstr nat string | App nat string

definition INITIAL_RESERVATION_STEP :: nat where
  "INITIAL_RESERVATION_STEP = 1024 * 1024"

definition MAX_RESERVATION_STEP :: nat where
  "MAX_RESERVATION_STEP = 8 * 1024 * 1024"

text \<open>\<open>u64::next_power_of_two\<close> of a value that is at most \<open>2 ^ k\<close>.\<close>

fun next_power_of_two :: "nat \<Rightarrow> nat \<Rightarrow> nat" where
  "next_power_of_two 0 n = 1"
| "next_power_of_two (Suc k) n = (if 2 ^ k < n then 2 ^ Suc k else next_power_of_two k n)"

definition clamp :: "nat \<Rightarrow> nat \<Rightarrow> nat \<Rightarrow> nat" where
  "clamp n low high = (if n < low then low else if high < n then high else n)"

definition preferred_reservation_target :: "nat \<Rightarrow> nat \<Rightarrow> nat \<Rightarrow> nat \<Rightarrow> nat" where
  "preferred_reservation_target received_bytes required_bytes reserved_bytes maximum =
     (if required_bytes \<le> reserved_bytes then reserved_bytes
      else
        let step = next_power_of_two 63 (clamp received_bytes INITIAL_RESERVATION_STEP MAX_RESERVATION_STEP) in
        min (case checked_add required_bytes (step - 1) of
               None \<Rightarrow> required_bytes
             | Some v \<Rightarrow> v div step * step) maximum)"

definition UPLOAD_QUOTA_HEARTBEAT_INTERVAL :: int where
  "UPLOAD_QUOTA_HEARTBEAT_INTERVAL = 5 * 60"

record upload_target =
  tg_share_id :: int
  tg_epoch :: nat
  tg_upload_base :: rstr
  tg_folder_path :: rstr
  tg_upload_subdir :: rstr
  tg_file_name :: rstr

text \<open>An upload being staged: the bytes written are the bytes hashed; the last heartbeat is the
  reading of the monotonic clock that \<open>ck_elapsed\<close> continues.\<close>

record staged_upload =
  su_token :: rstr
  su_reserved_bytes :: nat
  su_last_heartbeat :: int
  su_total :: nat
  su_content :: rstr
  su_target :: upload_target

record upload_env =
  en_bind :: "rstr \<Rightarrow> rstr \<Rightarrow> phase_error option"
  en_token :: rstr
  en_now :: instant
  en_started :: int
  en_stage :: "phase_error option"
  en_finish :: "staged_file_error option"
  en_storage :: "phase_error option"

definition map_staged_file_error :: "rstr \<Rightarrow> staged_file_error \<Rightarrow> phase_error" where
  "map_staged_file_error upload_subdir e =
     (case e of
        FileTooLarge \<Rightarrow> Rejection upload_subdir 413 ''Upload is too large''
      | CapacityUnavailable \<Rightarrow> Rejection upload_subdir 503 ''Storage capacity could not be determined''
      | InsufficientStorage \<Rightarrow> Rejection upload_subdir 507 ''Not enough free storage''
      | StorageFull \<Rightarrow> Rejection upload_subdir 507 ''Not enough free storage''
      | OtherIo \<Rightarrow> App 500 ''Internal error'')"

definition database_error :: "db_error \<Rightarrow> phase_error" where
  "database_error e =
     (if is_audit_unavailable e then App 503 ''Security audit log temporarily unavailable'' else App 500 ''Internal error'')"

text \<open>\<open>StagedUpload::begin\<close>.\<close>

definition begin_staging ::
  "(rstr \<Rightarrow> rstr) \<Rightarrow> upload_env \<Rightarrow> upload_target \<Rightarrow> db \<Rightarrow> (phase_error + staged_upload) \<times> db" where
  "begin_staging th env target d =
     (case begin_upload_reservation th (en_token env) (tg_share_id target) (tg_epoch target) (en_now env) d of
        (Inl e, d') \<Rightarrow> (Inl (App 500 ''Internal error''), d')
      | (Inr reservation_begin_outcome.ByteQuotaReached, d') \<Rightarrow>
          (Inl (Rejection (tg_upload_subdir target) 507 ''Cumulative upload limit reached''), d')
      | (Inr FileQuotaReached, d') \<Rightarrow>
          (Inl (Rejection (tg_upload_subdir target) 507 ''Maximum number of uploaded files reached''), d')
      | (Inr reservation_begin_outcome.ShareUnavailable, d') \<Rightarrow>
          (Inl (Rejection (tg_upload_subdir target) 410 ''Share unavailable''), d')
      | (Inr Reserved, d') \<Rightarrow>
          (case en_stage env of
             Some e \<Rightarrow> (Inl e, d')
           | None \<Rightarrow> (Inr \<lparr>su_token = en_token env, su_reserved_bytes = 0, su_last_heartbeat = en_started env,
               su_total = 0, su_content = [], su_target = target\<rparr>, d')))"

text \<open>\<open>StagedUploadFile::write_chunk\<close>: the check of the total, then the disk.\<close>

definition staged_file_write :: "nat \<Rightarrow> nat \<Rightarrow> chunk \<Rightarrow> staged_file_error + nat" where
  "staged_file_write file_total maximum c =
     (case checked_add file_total (length (ck_bytes c)) of
        None \<Rightarrow> Inl FileTooLarge
      | Some n \<Rightarrow>
          if maximum < n then Inl FileTooLarge
          else (case ck_write c of Some e \<Rightarrow> Inl e | None \<Rightarrow> Inr n))"

definition extend_reservation ::
  "(rstr \<Rightarrow> rstr) \<Rightarrow> nat \<Rightarrow> nat \<Rightarrow> chunk \<Rightarrow> staged_upload \<Rightarrow> db \<Rightarrow> (phase_error + staged_upload) \<times> db" where
  "extend_reservation th maximum new_total c su d =
     (let sub = tg_upload_subdir (su_target su) in
      if new_total \<le> su_reserved_bytes su \<and> ck_elapsed c - su_last_heartbeat su < UPLOAD_QUOTA_HEARTBEAT_INTERVAL then (Inr su, d)
      else case extend_upload_reservation_up_to th (su_token su) (max new_total (su_reserved_bytes su))
             (preferred_reservation_target (su_total su) new_total (su_reserved_bytes su) maximum) (ck_now c) d of
        (Inl e, d') \<Rightarrow> (Inl (database_error e), d')
      | (Inr (reservation_extend_outcome.Extended, accepted), d') \<Rightarrow>
          (Inr (su\<lparr>su_reserved_bytes := accepted, su_last_heartbeat := ck_elapsed c\<rparr>), d')
      | (Inr (reservation_extend_outcome.ByteQuotaReached, _), d') \<Rightarrow>
          (Inl (Rejection sub 507 ''Cumulative upload limit reached''), d')
      | (Inr (reservation_extend_outcome.NotFound, _), d') \<Rightarrow>
          (Inl (Rejection sub 408 ''Upload reservation has expired''), d')
      | (Inr (reservation_extend_outcome.ShareUnavailable, _), d') \<Rightarrow>
          (Inl (Rejection sub 410 ''Share was disabled during upload''), d'))"

definition write_chunk ::
  "(rstr \<Rightarrow> rstr) \<Rightarrow> nat \<Rightarrow> chunk \<Rightarrow> staged_upload \<Rightarrow> db \<Rightarrow> (phase_error + staged_upload) \<times> db" where
  "write_chunk th maximum c su d =
     (let sub = tg_upload_subdir (su_target su) in
      case add_upload_bytes (su_total su) (length (ck_bytes c)) maximum of
        Inl _ \<Rightarrow> (Inl (Rejection sub 413 ''Upload is too large''), d)
      | Inr new_total \<Rightarrow>
          (case extend_reservation th maximum new_total c su d of
             (Inl e, d') \<Rightarrow> (Inl e, d')
           | (Inr su, d') \<Rightarrow>
               (case staged_file_write (su_total su) maximum c of
                  Inl e \<Rightarrow> (Inl (map_staged_file_error sub e), d')
                | Inr n \<Rightarrow> (Inr (su\<lparr>su_total := n, su_content := su_content su @ ck_bytes c\<rparr>), d'))))"

definition multipart_read_rejection :: "rstr \<Rightarrow> bool \<Rightarrow> string \<Rightarrow> phase_error" where
  "multipart_read_rejection upload_subdir timed_out fallback =
     (if timed_out then Rejection upload_subdir 408 ''Upload timed out'' else Rejection upload_subdir 400 fallback)"

fun write_chunks ::
  "(rstr \<Rightarrow> rstr) \<Rightarrow> nat \<Rightarrow> body_event list \<Rightarrow> staged_upload \<Rightarrow> db \<Rightarrow> (phase_error + staged_upload) \<times> db" where
  "write_chunks th maximum [] su d = (Inr su, d)"
| "write_chunks th maximum (ReadError timed_out # es) su d =
     (Inl (multipart_read_rejection (tg_upload_subdir (su_target su)) timed_out ''Upload aborted''), d)"
| "write_chunks th maximum (Chunk c # es) su d =
     (case write_chunk th maximum c su d of
        (Inl e, d') \<Rightarrow> (Inl e, d')
      | (Inr su', d') \<Rightarrow> write_chunks th maximum es su' d')"

section \<open>The form of a public upload\<close>

definition MAX_UPLOAD_MULTIPART_FIELDS :: nat where
  "MAX_UPLOAD_MULTIPART_FIELDS = 6"

definition MAX_UPLOAD_TARGET_PATH_BYTES :: nat where
  "MAX_UPLOAD_TARGET_PATH_BYTES = 4095"

definition MAX_UPLOAD_FOLDER_COMPONENTS :: nat where
  "MAX_UPLOAD_FOLDER_COMPONENTS = 16"

text \<open>What the form phase is given: the share as revalidated, the settings and the request.\<close>

record form_phase =
  fp_share :: share
  fp_blocked_extensions :: "rstr list"
  fp_maximum :: nat
  fp_required_csrf :: "rstr option"
  fp_csrf_header_valid :: bool
  fp_upload_id :: rstr
  fp_replacements_allowed :: bool
  fp_env :: upload_env

record public_parser =
  pp_upload_subdir :: rstr
  pp_folder_path :: "rstr option"
  pp_overwrite_requested :: bool
  pp_form_state :: upload_form_state
  pp_csrf_validated :: bool
  pp_authorized :: bool
  pp_staged :: "staged_upload option"

definition new_public_parser :: "form_phase \<Rightarrow> public_parser" where
  "new_public_parser ph = \<lparr>pp_upload_subdir = [], pp_folder_path = None, pp_overwrite_requested = False,
     pp_form_state = default_form_state, pp_csrf_validated = (fp_required_csrf ph = None \<or> fp_csrf_header_valid ph),
     pp_authorized = True, pp_staged = None\<rparr>"

definition rejection :: "public_parser \<Rightarrow> nat \<Rightarrow> string \<Rightarrow> phase_error" where
  "rejection p status message = Rejection (pp_upload_subdir p) status message"

definition join_display :: "rstr \<Rightarrow> rstr \<Rightarrow> rstr" where
  "join_display base child = (if base = [] \<or> base = [46] then child else base @ [47] @ child)"

fun form_state_error_message :: "upload_form_state_error \<Rightarrow> string" where
  "form_state_error_message DuplicateOrLateUploadId = ''Upload ID was submitted more than once or too late''"
| "form_state_error_message TooManyFields = ''Too many multipart fields''"
| "form_state_error_message DuplicateOrLatePath = ''Upload path was submitted more than once or too late''"
| "form_state_error_message DuplicateOrLateFolderPath = ''Folder path was submitted more than once or too late''"
| "form_state_error_message DuplicateOverwrite = ''Upload option was submitted more than once''"
| "form_state_error_message DuplicateOrLateCsrf = ''CSRF token was submitted more than once or too late''"
| "form_state_error_message MultipleFiles = ''Exactly one file is allowed per request''"
| "form_state_error_message UnknownField = ''Unknown multipart field''"

definition field_of_name :: "rstr \<Rightarrow> upload_form_field" where
  "field_of_name name =
     (if name = n_upload_id then UploadId
      else if name = n_path then Path
      else if name = n_folder_path then FolderPath
      else if name = n_overwrite_existing then Overwrite
      else if name = n_csrf then Csrf
      else if name = n_file then File
      else Unknown)"

definition observe_field :: "rstr \<Rightarrow> public_parser \<Rightarrow> phase_error + upload_form_field \<times> public_parser" where
  "observe_field name p =
     (let field = field_of_name name in
      case observe (pp_form_state p) field MAX_UPLOAD_MULTIPART_FIELDS of
        (Inl e, st) \<Rightarrow> Inl (rejection p 400 (form_state_error_message e))
      | (Inr _, st) \<Rightarrow> Inr (field, p\<lparr>pp_form_state := st\<rparr>))"

definition set_path :: "form_phase \<Rightarrow> rstr \<Rightarrow> public_parser \<Rightarrow> phase_error + public_parser" where
  "set_path ph v p =
     (case normalize_public_upload_subdir (shr_permission (fp_share ph)) v of
        Inl _ \<Rightarrow> Inl (rejection p 400 ''Invalid upload path'')
      | Inr dir \<Rightarrow> Inr (p\<lparr>pp_upload_subdir := dir\<rparr>))"

definition set_folder_path :: "rstr \<Rightarrow> public_parser \<Rightarrow> phase_error + public_parser" where
  "set_folder_path v p =
     (case relative_text v of
        None \<Rightarrow> Inl (rejection p 400 ''Invalid folder path'')
      | Some folder_path \<Rightarrow>
          (let names = filter (\<lambda>c. c \<noteq> []) (split_on 47 folder_path) in
           if MAX_UPLOAD_FOLDER_COMPONENTS < length names \<or> list_ex (\<lambda>c. isl (safe_admin_filename c)) names
           then Inl (rejection p 400 ''Invalid folder path'')
           else Inr (p\<lparr>pp_folder_path := Some folder_path\<rparr>)))"

definition set_overwrite :: "form_phase \<Rightarrow> rstr \<Rightarrow> public_parser \<Rightarrow> phase_error + public_parser" where
  "set_overwrite ph v p =
     (let p = p\<lparr>pp_overwrite_requested := (v = [49])\<rparr> in
      if pp_overwrite_requested p \<and> \<not> fp_replacements_allowed ph
      then Inl (rejection p 400 ''Overwriting is disabled with external storage writers'')
      else Inr p)"

definition set_csrf :: "form_phase \<Rightarrow> rstr \<Rightarrow> public_parser \<Rightarrow> phase_error + public_parser" where
  "set_csrf ph v p =
     (let p = p\<lparr>pp_csrf_validated :=
          (case fp_required_csrf ph of None \<Rightarrow> True | Some expected \<Rightarrow> constant_time_eq expected v)\<rparr> in
      if \<not> pp_csrf_validated p then Inl (rejection p 403 ''Invalid CSRF token'') else Inr p)"

definition check_upload_id :: "form_phase \<Rightarrow> rstr \<Rightarrow> public_parser \<Rightarrow> phase_error + public_parser" where
  "check_upload_id ph v p =
     (if \<not> constant_time_eq v (fp_upload_id ph) then Inl (rejection p 400 ''Upload IDs disagree'') else Inr p)"

fun prefix_name :: "upload_prefix_kind \<Rightarrow> rstr" where
  "prefix_name PrefixId = n_upload_id"
| "prefix_name PrefixPath = n_path"
| "prefix_name PrefixFolderPath = n_folder_path"
| "prefix_name PrefixOverwrite = n_overwrite_existing"
| "prefix_name PrefixCsrf = n_csrf"

definition handle_prefix :: "form_phase \<Rightarrow> upload_prefix_field \<Rightarrow> public_parser \<Rightarrow> phase_error + public_parser" where
  "handle_prefix ph field p =
     (case observe_field (prefix_name (up_kind field)) p of
        Inl e \<Rightarrow> Inl e
      | Inr (_, p) \<Rightarrow>
          (let v = up_value field in
           case up_kind field of
             PrefixId \<Rightarrow> check_upload_id ph v p
           | PrefixPath \<Rightarrow> set_path ph v p
           | PrefixFolderPath \<Rightarrow> set_folder_path v p
           | PrefixOverwrite \<Rightarrow> set_overwrite ph v p
           | PrefixCsrf \<Rightarrow> if str_len v \<le> 256 then set_csrf ph v p else Inl (rejection p 403 ''Invalid CSRF token'')))"

fun handle_prefixes :: "form_phase \<Rightarrow> upload_prefix_field list \<Rightarrow> public_parser \<Rightarrow> phase_error + public_parser" where
  "handle_prefixes ph [] p = Inr p"
| "handle_prefixes ph (f # fs) p = (case handle_prefix ph f p of Inl e \<Rightarrow> Inl e | Inr p' \<Rightarrow> handle_prefixes ph fs p')"

definition read_text :: "form_field \<Rightarrow> nat \<Rightarrow> nat \<Rightarrow> string \<Rightarrow> public_parser \<Rightarrow> phase_error + rstr" where
  "read_text f maximum invalid_status invalid_message p =
     (case limited_multipart_text maximum [] (ff_body f) of
        Inr v \<Rightarrow> Inr v
      | Inl TextInvalid \<Rightarrow> Inl (rejection p invalid_status invalid_message)
      | Inl (TextRead timed_out) \<Rightarrow> Inl (multipart_read_rejection (pp_upload_subdir p) timed_out invalid_message))"

text \<open>\<open>bind_target\<close>: \<open>None\<close> is the panic of \<open>expect\<close> when the authorized owner is gone.\<close>

definition bind_target :: "form_phase \<Rightarrow> rstr \<Rightarrow> public_parser \<Rightarrow> (phase_error + upload_target \<times> public_parser) option" where
  "bind_target ph file_name p =
     (let upload_base = pp_upload_subdir p;
          folder_path = (case pp_folder_path p of None \<Rightarrow> [] | Some f \<Rightarrow> f);
          upload_subdir = join_display upload_base folder_path;
          target_path = join_display (join_display (shr_relative_path (fp_share ph)) upload_subdir) file_name in
      if MAX_UPLOAD_TARGET_PATH_BYTES < str_len target_path then Some (Inl (rejection p 400 ''Upload path is too long''))
      else if \<not> pp_authorized p then None
      else case en_bind (fp_env ph) upload_base folder_path of
        Some e \<Rightarrow> Some (Inl e)
      | None \<Rightarrow> Some (Inr (\<lparr>tg_share_id = shr_id (fp_share ph), tg_epoch = shr_upload_policy_epoch (fp_share ph),
          tg_upload_base = upload_base, tg_folder_path = folder_path, tg_upload_subdir = upload_subdir,
          tg_file_name = file_name\<rparr>, p\<lparr>pp_authorized := False\<rparr>)))"

definition stage_file ::
  "(rstr \<Rightarrow> rstr) \<Rightarrow> form_phase \<Rightarrow> form_field \<Rightarrow> upload_target \<Rightarrow> public_parser \<Rightarrow> db \<Rightarrow> (phase_error + public_parser) \<times> db" where
  "stage_file th ph f target p d =
     (case begin_staging th (fp_env ph) target d of
        (Inl e, d') \<Rightarrow> (Inl e, d')
      | (Inr su, d') \<Rightarrow>
          (let p = p\<lparr>pp_upload_subdir := tg_upload_subdir (su_target su)\<rparr> in
           case write_chunks th (fp_maximum ph) (ff_body f) su d' of
             (Inl e, d'') \<Rightarrow> (Inl e, d'')
           | (Inr su', d'') \<Rightarrow>
               (case en_finish (fp_env ph) of
                  Some e \<Rightarrow> (Inl (map_staged_file_error (tg_upload_subdir (su_target su')) e), d'')
                | None \<Rightarrow> (Inr (p\<lparr>pp_staged := Some su'\<rparr>), d''))))"

definition handle_file ::
  "(rstr \<Rightarrow> rstr) \<Rightarrow> form_phase \<Rightarrow> form_field \<Rightarrow> public_parser \<Rightarrow> db \<Rightarrow> ((phase_error + public_parser) \<times> db) option" where
  "handle_file th ph f p d =
     (if \<not> pp_csrf_validated p then Some (Inl (rejection p 403 ''CSRF token missing''), d)
      else case ff_file_name f of
        None \<Rightarrow> Some (Inl (rejection p 400 ''File name missing''), d)
      | Some file_name \<Rightarrow>
          (case validate_public_upload_filename file_name (fp_blocked_extensions ph) of
             Inl BlockedExtension \<Rightarrow> Some (Inl (rejection p 415 ''File type blocked''), d)
           | Inl _ \<Rightarrow> Some (Inl (rejection p 400 ''Invalid file name''), d)
           | Inr name \<Rightarrow>
               (case bind_target ph name p of
                  None \<Rightarrow> None
                | Some (Inl e) \<Rightarrow> Some (Inl e, d)
                | Some (Inr (target, p')) \<Rightarrow> Some (stage_file th ph f target p' d))))"

definition with_text ::
  "form_field \<Rightarrow> nat \<Rightarrow> nat \<Rightarrow> string \<Rightarrow> (rstr \<Rightarrow> public_parser \<Rightarrow> phase_error + public_parser) \<Rightarrow> public_parser \<Rightarrow> phase_error + public_parser" where
  "with_text f maximum status message k p = (case read_text f maximum status message p of Inl e \<Rightarrow> Inl e | Inr v \<Rightarrow> k v p)"

definition handle_field ::
  "(rstr \<Rightarrow> rstr) \<Rightarrow> form_phase \<Rightarrow> upload_form_field \<Rightarrow> form_field \<Rightarrow> public_parser \<Rightarrow> db
     \<Rightarrow> ((phase_error + public_parser) \<times> db) option" where
  "handle_field th ph kind f p d =
     (case kind of
        UploadId \<Rightarrow> Some (with_text f 64 400 ''Invalid upload ID'' (check_upload_id ph) p, d)
      | Path \<Rightarrow> Some (with_text f MAX_UPLOAD_PATH_FIELD_BYTES 400 ''Invalid upload path'' (set_path ph) p, d)
      | FolderPath \<Rightarrow> Some (with_text f MAX_UPLOAD_PATH_FIELD_BYTES 400 ''Invalid folder path'' set_folder_path p, d)
      | Overwrite \<Rightarrow> Some (with_text f MAX_UPLOAD_OPTION_FIELD_BYTES 400 ''Invalid upload'' (set_overwrite ph) p, d)
      | Csrf \<Rightarrow> Some (with_text f 256 403 ''Invalid CSRF token'' (set_csrf ph) p, d)
      | File \<Rightarrow> handle_file th ph f p d
      | Unknown \<Rightarrow> Some (Inl (rejection p 400 ''Unknown multipart field''), d))"

fun parse_fields ::
  "(rstr \<Rightarrow> rstr) \<Rightarrow> form_phase \<Rightarrow> form_field list \<Rightarrow> bool option \<Rightarrow> public_parser \<Rightarrow> db
     \<Rightarrow> ((phase_error + public_parser) \<times> db) option" where
  "parse_fields th ph [] err p d =
     Some (case err of None \<Rightarrow> Inr p | Some t \<Rightarrow> Inl (multipart_read_rejection (pp_upload_subdir p) t ''Invalid upload''), d)"
| "parse_fields th ph (f # fs) err p d =
     (case observe_field (case ff_name f of None \<Rightarrow> [] | Some n \<Rightarrow> n) p of
        Inl e \<Rightarrow> Some (Inl e, d)
      | Inr (kind, p) \<Rightarrow>
          (case handle_field th ph kind f p d of
             None \<Rightarrow> None
           | Some (Inl e, d') \<Rightarrow> Some (Inl e, d')
           | Some (Inr p', d') \<Rightarrow> parse_fields th ph fs err p' d'))"

record prepared_upload =
  pu_target :: upload_target
  pu_overwrite_requested :: bool
  pu_total :: nat
  pu_content_sha256 :: rstr
  pu_token :: rstr
  pu_reserved_bytes :: nat

definition finish_form :: "(rstr \<Rightarrow> rstr) \<Rightarrow> public_parser \<Rightarrow> phase_error + prepared_upload" where
  "finish_form sha p =
     (case pp_staged p of
        None \<Rightarrow> Inl (rejection p 400 ''File is missing'')
      | Some su \<Rightarrow> Inr \<lparr>pu_target = su_target su, pu_overwrite_requested = pp_overwrite_requested p, pu_total = su_total su,
          pu_content_sha256 = sha (su_content su), pu_token = su_token su, pu_reserved_bytes = su_reserved_bytes su\<rparr>)"

definition run_form ::
  "(rstr \<Rightarrow> rstr) \<Rightarrow> (rstr \<Rightarrow> rstr) \<Rightarrow> form_phase \<Rightarrow> upload_prefix_field list \<Rightarrow> multipart \<Rightarrow> db
     \<Rightarrow> ((phase_error + prepared_upload) \<times> db) option" where
  "run_form th sha ph prefix mp d =
     (case handle_prefixes ph prefix (new_public_parser ph) of
        Inl e \<Rightarrow> Some (Inl e, d)
      | Inr p \<Rightarrow>
          (case parse_fields th ph (mp_fields mp) (mp_error mp) p d of
             None \<Rightarrow> None
           | Some (Inl e, d') \<Rightarrow> Some (Inl e, d')
           | Some (Inr p', d') \<Rightarrow> Some (finish_form sha p', d')))"

definition fingerprint :: "(rstr \<Rightarrow> rstr) \<Rightarrow> (metadata \<Rightarrow> rstr) \<Rightarrow> prepared_upload \<Rightarrow> rstr" where
  "fingerprint sha json u =
     sha (json (PublicMetadata (tg_file_name (pu_target u)) (tg_upload_base (pu_target u)) (tg_folder_path (pu_target u))
       (pu_overwrite_requested u) (pu_total u) (pu_content_sha256 u)))"

section \<open>The form of an administrator upload\<close>

record admin_request =
  ar_csrf_token :: rstr
  ar_upload_id :: rstr
  ar_maximum :: nat
  ar_blocked_extensions :: "rstr list"
  ar_replacements_allowed :: bool
  ar_env :: upload_env

record admin_upload =
  au_name :: rstr
  au_total :: nat
  au_content_sha256 :: rstr
  au_directory :: rstr
  au_base :: rstr
  au_folder_path :: rstr
  au_overwrite_existing :: bool

record admin_parser =
  ap_directory :: "rstr option"
  ap_csrf_seen :: bool
  ap_overwrite_existing :: bool
  ap_saw_overwrite :: bool
  ap_folder_path :: "rstr option"
  ap_staged :: "admin_upload option"
  ap_fields_seen :: nat
  ap_id_seen :: bool
  ap_authorized :: bool

definition new_admin_parser :: admin_parser where
  "new_admin_parser = \<lparr>ap_directory = None, ap_csrf_seen = False, ap_overwrite_existing = False, ap_saw_overwrite = False,
     ap_folder_path = None, ap_staged = None, ap_fields_seen = 0, ap_id_seen = False, ap_authorized = True\<rparr>"

definition record_field :: "admin_parser \<Rightarrow> phase_error + admin_parser" where
  "record_field p =
     (let p = p\<lparr>ap_fields_seen := ap_fields_seen p + 1\<rparr> in
      if 6 < ap_fields_seen p then Inl (App 400 ''Too many multipart fields'') else Inr p)"

definition admin_set_overwrite :: "admin_request \<Rightarrow> rstr \<Rightarrow> admin_parser \<Rightarrow> phase_error + admin_parser" where
  "admin_set_overwrite r v p =
     (let p = p\<lparr>ap_overwrite_existing := (v = [49])\<rparr> in
      if ap_overwrite_existing p \<and> \<not> ar_replacements_allowed r
      then Inl (App 400 ''Overwriting is disabled with external storage writers'') else Inr p)"

definition admin_csrf :: "admin_request \<Rightarrow> rstr \<Rightarrow> admin_parser \<Rightarrow> phase_error + admin_parser" where
  "admin_csrf r v p =
     (if \<not> constant_time_eq (ar_csrf_token r) v then Inl (App 403 ''Invalid CSRF token'') else Inr (p\<lparr>ap_csrf_seen := True\<rparr>))"

definition admin_handle_prefix :: "admin_request \<Rightarrow> upload_prefix_field \<Rightarrow> admin_parser \<Rightarrow> phase_error + admin_parser" where
  "admin_handle_prefix r field p =
     (let v = up_value field in
      case up_kind field of
        PrefixId \<Rightarrow>
          if ap_id_seen p \<or> \<not> constant_time_eq v (ar_upload_id r) then Inl (App 400 ''Upload IDs disagree'')
          else Inr (p\<lparr>ap_id_seen := True\<rparr>)
      | PrefixPath \<Rightarrow>
          (case relative_text v of
             None \<Rightarrow> Inl (App 400 ''Invalid upload path'')
           | Some path \<Rightarrow>
               if ap_directory p \<noteq> None then Inl (App 400 ''Upload path was submitted more than once'')
               else Inr (p\<lparr>ap_directory := Some path\<rparr>))
      | PrefixFolderPath \<Rightarrow>
          (case relative_text v of
             None \<Rightarrow> Inl (App 400 ''Invalid folder path'')
           | Some path \<Rightarrow>
               if ap_folder_path p \<noteq> None then Inl (App 400 ''Upload path was submitted more than once'')
               else Inr (p\<lparr>ap_folder_path := Some path\<rparr>))
      | PrefixOverwrite \<Rightarrow>
          if ap_saw_overwrite p then Inl (App 400 ''Upload option was submitted more than once'')
          else admin_set_overwrite r v (p\<lparr>ap_saw_overwrite := True\<rparr>)
      | PrefixCsrf \<Rightarrow>
          if ap_csrf_seen p then Inl (App 400 ''CSRF proof was submitted more than once'')
          else admin_csrf r v p)"

definition admin_multipart_read_error :: "bool \<Rightarrow> string \<Rightarrow> phase_error" where
  "admin_multipart_read_error timed_out fallback = (if timed_out then App 408 ''Upload timed out'' else App 400 fallback)"

definition admin_with_text ::
  "form_field \<Rightarrow> nat \<Rightarrow> string \<Rightarrow> (rstr \<Rightarrow> phase_error + admin_parser) \<Rightarrow> phase_error + admin_parser" where
  "admin_with_text f maximum message k =
     (case limited_multipart_text maximum [] (ff_body f) of
        Inr v \<Rightarrow> k v
      | Inl TextInvalid \<Rightarrow> Inl (App 400 message)
      | Inl (TextRead timed_out) \<Rightarrow> Inl (admin_multipart_read_error timed_out message))"

definition normalized_multipart_path ::
  "form_field \<Rightarrow> string \<Rightarrow> (rstr \<Rightarrow> phase_error + admin_parser) \<Rightarrow> phase_error + admin_parser" where
  "normalized_multipart_path f message k =
     admin_with_text f MAX_UPLOAD_PATH_FIELD_BYTES message (\<lambda>v.
       case relative_text v of None \<Rightarrow> Inl (App 400 message) | Some path \<Rightarrow> k path)"

definition upload_id_field :: "admin_request \<Rightarrow> form_field \<Rightarrow> admin_parser \<Rightarrow> phase_error + admin_parser" where
  "upload_id_field r f p =
     (if ap_id_seen p \<or> ap_staged p \<noteq> None then Inl (App 400 ''Upload ID was submitted more than once or too late'')
      else admin_with_text f 64 ''Invalid upload ID'' (\<lambda>v.
        if \<not> constant_time_eq v (ar_upload_id r) then Inl (App 400 ''Upload IDs disagree'') else Inr (p\<lparr>ap_id_seen := True\<rparr>)))"

definition path_field :: "form_field \<Rightarrow> admin_parser \<Rightarrow> phase_error + admin_parser" where
  "path_field f p =
     (if ap_directory p \<noteq> None \<or> ap_staged p \<noteq> None then Inl (App 400 ''Upload path was submitted more than once or too late'')
      else normalized_multipart_path f ''Invalid upload path'' (\<lambda>path. Inr (p\<lparr>ap_directory := Some path\<rparr>)))"

definition csrf_field :: "admin_request \<Rightarrow> form_field \<Rightarrow> admin_parser \<Rightarrow> phase_error + admin_parser" where
  "csrf_field r f p =
     (if ap_csrf_seen p \<or> ap_staged p \<noteq> None then Inl (App 400 ''CSRF proof was submitted more than once or too late'')
      else admin_with_text f 512 ''Invalid CSRF proof'' (\<lambda>v. admin_csrf r v p))"

definition overwrite_field :: "admin_request \<Rightarrow> form_field \<Rightarrow> admin_parser \<Rightarrow> phase_error + admin_parser" where
  "overwrite_field r f p =
     (if ap_saw_overwrite p \<or> ap_staged p \<noteq> None then Inl (App 400 ''Upload option was submitted more than once or too late'')
      else admin_with_text f MAX_UPLOAD_OPTION_FIELD_BYTES ''Invalid upload option'' (\<lambda>v.
        admin_set_overwrite r v (p\<lparr>ap_saw_overwrite := True\<rparr>)))"

definition folder_path_field :: "form_field \<Rightarrow> admin_parser \<Rightarrow> phase_error + admin_parser" where
  "folder_path_field f p =
     (if ap_folder_path p \<noteq> None \<or> ap_staged p \<noteq> None then Inl (App 400 ''Folder path was submitted more than once or too late'')
      else normalized_multipart_path f ''Invalid folder path'' (\<lambda>path. Inr (p\<lparr>ap_folder_path := Some path\<rparr>)))"

definition admin_staged_file_error :: "staged_file_error \<Rightarrow> phase_error" where
  "admin_staged_file_error e =
     (case e of
        FileTooLarge \<Rightarrow> App 413 ''Upload is too large''
      | CapacityUnavailable \<Rightarrow> App 503 ''Storage capacity could not be determined''
      | InsufficientStorage \<Rightarrow> App 507 ''Not enough free storage''
      | StorageFull \<Rightarrow> App 507 ''Not enough free storage''
      | OtherIo \<Rightarrow> App 500 ''Internal error'')"

fun admin_write_chunks :: "nat \<Rightarrow> body_event list \<Rightarrow> nat \<Rightarrow> rstr \<Rightarrow> phase_error + nat \<times> rstr" where
  "admin_write_chunks maximum [] file_total content = Inr (file_total, content)"
| "admin_write_chunks maximum (ReadError timed_out # es) file_total content =
     Inl (admin_multipart_read_error timed_out ''Upload aborted'')"
| "admin_write_chunks maximum (Chunk c # es) file_total content =
     (case staged_file_write file_total maximum c of
        Inl e \<Rightarrow> Inl (admin_staged_file_error e)
      | Inr n \<Rightarrow> admin_write_chunks maximum es n (content @ ck_bytes c))"

definition stage_admin_upload ::
  "(rstr \<Rightarrow> rstr) \<Rightarrow> upload_env \<Rightarrow> form_field \<Rightarrow> nat \<Rightarrow> rstr list \<Rightarrow> phase_error + rstr \<times> nat \<times> rstr" where
  "stage_admin_upload sha env f maximum blocked_extensions =
     (case ff_file_name f of
        None \<Rightarrow> Inl (App 400 ''File name missing'')
      | Some file_name \<Rightarrow>
          (case safe_admin_filename file_name of
             Inl _ \<Rightarrow> Inl (App 400 ''Invalid file name'')
           | Inr name \<Rightarrow>
               if extension_is_blocked name blocked_extensions then Inl (App 415 ''File type blocked'')
               else (case en_storage env of Some e \<Rightarrow> Inl e | None \<Rightarrow>
                 (case en_stage env of Some e \<Rightarrow> Inl e | None \<Rightarrow>
                   (case admin_write_chunks maximum (ff_body f) 0 [] of
                      Inl e \<Rightarrow> Inl e
                    | Inr (file_total, content) \<Rightarrow>
                        (case en_finish env of
                           Some e \<Rightarrow> Inl (admin_staged_file_error e)
                         | None \<Rightarrow> Inr (name, file_total, sha content)))))))"

definition file_field ::
  "(rstr \<Rightarrow> rstr) \<Rightarrow> admin_request \<Rightarrow> form_field \<Rightarrow> admin_parser \<Rightarrow> (phase_error + admin_parser) option" where
  "file_field sha r f p =
     (if ap_staged p \<noteq> None then Some (Inl (App 400 ''Exactly one file is allowed per request''))
      else case ap_directory p of
        None \<Rightarrow> Some (Inl (App 400 ''Upload path must be submitted before the file''))
      | Some base \<Rightarrow>
          if \<not> ap_csrf_seen p then Some (Inl (App 400 ''CSRF proof must be submitted before the file''))
          else if \<not> ap_authorized p then None
          else
            let folder_path = (case ap_folder_path p of None \<Rightarrow> [] | Some x \<Rightarrow> x);
                target = (if folder_path = [] then base else join_display base folder_path) in
            (case stage_admin_upload sha (ar_env r) f (ar_maximum r) (ar_blocked_extensions r) of
               Inl e \<Rightarrow> Some (Inl e)
             | Inr (name, file_total, digest) \<Rightarrow>
                 Some (Inr (p\<lparr>ap_authorized := False, ap_staged := Some \<lparr>au_name = name, au_total = file_total,
                   au_content_sha256 = digest, au_directory = target, au_base = base, au_folder_path = folder_path,
                   au_overwrite_existing = ap_overwrite_existing p\<rparr>\<rparr>))))"

definition admin_field ::
  "(rstr \<Rightarrow> rstr) \<Rightarrow> admin_request \<Rightarrow> form_field \<Rightarrow> admin_parser \<Rightarrow> (phase_error + admin_parser) option" where
  "admin_field sha r f p =
     (let name = (case ff_name f of None \<Rightarrow> [] | Some n \<Rightarrow> n) in
      if name = n_upload_id then Some (upload_id_field r f p)
      else if name = n_path then Some (path_field f p)
      else if name = n_csrf then Some (csrf_field r f p)
      else if name = n_overwrite_existing then Some (overwrite_field r f p)
      else if name = n_folder_path then Some (folder_path_field f p)
      else if name = n_file then file_field sha r f p
      else Some (Inl (App 400 ''Unknown multipart field'')))"

fun admin_prefixes :: "admin_request \<Rightarrow> upload_prefix_field list \<Rightarrow> admin_parser \<Rightarrow> phase_error + admin_parser" where
  "admin_prefixes r [] p = Inr p"
| "admin_prefixes r (f # fs) p =
     (case record_field p of
        Inl e \<Rightarrow> Inl e
      | Inr p1 \<Rightarrow> (case admin_handle_prefix r f p1 of Inl e \<Rightarrow> Inl e | Inr p2 \<Rightarrow> admin_prefixes r fs p2))"

fun admin_fields ::
  "(rstr \<Rightarrow> rstr) \<Rightarrow> admin_request \<Rightarrow> form_field list \<Rightarrow> bool option \<Rightarrow> admin_parser \<Rightarrow> (phase_error + admin_parser) option" where
  "admin_fields sha r [] err p =
     Some (case err of None \<Rightarrow> Inr p | Some t \<Rightarrow> Inl (admin_multipart_read_error t ''Invalid upload''))"
| "admin_fields sha r (f # fs) err p =
     (case record_field p of
        Inl e \<Rightarrow> Some (Inl e)
      | Inr p1 \<Rightarrow>
          (case admin_field sha r f p1 of
             None \<Rightarrow> None
           | Some (Inl e) \<Rightarrow> Some (Inl e)
           | Some (Inr p2) \<Rightarrow> admin_fields sha r fs err p2))"

definition finish_admin_form :: "admin_parser \<Rightarrow> phase_error + admin_upload" where
  "finish_admin_form p =
     (if ap_directory p = None then Inl (App 400 ''Upload path missing'')
      else if \<not> ap_csrf_seen p then Inl (App 403 ''CSRF proof missing'')
      else case ap_staged p of
        None \<Rightarrow> Inl (App 400 ''Exactly one file is required per request'')
      | Some u \<Rightarrow> Inr u)"

definition parse_admin_upload ::
  "(rstr \<Rightarrow> rstr) \<Rightarrow> admin_request \<Rightarrow> upload_prefix_field list \<Rightarrow> multipart \<Rightarrow> (phase_error + admin_upload) option" where
  "parse_admin_upload sha r prefix mp =
     (case admin_prefixes r prefix new_admin_parser of
        Inl e \<Rightarrow> Some (Inl e)
      | Inr p \<Rightarrow>
          (case admin_fields sha r (mp_fields mp) (mp_error mp) p of
             None \<Rightarrow> None
           | Some (Inl e) \<Rightarrow> Some (Inl e)
           | Some (Inr p') \<Rightarrow> Some (finish_admin_form p')))"

definition admin_fingerprint :: "(rstr \<Rightarrow> rstr) \<Rightarrow> (metadata \<Rightarrow> rstr) \<Rightarrow> admin_upload \<Rightarrow> rstr" where
  "admin_fingerprint sha json u =
     sha (json (AdminMetadata (au_name u) (au_directory u) (au_overwrite_existing u) (au_total u) (au_content_sha256 u)))"

end
