(* ===== verification/Upload_Replay.thy ===== *)
theory Upload_Replay
  imports Upload_Form
begin

text \<open>
  A repeated upload request is recognised: the replay of \<open>src/src/upload_operation.rs\<close> against the
  first pass of \<open>src/src/public_upload_transport/\<close> and \<open>src/src/web/files/admin_upload_flow.rs\<close>, as a
  simulation of the form parsers by the replay; what a staged upload has reserved; and where its file
  goes.
\<close>

section \<open>Texts and file bodies\<close>

lemma limited_text_mono:
  "limited_multipart_text maximum v es = Inr s \<Longrightarrow> maximum \<le> maximum' \<Longrightarrow> limited_text maximum' v es = Inr s"
  by (induction maximum v es rule: limited_multipart_text.induct) (auto split: option.splits if_splits)

lemma text_field_InrI:
  "limited_multipart_text maximum [] (ff_body f) = Inr v \<Longrightarrow> maximum \<le> maximum' \<Longrightarrow> text_field maximum' f k = k v"
  using limited_text_mono[of maximum "[]" "ff_body f" v maximum'] by (simp add: text_field_def)

lemma with_text_InrD:
  "with_text f maximum status message k p = Inr p' \<Longrightarrow> \<exists>v. limited_multipart_text maximum [] (ff_body f) = Inr v \<and> k v p = Inr p'"
  by (auto simp: with_text_def read_text_def split: sum.splits text_error.splits)

lemma admin_with_text_InrD:
  "admin_with_text f maximum message k = Inr p' \<Longrightarrow> \<exists>v. limited_multipart_text maximum [] (ff_body f) = Inr v \<and> k v = Inr p'"
  by (auto simp: admin_with_text_def split: sum.splits text_error.splits)

lemma staged_file_write_Inr:
  "staged_file_write n maximum c = Inr m \<longleftrightarrow> m = n + length (ck_bytes c) \<and> m \<le> maximum \<and> m \<le> u64_max \<and> ck_write c = None"
  by (auto simp: staged_file_write_def checked_add_def split: option.splits if_splits)

lemma extend_reservation_frame:
  "extend_reservation th maximum n c su d = (Inr su', d') \<Longrightarrow>
     su_total su' = su_total su \<and> su_content su' = su_content su \<and> su_target su' = su_target su \<and> su_token su' = su_token su"
  by (auto simp: extend_reservation_def Let_def split: if_splits prod.splits sum.splits reservation_extend_outcome.splits)

lemma write_chunk_InrD:
  assumes "write_chunk th maximum c su d = (Inr su', d')"
  shows "su_total su' = su_total su + length (ck_bytes c)" "su_total su' \<le> maximum" "su_total su' \<le> u64_max"
    "su_content su' = su_content su @ ck_bytes c" "su_target su' = su_target su" "su_token su' = su_token su"
proof -
  obtain n su1 d1 where n: "add_upload_bytes (su_total su) (length (ck_bytes c)) maximum = Inr n"
      "extend_reservation th maximum n c su d = (Inr su1, d1)" "staged_file_write (su_total su1) maximum c = Inr (su_total su')"
      "su' = su1\<lparr>su_total := su_total su', su_content := su_content su1 @ ck_bytes c\<rparr>"
    using assms by (auto simp: write_chunk_def Let_def split: sum.splits prod.splits)
  note f = extend_reservation_frame[OF n(2)]
  show "su_total su' = su_total su + length (ck_bytes c)" "su_total su' \<le> maximum" "su_total su' \<le> u64_max"
    using n(3) f by (auto simp: staged_file_write_Inr)
  show "su_content su' = su_content su @ ck_bytes c" "su_target su' = su_target su" "su_token su' = su_token su"
    using f by (subst n(4), simp)+
qed

lemma write_chunks_replay:
  "write_chunks th maximum es su d = (Inr su', d') \<Longrightarrow> maximum \<le> MAX_UPLOAD_SIZE \<Longrightarrow>
    \<exists>bytes. replay_size (su_total su) es = Inr (su_total su', bytes) \<and> su_content su' = su_content su @ bytes
      \<and> su_target su' = su_target su"
proof (induction th maximum es su d rule: write_chunks.induct)
  case (3 th maximum c es su d)
  obtain su1 d1 where su1: "write_chunk th maximum c su d = (Inr su1, d1)" "write_chunks th maximum es su1 d1 = (Inr su', d')"
    using "3.prems"(1) by (auto split: sum.splits prod.splits)
  note w = write_chunk_InrD[OF su1(1)]
  obtain bytes where b: "replay_size (su_total su1) es = Inr (su_total su', bytes)" "su_content su' = su_content su1 @ bytes"
      "su_target su' = su_target su1"
    using "3.IH"[OF su1(1)[symmetric] _ su1(2)] su1 "3.prems"(2) by auto
  have "checked_add (su_total su) (length (ck_bytes c)) = Some (su_total su1)" using w by (simp add: checked_add_def)
  then show ?case using b w "3.prems"(2) by simp
qed auto

lemma admin_write_chunks_replay:
  "admin_write_chunks maximum es n content = Inr (m, content') \<Longrightarrow> maximum \<le> MAX_UPLOAD_SIZE \<Longrightarrow>
    \<exists>bytes. replay_size n es = Inr (m, bytes) \<and> content' = content @ bytes"
proof (induction maximum es n content rule: admin_write_chunks.induct)
  case (3 maximum c es n content)
  then obtain k where k: "staged_file_write n maximum c = Inr k" "admin_write_chunks maximum es k (content @ ck_bytes c) = Inr (m, content')"
    by (auto split: sum.splits)
  then obtain bytes where "replay_size k es = Inr (m, bytes)" "content' = (content @ ck_bytes c) @ bytes" using "3.IH" "3.prems"(2) by blast
  then show ?case using k(1) "3.prems"(2) by (auto simp: staged_file_write_Inr checked_add_def)
qed auto

section \<open>Public uploads\<close>

definition public_kind :: "form_phase \<Rightarrow> replay_kind" where
  "public_kind ph = Public (shr_permission (fp_share ph)) (fp_required_csrf ph) (fp_csrf_header_valid ph)"

definition base_of :: "public_parser \<Rightarrow> rstr" where
  "base_of p = (case pp_staged p of None \<Rightarrow> pp_upload_subdir p | Some su \<Rightarrow> tg_upload_base (su_target su))"

text \<open>The replay has seen what the first pass has seen.\<close>

definition replays :: "(rstr \<Rightarrow> rstr) \<Rightarrow> form_phase \<Rightarrow> public_parser \<Rightarrow> replay_state \<Rightarrow> bool" where
  "replays sha ph p rp \<longleftrightarrow>
     (let fs = pp_form_state p in
      rp_fields rp = fields_seen fs \<and> fields_seen fs \<le> 6
      \<and> rp_id_seen rp = saw_upload_id fs \<and> rp_csrf_seen rp = saw_csrf fs
      \<and> (rp_base rp \<noteq> None) = saw_path fs \<and> base_of p = (case rp_base rp of None \<Rightarrow> [] | Some b \<Rightarrow> b)
      \<and> (rp_folder rp \<noteq> None) = saw_folder_path fs \<and> rp_folder rp = pp_folder_path p
      \<and> (rp_overwrite rp \<noteq> None) = saw_overwrite fs \<and> pp_overwrite_requested p = (rp_overwrite rp = Some True)
      \<and> (pp_staged p \<noteq> None) = saw_file fs \<and> pp_authorized p = (pp_staged p = None)
      \<and> (pp_csrf_validated p \<longrightarrow> fp_required_csrf ph = None \<or> fp_csrf_header_valid ph \<or> saw_csrf fs)
      \<and> (saw_file fs \<longrightarrow> pp_csrf_validated p)
      \<and> (case pp_staged p of
           None \<Rightarrow> rp_file rp = None
         | Some su \<Rightarrow> tg_folder_path (su_target su) = (case pp_folder_path p of None \<Rightarrow> [] | Some f \<Rightarrow> f)
             \<and> rp_file rp = Some (tg_file_name (su_target su), su_total su, sha (su_content su))))"

lemma names_distinct:
  "distinct [n_upload_id, n_path, n_folder_path, n_overwrite_existing, n_csrf, n_file]"
  by code_simp

lemma names_distinct_rev:
  "distinct [n_file, n_csrf, n_overwrite_existing, n_folder_path, n_path, n_upload_id]"
  by code_simp

lemmas name_neqs = names_distinct[simplified]
lemmas name_neq_rules = names_distinct[simplified] names_distinct_rev[simplified]

lemma field_of_prefix_name:
  "field_of_name (prefix_name PrefixId) = UploadId" "field_of_name (prefix_name PrefixPath) = Path"
  "field_of_name (prefix_name PrefixFolderPath) = FolderPath" "field_of_name (prefix_name PrefixOverwrite) = Overwrite"
  "field_of_name (prefix_name PrefixCsrf) = Csrf"
  using name_neqs by (auto simp: field_of_name_def)

lemma observe_field_InrD:
  assumes "observe_field name p = Inr (kind, p')"
  shows "kind = field_of_name name" "\<exists>st. observe (pp_form_state p) kind 6 = (Inr (), st) \<and> p' = p\<lparr>pp_form_state := st\<rparr>"
  using assms by (auto simp: observe_field_def MAX_UPLOAD_MULTIPART_FIELDS_def Let_def split: prod.splits sum.splits)

lemma observe_seen:
  assumes "observe st kind 6 = (Inr (), st')" "fields_seen st \<le> 6"
  shows "fields_seen st' = fields_seen st + 1" "fields_seen st + 1 \<le> 6"
proof -
  have "saturating_add (fields_seen st) 1 = fields_seen st + 1"
    using assms(2) by (simp add: saturating_add_exact u64_max_def)
  then show "fields_seen st' = fields_seen st + 1" "fields_seen st + 1 \<le> 6"
    using assms(1) by (auto simp: observe_def Let_def split: if_splits upload_form_field.splits)
qed

lemma constant_time_eq_commute: "constant_time_eq a b = constant_time_eq b a"
  by (auto simp: constant_time_eq_def)

lemma relative_text_set_folder_path:
  "set_folder_path v p = Inr p' \<Longrightarrow> \<exists>f. relative_text v = Some f \<and> p' = p\<lparr>pp_folder_path := Some f\<rparr>"
  by (auto simp: set_folder_path_def Let_def split: option.splits if_splits)

text \<open>What a field does to the parser, whether it was read with the upload id or later.\<close>

definition apply_text :: "form_phase \<Rightarrow> upload_prefix_kind \<Rightarrow> rstr \<Rightarrow> public_parser \<Rightarrow> phase_error + public_parser" where
  "apply_text ph kind v p =
     (case kind of
        PrefixId \<Rightarrow> check_upload_id ph v p
      | PrefixPath \<Rightarrow> set_path ph v p
      | PrefixFolderPath \<Rightarrow> set_folder_path v p
      | PrefixOverwrite \<Rightarrow> set_overwrite ph v p
      | PrefixCsrf \<Rightarrow> set_csrf ph v p)"

fun form_kind :: "upload_prefix_kind \<Rightarrow> upload_form_field" where
  "form_kind PrefixId = UploadId"
| "form_kind PrefixPath = Path"
| "form_kind PrefixFolderPath = FolderPath"
| "form_kind PrefixOverwrite = Overwrite"
| "form_kind PrefixCsrf = Csrf"

lemma text_step:
  assumes sim: "replays sha ph p rp" and obs: "observe (pp_form_state p) (form_kind kind) 6 = (Inr (), st)"
    and app: "apply_text ph kind v (p\<lparr>pp_form_state := st\<rparr>) = Inr p'"
  shows "\<exists>rp'. replay_prefix_field (fp_upload_id ph) (public_kind ph) rp \<lparr>up_kind = kind, up_value = v\<rparr> = Inr rp'
    \<and> replays sha ph p' rp'"
proof -
  have le: "fields_seen (pp_form_state p) \<le> 6" and n: "rp_fields rp = fields_seen (pp_form_state p)"
    using sim by (auto simp: replays_def Let_def)
  note seen = observe_seen[OF obs le]
  have sat: "saturating_add (fields_seen (pp_form_state p)) 1 = fields_seen (pp_form_state p) + 1"
    using le by (simp add: saturating_add_exact u64_max_def)
  note defs = replay_prefix_field_def Let_def ensure_field_limit_def
  show ?thesis
  proof (cases kind)
    case PrefixId
    then have "saw_upload_id (pp_form_state p) = False" "saw_file (pp_form_state p) = False"
        "st = (pp_form_state p)\<lparr>fields_seen := fields_seen (pp_form_state p) + 1, saw_upload_id := True\<rparr>"
      using obs sat by (auto simp: observe_def Let_def split: if_splits)
    moreover have "p' = p\<lparr>pp_form_state := st\<rparr>" "constant_time_eq (fp_upload_id ph) v"
      using app PrefixId constant_time_eq_commute[of v] by (auto simp: apply_text_def check_upload_id_def split: if_splits)
    ultimately have "replay_prefix_field (fp_upload_id ph) (public_kind ph) rp \<lparr>up_kind = kind, up_value = v\<rparr>
          = Inr (rp\<lparr>rp_fields := rp_fields rp + 1, rp_id_seen := True\<rparr>)" "replays sha ph p' (rp\<lparr>rp_fields := rp_fields rp + 1, rp_id_seen := True\<rparr>)"
      using sim[unfolded replays_def Let_def] seen(2) PrefixId
      by (elim conjE; simp add: defs replays_def base_of_def replay_base_def public_kind_def del: not_None_eq)+
    then show ?thesis by blast
  next
    case PrefixPath
    then have "saw_path (pp_form_state p) = False" "saw_file (pp_form_state p) = False"
        "st = (pp_form_state p)\<lparr>fields_seen := fields_seen (pp_form_state p) + 1, saw_path := True\<rparr>"
      using obs sat by (auto simp: observe_def Let_def split: if_splits)
    moreover obtain dir where "normalize_public_upload_subdir (shr_permission (fp_share ph)) v = Inr dir"
        "p' = p\<lparr>pp_form_state := st, pp_upload_subdir := dir\<rparr>"
      using app PrefixPath by (auto simp: apply_text_def set_path_def split: sum.splits)
    ultimately have "replay_prefix_field (fp_upload_id ph) (public_kind ph) rp \<lparr>up_kind = kind, up_value = v\<rparr>
          = Inr (rp\<lparr>rp_fields := rp_fields rp + 1, rp_base := Some dir\<rparr>)" "replays sha ph p' (rp\<lparr>rp_fields := rp_fields rp + 1, rp_base := Some dir\<rparr>)"
      using sim[unfolded replays_def Let_def] seen(2) PrefixPath
      by (elim conjE; simp add: defs replays_def base_of_def replay_base_def public_kind_def del: not_None_eq)+
    then show ?thesis by blast
  next
    case PrefixFolderPath
    then have "saw_folder_path (pp_form_state p) = False" "saw_file (pp_form_state p) = False"
        "st = (pp_form_state p)\<lparr>fields_seen := fields_seen (pp_form_state p) + 1, saw_folder_path := True\<rparr>"
      using obs sat by (auto simp: observe_def Let_def split: if_splits)
    moreover obtain f where "relative_text v = Some f" "p' = p\<lparr>pp_form_state := st, pp_folder_path := Some f\<rparr>"
      using app PrefixFolderPath relative_text_set_folder_path[of v "p\<lparr>pp_form_state := st\<rparr>" p'] by (auto simp: apply_text_def)
    ultimately have "replay_prefix_field (fp_upload_id ph) (public_kind ph) rp \<lparr>up_kind = kind, up_value = v\<rparr>
          = Inr (rp\<lparr>rp_fields := rp_fields rp + 1, rp_folder := Some f\<rparr>)" "replays sha ph p' (rp\<lparr>rp_fields := rp_fields rp + 1, rp_folder := Some f\<rparr>)"
      using sim[unfolded replays_def Let_def] seen(2) PrefixFolderPath
      by (elim conjE; simp add: defs replays_def base_of_def replay_base_def public_kind_def del: not_None_eq)+
    then show ?thesis by blast
  next
    case PrefixOverwrite
    then have "saw_overwrite (pp_form_state p) = False"
        "st = (pp_form_state p)\<lparr>fields_seen := fields_seen (pp_form_state p) + 1, saw_overwrite := True\<rparr>"
      using obs sat by (auto simp: observe_def Let_def split: if_splits)
    moreover have "p' = p\<lparr>pp_form_state := st, pp_overwrite_requested := (v = [49])\<rparr>"
      using app PrefixOverwrite by (auto simp: apply_text_def set_overwrite_def Let_def split: if_splits)
    ultimately have "replay_prefix_field (fp_upload_id ph) (public_kind ph) rp \<lparr>up_kind = kind, up_value = v\<rparr>
          = Inr (rp\<lparr>rp_fields := rp_fields rp + 1, rp_overwrite := Some (v = [49])\<rparr>)" "replays sha ph p' (rp\<lparr>rp_fields := rp_fields rp + 1, rp_overwrite := Some (v = [49])\<rparr>)"
      using sim[unfolded replays_def Let_def] seen(2) PrefixOverwrite
      by (cases "pp_staged p"; elim conjE; simp add: defs replays_def base_of_def replay_base_def public_kind_def del: not_None_eq)+
    then show ?thesis by blast
  next
    case PrefixCsrf
    then have "saw_csrf (pp_form_state p) = False" "saw_file (pp_form_state p) = False"
        "st = (pp_form_state p)\<lparr>fields_seen := fields_seen (pp_form_state p) + 1, saw_csrf := True\<rparr>"
      using obs sat by (auto simp: observe_def Let_def split: if_splits)
    moreover have "p' = p\<lparr>pp_form_state := st, pp_csrf_validated := True\<rparr>" "replay_csrf_ok (public_kind ph) v"
      using app PrefixCsrf by (auto simp: apply_text_def set_csrf_def Let_def replay_csrf_ok_def public_kind_def split: if_splits option.splits)
    ultimately have "replay_prefix_field (fp_upload_id ph) (public_kind ph) rp \<lparr>up_kind = kind, up_value = v\<rparr>
          = Inr (rp\<lparr>rp_fields := rp_fields rp + 1, rp_csrf_seen := True\<rparr>)" "replays sha ph p' (rp\<lparr>rp_fields := rp_fields rp + 1, rp_csrf_seen := True\<rparr>)"
      using sim[unfolded replays_def Let_def] seen(2) PrefixCsrf
      by (elim conjE; simp add: defs replays_def base_of_def replay_base_def public_kind_def del: not_None_eq)+
    then show ?thesis by blast
  qed
qed

lemma prefix_step:
  assumes "replays sha ph p rp" "handle_prefix ph f p = Inr p'"
  shows "\<exists>rp'. replay_prefix_field (fp_upload_id ph) (public_kind ph) rp f = Inr rp' \<and> replays sha ph p' rp'"
proof -
  obtain kind p1 where k: "observe_field (prefix_name (up_kind f)) p = Inr (kind, p1)"
    using assms(2) by (auto simp: handle_prefix_def split: sum.splits)
  have kind: "kind = form_kind (up_kind f)"
    using observe_field_InrD(1)[OF k] field_of_prefix_name by (cases "up_kind f") simp_all
  obtain st where st: "observe (pp_form_state p) (form_kind (up_kind f)) 6 = (Inr (), st)" "p1 = p\<lparr>pp_form_state := st\<rparr>"
    using observe_field_InrD(2)[OF k] kind by auto
  have "apply_text ph (up_kind f) (up_value f) (p\<lparr>pp_form_state := st\<rparr>) = Inr p'"
    using assms(2) k st(2) by (auto simp: handle_prefix_def apply_text_def Let_def split: upload_prefix_kind.splits if_splits)
  from text_step[OF assms(1) st(1) this] show ?thesis by (cases f) simp
qed

lemma prefixes_step:
  "handle_prefixes ph fs p = Inr p' \<Longrightarrow> replays sha ph p rp \<Longrightarrow>
     \<exists>rp'. parse_replay_prefix (fp_upload_id ph) (public_kind ph) rp fs = Inr rp' \<and> replays sha ph p' rp'"
proof (induction ph fs p arbitrary: rp rule: handle_prefixes.induct)
  case (2 ph f fs p)
  obtain p1 where p1: "handle_prefix ph f p = Inr p1" "handle_prefixes ph fs p1 = Inr p'"
    using "2.prems"(1) by (auto split: sum.splits)
  obtain rp1 where rp1: "replay_prefix_field (fp_upload_id ph) (public_kind ph) rp f = Inr rp1" "replays sha ph p1 rp1"
    using prefix_step[OF "2.prems"(2) p1(1)] by blast
  then show ?case using "2.IH"[OF p1(1) p1(2) rp1(2)] by simp
qed simp

fun replay_maximum :: "upload_prefix_kind \<Rightarrow> nat" where
  "replay_maximum PrefixId = 64"
| "replay_maximum PrefixPath = MAX_UPLOAD_PATH_FIELD_BYTES"
| "replay_maximum PrefixFolderPath = MAX_UPLOAD_PATH_FIELD_BYTES"
| "replay_maximum PrefixOverwrite = MAX_UPLOAD_OPTION_FIELD_BYTES"
| "replay_maximum PrefixCsrf = 512"

definition field_name :: "form_field \<Rightarrow> rstr" where
  "field_name f = (case ff_name f of None \<Rightarrow> [] | Some n \<Rightarrow> n)"

text \<open>A text field is replayed as if it had been read with the upload id.\<close>

lemma replay_field_text:
  assumes name: "field_name f = prefix_name k" and v: "limited_multipart_text maximum [] (ff_body f) = Inr v" "maximum \<le> replay_maximum k"
    and place: "rp_file rp = None \<or> k = PrefixOverwrite \<and> (\<forall>csrf. kind \<noteq> Admin csrf)"
    and pre: "replay_prefix_field i kind rp \<lparr>up_kind = k, up_value = v\<rparr> = Inr rp'"
  shows "replay_field sha i kind rp f = Inr rp'"
proof -
  have tf: "text_field (replay_maximum k) f g = g v" for g :: "rstr \<Rightarrow> string + replay_state"
    by (rule text_field_InrI[OF v])
  note defs = replay_field_def replay_prefix_field_def Let_def field_name_def[symmetric]
  show ?thesis
  proof (cases k)
    case PrefixId
    then show ?thesis using name name_neqs place pre tf[unfolded PrefixId replay_maximum.simps]
      by (auto simp: defs split: sum.splits if_splits replay_kind.splits)
  next
    case PrefixPath
    then show ?thesis using name name_neqs place pre tf[unfolded PrefixPath replay_maximum.simps]
      by (auto simp: defs split: sum.splits if_splits replay_kind.splits)
  next
    case PrefixFolderPath
    then show ?thesis using name name_neqs place pre tf[unfolded PrefixFolderPath replay_maximum.simps]
      by (auto simp: defs split: sum.splits if_splits replay_kind.splits)
  next
    case PrefixOverwrite
    then show ?thesis using name name_neqs place pre tf[unfolded PrefixOverwrite replay_maximum.simps]
      by (auto simp: defs split: sum.splits if_splits replay_kind.splits)
  next
    case PrefixCsrf
    then show ?thesis using name name_neqs place pre tf[unfolded PrefixCsrf replay_maximum.simps]
      by (auto simp: defs split: sum.splits if_splits replay_kind.splits)
  qed
qed

lemma field_of_name_cases:
  "field_of_name name = form_kind k \<Longrightarrow> name = prefix_name k" "field_of_name name = File \<Longrightarrow> name = n_file"
  by (cases k; auto simp: field_of_name_def split: if_splits)+

lemma validate_public_upload_filename_Inr:
  "validate_public_upload_filename raw blocked = Inr n \<Longrightarrow> safe_admin_filename raw = Inr n \<and> \<not> extension_is_blocked n blocked"
  by (auto simp: validate_public_upload_filename_def split: sum.splits if_splits)

lemma begin_staging_InrD:
  "begin_staging th env target d = (Inr su, d') \<Longrightarrow> su_total su = 0 \<and> su_content su = [] \<and> su_target su = target
     \<and> su_token su = en_token env \<and> su_reserved_bytes su = 0
     \<and> begin_upload_reservation th (en_token env) (tg_share_id target) (tg_epoch target) (en_now env) d = (Inr Reserved, d')"
  by (auto simp: begin_staging_def split: prod.splits sum.splits reservation_begin_outcome.splits option.splits)

lemma stage_file_InrD:
  assumes "stage_file th ph f target p d = (Inr p', d')"
  obtains su d1 su' where "begin_staging th (fp_env ph) target d = (Inr su, d1)"
    "write_chunks th (fp_maximum ph) (ff_body f) su d1 = (Inr su', d')"
    "p' = p\<lparr>pp_upload_subdir := tg_upload_subdir (su_target su), pp_staged := Some su'\<rparr>"
  using assms by (auto simp: stage_file_def Let_def split: prod.splits sum.splits option.splits)

lemma handle_file_InrD:
  assumes "handle_file th ph f p d = Some (Inr p', d')"
  obtains raw name target p1 where "pp_csrf_validated p" "ff_file_name f = Some raw"
    "safe_admin_filename raw = Inr name" "\<not> extension_is_blocked name (fp_blocked_extensions ph)"
    "bind_target ph name p = Some (Inr (target, p1))" "stage_file th ph f target p1 d = (Inr p', d')"
  using assms validate_public_upload_filename_Inr
  by (auto simp: handle_file_def split: if_splits option.splits sum.splits public_upload_policy_error.splits)

lemma bind_target_InrD:
  assumes "bind_target ph name p = Some (Inr (target, p1))"
  shows "p1 = p\<lparr>pp_authorized := False\<rparr>" "tg_file_name target = name" "tg_upload_base target = pp_upload_subdir p"
    "tg_folder_path target = (case pp_folder_path p of None \<Rightarrow> [] | Some f \<Rightarrow> f)"
    "tg_upload_subdir target = join_display (tg_upload_base target) (tg_folder_path target)"
    "tg_share_id target = shr_id (fp_share ph)" "tg_epoch target = shr_upload_policy_epoch (fp_share ph)"
    "str_len (join_display (join_display (shr_relative_path (fp_share ph)) (tg_upload_subdir target)) name)
       \<le> MAX_UPLOAD_TARGET_PATH_BYTES"
  using assms by (auto simp: bind_target_def Let_def split: if_splits option.splits)

lemma file_step:
  assumes sim: "replays sha ph p rp" and obs: "observe (pp_form_state p) File 6 = (Inr (), st)"
    and handled: "handle_file th ph f (p\<lparr>pp_form_state := st\<rparr>) d = Some (Inr p', d')"
    and name: "field_name f = n_file" and max: "fp_maximum ph \<le> MAX_UPLOAD_SIZE"
  shows "\<exists>rp'. replay_field sha (fp_upload_id ph) (public_kind ph) rp f = Inr rp' \<and> replays sha ph p' rp'"
proof -
  let ?p = "p\<lparr>pp_form_state := st\<rparr>"
  have le: "fields_seen (pp_form_state p) \<le> 6" using sim by (simp add: replays_def Let_def)
  note seen = observe_seen[OF obs le]
  have sat: "saturating_add (fields_seen (pp_form_state p)) 1 = fields_seen (pp_form_state p) + 1"
    using le by (simp add: saturating_add_exact u64_max_def)
  have st: "\<not> saw_file (pp_form_state p)"
      "st = (pp_form_state p)\<lparr>fields_seen := fields_seen (pp_form_state p) + 1, saw_file := True\<rparr>"
    using obs sat by (auto simp: observe_def Let_def split: if_splits)
  obtain raw n target p1 where h: "pp_csrf_validated ?p" "ff_file_name f = Some raw" "safe_admin_filename raw = Inr n"
      "bind_target ph n ?p = Some (Inr (target, p1))" "stage_file th ph f target p1 d = (Inr p', d')"
    using handle_file_InrD[OF handled] by metis
  obtain su d1 su' where su: "begin_staging th (fp_env ph) target d = (Inr su, d1)"
      "write_chunks th (fp_maximum ph) (ff_body f) su d1 = (Inr su', d')"
      "p' = p1\<lparr>pp_upload_subdir := tg_upload_subdir (su_target su), pp_staged := Some su'\<rparr>"
    using stage_file_InrD[OF h(5)] by blast
  note b = begin_staging_InrD[OF su(1)] and t = bind_target_InrD[OF h(4)]
  obtain bytes where w: "replay_size 0 (ff_body f) = Inr (su_total su', bytes)" "su_content su' = bytes" "su_target su' = target"
    using write_chunks_replay[OF su(2) max] b by auto
  have hash: "hash_replayed_file sha f = Inr (n, su_total su', sha (su_content su'))"
    using h(2,3) w by (simp add: hash_replayed_file_def)
  let ?rp = "rp\<lparr>rp_fields := rp_fields rp + 1, rp_file := Some (n, su_total su', sha (su_content su'))\<rparr>"
  have "replay_field sha (fp_upload_id ph) (public_kind ph) rp f = Inr ?rp"
    using sim[unfolded replays_def Let_def] st(1) seen(2) name name_neqs hash
    by (elim conjE) (simp add: replay_field_def Let_def ensure_field_limit_def field_name_def[symmetric] del: not_None_eq)
  moreover have "replays sha ph p' ?rp"
    using sim[unfolded replays_def Let_def] st seen(2) h(1) su(3) t w(3)
    by (elim conjE) (simp add: replays_def base_of_def del: not_None_eq)
  ultimately show ?thesis by blast
qed

lemma field_step:
  assumes sim: "replays sha ph p rp" and obs: "observe_field (field_name f) p = Inr (kind, p1)"
    and handle: "handle_field th ph kind f p1 d = Some (Inr p', d')" and max: "fp_maximum ph \<le> MAX_UPLOAD_SIZE"
  shows "\<exists>rp'. replay_field sha (fp_upload_id ph) (public_kind ph) rp f = Inr rp' \<and> replays sha ph p' rp'"
proof -
  note k = observe_field_InrD[OF obs]
  obtain st where st: "observe (pp_form_state p) kind 6 = (Inr (), st)" "p1 = p\<lparr>pp_form_state := st\<rparr>" using k(2) by blast
  show ?thesis
  proof (cases "kind = File")
    case True
    have "field_name f = n_file" using field_of_name_cases(2) k(1) True by simp
    then show ?thesis using file_step[OF sim] st handle max True by (simp add: handle_field_def)
  next
    case False
    have "kind \<noteq> Unknown" using handle by (auto simp: handle_field_def)
    then obtain pk where pk: "kind = form_kind pk"
      using False form_kind.simps by (cases kind) metis+
    have name: "field_name f = prefix_name pk" using field_of_name_cases(1) k(1) pk by simp
    obtain maximum v where v: "limited_multipart_text maximum [] (ff_body f) = Inr v" "maximum \<le> replay_maximum pk"
        "apply_text ph pk v p1 = Inr p'"
      using handle pk by (cases pk) (auto simp: handle_field_def apply_text_def dest!: with_text_InrD)
    have "\<not> saw_file (pp_form_state p) \<or> pk = PrefixOverwrite"
      using st(1) pk by (cases pk) (auto simp: observe_def Let_def split: if_splits)
    then have place: "rp_file rp = None \<or> pk = PrefixOverwrite \<and> (\<forall>csrf. public_kind ph \<noteq> Admin csrf)"
      using sim by (auto simp: replays_def Let_def public_kind_def split: option.splits)
    obtain rp' where rp': "replay_prefix_field (fp_upload_id ph) (public_kind ph) rp \<lparr>up_kind = pk, up_value = v\<rparr> = Inr rp'"
        "replays sha ph p' rp'"
      using text_step[OF sim _ v(3)[unfolded st(2)]] st(1) pk by blast
    then show ?thesis using replay_field_text[OF name v(1,2) place rp'(1)] by blast
  qed
qed

lemma fields_step:
  "parse_fields th ph fs err p d = Some (Inr p', d') \<Longrightarrow> replays sha ph p rp \<Longrightarrow> fp_maximum ph \<le> MAX_UPLOAD_SIZE \<Longrightarrow>
     err = None \<and> (\<exists>rp'. replay_fields sha (fp_upload_id ph) (public_kind ph) rp fs err = Inr rp' \<and> replays sha ph p' rp')"
proof (induction th ph fs err p d arbitrary: rp rule: parse_fields.induct)
  case (1 th ph err p d)
  then show ?case by (auto split: option.splits)
next
  case (2 th ph f fs err p d)
  obtain kind p1 p2 d2 where s: "observe_field (field_name f) p = Inr (kind, p1)" "handle_field th ph kind f p1 d = Some (Inr p2, d2)"
      "parse_fields th ph fs err p2 d2 = Some (Inr p', d')"
    using "2.prems"(1) by (auto simp: field_name_def split: sum.splits option.splits prod.splits)
  obtain rp1 where rp1: "replay_field sha (fp_upload_id ph) (public_kind ph) rp f = Inr rp1" "replays sha ph p2 rp1"
    using field_step[OF "2.prems"(2) s(1,2) "2.prems"(3)] by blast
  show ?case
    using "2.IH"[OF s(1)[unfolded field_name_def] _ s(2) _ _ s(3) rp1(2) "2.prems"(3)] rp1(1) by auto
qed

lemma new_parser_replays: "replays sha ph (new_public_parser ph) empty_replay"
  by (auto simp: replays_def Let_def new_public_parser_def empty_replay_def default_form_state_def base_of_def)

text \<open>C32: the replay of a public upload recognises its request. When the first pass over a form
  succeeds, the replay of the same form (its prefix and its multipart fields, with whatever chunking
  and timing) succeeds too and computes the fingerprint that the first pass bound to the operation:
  the same name, directories, overwrite intent, size and content digest.\<close>

theorem public_replay_matches:
  assumes "run_form th sha ph prefix mp d = Some (Inr u, d')" "fp_maximum ph \<le> MAX_UPLOAD_SIZE"
  shows "replay_fingerprint sha json mp (fp_upload_id ph) prefix (public_kind ph) = Inr (fingerprint sha json u)"
proof -
  obtain p p' where p: "handle_prefixes ph prefix (new_public_parser ph) = Inr p"
      "parse_fields th ph (mp_fields mp) (mp_error mp) p d = Some (Inr p', d')" "finish_form sha p' = Inr u"
    using assms(1) by (auto simp: run_form_def split: sum.splits option.splits prod.splits)
  obtain rp where rp: "parse_replay_prefix (fp_upload_id ph) (public_kind ph) empty_replay prefix = Inr rp" "replays sha ph p rp"
    using prefixes_step[OF p(1) new_parser_replays] by blast
  obtain rp' where rp': "replay_fields sha (fp_upload_id ph) (public_kind ph) rp (mp_fields mp) (mp_error mp) = Inr rp'"
      "replays sha ph p' rp'"
    using fields_step[OF p(2) rp(2) assms(2)] by auto
  obtain su where su: "pp_staged p' = Some su" using p(3) by (auto simp: finish_form_def split: option.splits)
  have u: "u = \<lparr>pu_target = su_target su, pu_overwrite_requested = pp_overwrite_requested p', pu_total = su_total su,
      pu_content_sha256 = sha (su_content su), pu_token = su_token su, pu_reserved_bytes = su_reserved_bytes su\<rparr>"
    using p(3) su by (simp add: finish_form_def)
  have f: "rp_file rp' = Some (tg_file_name (su_target su), su_total su, sha (su_content su))"
      "(case rp_base rp' of None \<Rightarrow> [] | Some b \<Rightarrow> b) = tg_upload_base (su_target su)"
      "(case rp_folder rp' of None \<Rightarrow> [] | Some b \<Rightarrow> b) = tg_folder_path (su_target su)"
      "(case rp_overwrite rp' of None \<Rightarrow> False | Some b \<Rightarrow> b) = pp_overwrite_requested p'"
    using rp'(2) su by (auto simp: replays_def Let_def base_of_def split: option.splits)
  have csrf: "fp_required_csrf ph = None \<or> fp_csrf_header_valid ph \<or> rp_csrf_seen rp'"
    using rp'(2)[unfolded replays_def Let_def] su by (elim conjE) simp
  have "finish_replay_fingerprint sha json (public_kind ph) rp' = Inr (fingerprint sha json u)"
    using csrf unfolding finish_replay_fingerprint_def f(1) public_kind_def fingerprint_def u
    by (auto simp: f)
  then show ?thesis using rp(1) rp'(1) by (simp add: replay_fingerprint_def)
qed

section \<open>Administrator uploads\<close>

definition admin_replays :: "admin_parser \<Rightarrow> replay_state \<Rightarrow> bool" where
  "admin_replays p rp \<longleftrightarrow>
     rp_fields rp = ap_fields_seen p \<and> ap_fields_seen p \<le> 6
     \<and> rp_id_seen rp = ap_id_seen p \<and> rp_csrf_seen rp = ap_csrf_seen p
     \<and> rp_base rp = ap_directory p \<and> rp_folder rp = ap_folder_path p
     \<and> (rp_overwrite rp \<noteq> None) = ap_saw_overwrite p \<and> ap_overwrite_existing p = (rp_overwrite rp = Some True)
     \<and> ap_authorized p = (ap_staged p = None)
     \<and> (case ap_staged p of
          None \<Rightarrow> rp_file rp = None
        | Some u \<Rightarrow> rp_file rp = Some (au_name u, au_total u, au_content_sha256 u) \<and> ap_directory p = Some (au_base u)
            \<and> au_folder_path u = (case ap_folder_path p of None \<Rightarrow> [] | Some f \<Rightarrow> f)
            \<and> au_directory u = (if au_folder_path u = [] then au_base u else join_display (au_base u) (au_folder_path u))
            \<and> au_overwrite_existing u = ap_overwrite_existing p)"

lemma new_admin_replays: "admin_replays new_admin_parser empty_replay"
  by (simp add: admin_replays_def new_admin_parser_def empty_replay_def)

text \<open>What a text field does to the parser of an administrator upload.\<close>

definition admin_apply :: "admin_request \<Rightarrow> upload_prefix_kind \<Rightarrow> rstr \<Rightarrow> admin_parser \<Rightarrow> admin_parser \<Rightarrow> bool" where
  "admin_apply r k v p p' \<longleftrightarrow>
     (case k of
        PrefixId \<Rightarrow> \<not> ap_id_seen p \<and> constant_time_eq (ar_upload_id r) v \<and> p' = p\<lparr>ap_id_seen := True\<rparr>
      | PrefixPath \<Rightarrow> ap_directory p = None \<and> (\<exists>path. relative_text v = Some path \<and> p' = p\<lparr>ap_directory := Some path\<rparr>)
      | PrefixFolderPath \<Rightarrow>
          ap_folder_path p = None \<and> (\<exists>path. relative_text v = Some path \<and> p' = p\<lparr>ap_folder_path := Some path\<rparr>)
      | PrefixOverwrite \<Rightarrow> \<not> ap_saw_overwrite p \<and> p' = p\<lparr>ap_saw_overwrite := True, ap_overwrite_existing := (v = [49])\<rparr>
      | PrefixCsrf \<Rightarrow> \<not> ap_csrf_seen p \<and> constant_time_eq (ar_csrf_token r) v \<and> p' = p\<lparr>ap_csrf_seen := True\<rparr>)"

lemma record_field_InrD: "record_field p = Inr p' \<Longrightarrow> p' = p\<lparr>ap_fields_seen := ap_fields_seen p + 1\<rparr> \<and> ap_fields_seen p + 1 \<le> 6"
  by (auto simp: record_field_def Let_def split: if_splits)

lemma admin_handle_prefix_InrD:
  "admin_handle_prefix r f p = Inr p' \<Longrightarrow> admin_apply r (up_kind f) (up_value f) p p'"
  using constant_time_eq_commute[of "up_value f"]
  by (auto simp: admin_handle_prefix_def admin_apply_def Let_def admin_set_overwrite_def admin_csrf_def
      split: upload_prefix_kind.splits if_splits option.splits)

lemma admin_text_step:
  assumes sim: "admin_replays p rp" and rec: "record_field p = Inr p1" and app: "admin_apply r k v p1 p'" and none: "ap_staged p = None"
  shows "\<exists>rp'. replay_prefix_field (ar_upload_id r) (Admin (ar_csrf_token r)) rp \<lparr>up_kind = k, up_value = v\<rparr> = Inr rp'
    \<and> admin_replays p' rp'"
proof -
  note p1 = record_field_InrD[OF rec]
  note defs = replay_prefix_field_def Let_def ensure_field_limit_def admin_replays_def admin_apply_def replay_base_def replay_csrf_ok_def
  show ?thesis
    using sim p1 app none by (cases k) (auto simp: defs)
qed

lemma admin_apply_staged: "admin_apply r k v p p' \<Longrightarrow> ap_staged p' = ap_staged p"
  by (cases k) (auto simp: admin_apply_def)

lemma admin_apply_folder:
  "admin_apply r k v p p' \<Longrightarrow> ap_folder_path p' \<noteq> None \<longleftrightarrow> ap_folder_path p \<noteq> None \<or> k = PrefixFolderPath"
  by (cases k) (auto simp: admin_apply_def)

lemma admin_prefixes_step:
  "admin_prefixes r fs p = Inr p' \<Longrightarrow> admin_replays p rp \<Longrightarrow> ap_staged p = None \<Longrightarrow>
     ap_staged p' = None
     \<and> (ap_folder_path p' \<noteq> None \<longleftrightarrow> ap_folder_path p \<noteq> None \<or> (\<exists>f\<in>set fs. up_kind f = PrefixFolderPath))
     \<and> (\<exists>rp'. parse_replay_prefix (ar_upload_id r) (Admin (ar_csrf_token r)) rp fs = Inr rp' \<and> admin_replays p' rp')"
proof (induction r fs p arbitrary: rp rule: admin_prefixes.induct)
  case (2 r f fs p)
  obtain p1 p2 where s: "record_field p = Inr p1" "admin_handle_prefix r f p1 = Inr p2" "admin_prefixes r fs p2 = Inr p'"
    using "2.prems"(1) by (auto split: sum.splits)
  note a = admin_handle_prefix_InrD[OF s(2)]
  have p1: "ap_staged p1 = ap_staged p" "ap_folder_path p1 = ap_folder_path p" using record_field_InrD[OF s(1)] by simp_all
  have eta: "\<lparr>up_kind = up_kind f, up_value = up_value f\<rparr> = f" by (cases f) simp
  obtain rp1 where rp1: "replay_prefix_field (ar_upload_id r) (Admin (ar_csrf_token r)) rp f = Inr rp1" "admin_replays p2 rp1"
    using admin_text_step[OF "2.prems"(2) s(1) a "2.prems"(3)] unfolding eta by blast
  have "ap_staged p2 = None" using admin_apply_staged[OF a] p1 "2.prems"(3) by simp
  from "2.IH"[OF s(1,2) s(3) rp1(2) this] show ?case
    using rp1(1) admin_apply_folder[OF a] p1(2) by auto
qed simp

lemma admin_text_field:
  assumes "admin_field sha r f p = Some (Inr p')" "field_name f \<noteq> n_file"
  shows "\<exists>k v. field_name f = prefix_name k \<and> limited_multipart_text (replay_maximum k) [] (ff_body f) = Inr v
    \<and> admin_apply r k v p p' \<and> ap_staged p = None"
proof -
  have eq: "constant_time_eq v (ar_upload_id r) = constant_time_eq (ar_upload_id r) v" for v by (rule constant_time_eq_commute)
  have cases: "\<exists>k. field_name f = prefix_name k"
    using assms by (auto simp: admin_field_def Let_def field_name_def[symmetric] split: if_splits intro: prefix_name.simps[symmetric])
  then obtain k where k: "field_name f = prefix_name k" by blast
  note defs = admin_field_def Let_def field_name_def[symmetric] admin_apply_def normalized_multipart_path_def
    admin_set_overwrite_def admin_csrf_def eq
  have "\<exists>v. limited_multipart_text (replay_maximum k) [] (ff_body f) = Inr v
    \<and> admin_apply r k v p p' \<and> ap_staged p = None"
  proof (cases k)
    case PrefixId
    then have "upload_id_field r f p = Inr p'" using assms k by (simp add: defs name_neq_rules)
    then show ?thesis using PrefixId by (auto simp: defs upload_id_field_def split: if_splits dest!: admin_with_text_InrD)
  next
    case PrefixPath
    then have "path_field f p = Inr p'" using assms k by (simp add: defs name_neq_rules)
    then show ?thesis using PrefixPath by (auto simp: defs path_field_def split: if_splits option.splits dest!: admin_with_text_InrD)
  next
    case PrefixFolderPath
    then have "folder_path_field f p = Inr p'" using assms k by (simp add: defs name_neq_rules)
    then show ?thesis
      using PrefixFolderPath by (auto simp: defs folder_path_field_def split: if_splits option.splits dest!: admin_with_text_InrD)
  next
    case PrefixOverwrite
    then have "overwrite_field r f p = Inr p'" using assms k by (simp add: defs name_neq_rules)
    then show ?thesis using PrefixOverwrite by (auto simp: defs overwrite_field_def split: if_splits dest!: admin_with_text_InrD)
  next
    case PrefixCsrf
    then have "csrf_field r f p = Inr p'" using assms k by (simp add: defs name_neq_rules)
    then show ?thesis using PrefixCsrf by (auto simp: defs csrf_field_def split: if_splits dest!: admin_with_text_InrD)
  qed
  then show ?thesis using k by blast
qed

lemma stage_admin_upload_replay:
  assumes "stage_admin_upload sha env f maximum blocked = Inr (name, n, digest)" "maximum \<le> MAX_UPLOAD_SIZE"
  shows "hash_replayed_file sha f = Inr (name, n, digest)"
proof -
  obtain raw content where r: "ff_file_name f = Some raw" "safe_admin_filename raw = Inr name"
      "admin_write_chunks maximum (ff_body f) 0 [] = Inr (n, content)" "digest = sha content"
    using assms(1) by (auto simp: stage_admin_upload_def split: option.splits sum.splits if_splits)
  obtain bytes where "replay_size 0 (ff_body f) = Inr (n, bytes)" "content = bytes"
    using admin_write_chunks_replay[OF r(3) assms(2)] by auto
  then show ?thesis using r by (simp add: hash_replayed_file_def)
qed

lemma admin_field_step:
  assumes sim: "admin_replays p rp" and rec: "record_field p = Inr p1" and field: "admin_field sha r f p1 = Some (Inr p')"
    and max: "ar_maximum r \<le> MAX_UPLOAD_SIZE"
  shows "(\<exists>rp'. replay_field sha (ar_upload_id r) (Admin (ar_csrf_token r)) rp f = Inr rp' \<and> admin_replays p' rp')
    \<and> (ap_folder_path p' \<noteq> None \<longleftrightarrow> ap_folder_path p \<noteq> None \<or> field_name f = n_folder_path)"
proof -
  have p1: "p1 = p\<lparr>ap_fields_seen := ap_fields_seen p + 1\<rparr>" "ap_fields_seen p + 1 \<le> 6" using record_field_InrD[OF rec] by auto
  show ?thesis
  proof (cases "field_name f = n_file")
    case True
    then have ff: "file_field sha r f p1 = Some (Inr p')"
      using field by (simp add: admin_field_def Let_def field_name_def[symmetric] name_neq_rules)
    obtain base name n digest where b: "ap_staged p1 = None" "ap_directory p1 = Some base" "ap_csrf_seen p1"
        "stage_admin_upload sha (ar_env r) f (ar_maximum r) (ar_blocked_extensions r) = Inr (name, n, digest)"
        "p' = p1\<lparr>ap_authorized := False, ap_staged := Some \<lparr>au_name = name, au_total = n, au_content_sha256 = digest,
          au_directory = (if (case ap_folder_path p1 of None \<Rightarrow> [] | Some x \<Rightarrow> x) = [] then base
            else join_display base (case ap_folder_path p1 of None \<Rightarrow> [] | Some x \<Rightarrow> x)),
          au_base = base, au_folder_path = (case ap_folder_path p1 of None \<Rightarrow> [] | Some x \<Rightarrow> x),
          au_overwrite_existing = ap_overwrite_existing p1\<rparr>\<rparr>"
      using ff by (auto simp: file_field_def Let_def split: if_splits option.splits sum.splits)
    note hash = stage_admin_upload_replay[OF b(4) max]
    let ?rp = "rp\<lparr>rp_fields := rp_fields rp + 1, rp_file := Some (name, n, digest)\<rparr>"
    have "replay_field sha (ar_upload_id r) (Admin (ar_csrf_token r)) rp f = Inr ?rp"
      using sim[unfolded admin_replays_def] p1 b(1) True hash
      by (elim conjE) (simp add: name_neq_rules replay_field_def Let_def ensure_field_limit_def field_name_def[symmetric])
    moreover have "admin_replays p' ?rp"
      using sim[unfolded admin_replays_def] p1 b by (elim conjE) (simp add: admin_replays_def)
    moreover have "ap_folder_path p' = ap_folder_path p" using b(5) p1(1) by simp
    ultimately show ?thesis using True name_neqs by auto
  next
    case False
    obtain k v where k: "field_name f = prefix_name k" "limited_multipart_text (replay_maximum k) [] (ff_body f) = Inr v"
        "replay_maximum k \<le> replay_maximum k" "admin_apply r k v p1 p'" "ap_staged p1 = None"
      using admin_text_field[OF field False] by blast
    have none: "ap_staged p = None" "rp_file rp = None" using k(5) p1(1) sim by (auto simp: admin_replays_def)
    obtain rp' where rp': "replay_prefix_field (ar_upload_id r) (Admin (ar_csrf_token r)) rp \<lparr>up_kind = k, up_value = v\<rparr> = Inr rp'"
        "admin_replays p' rp'"
      using admin_text_step[OF sim rec k(4) none(1)] by blast
    have "replay_field sha (ar_upload_id r) (Admin (ar_csrf_token r)) rp f = Inr rp'"
      using replay_field_text[OF k(1-3) _ rp'(1)] none(2) by blast
    moreover have "k = PrefixFolderPath \<longleftrightarrow> field_name f = n_folder_path" using k(1) name_neqs by (cases k) auto
    ultimately show ?thesis using rp'(2) admin_apply_folder[OF k(4)] p1(1) by auto
  qed
qed

lemma admin_fields_step:
  "admin_fields sha r fs err p = Some (Inr p') \<Longrightarrow> admin_replays p rp \<Longrightarrow> ar_maximum r \<le> MAX_UPLOAD_SIZE \<Longrightarrow>
     (ap_folder_path p' \<noteq> None \<longleftrightarrow> ap_folder_path p \<noteq> None \<or> (\<exists>f\<in>set fs. field_name f = n_folder_path))
     \<and> (\<exists>rp'. replay_fields sha (ar_upload_id r) (Admin (ar_csrf_token r)) rp fs err = Inr rp' \<and> admin_replays p' rp')"
proof (induction sha r fs err p arbitrary: rp rule: admin_fields.induct)
  case (1 sha r err p)
  then show ?case by (auto split: option.splits)
next
  case (2 sha r f fs err p)
  obtain p1 p2 where s: "record_field p = Inr p1" "admin_field sha r f p1 = Some (Inr p2)" "admin_fields sha r fs err p2 = Some (Inr p')"
    using "2.prems"(1) by (auto split: sum.splits option.splits)
  obtain rp1 where rp1: "replay_field sha (ar_upload_id r) (Admin (ar_csrf_token r)) rp f = Inr rp1" "admin_replays p2 rp1"
      "ap_folder_path p2 \<noteq> None \<longleftrightarrow> ap_folder_path p \<noteq> None \<or> field_name f = n_folder_path"
    using admin_field_step[OF "2.prems"(2) s(1,2) "2.prems"(3)] by blast
  show ?case using "2.IH"[OF s(1,2) _ s(3) rp1(2) "2.prems"(3)] rp1(1,3) by auto
qed

lemma relative_text_not_dot: "relative_text v = Some p \<Longrightarrow> p \<noteq> [46]"
proof
  assume r: "relative_text v = Some p" "p = [46]"
  then obtain q where q: "validate_relative v = Inr q" "p = backslash_to_slash q"
    by (auto simp: relative_text_def split: sum.splits)
  note d = validate_relative_InrD[OF q(1)]
  have "92 \<notin> set q" using d set_path_of[of "path_names v"] by fastforce
  then have "q = [46]" using q(2) r(2) by simp
  moreover have "path_names [46] = []" by code_simp
  ultimately show False using d by (simp add: path_of_def)
qed

lemma admin_base_not_dot:
  "admin_prefixes r fs p = Inr p' \<Longrightarrow> ap_directory p \<noteq> Some [46] \<Longrightarrow> ap_directory p' \<noteq> Some [46]"
proof (induction r fs p rule: admin_prefixes.induct)
  case (2 r f fs p)
  obtain p1 p2 where s: "record_field p = Inr p1" "admin_handle_prefix r f p1 = Inr p2" "admin_prefixes r fs p2 = Inr p'"
    using "2.prems"(1) by (auto split: sum.splits)
  have "ap_directory p2 \<noteq> Some [46]"
    using admin_handle_prefix_InrD[OF s(2)] record_field_InrD[OF s(1)] "2.prems"(2) relative_text_not_dot
    by (cases "up_kind f") (auto simp: admin_apply_def)
  then show ?case using "2.IH"[OF s(1,2,3)] by simp
qed simp

lemma admin_fields_base_not_dot:
  "admin_fields sha r fs err p = Some (Inr p') \<Longrightarrow> ap_directory p \<noteq> Some [46] \<Longrightarrow> ap_directory p' \<noteq> Some [46]"
proof (induction sha r fs err p rule: admin_fields.induct)
  case (1 sha r err p)
  then show ?case by (auto split: option.splits)
next
  case (2 sha r f fs err p)
  obtain p1 p2 where s: "record_field p = Inr p1" "admin_field sha r f p1 = Some (Inr p2)" "admin_fields sha r fs err p2 = Some (Inr p')"
    using "2.prems"(1) by (auto split: sum.splits option.splits)
  have p1: "ap_directory p1 \<noteq> Some [46]" using record_field_InrD[OF s(1)] "2.prems"(2) by simp
  have "ap_directory p2 \<noteq> Some [46]"
  proof (cases "field_name f = n_file")
    case True
    then have "file_field sha r f p1 = Some (Inr p2)"
      using s(2) by (simp add: admin_field_def Let_def field_name_def[symmetric] name_neq_rules)
    then show ?thesis using p1 by (auto simp: file_field_def Let_def split: if_splits option.splits sum.splits)
  next
    case False
    then obtain k v where "admin_apply r k v p1 p2" using admin_text_field[OF s(2)] by blast
    then show ?thesis using p1 relative_text_not_dot by (cases k) (auto simp: admin_apply_def)
  qed
  then show ?case using "2.IH"[OF s(1,2) _ s(3)] by simp
qed

definition has_folder_field :: "upload_prefix_field list \<Rightarrow> multipart \<Rightarrow> bool" where
  "has_folder_field prefix mp \<longleftrightarrow>
     list_ex (\<lambda>f. up_kind f = PrefixFolderPath) prefix \<or> list_ex (\<lambda>f. field_name f = n_folder_path) (mp_fields mp)"

text \<open>C33: the replay of an administrator upload recomputes the fingerprint of the first pass, except
  for an empty folder field. When the first pass succeeds the replay succeeds; it gives the bound
  fingerprint unless the form carries a folder path that is empty and a base that is not: then the
  first pass hashes the base and the replay the base with a trailing slash.\<close>

theorem admin_replay_fingerprint:
  assumes "parse_admin_upload sha r prefix mp = Some (Inr u)" "ar_maximum r \<le> MAX_UPLOAD_SIZE"
  shows "replay_fingerprint sha json mp (ar_upload_id r) prefix (Admin (ar_csrf_token r)) =
    Inr (if has_folder_field prefix mp \<and> au_folder_path u = [] \<and> au_base u \<noteq> []
         then admin_fingerprint sha json (u\<lparr>au_directory := au_base u @ [47]\<rparr>)
         else admin_fingerprint sha json u)
    \<and> (au_folder_path u = [] \<longrightarrow> au_directory u = au_base u)"
proof -
  obtain p p' where p: "admin_prefixes r prefix new_admin_parser = Inr p"
      "admin_fields sha r (mp_fields mp) (mp_error mp) p = Some (Inr p')" "finish_admin_form p' = Inr u"
    using assms(1) by (auto simp: parse_admin_upload_def split: sum.splits option.splits)
  have start: "ap_staged new_admin_parser = None" "ap_folder_path new_admin_parser = None" "ap_directory new_admin_parser \<noteq> Some [46]"
    by (simp_all add: new_admin_parser_def)
  obtain rp where rp: "parse_replay_prefix (ar_upload_id r) (Admin (ar_csrf_token r)) empty_replay prefix = Inr rp" "admin_replays p rp"
      "ap_folder_path p \<noteq> None \<longleftrightarrow> (\<exists>f\<in>set prefix. up_kind f = PrefixFolderPath)"
    using admin_prefixes_step[OF p(1) new_admin_replays start(1)] start(2) by auto
  obtain rp' where rp': "replay_fields sha (ar_upload_id r) (Admin (ar_csrf_token r)) rp (mp_fields mp) (mp_error mp) = Inr rp'"
      "admin_replays p' rp'" "ap_folder_path p' \<noteq> None \<longleftrightarrow> has_folder_field prefix mp"
    using admin_fields_step[OF p(2) rp(2) assms(2)] rp(3) by (auto simp: has_folder_field_def list_ex_iff)
  have dot: "ap_directory p' \<noteq> Some [46]" using admin_fields_base_not_dot[OF p(2) admin_base_not_dot[OF p(1) start(3)]] .
  have fin: "ap_staged p' = Some u" "ap_csrf_seen p'"
    using p(3) by (auto simp: finish_admin_form_def split: if_splits option.splits)
  have f: "rp_file rp' = Some (au_name u, au_total u, au_content_sha256 u)" "rp_base rp' = Some (au_base u)"
      "rp_folder rp' = ap_folder_path p'" "au_folder_path u = (case ap_folder_path p' of None \<Rightarrow> [] | Some x \<Rightarrow> x)"
      "au_directory u = (if au_folder_path u = [] then au_base u else join_display (au_base u) (au_folder_path u))"
      "(case rp_overwrite rp' of None \<Rightarrow> False | Some b \<Rightarrow> b) = au_overwrite_existing u" "rp_csrf_seen rp'" "au_base u \<noteq> [46]"
    using rp'(2) fin dot by (auto simp: admin_replays_def split: option.splits)
  have dir: "(case rp_folder rp' of None \<Rightarrow> au_base u
        | Some folder \<Rightarrow> if au_base u = [] \<or> au_base u = [46] then folder else au_base u @ [47] @ folder)
      = (if has_folder_field prefix mp \<and> au_folder_path u = [] \<and> au_base u \<noteq> [] then au_base u @ [47] else au_directory u)"
    using f(3,4,5,8) rp'(3) by (auto simp: join_display_def split: option.splits)
  have "finish_replay_fingerprint sha json (Admin (ar_csrf_token r)) rp' =
      Inr (sha (json (AdminMetadata (au_name u) (if has_folder_field prefix mp \<and> au_folder_path u = [] \<and> au_base u \<noteq> []
        then au_base u @ [47] else au_directory u) (au_overwrite_existing u) (au_total u) (au_content_sha256 u))))"
    unfolding finish_replay_fingerprint_def f(1,2) by (simp add: f(6,7) dir)
  then show ?thesis using rp(1) rp'(1) f(5) by (simp add: replay_fingerprint_def admin_fingerprint_def)
qed

section \<open>What a staged upload has reserved\<close>

lemma next_power_of_two_le: "j \<le> k \<Longrightarrow> n \<le> 2 ^ j \<Longrightarrow> next_power_of_two k n \<le> 2 ^ j"
proof (induction k arbitrary: j)
  case (Suc k)
  show ?case
  proof (cases "j = Suc k")
    case True
    have "next_power_of_two k n \<le> 2 ^ k" if "n \<le> 2 ^ k" using Suc.IH[of k] that by simp
    then show ?thesis using True by (auto intro: order_trans)
  next
    case False
    then have "j \<le> k" using Suc.prems by simp
    moreover from this have "n \<le> 2 ^ k" using Suc.prems(2) by (meson le_trans one_le_numeral power_increasing)
    ultimately show ?thesis using Suc by simp
  qed
qed simp

lemma next_power_of_two_pos: "0 < next_power_of_two k n"
  by (induction k) simp_all

lemma round_up_bounds:
  assumes "0 < (step :: nat)"
  shows "n \<le> (n + (step - 1)) div step * step" "(n + (step - 1)) div step * step < n + step"
proof -
  let ?m = "n + (step - 1)"
  have eq: "?m = ?m div step * step + ?m mod step" by (simp add: div_mult_mod_eq)
  have "?m mod step < step" using assms by simp
  then show "n \<le> ?m div step * step" using eq by linarith
  show "?m div step * step < n + step" using eq assms by linarith
qed

lemma preferred_target_bounds:
  assumes "required \<le> maximum" "reserved \<le> maximum"
  shows "required \<le> preferred_reservation_target received required reserved maximum"
    "reserved \<le> preferred_reservation_target received required reserved maximum"
    "preferred_reservation_target received required reserved maximum \<le> maximum"
    "preferred_reservation_target received required reserved maximum < max required (reserved + 1) + MAX_RESERVATION_STEP"
proof -
  define step where "step = next_power_of_two 63 (clamp received INITIAL_RESERVATION_STEP MAX_RESERVATION_STEP)"
  have c: "clamp received INITIAL_RESERVATION_STEP MAX_RESERVATION_STEP \<le> 2 ^ 23"
    by (simp add: clamp_def INITIAL_RESERVATION_STEP_def MAX_RESERVATION_STEP_def)
  have step: "0 < step" "step \<le> MAX_RESERVATION_STEP"
    using next_power_of_two_le[of 23 63, OF _ c] next_power_of_two_pos[of 63]
    by (simp_all add: step_def MAX_RESERVATION_STEP_def)
  define v where "v = (case checked_add required (step - 1) of None \<Rightarrow> required | Some v \<Rightarrow> v div step * step)"
  have v: "required \<le> v" "v < required + step"
    using round_up_bounds[OF step(1), of required] step(1) by (auto simp: v_def checked_add_def)
  have t: "preferred_reservation_target received required reserved maximum = (if required \<le> reserved then reserved else min v maximum)"
    unfolding preferred_reservation_target_def v_def step_def Let_def by (rule refl)
  show "required \<le> preferred_reservation_target received required reserved maximum"
    "reserved \<le> preferred_reservation_target received required reserved maximum"
    "preferred_reservation_target received required reserved maximum \<le> maximum"
    "preferred_reservation_target received required reserved maximum < max required (reserved + 1) + MAX_RESERVATION_STEP"
    unfolding t using v step assms by (auto simp: MAX_RESERVATION_STEP_def)
qed

text \<open>The reservation row of an upload, as the database has it.\<close>

definition reservation_held :: "(rstr \<Rightarrow> rstr) \<Rightarrow> staged_upload \<Rightarrow> db \<Rightarrow> bool" where
  "reservation_held th su d \<longleftrightarrow>
     (case sql_first (\<lambda>r. rs_token_hash r = th (su_token su)) (upload_reservations d) of
        None \<Rightarrow> False
      | Some r \<Rightarrow> rs_reserved_bytes r = su_reserved_bytes su \<and> rs_share_id r = tg_share_id (su_target su)
          \<and> rs_upload_policy_epoch r = tg_epoch (su_target su))"

lemma begin_staging_held:
  assumes "begin_staging th env target d = (Inr su, d')"
  shows "reservation_held th su d'"
proof -
  note b = begin_staging_InrD[OF assms]
  have r: "begin_upload_reservation th (en_token env) (tg_share_id target) (tg_epoch target) (en_now env) d = (Inr Reserved, d')"
    using b by blast
  have new: "\<not> sql_exists (\<lambda>r. rs_token_hash r = th (en_token env)) (upload_reservations (expire_reservations (en_now env) d))"
    "upload_reservations d' = upload_reservations (expire_reservations (en_now env) d) @
       [\<lparr>rs_token_hash = th (en_token env), rs_share_id = tg_share_id target, rs_reserved_bytes = 0,
         rs_created_at = en_now env, rs_expires_at = en_now env + seconds UPLOAD_RESERVATION_TTL_SECONDS,
         rs_upload_policy_epoch = tg_epoch target\<rparr>]"
    using r by (auto simp: begin_upload_reservation_def Let_def split: option.splits if_splits)
  then have "sql_first (\<lambda>r. rs_token_hash r = th (en_token env)) (upload_reservations (expire_reservations (en_now env) d)) = None"
    by (auto simp: sql_first_None sql_exists_def list_ex_iff)
  then show ?thesis using b new(2) by (simp add: reservation_held_def sql_first_append)
qed

lemma extend_held:
  assumes "extend_upload_reservation_up_to th token minimum preferred now d = (Inr (reservation_extend_outcome.Extended, accepted), d')"
  shows "minimum \<le> accepted \<and> accepted \<le> preferred
    \<and> (\<exists>r. sql_first (\<lambda>r. rs_token_hash r = th token) (upload_reservations (expire_reservations now d)) = Some r
        \<and> sql_first (\<lambda>r. rs_token_hash r = th token) (upload_reservations d')
            = Some (r\<lparr>rs_reserved_bytes := accepted, rs_expires_at := now + seconds UPLOAD_RESERVATION_TTL_SECONDS\<rparr>))"
proof -
  obtain r where r: "sql_first (\<lambda>r. rs_token_hash r = th token) (upload_reservations (expire_reservations now d)) = Some r"
      "minimum \<le> preferred" "minimum \<le> accepted \<and> accepted \<le> preferred"
      "upload_reservations d' = sql_update (\<lambda>x. rs_token_hash x = th token)
        (\<lambda>x. x\<lparr>rs_reserved_bytes := accepted, rs_expires_at := now + seconds UPLOAD_RESERVATION_TTL_SECONDS\<rparr>)
        (upload_reservations (expire_reservations now d))"
    using assms by (auto simp: extend_upload_reservation_up_to_def Let_def split: if_splits option.splits)
  then show ?thesis using sql_first_Some[OF r(1)] by (simp add: sql_first_update)
qed


definition covered :: "(rstr \<Rightarrow> rstr) \<Rightarrow> nat \<Rightarrow> staged_upload \<Rightarrow> db \<Rightarrow> bool" where
  "covered th maximum su d \<longleftrightarrow> wf_uploads d \<and> reservation_held th su d
     \<and> su_total su \<le> su_reserved_bytes su \<and> su_reserved_bytes su \<le> maximum"

lemma extend_reservation_covered:
  assumes cov: "covered th maximum su d" and n: "su_total su \<le> n" "n \<le> maximum"
    and ext: "extend_reservation th maximum n c su d = (Inr su', d')"
  shows "covered th maximum su' d' \<and> n \<le> su_reserved_bytes su' \<and> upload_refines d d'"
proof (cases "n \<le> su_reserved_bytes su \<and> ck_elapsed c - su_last_heartbeat su < UPLOAD_QUOTA_HEARTBEAT_INTERVAL")
  case True
  then show ?thesis using cov ext upload_refines_refl[of d] by (auto simp: extend_reservation_def covered_def Let_def)
next
  case False
  let ?min = "max n (su_reserved_bytes su)" let ?pref = "preferred_reservation_target (su_total su) n (su_reserved_bytes su) maximum"
  obtain acc where acc: "extend_upload_reservation_up_to th (su_token su) ?min ?pref (ck_now c) d
        = (Inr (reservation_extend_outcome.Extended, acc), d')"
      "su' = su\<lparr>su_reserved_bytes := acc, su_last_heartbeat := ck_elapsed c\<rparr>"
    using ext False by (auto simp: extend_reservation_def Let_def split: prod.splits sum.splits reservation_extend_outcome.splits)
  have wf: "wf_uploads d" and held: "reservation_held th su d" and le: "su_reserved_bytes su \<le> maximum"
    using cov by (auto simp: covered_def)
  note e = extend_held[OF acc(1)] and ref = extend_refines[OF wf acc(1)]
  obtain r where r: "sql_first (\<lambda>r. rs_token_hash r = th (su_token su)) (upload_reservations (expire_reservations (ck_now c) d)) = Some r"
      "sql_first (\<lambda>r. rs_token_hash r = th (su_token su)) (upload_reservations d')
        = Some (r\<lparr>rs_reserved_bytes := acc, rs_expires_at := ck_now c + seconds UPLOAD_RESERVATION_TTL_SECONDS\<rparr>)"
    using e by blast
  obtain r0 where r0: "sql_first (\<lambda>r. rs_token_hash r = th (su_token su)) (upload_reservations d) = Some r0"
      "rs_share_id r0 = tg_share_id (su_target su)" "rs_upload_policy_epoch r0 = tg_epoch (su_target su)"
    using held by (auto simp: reservation_held_def split: option.splits)
  have "r \<in> set (upload_reservations d)" using sql_first_Some[OF r(1)] by (simp add: expire_reservations_def sql_delete_def)
  then have "r = r0"
    using reservation_table.unique[OF wf_storeD(6)[OF wf_uploads_store[OF wf]]] sql_first_Some[OF r(1)] sql_first_Some[OF r0(1)] by metis
  then have "reservation_held th su' d'" using r(2) r0 acc(2) by (simp add: reservation_held_def)
  moreover have "n \<le> acc" "acc \<le> maximum" using e preferred_target_bounds(3)[OF n(2) le] by (auto intro: order_trans)
  ultimately show ?thesis using ref upload_refines_wf[OF ref] acc(2) n(1) by (simp add: covered_def)
qed

lemma write_chunk_covered:
  assumes cov: "covered th maximum su d" and w: "write_chunk th maximum c su d = (Inr su', d')"
  shows "covered th maximum su' d' \<and> upload_refines d d'"
proof -
  note t = write_chunk_InrD[OF w]
  obtain su1 where su1: "extend_reservation th maximum (su_total su') c su d = (Inr su1, d')"
      "su' = su1\<lparr>su_total := su_total su', su_content := su_content su1 @ ck_bytes c\<rparr>"
    using w t(1) by (auto simp: write_chunk_def Let_def staged_file_write_Inr split: sum.splits prod.splits)
  have e: "covered th maximum su1 d'" "su_total su' \<le> su_reserved_bytes su1" "upload_refines d d'"
    using extend_reservation_covered[OF cov _ t(2) su1(1)] t(1) by auto
  then show ?thesis by (subst su1(2)) (auto simp: covered_def reservation_held_def split: option.splits)
qed

lemma write_chunks_covered:
  "write_chunks th maximum es su d = (Inr su', d') \<Longrightarrow> covered th maximum su d \<Longrightarrow>
     covered th maximum su' d' \<and> upload_refines d d' \<and> su_target su' = su_target su"
proof (induction th maximum es su d rule: write_chunks.induct)
  case (1 th maximum su d)
  then show ?case by (auto simp: covered_def upload_refines_refl)
next
  case (3 th maximum c es su d)
  obtain su1 d1 where su1: "write_chunk th maximum c su d = (Inr su1, d1)" "write_chunks th maximum es su1 d1 = (Inr su', d')"
    using "3.prems"(1) by (auto split: sum.splits prod.splits)
  note c = write_chunk_covered[OF "3.prems"(2) su1(1)]
  show ?case
    using "3.IH"[OF su1(1)[symmetric] _ su1(2)] c upload_refines_trans write_chunk_InrD(5)[OF su1(1)] by auto
qed auto

lemma stage_file_covered:
  assumes wf: "wf_uploads d" and st: "stage_file th ph f target p d = (Inr p', d')"
  shows "\<exists>su. pp_staged p' = Some su \<and> su_target su = target \<and> covered th (fp_maximum ph) su d' \<and> upload_refines d d'"
proof -
  obtain su d1 su' where su: "begin_staging th (fp_env ph) target d = (Inr su, d1)"
      "write_chunks th (fp_maximum ph) (ff_body f) su d1 = (Inr su', d')"
      "p' = p\<lparr>pp_upload_subdir := tg_upload_subdir (su_target su), pp_staged := Some su'\<rparr>"
    using stage_file_InrD[OF st] by blast
  have b: "su_total su = 0" "su_reserved_bytes su = 0" "su_target su = target"
      "begin_upload_reservation th (en_token (fp_env ph)) (tg_share_id target) (tg_epoch target) (en_now (fp_env ph)) d = (Inr Reserved, d1)"
    using begin_staging_InrD[OF su(1)] by auto
  note r = begin_reservation_refines[OF wf b(4)]
  have "covered th (fp_maximum ph) su d1"
    using begin_staging_held[OF su(1)] upload_refines_wf[OF r] b by (simp add: covered_def)
  from write_chunks_covered[OF su(2) this] show ?thesis using su(3) b(3) upload_refines_trans[OF r] by auto
qed

text \<open>The text fields leave the database and the staged upload alone.\<close>

lemma handle_field_cases:
  assumes "handle_field th ph kind f p d = Some (Inr p', d')"
  shows "kind = File \<and> handle_file th ph f p d = Some (Inr p', d')
    \<or> kind \<noteq> File \<and> d' = d \<and> (\<exists>pk v. kind = form_kind pk \<and> apply_text ph pk v p = Inr p')"
proof (cases kind)
  case UploadId
  then show ?thesis using assms form_kind.simps(1) by (auto simp: handle_field_def apply_text_def dest!: with_text_InrD intro!: exI[of _ PrefixId])
next
  case Path
  then show ?thesis using assms form_kind.simps(2) by (auto simp: handle_field_def apply_text_def dest!: with_text_InrD intro!: exI[of _ PrefixPath])
next
  case FolderPath
  then show ?thesis using assms form_kind.simps(3) by (auto simp: handle_field_def apply_text_def dest!: with_text_InrD intro!: exI[of _ PrefixFolderPath])
next
  case Overwrite
  then show ?thesis using assms form_kind.simps(4) by (auto simp: handle_field_def apply_text_def dest!: with_text_InrD intro!: exI[of _ PrefixOverwrite])
next
  case Csrf
  then show ?thesis using assms form_kind.simps(5) by (auto simp: handle_field_def apply_text_def dest!: with_text_InrD intro!: exI[of _ PrefixCsrf])
qed (use assms in \<open>auto simp: handle_field_def\<close>)

lemma apply_text_frame:
  "apply_text ph pk v p = Inr p' \<Longrightarrow> pp_staged p' = pp_staged p \<and> pp_authorized p' = pp_authorized p \<and> pp_form_state p' = pp_form_state p"
  by (cases pk) (auto simp: apply_text_def check_upload_id_def set_path_def set_overwrite_def set_csrf_def Let_def
      split: if_splits sum.splits dest!: relative_text_set_folder_path)

section \<open>Where the file goes\<close>

text \<open>A directory in normal form.\<close>

definition normal_dir :: "rstr \<Rightarrow> bool" where
  "normal_dir dir \<longleftrightarrow> validate_relative dir = Inr dir"

lemma validated_normal: "validate_relative v = Inr dir \<Longrightarrow> normal_dir dir \<and> 92 \<notin> set dir"
  using validate_relative_InrD[of v dir] validate_relative_path_of[of "path_names v"] set_path_of[of "path_names v"]
  by (fastforce simp: normal_dir_def)

lemma relative_text_normal: "relative_text v = Some dir \<Longrightarrow> normal_dir dir"
  using validated_normal by (auto simp: relative_text_def split: sum.splits)

definition parser_ok :: "form_phase \<Rightarrow> public_parser \<Rightarrow> bool" where
  "parser_ok ph p \<longleftrightarrow>
     (pp_staged p = None \<longrightarrow> normal_dir (pp_upload_subdir p)
        \<and> (shr_permission (fp_share ph) = UploadOnly \<longrightarrow> pp_upload_subdir p = []))
     \<and> (case pp_folder_path p of None \<Rightarrow> True | Some f \<Rightarrow> normal_dir f \<and> length (path_names f) \<le> MAX_UPLOAD_FOLDER_COMPONENTS
          \<and> (\<forall>n\<in>set (path_names f). \<not> is_private_admin_filename n))"

definition target_ok :: "form_phase \<Rightarrow> upload_target \<Rightarrow> bool" where
  "target_ok ph t \<longleftrightarrow> normal_dir (tg_upload_base t) \<and> normal_dir (tg_folder_path t)
     \<and> (shr_permission (fp_share ph) = UploadOnly \<longrightarrow> tg_upload_base t = [])
     \<and> length (path_names (tg_folder_path t)) \<le> MAX_UPLOAD_FOLDER_COMPONENTS
     \<and> (\<forall>n\<in>set (path_names (tg_folder_path t)). \<not> is_private_admin_filename n)
     \<and> tg_upload_subdir t = join_display (tg_upload_base t) (tg_folder_path t)
     \<and> safe_admin_filename (tg_file_name t) = Inr (tg_file_name t)
     \<and> \<not> extension_is_blocked (tg_file_name t) (fp_blocked_extensions ph)
     \<and> tg_share_id t = shr_id (fp_share ph) \<and> tg_epoch t = shr_upload_policy_epoch (fp_share ph)
     \<and> str_len (join_display (join_display (shr_relative_path (fp_share ph)) (tg_upload_subdir t)) (tg_file_name t))
         \<le> MAX_UPLOAD_TARGET_PATH_BYTES"

lemma normal_root: "normal_dir []" "path_names [] = []"
  by (simp_all add: normal_dir_def validate_relative_eq path_names_def path_of_def is_absolute_def)

lemma set_folder_path_ok:
  assumes "set_folder_path v p = Inr p'"
  shows "\<exists>f. p' = p\<lparr>pp_folder_path := Some f\<rparr> \<and> normal_dir f \<and> length (path_names f) \<le> MAX_UPLOAD_FOLDER_COMPONENTS
    \<and> (\<forall>n\<in>set (path_names f). \<not> is_private_admin_filename n)"
proof -
  obtain f where f: "relative_text v = Some f" "p' = p\<lparr>pp_folder_path := Some f\<rparr>"
    using relative_text_set_folder_path[OF assms] by blast
  let ?names = "filter (\<lambda>c. c \<noteq> []) (split_on 47 f)"
  have n: "length ?names \<le> MAX_UPLOAD_FOLDER_COMPONENTS" "\<And>c. c \<in> set ?names \<Longrightarrow> \<not> isl (safe_admin_filename c)"
    using assms f by (auto simp: set_folder_path_def Let_def list_ex_iff split: if_splits)
  have sub: "path_names f = filter (\<lambda>c. c \<noteq> [46]) ?names" by (auto simp: path_names_def intro: filter_cong)
  have "length (path_names f) \<le> length ?names" unfolding sub by (rule length_filter_le)
  moreover have "\<not> is_private_admin_filename c" if "c \<in> set (path_names f)" for c
  proof -
    have "c \<in> set ?names" using that unfolding sub by simp
    then obtain m where "safe_admin_filename c = Inr m" using n(2) by (metis old.sum.exhaust sum.disc(1))
    then show ?thesis using safe_admin_filename_InrD[of c m] safe_filename_InrD(1)[of c m] by auto
  qed
  ultimately show ?thesis using f n(1) relative_text_normal by auto
qed

lemma apply_text_ok:
  assumes "apply_text ph pk v p = Inr p'" "parser_ok ph p"
  shows "parser_ok ph p'"
proof (cases pk)
  case PrefixPath
  then obtain dir where dir: "normalize_public_upload_subdir (shr_permission (fp_share ph)) v = Inr dir" "p' = p\<lparr>pp_upload_subdir := dir\<rparr>"
    using assms(1) by (auto simp: apply_text_def set_path_def split: sum.splits)
  note n = normalize_public_upload_subdir_InrD[OF dir(1)]
  have "normal_dir dir" using n(3) validated_normal by blast
  then show ?thesis using assms(2) dir(2) n(2) by (auto simp: parser_ok_def)
next
  case PrefixFolderPath
  then show ?thesis using assms set_folder_path_ok[of v p p'] by (auto simp: apply_text_def parser_ok_def)
qed (use assms in \<open>auto simp: apply_text_def check_upload_id_def set_overwrite_def set_csrf_def Let_def parser_ok_def split: if_splits\<close>)

lemma bind_target_ok:
  assumes "bind_target ph name p = Some (Inr (target, p1))" "parser_ok ph p" "pp_staged p = None"
    "safe_admin_filename raw = Inr name" "\<not> extension_is_blocked name (fp_blocked_extensions ph)"
  shows "target_ok ph target"
proof -
  note t = bind_target_InrD[OF assms(1)]
  have "safe_admin_filename name = Inr name"
    using safe_admin_filename_InrD[OF assms(4)] safe_filename_InrD(1) assms(4) by metis
  then show ?thesis
    using t assms(2,3,5) normal_root by (auto simp: target_ok_def parser_ok_def split: option.splits)
qed

text \<open>What holds between two fields of the form.\<close>

definition form_ok :: "(rstr \<Rightarrow> rstr) \<Rightarrow> form_phase \<Rightarrow> public_parser \<Rightarrow> db \<Rightarrow> db \<Rightarrow> bool" where
  "form_ok th ph p d0 d \<longleftrightarrow> upload_refines d0 d \<and> parser_ok ph p
     \<and> (pp_authorized p \<or> saw_file (pp_form_state p)) \<and> (pp_staged p \<noteq> None \<longrightarrow> saw_file (pp_form_state p))
     \<and> (\<forall>su. pp_staged p = Some su \<longrightarrow> target_ok ph (su_target su) \<and> covered th (fp_maximum ph) su d)"

lemma observe_file_flag:
  "observe st kind n = (Inr (), st') \<Longrightarrow> saw_file st' \<longleftrightarrow> saw_file st \<or> kind = File" 
  "observe st File n = (Inr (), st') \<Longrightarrow> \<not> saw_file st"
  by (auto simp: observe_def Let_def split: if_splits upload_form_field.splits)

lemma field_form_ok:
  assumes ok: "form_ok th ph p d0 d" and obs: "observe_field name p = Inr (kind, p1)"
    and handle: "handle_field th ph kind f p1 d = Some (Inr p', d')"
  shows "form_ok th ph p' d0 d'"
proof -
  obtain st where st: "observe (pp_form_state p) kind 6 = (Inr (), st)" "p1 = p\<lparr>pp_form_state := st\<rparr>"
    using observe_field_InrD(2)[OF obs] by blast
  note flag = observe_file_flag(1)[OF st(1)]
  have p1: "parser_ok ph p1" using ok st(2) by (simp add: form_ok_def parser_ok_def)
  from handle_field_cases[OF handle] show ?thesis
  proof (elim disjE conjE exE)
    assume k: "kind = File" and h: "handle_file th ph f p1 d = Some (Inr p', d')"
    have none: "pp_staged p1 = None" using ok observe_file_flag(2) st k by (auto simp: form_ok_def)
    obtain raw n target p2 where t: "safe_admin_filename raw = Inr n" "\<not> extension_is_blocked n (fp_blocked_extensions ph)"
        "bind_target ph n p1 = Some (Inr (target, p2))" "stage_file th ph f target p2 d = (Inr p', d')"
      using handle_file_InrD[OF h] by metis
    have wf: "wf_uploads d" using ok upload_refines_wf by (auto simp: form_ok_def)
    obtain su where su: "pp_staged p' = Some su" "su_target su = target" "covered th (fp_maximum ph) su d'" "upload_refines d d'"
      using stage_file_covered[OF wf t(4)] by blast
    have p2: "p2 = p1\<lparr>pp_authorized := False\<rparr>" by (rule bind_target_InrD(1)[OF t(3)])
    have "pp_form_state p' = st" "pp_folder_path p' = pp_folder_path p1"
      by (rule stage_file_InrD[OF t(4)], simp add: p2 st(2))+
    then show ?thesis
      using su flag k bind_target_ok[OF t(3) p1 none t(1,2)] ok upload_refines_trans[OF _ su(4)] p1
      by (auto simp: form_ok_def parser_ok_def)
  next
    fix pk v
    assume d: "d' = d" and a: "apply_text ph pk v p1 = Inr p'"
    note fr = apply_text_frame[OF a]
    show ?thesis using ok fr flag st(2) apply_text_ok[OF a p1] d unfolding form_ok_def by auto
  qed
qed

lemma prefixes_form_ok:
  "handle_prefixes ph fs p = Inr p' \<Longrightarrow> form_ok th ph p d0 d \<Longrightarrow> form_ok th ph p' d0 d"
proof (induction ph fs p rule: handle_prefixes.induct)
  case (2 ph f fs p)
  obtain p2 where p2: "handle_prefix ph f p = Inr p2" "handle_prefixes ph fs p2 = Inr p'"
    using "2.prems"(1) by (auto split: sum.splits)
  obtain kind p1 where k: "observe_field (prefix_name (up_kind f)) p = Inr (kind, p1)"
    using p2(1) by (auto simp: handle_prefix_def split: sum.splits)
  obtain st where st: "observe (pp_form_state p) kind 6 = (Inr (), st)" "p1 = p\<lparr>pp_form_state := st\<rparr>"
    using observe_field_InrD(2)[OF k] by blast
  have a: "apply_text ph (up_kind f) (up_value f) p1 = Inr p2"
    using p2(1) k by (auto simp: handle_prefix_def apply_text_def Let_def split: upload_prefix_kind.splits if_splits)
  have ok: "parser_ok ph p1" using "2.prems"(2) st(2) by (simp add: form_ok_def parser_ok_def)
  have "form_ok th ph p2 d0 d"
    using "2.prems"(2) apply_text_frame[OF a] apply_text_ok[OF a ok] observe_file_flag(1)[OF st(1)] st(2)
    unfolding form_ok_def by auto
  then show ?case using "2.IH"[OF p2(1,2)] by simp
qed simp

lemma fields_form_ok:
  "parse_fields th ph fs err p d = Some (Inr p', d') \<Longrightarrow> form_ok th ph p d0 d \<Longrightarrow> form_ok th ph p' d0 d'"
proof (induction th ph fs err p d rule: parse_fields.induct)
  case (1 th ph err p d)
  then show ?case by (auto split: option.splits)
next
  case (2 th ph f fs err p d)
  obtain kind p1 p2 d2 where s: "observe_field (field_name f) p = Inr (kind, p1)" "handle_field th ph kind f p1 d = Some (Inr p2, d2)"
      "parse_fields th ph fs err p2 d2 = Some (Inr p', d')"
    using "2.prems"(1) by (auto simp: field_name_def split: sum.splits option.splits prod.splits)
  have "form_ok th ph p2 d0 d2" by (rule field_form_ok[OF "2.prems"(2) s(1,2)])
  then show ?case using "2.IH"[OF s(1)[unfolded field_name_def] _ s(2) _ _ s(3)] by simp
qed

lemma new_form_ok: "wf_uploads d \<Longrightarrow> form_ok th ph (new_public_parser ph) d d"
  by (simp add: form_ok_def new_public_parser_def parser_ok_def normal_root upload_refines_refl)

lemma run_form_ok:
  assumes "wf_uploads d" "run_form th sha ph prefix mp d = Some (Inr u, d')"
  obtains su where "pu_target u = su_target su" "pu_total u = su_total su" "pu_reserved_bytes u = su_reserved_bytes su"
    "pu_token u = su_token su" "target_ok ph (su_target su)" "covered th (fp_maximum ph) su d'" "upload_refines d d'"
proof -
  obtain p p' where p: "handle_prefixes ph prefix (new_public_parser ph) = Inr p"
      "parse_fields th ph (mp_fields mp) (mp_error mp) p d = Some (Inr p', d')" "finish_form sha p' = Inr u"
    using assms(2) by (auto simp: run_form_def split: sum.splits option.splits prod.splits)
  have ok: "form_ok th ph p' d d'" by (rule fields_form_ok[OF p(2) prefixes_form_ok[OF p(1) new_form_ok[OF assms(1)]]])
  obtain su where "pp_staged p' = Some su" using p(3) by (auto simp: finish_form_def split: option.splits)
  then show ?thesis using that[of su] ok p(3) by (auto simp: form_ok_def finish_form_def)
qed





lemma normal_dir_names:
  "normal_dir dir \<Longrightarrow> n \<in> set (path_names dir) \<Longrightarrow> plain_name n \<and> n \<noteq> [46, 46] \<and> \<not> is_internal_storage_name n \<and> 0 \<notin> set n \<and> 92 \<notin> set n"
  using validate_relative_InrD(3)[of dir dir] by (auto simp: normal_dir_def)

lemma normal_dir_components:
  assumes "normal_dir dir"
  shows "path_components dir = map to_component (path_names dir)"
proof -
  have "dir = path_of (path_names dir)" using assms validate_relative_InrD(1)[of dir dir] by (simp add: normal_dir_def)
  then show ?thesis using path_components_path_of[of "path_names dir"] path_names_plain by metis
qed

lemma walk_normal_dir: "normal_dir dir \<Longrightarrow> walk_path root (path_components dir) = root @ path_names dir"
  using normal_dir_names walk_names by (simp add: normal_dir_components)

text \<open>C10: a public upload lands below its share. Following the upload directory, then the folder
  path, then the file name leads, from any directory, exactly the named components down: none is
  \<open>..\<close>, none names the internal storage directory, the file and the folders are not private
  temporary names, the extension is not blocked, at most 16 folders are given, and an upload-only share
  receives the file directly in its directory or in the given folders below it.\<close>

theorem upload_target_contained:
  assumes "wf_uploads d" "run_form th sha ph prefix mp d = Some (Inr u, d')" "t = pu_target u"
  shows "walk_path (walk_path (walk_path root (path_components (tg_upload_base t))) (path_components (tg_folder_path t))) (path_components (tg_file_name t))
      = root @ path_names (tg_upload_base t) @ path_names (tg_folder_path t) @ [tg_file_name t]
    \<and> list_all (\<lambda>n. n \<noteq> [46, 46] \<and> \<not> is_internal_storage_name n \<and> 0 \<notin> set n \<and> 47 \<notin> set n \<and> 92 \<notin> set n)
        (path_names (tg_upload_base t) @ path_names (tg_folder_path t) @ [tg_file_name t])
    \<and> list_all (\<lambda>n. \<not> is_private_admin_filename n) (path_names (tg_folder_path t) @ [tg_file_name t])
    \<and> length (path_names (tg_folder_path t)) \<le> 16
    \<and> \<not> extension_is_blocked (tg_file_name t) (fp_blocked_extensions ph)
    \<and> (shr_permission (fp_share ph) = UploadOnly \<longrightarrow> tg_upload_base t = [])"
proof -
  have t: "target_ok ph t" using run_form_ok[OF assms(1,2)] assms(3) by metis
  have dirs: "normal_dir (tg_upload_base t)" "normal_dir (tg_folder_path t)" using t by (simp_all add: target_ok_def)
  have safe: "safe_admin_filename (tg_file_name t) = Inr (tg_file_name t)" using t by (simp add: target_ok_def)
  note n = safe_filename_InrD[OF safe_admin_filename_InrD(1)[OF safe]]
  have "path_components (path_of [tg_file_name t]) = map to_component [tg_file_name t]"
    using n(2) by (intro path_components_path_of) simp
  then have "walk_path dir (path_components (tg_file_name t)) = dir @ [tg_file_name t]" for dir
    using n(3) walk_names[of "[tg_file_name t]" dir] by (simp add: path_of_def)
  moreover have "list_all (\<lambda>n. n \<noteq> [46, 46] \<and> \<not> is_internal_storage_name n \<and> 0 \<notin> set n \<and> 47 \<notin> set n \<and> 92 \<notin> set n)
      (path_names (tg_upload_base t) @ path_names (tg_folder_path t) @ [tg_file_name t])"
    using normal_dir_names[OF dirs(1)] normal_dir_names[OF dirs(2)] n by (auto simp: list_all_iff plain_name_def)
  ultimately show ?thesis
    using t safe_admin_filename_InrD(2)[OF safe] walk_normal_dir[OF dirs(1)] walk_normal_dir[OF dirs(2)]
    by (auto simp: target_ok_def list_all_iff MAX_UPLOAD_FOLDER_COMPONENTS_def)
qed

section \<open>An example\<close>

definition example_env :: upload_env where
  "example_env = \<lparr>en_bind = (\<lambda>_ _. None), en_token = [7], en_now = 10, en_started = 0, en_stage = None, en_finish = None,
     en_storage = None\<rparr>"

definition text_part :: "rstr \<Rightarrow> rstr \<Rightarrow> form_field" where
  "text_part name v = \<lparr>ff_name = Some name, ff_file_name = None,
     ff_body = [Chunk \<lparr>ck_bytes = v, ck_now = 10, ck_elapsed = 0, ck_write = None\<rparr>]\<rparr>"

definition file_part :: "rstr \<Rightarrow> rstr \<Rightarrow> form_field" where
  "file_part file_name v = \<lparr>ff_name = Some n_file, ff_file_name = Some file_name,
     ff_body = [Chunk \<lparr>ck_bytes = v, ck_now = 20, ck_elapsed = 1, ck_write = None\<rparr>]\<rparr>"

definition example_form :: multipart where
  "example_form = \<lparr>mp_fields = [text_part n_path (lit ''a''), text_part n_folder_path (lit ''b''), file_part (lit ''x.txt'') [1, 2, 3]],
     mp_error = None\<rparr>"

definition example_upload_share :: share where
  "example_upload_share = \<lparr>shr_id = 1, shr_token = [], shr_alias = None, shr_relative_path = lit ''in'', shr_is_directory = True,
     shr_permission = DownloadUpload, shr_expires_at = None, shr_max_downloads = None, shr_max_upload_size = None,
     shr_max_upload_total_size = Some 100, shr_max_upload_files = Some 5, shr_uploaded_bytes = 0, shr_uploaded_files = 0,
     shr_download_count = 0, shr_active = True, shr_password_hash = None, shr_upload_conflict_strategy = Reject,
     shr_created_at = 0, shr_upload_policy_epoch = 0\<rparr>"

definition example_phase :: form_phase where
  "example_phase = \<lparr>fp_share = example_upload_share, fp_blocked_extensions = [], fp_maximum = 50, fp_required_csrf = None,
     fp_csrf_header_valid = False, fp_upload_id = [9], fp_replacements_allowed = True, fp_env = example_env\<rparr>"

lemma example_wf: "wf_uploads example_db"
  by (simp add: wf_uploads_def wf_store_def example_db_def empty_db_def example_share_def MAX_SQLITE_UNSIGNED_def i64_max_def
      wf_shares_def wf_grants_def wf_grant_identities_def wf_leases_def wf_usage_def wf_reservations_def wf_operations_def wf_audit_def share_refs_def)

lemma example_run:
  "case run_form (\<lambda>x. x) (\<lambda>x. x) example_phase [] example_form example_db of
     Some (Inr u, d') \<Rightarrow> pu_total u = 3 \<and> pu_reserved_bytes u = 50 \<and> pu_token u = [7]
       \<and> tg_upload_base (pu_target u) = lit ''a'' \<and> tg_folder_path (pu_target u) = lit ''b''
       \<and> tg_file_name (pu_target u) = lit ''x.txt'' \<and> pu_content_sha256 u = [1, 2, 3]
   | _ \<Rightarrow> False"
  by code_simp

lemma example_runE:
  obtains u d' where "run_form (\<lambda>x. x) (\<lambda>x. x) example_phase [] example_form example_db = Some (Inr u, d')"
    "pu_total u = 3" "pu_reserved_bytes u = 50" "pu_token u = [7]" "tg_upload_base (pu_target u) = lit ''a''"
    "tg_folder_path (pu_target u) = lit ''b''" "tg_file_name (pu_target u) = lit ''x.txt''" "pu_content_sha256 u = [1, 2, 3]"
  using example_run by (auto simp del: lit_simps split: option.splits prod.splits sum.splits)

lemma example_maximum: "fp_maximum example_phase \<le> MAX_UPLOAD_SIZE"
  by (simp add: example_phase_def MAX_UPLOAD_SIZE_def MAX_MULTIPART_BODY_SIZE_def)

theorem public_replay_matches_witness:
  "replay_fingerprint (\<lambda>x. x) (\<lambda>m. m_name m @ m_digest m) example_form (fp_upload_id example_phase) [] (public_kind example_phase)
     = Inr (lit ''x.txt'' @ [1, 2, 3])"
proof -
  obtain u d' where u: "run_form (\<lambda>x. x) (\<lambda>x. x) example_phase [] example_form example_db = Some (Inr u, d')"
      "tg_file_name (pu_target u) = lit ''x.txt''" "pu_content_sha256 u = [1, 2, 3]"
    using example_runE by metis
  show ?thesis
    using public_replay_matches[OF u(1) example_maximum, of "\<lambda>m. m_name m @ m_digest m"] u(2,3)
    by (simp add: fingerprint_def del: lit_simps)
qed


theorem upload_target_contained_witness:
  "\<exists>u d'. run_form (\<lambda>x. x) (\<lambda>x. x) example_phase [] example_form example_db = Some (Inr u, d')
     \<and> walk_path (walk_path (walk_path [lit ''in''] (path_components (lit ''a''))) (path_components (lit ''b''))) (path_components (lit ''x.txt''))
         = [lit ''in'', lit ''a'', lit ''b'', lit ''x.txt'']"
proof -
  obtain u d' where u: "run_form (\<lambda>x. x) (\<lambda>x. x) example_phase [] example_form example_db = Some (Inr u, d')"
      "tg_upload_base (pu_target u) = lit ''a''" "tg_folder_path (pu_target u) = lit ''b''" "tg_file_name (pu_target u) = lit ''x.txt''"
    using example_runE by metis
  have names: "path_names (lit ''a'') = [lit ''a'']" "path_names (lit ''b'') = [lit ''b'']" by code_simp+
  show ?thesis
    using upload_target_contained[OF example_wf u(1) refl, of "[lit ''in'']"] u unfolding u names by auto
qed

definition example_admin :: admin_request where
  "example_admin = \<lparr>ar_csrf_token = [5], ar_upload_id = [9], ar_maximum = 50, ar_blocked_extensions = [],
     ar_replacements_allowed = True, ar_env = example_env\<rparr>"

definition example_admin_form :: multipart where
  "example_admin_form = \<lparr>mp_fields = [text_part n_path (lit ''a''), text_part n_folder_path [], text_part n_csrf [5],
     file_part (lit ''x.txt'') [1, 2, 3]], mp_error = None\<rparr>"

theorem admin_replay_fingerprint_witness:
  "\<exists>u. parse_admin_upload (\<lambda>x. x) example_admin [] example_admin_form = Some (Inr u)
     \<and> admin_fingerprint (\<lambda>x. x) m_directory u = lit ''a''
     \<and> replay_fingerprint (\<lambda>x. x) m_directory example_admin_form [9] [] (Admin [5]) = Inr (lit ''a/'')"
proof -
  have run: "case parse_admin_upload (\<lambda>x. x) example_admin [] example_admin_form of
      Some (Inr u) \<Rightarrow> au_base u = lit ''a'' \<and> au_folder_path u = [] \<and> au_directory u = lit ''a'' | _ \<Rightarrow> False"
    by code_simp
  obtain u where u: "parse_admin_upload (\<lambda>x. x) example_admin [] example_admin_form = Some (Inr u)"
      "au_base u = lit ''a''" "au_folder_path u = []" "au_directory u = lit ''a''"
    using run by (auto simp del: lit_simps split: option.splits sum.splits)
  have max: "ar_maximum example_admin \<le> MAX_UPLOAD_SIZE"
    by (simp add: example_admin_def MAX_UPLOAD_SIZE_def MAX_MULTIPART_BODY_SIZE_def)
  have "has_folder_field [] example_admin_form" by code_simp
  then show ?thesis
    using admin_replay_fingerprint[OF u(1) max, of m_directory] u by (simp add: admin_fingerprint_def example_admin_def)
qed

end
