(* ===== verification/Login_Limits.thy ===== *)
theory Login_Limits
  imports Upload_Form
begin

text \<open>
  Credential checks and rate limits (\<open>src/src/auth.rs\<close>): user names, passwords, TOTP codes and the
  limiter of attempts per key, with its bounded table, its overflow buckets and the recovery of a
  poisoned lock. The HMAC, the Base32 decoder, the password hash and the hash of the overflow table
  are arguments; an \<open>Instant\<close> is a number of nanoseconds and a \<open>Duration\<close> a natural number of them.
\<close>

section \<open>Names, passwords and codes\<close>

definition ADMIN_PASSWORD_MIN_CHARACTERS :: nat where
  "ADMIN_PASSWORD_MIN_CHARACTERS = 14"

definition ADMIN_PASSWORD_MAX_CHARACTERS :: nat where
  "ADMIN_PASSWORD_MAX_CHARACTERS = 256"

definition verify_password :: "(rstr \<Rightarrow> rstr \<Rightarrow> bool) \<Rightarrow> rstr \<Rightarrow> rstr \<Rightarrow> bool" where
  "verify_password argon2_verify hash password \<longleftrightarrow> str_len password \<le> MAX_PASSWORD_BYTES \<and> argon2_verify hash password"

definition valid_admin_username :: "rstr \<Rightarrow> bool" where
  "valid_admin_username username \<longleftrightarrow> 3 \<le> str_len username \<and> str_len username \<le> 64
     \<and> list_all (\<lambda>c. ascii_alphanumeric c \<or> c = 95 \<or> c = 45) username"

definition failed_login_identity :: "(rstr \<Rightarrow> rstr) \<Rightarrow> rstr \<Rightarrow> rstr \<times> rstr option" where
  "failed_login_identity sha username =
     (if valid_admin_username username then (username, None)
      else (lit ''<invalid-username>'', Some (lit ''reason=invalid_username;username_bytes='' @ dec_nat (str_len username)
        @ lit '';username_sha256='' @ sha username)))"

definition valid_admin_password :: "rstr \<Rightarrow> bool" where
  "valid_admin_password password \<longleftrightarrow> ADMIN_PASSWORD_MIN_CHARACTERS \<le> length password
     \<and> length password \<le> ADMIN_PASSWORD_MAX_CHARACTERS \<and> str_len password \<le> MAX_PASSWORD_BYTES"

text \<open>\<open>totp_code\<close>: dynamic truncation of the HMAC of the step as eight big-endian bytes.\<close>

definition be_bytes :: "nat \<Rightarrow> nat list" where
  "be_bytes n = map (\<lambda>i. n div 256 ^ (7 - i) mod 256) [0..<8]"

definition pad6 :: "rstr \<Rightarrow> rstr" where
  "pad6 s = replicate (6 - length s) 48 @ s"

definition totp_code :: "(rstr \<Rightarrow> nat list option) \<Rightarrow> (nat list \<Rightarrow> nat list \<Rightarrow> nat list) \<Rightarrow> rstr \<Rightarrow> nat \<Rightarrow> rstr option" where
  "totp_code base32 hmac secret step =
     (case base32 (to_ascii_uppercase secret) of
        None \<Rightarrow> None
      | Some key \<Rightarrow>
          (let out = hmac key (be_bytes step);
               offset = out ! 19 mod 16;
               number = (out ! offset mod 128) * 2 ^ 24 + out ! (offset + 1) * 2 ^ 16 + out ! (offset + 2) * 2 ^ 8 + out ! (offset + 3) in
           Some (pad6 (dec_nat (number mod 1000000)))))"

definition matching_totp_step :: "(rstr \<Rightarrow> nat \<Rightarrow> rstr option) \<Rightarrow> rstr \<Rightarrow> rstr \<Rightarrow> nat \<Rightarrow> nat option" where
  "matching_totp_step code_at secret code now =
     (if str_len code \<noteq> 6 \<or> \<not> list_all ascii_digit code then None
      else
        let current_step = now div 30;
            candidates = List.map_filter id [checked_add current_step 1, Some current_step, checked_sub current_step 1] in
        find (\<lambda>step. code_at secret step = Some code) candidates)"

definition verify_totp :: "(rstr \<Rightarrow> nat \<Rightarrow> rstr option) \<Rightarrow> rstr \<Rightarrow> rstr \<Rightarrow> nat \<Rightarrow> bool" where
  "verify_totp code_at secret code now \<longleftrightarrow> matching_totp_step code_at secret code now \<noteq> None"

section \<open>The limiter\<close>

definition MAX_LIMITER_KEYS :: nat where
  "MAX_LIMITER_KEYS = 10000"

definition OVERFLOW_BUCKETS :: nat where
  "OVERFLOW_BUCKETS = 256"

definition GLOBAL_CLEANUP_INTERVAL :: nat where
  "GLOBAL_CLEANUP_INTERVAL = 64"

record limiter =
  lim_max :: nat
  lim_window :: nat
  lim_capacity :: nat
  lim_overflow_buckets :: nat

text \<open>The map of entries as an association list.\<close>

record limiter_state =
  ls_entries :: "(rstr \<times> instant list) list"
  ls_overflow :: "instant list option list"
  ls_operations :: nat

definition with_capacity_and_overflow :: "nat \<Rightarrow> nat \<Rightarrow> nat \<Rightarrow> nat \<Rightarrow> limiter \<times> limiter_state" where
  "with_capacity_and_overflow maximum window capacity overflow_buckets =
     (let buckets = max overflow_buckets 1 in
      (\<lparr>lim_max = maximum, lim_window = window, lim_capacity = max capacity 1, lim_overflow_buckets = buckets\<rparr>,
       \<lparr>ls_entries = [], ls_overflow = replicate (max buckets 1) None, ls_operations = 0\<rparr>))"

definition new_limiter :: "nat \<Rightarrow> nat \<Rightarrow> limiter \<times> limiter_state" where
  "new_limiter maximum window = with_capacity_and_overflow maximum window MAX_LIMITER_KEYS OVERFLOW_BUCKETS"

definition prune_history :: "instant \<Rightarrow> nat \<Rightarrow> instant list \<Rightarrow> instant list" where
  "prune_history now window attempts = filter (\<lambda>attempt. max 0 (now - attempt) < int window) attempts"

definition prune_bucket :: "instant \<Rightarrow> nat \<Rightarrow> instant list option \<Rightarrow> instant list option" where
  "prune_bucket now window bucket =
     (case bucket of
        None \<Rightarrow> None
      | Some history \<Rightarrow> if prune_history now window history = [] then None else Some (prune_history now window history))"

definition cleanup_expired :: "limiter \<Rightarrow> instant \<Rightarrow> limiter_state \<Rightarrow> limiter_state" where
  "cleanup_expired L now st =
     st\<lparr>ls_entries := filter (\<lambda>(k, h). h \<noteq> []) (map (\<lambda>(k, h). (k, prune_history now (lim_window L) h)) (ls_entries st)),
        ls_overflow := map (prune_bucket now (lim_window L)) (ls_overflow st)\<rparr>"

definition periodic_cleanup :: "limiter \<Rightarrow> instant \<Rightarrow> limiter_state \<Rightarrow> limiter_state" where
  "periodic_cleanup L now st =
     (let st = st\<lparr>ls_operations := (ls_operations st + 1) mod 2 ^ 64\<rparr> in
      if ls_operations st mod GLOBAL_CLEANUP_INTERVAL = 0 then cleanup_expired L now st else st)"

definition overflow_bucket :: "(rstr \<Rightarrow> nat) \<Rightarrow> limiter_state \<Rightarrow> rstr \<Rightarrow> nat" where
  "overflow_bucket hash_one st key = hash_one key mod length (ls_overflow st)"

definition unique_keys :: "rstr list \<Rightarrow> rstr list" where
  "unique_keys keys = map ((!) keys) (filter (\<lambda>i. keys ! i \<notin> set (take i keys)) [0..<length keys])"

definition prune_key :: "limiter \<Rightarrow> instant \<Rightarrow> rstr \<Rightarrow> limiter_state \<Rightarrow> limiter_state" where
  "prune_key L now key st =
     st\<lparr>ls_entries := map (\<lambda>(k, h). if k = key then (k, prune_history now (lim_window L) h) else (k, h)) (ls_entries st)\<rparr>"

definition remove_empty :: "rstr \<Rightarrow> limiter_state \<Rightarrow> limiter_state" where
  "remove_empty key st =
     (if map_of (ls_entries st) key = Some [] then st\<lparr>ls_entries := filter (\<lambda>(k, h). k \<noteq> key) (ls_entries st)\<rparr> else st)"

text \<open>The loop that chooses a primary entry or an overflow bucket for every key.\<close>

fun choose_targets ::
  "limiter \<Rightarrow> (rstr \<Rightarrow> nat) \<Rightarrow> instant \<Rightarrow> rstr list \<Rightarrow> nat \<Rightarrow> rstr list \<Rightarrow> nat list \<Rightarrow> limiter_state
     \<Rightarrow> rstr list \<times> nat list \<times> limiter_state" where
  "choose_targets L hash_one now [] slots prim over st = (prim, over, st)"
| "choose_targets L hash_one now (key # keys) slots prim over st =
     (if map_of (ls_entries st) key \<noteq> None then choose_targets L hash_one now keys slots (prim @ [key]) over st
      else
        let bucket = overflow_bucket hash_one st key;
            st = st\<lparr>ls_overflow := (ls_overflow st)[bucket := prune_bucket now (lim_window L) (ls_overflow st ! bucket)]\<rparr> in
        if ls_overflow st ! bucket \<noteq> None \<or> slots = 0
        then choose_targets L hash_one now keys slots prim (if bucket \<in> set over then over else over @ [bucket]) st
        else choose_targets L hash_one now keys (slots - 1) (prim @ [key]) over st)"

definition push_entry :: "instant \<Rightarrow> rstr \<Rightarrow> (rstr \<times> instant list) list \<Rightarrow> (rstr \<times> instant list) list" where
  "push_entry now key es =
     (if map_of es key = None then es @ [(key, [now])]
      else map (\<lambda>(k, h). if k = key then (k, h @ [now]) else (k, h)) es)"

definition push_bucket :: "instant \<Rightarrow> nat \<Rightarrow> instant list option list \<Rightarrow> instant list option list" where
  "push_bucket now bucket bs = bs[bucket := Some ((case bs ! bucket of None \<Rightarrow> [] | Some h \<Rightarrow> h) @ [now])]"

definition over_limit :: "limiter \<Rightarrow> instant list option \<Rightarrow> bool" where
  "over_limit L history = (case history of None \<Rightarrow> False | Some h \<Rightarrow> lim_max L \<le> length h)"

text \<open>The part of \<open>check_and_record_attempts\<close> that runs under the lock.\<close>

definition admit_attempts ::
  "limiter \<Rightarrow> (rstr \<Rightarrow> nat) \<Rightarrow> rstr list \<Rightarrow> instant \<Rightarrow> limiter_state \<Rightarrow> bool \<times> limiter_state" where
  "admit_attempts L hash_one ks now st =
     (let st = periodic_cleanup L now st;
          st = fold (prune_key L now) ks st;
          st = fold remove_empty ks st;
          (prim, over, st) = choose_targets L hash_one now ks (saturating_sub (lim_capacity L) (length (ls_entries st))) [] [] st in
      if list_ex (\<lambda>k. over_limit L (map_of (ls_entries st) k)) prim then (False, st)
      else if list_ex (\<lambda>b. over_limit L (ls_overflow st ! b)) over then (False, st)
      else (True, st\<lparr>ls_entries := fold (push_entry now) prim (ls_entries st),
                     ls_overflow := fold (push_bucket now) over (ls_overflow st)\<rparr>))"

text \<open>\<open>state\<close>: taking the lock, with the recovery of a poisoned one. The mutex is a pair of its poison
  flag and the state.\<close>

definition keep_last :: "nat \<Rightarrow> instant list \<Rightarrow> instant list" where
  "keep_last n h = (if n < length h then drop (length h - n) h else h)"

definition recover :: "limiter \<Rightarrow> instant \<Rightarrow> limiter_state \<Rightarrow> limiter_state" where
  "recover L now st =
     (if length (ls_overflow st) \<noteq> lim_overflow_buckets L \<or> lim_capacity L < length (ls_entries st)
      then st\<lparr>ls_entries := [], ls_overflow := replicate (lim_overflow_buckets L) (Some (replicate (lim_max L) now))\<rparr>
      else
        let st = cleanup_expired L now st in
        st\<lparr>ls_entries := map (\<lambda>(k, h). (k, keep_last (lim_max L) h)) (ls_entries st),
           ls_overflow := map (map_option (keep_last (lim_max L))) (ls_overflow st)\<rparr>)"

definition lock_state :: "limiter \<Rightarrow> instant \<Rightarrow> bool \<times> limiter_state \<Rightarrow> limiter_state" where
  "lock_state L now m = (case m of (poisoned, st) \<Rightarrow> if poisoned then recover L now st else st)"

text \<open>The first instant is the one the recovery reads, the second the one of the attempt.\<close>

definition check_and_record_attempts ::
  "limiter \<Rightarrow> (rstr \<Rightarrow> nat) \<Rightarrow> rstr list \<Rightarrow> instant \<Rightarrow> instant \<Rightarrow> bool \<times> limiter_state \<Rightarrow> bool \<times> bool \<times> limiter_state" where
  "check_and_record_attempts L hash_one keys now0 now m =
     (if lim_max L = 0 \<or> lim_window L = 0 then (False, m)
      else if keys = [] then (True, m)
      else case admit_attempts L hash_one (unique_keys keys) now (lock_state L now0 m) of (admitted, st) \<Rightarrow> (admitted, False, st))"

definition check_and_record_attempt ::
  "limiter \<Rightarrow> (rstr \<Rightarrow> nat) \<Rightarrow> rstr \<Rightarrow> instant \<Rightarrow> instant \<Rightarrow> bool \<times> limiter_state \<Rightarrow> bool \<times> bool \<times> limiter_state" where
  "check_and_record_attempt L hash_one key now0 now m = check_and_record_attempts L hash_one [key] now0 now m"

definition success :: "limiter \<Rightarrow> rstr \<Rightarrow> instant \<Rightarrow> bool \<times> limiter_state \<Rightarrow> bool \<times> limiter_state" where
  "success L key now0 m =
     (let st = lock_state L now0 m in (False, st\<lparr>ls_entries := filter (\<lambda>(k, h). k \<noteq> key) (ls_entries st)\<rparr>))"

section \<open>The limiter of administrator logins\<close>

record admin_login_limiter =
  al_origins :: "bool \<times> limiter_state"
  al_accounts :: "bool \<times> limiter_state"

definition new_admin_login_limiter :: "nat \<Rightarrow> nat \<Rightarrow> nat \<Rightarrow> limiter \<times> limiter \<times> admin_login_limiter" where
  "new_admin_login_limiter origin_max account_max window =
     (case (new_limiter origin_max window, new_limiter account_max window) of
        ((LO, os), (LA, as)) \<Rightarrow> (LO, LA, \<lparr>al_origins = (False, os), al_accounts = (False, as)\<rparr>))"

text \<open>The origin is the text of the client's address; the four instants are those of the two calls.\<close>

definition admin_check_and_record_attempt ::
  "limiter \<Rightarrow> limiter \<Rightarrow> (rstr \<Rightarrow> nat) \<Rightarrow> (rstr \<Rightarrow> nat) \<Rightarrow> rstr \<Rightarrow> rstr
     \<Rightarrow> instant \<times> instant \<Rightarrow> instant \<times> instant \<Rightarrow> admin_login_limiter \<Rightarrow> bool \<times> admin_login_limiter" where
  "admin_check_and_record_attempt LO LA ho ha username origin to ta st =
     (case check_and_record_attempt LO ho origin (fst to) (snd to) (al_origins st) of
        (False, os) \<Rightarrow> (False, st\<lparr>al_origins := os\<rparr>)
      | (True, os) \<Rightarrow>
          if \<not> valid_admin_username username then (True, st\<lparr>al_origins := os\<rparr>)
          else case check_and_record_attempt LA ha (to_ascii_lowercase username) (fst ta) (snd ta) (al_accounts st) of
            (admitted, as) \<Rightarrow> (admitted, st\<lparr>al_origins := os, al_accounts := as\<rparr>))"

section \<open>Recorded attempts\<close>

text \<open>The history the next attempt of a key is judged by, and the attempts of a history that are younger
  than the window at an instant.\<close>

definition recorded :: "(rstr \<Rightarrow> nat) \<Rightarrow> limiter_state \<Rightarrow> rstr \<Rightarrow> instant list" where
  "recorded hash_one st key =
     (case map_of (ls_entries st) key of
        Some h \<Rightarrow> h
      | None \<Rightarrow> (case ls_overflow st ! overflow_bucket hash_one st key of None \<Rightarrow> [] | Some h \<Rightarrow> h))"

definition recent :: "limiter \<Rightarrow> instant \<Rightarrow> instant list \<Rightarrow> nat" where
  "recent L t h = length (filter (\<lambda>a. t - a < int (lim_window L)) h)"

definition wf_limiter :: "limiter \<Rightarrow> limiter_state \<Rightarrow> bool" where
  "wf_limiter L st \<longleftrightarrow> distinct (map fst (ls_entries st)) \<and> length (ls_entries st) \<le> lim_capacity L
     \<and> length (ls_overflow st) = lim_overflow_buckets L \<and> 0 < lim_overflow_buckets L
     \<and> (\<forall>k h. map_of (ls_entries st) k = Some h \<longrightarrow> length h \<le> lim_max L)
     \<and> (\<forall>b h. b < length (ls_overflow st) \<longrightarrow> ls_overflow st ! b = Some h \<longrightarrow> length h \<le> lim_max L)"

text \<open>A step that forgets no attempt: seen from now or later, no key has fewer recent attempts.\<close>

definition keeps :: "limiter \<Rightarrow> (rstr \<Rightarrow> nat) \<Rightarrow> instant \<Rightarrow> limiter_state \<Rightarrow> limiter_state \<Rightarrow> bool" where
  "keeps L hash_one now st st' \<longleftrightarrow> length (ls_overflow st') = length (ls_overflow st)
     \<and> (\<forall>k t. now \<le> t \<longrightarrow> recent L t (recorded hash_one st k) \<le> recent L t (recorded hash_one st' k))"

lemma keeps_refl [simp]: "keeps L hash_one now st st"
  by (simp add: keeps_def)

lemma keepsD:
  "keeps L hash_one now st st' \<Longrightarrow> now \<le> t \<Longrightarrow> recent L t (recorded hash_one st k) \<le> recent L t (recorded hash_one st' k)"
  by (simp add: keeps_def)

lemma keeps_trans: "keeps L hash_one now st st' \<Longrightarrow> keeps L hash_one now st' st'' \<Longrightarrow> keeps L hash_one now st st''"
  unfolding keeps_def by (metis order_trans)

lemma keeps_later: "keeps L hash_one now st st' \<Longrightarrow> now \<le> now' \<Longrightarrow> keeps L hash_one now' st st'"
  unfolding keeps_def by (metis order_trans)

lemma recent_Nil [simp]: "recent L t [] = 0"
  by (simp add: recent_def)

lemma recent_le_length: "recent L t h \<le> length h"
  by (simp add: recent_def)

lemma recent_snoc: "recent L t (h @ [a]) = recent L t h + (if t - a < int (lim_window L) then 1 else 0)"
  by (simp add: recent_def)

lemma recent_prune:
  assumes "0 < lim_window L" "now \<le> t"
  shows "recent L t (prune_history now (lim_window L) h) = recent L t h"
proof -
  have "(\<lambda>a. max 0 (now - a) < int (lim_window L) \<and> t - a < int (lim_window L)) = (\<lambda>a. t - a < int (lim_window L))"
    using assms by (auto simp: fun_eq_iff max_def)
  thus ?thesis by (simp add: recent_def prune_history_def conj_commute)
qed

lemma prune_length: "length (prune_history now w h) \<le> length h"
  by (simp add: prune_history_def)

lemma prune_idem [simp]: "prune_history now w (prune_history now w h) = prune_history now w h"
  by (simp add: prune_history_def)

lemma prune_bucket_idem [simp]: "prune_bucket now w (prune_bucket now w b) = prune_bucket now w b"
  by (simp add: prune_bucket_def split: option.splits)

lemma prune_bucket_le: "prune_bucket now w b = Some h \<Longrightarrow> \<exists>h'. b = Some h' \<and> length h \<le> length h'"
  by (auto simp: prune_bucket_def prune_length split: option.splits if_splits)

definition bucket_history :: "instant list option \<Rightarrow> instant list" where
  "bucket_history b = (case b of None \<Rightarrow> [] | Some h \<Rightarrow> h)"

lemma bucket_history_simps [simp]: "bucket_history None = []" "bucket_history (Some h) = h"
  by (simp_all add: bucket_history_def)

lemma recent_prune_bucket:
  "0 < lim_window L \<Longrightarrow> now \<le> t
     \<Longrightarrow> recent L t (bucket_history (prune_bucket now (lim_window L) b)) = recent L t (bucket_history b)"
proof (cases b)
  case (Some h)
  assume "0 < lim_window L" "now \<le> t"
  hence r: "recent L t (prune_history now (lim_window L) h) = recent L t h" by (rule recent_prune)
  show ?thesis
  proof (cases "prune_history now (lim_window L) h = []")
    case True
    thus ?thesis using r Some by (simp add: prune_bucket_def)
  next
    case False
    thus ?thesis using r Some by (simp add: prune_bucket_def)
  qed
qed (simp add: prune_bucket_def)

lemma recorded_alt:
  "recorded hash_one st k =
     (case map_of (ls_entries st) k of Some h \<Rightarrow> h
      | None \<Rightarrow> bucket_history (ls_overflow st ! (hash_one k mod length (ls_overflow st))))"
  by (simp add: recorded_def overflow_bucket_def bucket_history_def split: option.splits)

section \<open>Every step of an attempt keeps what is recorded\<close>

text \<open>How the steps act on a lookup.\<close>

lemma map_of_map_key:
  "map_of (map (\<lambda>(k, h). if k = key then (k, f h) else (k, h)) es) k'
     = (if k' = key then map_option f (map_of es k') else map_of es k')"
  by (induction es) auto

lemma map_of_map_all: "map_of (map (\<lambda>(k, h). (k, f h)) es) k' = map_option f (map_of es k')"
  by (induction es) auto

lemma map_of_without: "map_of (filter (\<lambda>(k, h). k \<noteq> key) es) k' = (if k' = key then None else map_of es k')"
  by (induction es) auto

lemma map_of_nonempty:
  "distinct (map fst es) \<Longrightarrow> map_of (filter (\<lambda>(k, h). h \<noteq> []) es) k' = (if map_of es k' = Some [] then None else map_of es k')"
proof (induction es)
  case (Cons e es)
  obtain k h where e: "e = (k, h)" by (cases e)
  have "map_of es k = None" using Cons.prems e by (simp add: map_of_eq_None_iff)
  thus ?case using Cons e by auto
qed simp

lemma map_fst_map_key [simp]: "map fst (map (\<lambda>(k, h). if k = key then (k, f h) else (k, h)) es) = map fst es"
  by (induction es) auto

lemma map_fst_map_all [simp]: "map fst (map (\<lambda>(k, h). (k, f h)) es) = map fst es"
  by (induction es) auto

lemma distinct_map_fst_filter: "distinct (map fst es) \<Longrightarrow> distinct (map fst (filter P es))"
  by (rule distinct_map_filter)

lemma wf_limiterI:
  assumes "distinct (map fst (ls_entries st))" "length (ls_entries st) \<le> lim_capacity L"
    "length (ls_overflow st) = lim_overflow_buckets L" "0 < lim_overflow_buckets L"
    "\<And>k h. map_of (ls_entries st) k = Some h \<Longrightarrow> length h \<le> lim_max L"
    "\<And>b h. b < length (ls_overflow st) \<Longrightarrow> ls_overflow st ! b = Some h \<Longrightarrow> length h \<le> lim_max L"
  shows "wf_limiter L st"
  using assms by (simp add: wf_limiter_def)

lemma wf_limiterD:
  assumes "wf_limiter L st"
  shows "distinct (map fst (ls_entries st))" "length (ls_entries st) \<le> lim_capacity L"
    "length (ls_overflow st) = lim_overflow_buckets L" "0 < lim_overflow_buckets L"
    "\<And>k h. map_of (ls_entries st) k = Some h \<Longrightarrow> length h \<le> lim_max L"
    "\<And>b h. b < length (ls_overflow st) \<Longrightarrow> ls_overflow st ! b = Some h \<Longrightarrow> length h \<le> lim_max L"
  using assms by (auto simp: wf_limiter_def)

lemma recorded_le_max: "wf_limiter L st \<Longrightarrow> length (recorded hash_one st k) \<le> lim_max L"
proof (cases "map_of (ls_entries st) k")
  case None
  assume wf: "wf_limiter L st"
  have "hash_one k mod length (ls_overflow st) < length (ls_overflow st)" using wf_limiterD(3,4)[OF wf] by simp
  thus ?thesis using None wf_limiterD(6)[OF wf]
    by (cases "ls_overflow st ! (hash_one k mod length (ls_overflow st))") (simp_all add: recorded_alt)
next
  case (Some h)
  assume "wf_limiter L st"
  thus ?thesis using Some wf_limiterD(5)[of L st k h] by (simp add: recorded_alt)
qed

lemma prune_key_entries:
  "ls_entries (prune_key L now key st)
     = map (\<lambda>(k, h). if k = key then (k, prune_history now (lim_window L) h) else (k, h)) (ls_entries st)"
  by (simp add: prune_key_def)

lemma cleanup_expired_entries:
  "ls_entries (cleanup_expired L now st)
     = filter (\<lambda>(k, h). h \<noteq> []) (map (\<lambda>(k, h). (k, prune_history now (lim_window L) h)) (ls_entries st))"
  by (simp add: cleanup_expired_def)

lemma prune_key_step:
  assumes wf: "wf_limiter L st" and w: "0 < lim_window L"
  shows "wf_limiter L (prune_key L now key st) \<and> keeps L hash_one now st (prune_key L now key st)"
proof
  show "wf_limiter L (prune_key L now key st)"
  proof (rule wf_limiterI)
    show "distinct (map fst (ls_entries (prune_key L now key st)))"
      using wf_limiterD(1)[OF wf] by (simp only: prune_key_entries map_fst_map_key)
    show "length h \<le> lim_max L" if "map_of (ls_entries (prune_key L now key st)) k = Some h" for k h
      using that wf_limiterD(5)[OF wf] order_trans[OF prune_length[of now "lim_window L"]]
      by (force simp: prune_key_def map_of_map_key split: if_splits)
  qed (use wf_limiterD[OF wf] in \<open>simp_all add: prune_key_def\<close>)
  show "keeps L hash_one now st (prune_key L now key st)"
    using recent_prune[OF w]
    by (auto simp: keeps_def recorded_alt prune_key_def map_of_map_key split: option.splits)
qed

lemma remove_empty_step:
  assumes wf: "wf_limiter L st"
  shows "wf_limiter L (remove_empty key st) \<and> keeps L hash_one now st (remove_empty key st)"
proof
  show "wf_limiter L (remove_empty key st)"
    using wf_limiterD[OF wf] le_trans[OF length_filter_le]
    by (intro wf_limiterI) (auto simp: remove_empty_def map_of_without distinct_map_fst_filter split: if_splits)
  show "keeps L hash_one now st (remove_empty key st)"
    by (auto simp: keeps_def recorded_alt remove_empty_def map_of_without split: option.splits)
qed

lemma cleanup_lookup:
  assumes "wf_limiter L st"
  shows "map_of (ls_entries (cleanup_expired L now st)) k =
     (if map_option (prune_history now (lim_window L)) (map_of (ls_entries st) k) = Some [] then None
      else map_option (prune_history now (lim_window L)) (map_of (ls_entries st) k))"
  using wf_limiterD(1)[OF assms] unfolding cleanup_expired_entries
  by (subst map_of_nonempty) (simp_all only: map_fst_map_all map_of_map_all)

lemma cleanup_expired_wf:
  assumes wf: "wf_limiter L st"
  shows "wf_limiter L (cleanup_expired L now st)"
proof (rule wf_limiterI)
  show "distinct (map fst (ls_entries (cleanup_expired L now st)))"
    using wf_limiterD(1)[OF wf] unfolding cleanup_expired_entries by (intro distinct_map_fst_filter) (simp only: map_fst_map_all)
  have "length (ls_entries (cleanup_expired L now st)) \<le> length (ls_entries st)"
    unfolding cleanup_expired_entries by (rule order_trans[OF length_filter_le]) simp
  thus "length (ls_entries (cleanup_expired L now st)) \<le> lim_capacity L" using wf_limiterD(2)[OF wf] by (rule order_trans)
  show "length (ls_overflow (cleanup_expired L now st)) = lim_overflow_buckets L" "0 < lim_overflow_buckets L"
    using wf_limiterD(3,4)[OF wf] by (simp_all add: cleanup_expired_def)
  show "length h \<le> lim_max L" if "map_of (ls_entries (cleanup_expired L now st)) k = Some h" for k h
    using that wf_limiterD(5)[OF wf] prune_length[of now "lim_window L"]
    by (force simp: cleanup_lookup[OF wf] intro: order_trans split: if_splits)
  show "length h \<le> lim_max L" if "b < length (ls_overflow (cleanup_expired L now st))"
    "ls_overflow (cleanup_expired L now st) ! b = Some h" for b h
    using that wf_limiterD(6)[OF wf] prune_bucket_le by (fastforce simp: cleanup_expired_def)
qed

lemma cleanup_expired_keeps:
  assumes wf: "wf_limiter L st" and w: "0 < lim_window L"
  shows "keeps L hash_one now st (cleanup_expired L now st)"
proof -
  let ?p = "prune_history now (lim_window L)"
  have "recent L t (recorded hash_one st k) \<le> recent L t (recorded hash_one (cleanup_expired L now st) k)"
    if t: "now \<le> t" for k t
  proof (cases "map_of (ls_entries st) k")
    case None
    have "hash_one k mod length (ls_overflow st) < length (ls_overflow st)" using wf_limiterD(3,4)[OF wf] by simp
    hence "ls_overflow (cleanup_expired L now st) ! (hash_one k mod length (ls_overflow (cleanup_expired L now st)))
        = prune_bucket now (lim_window L) (ls_overflow st ! (hash_one k mod length (ls_overflow st)))"
      by (simp add: cleanup_expired_def)
    thus ?thesis using None recent_prune_bucket[OF w t] by (simp add: recorded_alt cleanup_lookup[OF wf])
  next
    case (Some h)
    have r: "recent L t (?p h) = recent L t h" by (rule recent_prune[OF w t])
    show ?thesis
    proof (cases "?p h = []")
      case True
      hence "recent L t h = 0" using r by simp
      thus ?thesis using Some by (simp add: recorded_alt)
    next
      case False
      thus ?thesis using Some r by (simp add: recorded_alt cleanup_lookup[OF wf])
    qed
  qed
  thus ?thesis by (simp add: keeps_def cleanup_expired_def)
qed

lemma cleanup_expired_step:
  "wf_limiter L st \<Longrightarrow> 0 < lim_window L
     \<Longrightarrow> wf_limiter L (cleanup_expired L now st) \<and> keeps L hash_one now st (cleanup_expired L now st)"
  by (simp add: cleanup_expired_wf cleanup_expired_keeps)

lemma operations_irrelevant [simp]:
  "wf_limiter L (st\<lparr>ls_operations := n\<rparr>) = wf_limiter L st"
  "keeps L hash_one now st0 (st\<lparr>ls_operations := n\<rparr>) = keeps L hash_one now st0 st"
  "keeps L hash_one now (st\<lparr>ls_operations := n\<rparr>) st0 = keeps L hash_one now st st0"
proof -
  have "recorded hash_one (st\<lparr>ls_operations := n\<rparr>) k = recorded hash_one st k" for k
    by (simp add: recorded_alt cong: option.case_cong)
  thus "keeps L hash_one now st0 (st\<lparr>ls_operations := n\<rparr>) = keeps L hash_one now st0 st"
    "keeps L hash_one now (st\<lparr>ls_operations := n\<rparr>) st0 = keeps L hash_one now st st0"
    by (simp_all add: keeps_def)
qed (simp add: wf_limiter_def)

lemma periodic_cleanup_step:
  assumes "wf_limiter L st" "0 < lim_window L"
  shows "wf_limiter L (periodic_cleanup L now st) \<and> keeps L hash_one now st (periodic_cleanup L now st)"
  using assms cleanup_expired_step[of L "st\<lparr>ls_operations := (ls_operations st + 1) mod 2 ^ 64\<rparr>" now hash_one]
  by (simp add: periodic_cleanup_def Let_def)

lemma fold_step:
  assumes "\<And>x st. wf_limiter L st \<Longrightarrow> wf_limiter L (f x st) \<and> keeps L hash_one now st (f x st)" "wf_limiter L st"
  shows "wf_limiter L (fold f xs st) \<and> keeps L hash_one now st (fold f xs st)"
  using assms(2)
proof (induction xs arbitrary: st)
  case (Cons x xs)
  show ?case using Cons.IH[of "f x st"] assms(1)[OF Cons.prems, of x] keeps_trans by simp blast
qed simp

text \<open>The choice of the targets.\<close>

definition pruned :: "instant \<Rightarrow> nat \<Rightarrow> limiter_state \<Rightarrow> limiter_state \<Rightarrow> bool" where
  "pruned now w st st' \<longleftrightarrow> ls_entries st' = ls_entries st \<and> length (ls_overflow st') = length (ls_overflow st)
     \<and> (\<forall>b < length (ls_overflow st). ls_overflow st' ! b = ls_overflow st ! b
          \<or> ls_overflow st' ! b = prune_bucket now w (ls_overflow st ! b))"

lemma pruned_refl [simp]: "pruned now w st st"
  by (simp add: pruned_def)

lemma pruned_trans: "pruned now w st st' \<Longrightarrow> pruned now w st' st'' \<Longrightarrow> pruned now w st st''"
proof -
  assume p: "pruned now w st st'" and q: "pruned now w st' st''"
  have "ls_overflow st'' ! b = ls_overflow st ! b \<or> ls_overflow st'' ! b = prune_bucket now w (ls_overflow st ! b)"
    if b: "b < length (ls_overflow st)" for b
  proof -
    have "ls_overflow st' ! b = ls_overflow st ! b \<or> ls_overflow st' ! b = prune_bucket now w (ls_overflow st ! b)"
      "ls_overflow st'' ! b = ls_overflow st' ! b \<or> ls_overflow st'' ! b = prune_bucket now w (ls_overflow st' ! b)"
      using p q b by (auto simp: pruned_def)
    thus ?thesis by auto
  qed
  thus ?thesis using p q by (simp add: pruned_def)
qed

lemma pruned_none: "pruned now w st st' \<Longrightarrow> b < length (ls_overflow st) \<Longrightarrow> ls_overflow st ! b = None \<Longrightarrow> ls_overflow st' ! b = None"
  by (auto simp: pruned_def prune_bucket_def)

lemma pruned_step:
  assumes p: "pruned now (lim_window L) st st'" and wf: "wf_limiter L st" and w: "0 < lim_window L"
  shows "wf_limiter L st' \<and> keeps L hash_one now st st'"
proof
  have p': "ls_entries st' = ls_entries st" "length (ls_overflow st') = length (ls_overflow st)"
    "\<And>b. b < length (ls_overflow st) \<Longrightarrow> ls_overflow st' ! b = ls_overflow st ! b
        \<or> ls_overflow st' ! b = prune_bucket now (lim_window L) (ls_overflow st ! b)"
    using p by (auto simp: pruned_def)
  show "wf_limiter L st'"
  proof (rule wf_limiterI)
    show "length h \<le> lim_max L" if "b < length (ls_overflow st')" "ls_overflow st' ! b = Some h" for b h
      using that p'(2) p'(3)[of b] wf_limiterD(6)[OF wf, of b] prune_bucket_le[of now "lim_window L" "ls_overflow st ! b" h]
      by force
  qed (use wf_limiterD[OF wf] p'(1,2) in auto)
  have "recent L t (recorded hash_one st k) = recent L t (recorded hash_one st' k)" if "now \<le> t" for k t
  proof -
    have "hash_one k mod length (ls_overflow st) < length (ls_overflow st)" using wf_limiterD(3,4)[OF wf] by simp
    thus ?thesis
      using p'(1,2) p'(3)[of "hash_one k mod length (ls_overflow st)"] recent_prune_bucket[OF w that]
      by (auto simp: recorded_alt split: option.splits)
  qed
  thus "keeps L hash_one now st st'" by (simp add: keeps_def p'(2))
qed

lemma choose_targets_keeps:
  "choose_targets L hash_one now ks slots prim over st = (prim', over', st') \<Longrightarrow>
     pruned now (lim_window L) st st' \<and> set prim \<subseteq> set prim' \<and> set over \<subseteq> set over'"
proof (induction ks arbitrary: slots prim over st)
  case (Cons k ks)
  show ?case
  proof (cases "map_of (ls_entries st) k")
    case None
    let ?b = "overflow_bucket hash_one st k"
    let ?st = "st\<lparr>ls_overflow := (ls_overflow st)[?b := prune_bucket now (lim_window L) (ls_overflow st ! ?b)]\<rparr>"
    have p: "pruned now (lim_window L) st ?st" 
      by (auto simp: pruned_def) (metis nth_list_update_eq nth_list_update_neq)
    have "pruned now (lim_window L) ?st st' \<and> set prim \<subseteq> set prim' \<and> set over \<subseteq> set over'"
      using Cons.prems None Cons.IH[where st = ?st and over = over and prim = prim and slots = slots]
        Cons.IH[where st = ?st and over = "over @ [?b]" and prim = prim and slots = slots]
        Cons.IH[where st = ?st and over = over and prim = "prim @ [k]" and slots = "slots - 1"]
      by (auto simp: Let_def split: if_splits)
    thus ?thesis using pruned_trans[OF p] by blast
  next
    case (Some h)
    thus ?thesis using Cons.prems Cons.IH[where st = st and prim = "prim @ [k]"] by simp
  qed
qed simp

lemma choose_targets_covers:
  assumes "0 < length (ls_overflow st)" "choose_targets L hash_one now ks slots prim over st = (prim', over', st')" "k \<in> set ks"
  shows "k \<in> set prim' \<and> (map_of (ls_entries st) k = None \<longrightarrow> ls_overflow st' ! overflow_bucket hash_one st k = None)
     \<or> map_of (ls_entries st) k = None \<and> overflow_bucket hash_one st k \<in> set over'"
  using assms
proof (induction ks arbitrary: slots prim over st)
  case (Cons key ks)
  let ?b = "overflow_bucket hash_one st key"
  let ?st = "st\<lparr>ls_overflow := (ls_overflow st)[?b := prune_bucket now (lim_window L) (ls_overflow st ! ?b)]\<rparr>"
  have same: "overflow_bucket hash_one ?st k = overflow_bucket hash_one st k" for k by (simp add: overflow_bucket_def)
  have blt: "?b < length (ls_overflow st)" using Cons.prems(1) by (simp add: overflow_bucket_def)
  consider (entry) "map_of (ls_entries st) key \<noteq> None"
    | (over) "map_of (ls_entries st) key = None" "ls_overflow ?st ! ?b \<noteq> None \<or> slots = 0"
    | (new) "map_of (ls_entries st) key = None" "ls_overflow ?st ! ?b = None" "slots \<noteq> 0" by blast
  thus ?case
  proof cases
    case entry
    hence rest: "choose_targets L hash_one now ks slots (prim @ [key]) over st = (prim', over', st')"
      using Cons.prems(2) by simp
    show ?thesis
      using Cons.IH[OF Cons.prems(1) rest] choose_targets_keeps[OF rest] Cons.prems(3) entry by auto
  next
    case over
    hence rest: "choose_targets L hash_one now ks slots prim (if ?b \<in> set over then over else over @ [?b]) ?st = (prim', over', st')"
      using Cons.prems(2) by (simp add: Let_def)
    have "?b \<in> set over'" using choose_targets_keeps[OF rest] by (auto split: if_splits)
    thus ?thesis using Cons.IH[OF _ rest] Cons.prems(1,3) over(1) same by auto
  next
    case new
    hence rest: "choose_targets L hash_one now ks (slots - 1) (prim @ [key]) over ?st = (prim', over', st')"
      using Cons.prems(2) by (simp add: Let_def)
    have "ls_overflow st' ! ?b = None"
      using choose_targets_keeps[OF rest] pruned_none[of now "lim_window L" ?st st' ?b] blt new(2) by simp
    thus ?thesis using Cons.IH[OF _ rest] choose_targets_keeps[OF rest] Cons.prems(1,3) same by auto
  qed
qed simp

lemma choose_targets_shape:
  assumes "0 < length (ls_overflow st)" "choose_targets L hash_one now ks slots prim over st = (prim', over', st')"
    "distinct (prim @ ks)" "distinct over" "\<forall>b \<in> set over. b < length (ls_overflow st)"
  shows "distinct prim' \<and> distinct over' \<and> (\<forall>b \<in> set over'. b < length (ls_overflow st))
     \<and> length (filter (\<lambda>k. map_of (ls_entries st) k = None) prim') \<le> length (filter (\<lambda>k. map_of (ls_entries st) k = None) prim) + slots"
  using assms
proof (induction ks arbitrary: slots prim over st)
  case (Cons key ks)
  let ?b = "overflow_bucket hash_one st key"
  let ?st = "st\<lparr>ls_overflow := (ls_overflow st)[?b := prune_bucket now (lim_window L) (ls_overflow st ! ?b)]\<rparr>"
  have blt: "?b < length (ls_overflow st)" using Cons.prems(1) by (simp add: overflow_bucket_def)
  consider (entry) "map_of (ls_entries st) key \<noteq> None"
    | (over) "map_of (ls_entries st) key = None" "ls_overflow ?st ! ?b \<noteq> None \<or> slots = 0"
    | (new) "map_of (ls_entries st) key = None" "ls_overflow ?st ! ?b = None" "slots \<noteq> 0" by blast
  thus ?case
  proof cases
    case entry
    hence rest: "choose_targets L hash_one now ks slots (prim @ [key]) over st = (prim', over', st')"
      using Cons.prems(2) by simp
    show ?thesis using Cons.IH[OF Cons.prems(1) rest] Cons.prems(3-5) entry by simp
  next
    case over
    hence rest: "choose_targets L hash_one now ks slots prim (if ?b \<in> set over then over else over @ [?b]) ?st = (prim', over', st')"
      using Cons.prems(2) by (simp add: Let_def)
    show ?thesis
    proof (cases "?b \<in> set over")
      case True
      thus ?thesis using Cons.IH[OF _ rest] Cons.prems(1,3-5) by simp
    next
      case False
      thus ?thesis using Cons.IH[OF _ rest] Cons.prems(1,3-5) blt by simp
    qed
  next
    case new
    hence rest: "choose_targets L hash_one now ks (slots - 1) (prim @ [key]) over ?st = (prim', over', st')"
      using Cons.prems(2) by (simp add: Let_def)
    show ?thesis using Cons.IH[OF _ rest] Cons.prems(1,3-5) new(1,3) by simp
  qed
qed simp

text \<open>Recording an attempt.\<close>

lemma map_of_push_entry:
  "map_of (push_entry now key es) k = (if k = key then Some (bucket_history (map_of es k) @ [now]) else map_of es k)"
proof (cases "map_of es key")
  case None
  thus ?thesis by (auto simp: push_entry_def map_add_def simp del: map_of_eq_None_iff not_None_eq split: option.splits)
next
  case (Some h)
  thus ?thesis by (simp add: push_entry_def map_of_map_key)
qed

lemma map_of_push_entries:
  "distinct ks \<Longrightarrow> map_of (fold (push_entry now) ks es) k
     = (if k \<in> set ks then Some (bucket_history (map_of es k) @ [now]) else map_of es k)"
  by (induction ks arbitrary: es) (auto simp: map_of_push_entry)

lemma push_entries_table:
  "distinct ks \<Longrightarrow> distinct (map fst es) \<Longrightarrow>
     distinct (map fst (fold (push_entry now) ks es))
     \<and> length (fold (push_entry now) ks es) = length es + length (filter (\<lambda>k. map_of es k = None) ks)"
proof (induction ks arbitrary: es)
  case (Cons k ks)
  have d: "distinct (map fst (push_entry now k es))"
    using Cons.prems(2) by (auto simp: push_entry_def map_of_eq_None_iff simp del: map_map)
  have l: "length (push_entry now k es) = length es + (if map_of es k = None then 1 else 0)"
    by (simp add: push_entry_def)
  have f: "filter (\<lambda>k'. map_of (push_entry now k es) k' = None) ks = filter (\<lambda>k'. map_of es k' = None) ks"
    using Cons.prems(1) by (intro filter_cong) (auto simp: map_of_push_entry)
  show ?case using Cons.IH[OF _ d] Cons.prems(1) l f by simp
qed simp

lemma push_buckets:
  "distinct bs \<Longrightarrow> \<forall>b \<in> set bs. b < length os \<Longrightarrow> length (fold (push_bucket now) bs os) = length os
     \<and> (\<forall>b < length os. fold (push_bucket now) bs os ! b
          = (if b \<in> set bs then Some (bucket_history (os ! b) @ [now]) else os ! b))"
proof (induction bs arbitrary: os)
  case (Cons c bs)
  have l: "length (push_bucket now c os) = length os" by (simp add: push_bucket_def)
  have n: "push_bucket now c os ! b = (if b = c then Some (bucket_history (os ! b) @ [now]) else os ! b)" if "b < length os" for b
    using that by (simp add: push_bucket_def bucket_history_def nth_list_update)
  show ?case using Cons.IH[of "push_bucket now c os"] Cons.prems l n by auto
qed simp

lemma unique_keys_distinct: "distinct (unique_keys keys)"
proof -
  have "inj_on ((!) keys) (set (filter (\<lambda>i. keys ! i \<notin> set (take i keys)) [0..<length keys]))"
  proof (rule inj_onI)
    fix i j
    assume i: "i \<in> set (filter (\<lambda>i. keys ! i \<notin> set (take i keys)) [0..<length keys])"
      and j: "j \<in> set (filter (\<lambda>i. keys ! i \<notin> set (take i keys)) [0..<length keys])"
      and eq: "keys ! i = keys ! j"
    have "\<not> m < n" if "n < length keys" "keys ! n \<notin> set (take n keys)" "keys ! m = keys ! n" for m n
    proof
      assume m: "m < n"
      hence "take n keys ! m = keys ! n" using that(3) by simp
      moreover have "take n keys ! m \<in> set (take n keys)" using m that(1) by (intro nth_mem) simp
      ultimately show False using that(2) by simp
    qed
    thus "i = j" using i j eq by (metis atLeastLessThan_iff filter_is_subset in_set_conv_nth linorder_neqE_nat mem_Collect_eq set_filter set_upt)
  qed
  thus ?thesis by (simp add: unique_keys_def distinct_map)
qed

lemma unique_keys_set: "set (unique_keys keys) = set keys"
proof
  show "set (unique_keys keys) \<subseteq> set keys" by (auto simp: unique_keys_def)
  show "set keys \<subseteq> set (unique_keys keys)"
  proof
    fix k
    assume "k \<in> set keys"
    hence ex: "\<exists>i. i < length keys \<and> keys ! i = k" by (simp add: in_set_conv_nth)
    define i where "i = (LEAST i. i < length keys \<and> keys ! i = k)"
    have i: "i < length keys" "keys ! i = k" using LeastI_ex[OF ex] by (simp_all add: i_def)
    have "k \<notin> set (take i keys)"
    proof
      assume "k \<in> set (take i keys)"
      then obtain j where j: "j < i" "keys ! j = k" using i(1) by (auto simp: in_set_conv_nth)
      hence "i \<le> j" using i(1) Least_le[of "\<lambda>i. i < length keys \<and> keys ! i = k" j] by (simp flip: i_def)
      thus False using j(1) by simp
    qed
    thus "k \<in> set (unique_keys keys)" using i by (auto simp: unique_keys_def image_iff intro!: bexI[of _ i])
  qed
qed

text \<open>An attempt keeps the table well formed and what it records; an admitted one is recorded at every
  of its keys.\<close>

lemma push_targets:
  assumes wf: "wf_limiter L st" and m: "0 < lim_max L"
    and prim: "distinct prim" "length (ls_entries st) + length (filter (\<lambda>k. map_of (ls_entries st) k = None) prim) \<le> lim_capacity L"
    and over: "distinct over" "\<forall>b \<in> set over. b < length (ls_overflow st)"
    and free: "\<forall>k \<in> set prim. map_of (ls_entries st) k = None \<longrightarrow> ls_overflow st ! overflow_bucket hash_one st k = None"
    and room: "\<not> list_ex (\<lambda>k. over_limit L (map_of (ls_entries st) k)) prim" "\<not> list_ex (\<lambda>b. over_limit L (ls_overflow st ! b)) over"
    and st': "st' = st\<lparr>ls_entries := fold (push_entry now) prim (ls_entries st), ls_overflow := fold (push_bucket now) over (ls_overflow st)\<rparr>"
  shows "wf_limiter L st' \<and> keeps L hash_one now st st'
     \<and> (\<forall>k. k \<in> set prim \<or> map_of (ls_entries st) k = None \<and> overflow_bucket hash_one st k \<in> set over
          \<longrightarrow> recorded hash_one st' k = recorded hash_one st k @ [now])"
proof (intro conjI)
  note es = map_of_push_entries[OF prim(1), of now "ls_entries st"]
  note tab = push_entries_table[OF prim(1) wf_limiterD(1)[OF wf], of now]
  note bs = push_buckets[OF over, of now]
  have lt: "hash_one k mod length (ls_overflow st) < length (ls_overflow st)" for k using wf_limiterD(3,4)[OF wf] by simp
  show "wf_limiter L st'"
  proof (rule wf_limiterI)
    show "length h \<le> lim_max L" if h: "map_of (ls_entries st') k = Some h" for k h
    proof (cases "k \<in> set prim")
      case True
      hence "\<not> over_limit L (map_of (ls_entries st) k)" using room(1) by (auto simp: list_ex_iff)
      thus ?thesis using h True m by (auto simp: st' es over_limit_def split: option.splits)
    next
      case False
      thus ?thesis using h wf_limiterD(5)[OF wf, of k h] by (simp add: st' es)
    qed
    show "length h \<le> lim_max L" if b: "b < length (ls_overflow st')" and h: "ls_overflow st' ! b = Some h" for b h
    proof (cases "b \<in> set over")
      case True
      hence "\<not> over_limit L (ls_overflow st ! b)" using room(2) by (auto simp: list_ex_iff)
      thus ?thesis using b h True m bs by (auto simp: st' over_limit_def split: option.splits)
    next
      case False
      thus ?thesis using b h wf_limiterD(6)[OF wf, of b h] bs by (simp add: st')
    qed
  qed (use wf_limiterD[OF wf] tab bs prim(2) in \<open>simp_all add: st'\<close>)
  have rec: "recorded hash_one st' k = recorded hash_one st k @ [now]"
    if "k \<in> set prim \<or> map_of (ls_entries st) k = None \<and> overflow_bucket hash_one st k \<in> set over" for k
  proof (cases "k \<in> set prim")
    case True
    thus ?thesis using free by (cases "map_of (ls_entries st) k") (auto simp: st' recorded_alt es overflow_bucket_def)
  next
    case False
    thus ?thesis using that bs lt[of k] by (simp add: st' recorded_alt es overflow_bucket_def)
  qed
  show "\<forall>k. k \<in> set prim \<or> map_of (ls_entries st) k = None \<and> overflow_bucket hash_one st k \<in> set over
      \<longrightarrow> recorded hash_one st' k = recorded hash_one st k @ [now]" using rec by blast
  have "recorded hash_one st' k = recorded hash_one st k"
    if "\<not> (k \<in> set prim \<or> map_of (ls_entries st) k = None \<and> overflow_bucket hash_one st k \<in> set over)" for k
    using that bs lt[of k] by (cases "map_of (ls_entries st) k") (auto simp: st' recorded_alt es overflow_bucket_def)
  hence "recent L t (recorded hash_one st k) \<le> recent L t (recorded hash_one st' k)" for k t
    using rec[of k] by (cases "k \<in> set prim \<or> map_of (ls_entries st) k = None \<and> overflow_bucket hash_one st k \<in> set over")
      (simp_all add: recent_snoc)
  thus "keeps L hash_one now st st'" using bs by (simp add: keeps_def st')
qed

lemma choose_targets_new:
  assumes "0 < length (ls_overflow st)" "choose_targets L hash_one now ks slots prim over st = (prim', over', st')" "k \<in> set prim'"
  shows "k \<in> set prim \<or> map_of (ls_entries st) k \<noteq> None \<or> ls_overflow st' ! overflow_bucket hash_one st k = None"
  using assms
proof (induction ks arbitrary: slots prim over st)
  case (Cons key ks)
  let ?b = "overflow_bucket hash_one st key"
  let ?st = "st\<lparr>ls_overflow := (ls_overflow st)[?b := prune_bucket now (lim_window L) (ls_overflow st ! ?b)]\<rparr>"
  have same: "overflow_bucket hash_one ?st k = overflow_bucket hash_one st k" for k by (simp add: overflow_bucket_def)
  have blt: "?b < length (ls_overflow st)" using Cons.prems(1) by (simp add: overflow_bucket_def)
  consider (entry) "map_of (ls_entries st) key \<noteq> None"
    | (over) "map_of (ls_entries st) key = None" "ls_overflow ?st ! ?b \<noteq> None \<or> slots = 0"
    | (new) "map_of (ls_entries st) key = None" "ls_overflow ?st ! ?b = None" "slots \<noteq> 0" by blast
  thus ?case
  proof cases
    case entry
    thus ?thesis using Cons.IH[OF Cons.prems(1), of slots "prim @ [key]" over] Cons.prems(2,3) by auto
  next
    case over
    hence rest: "choose_targets L hash_one now ks slots prim (if ?b \<in> set over then over else over @ [?b]) ?st = (prim', over', st')"
      using Cons.prems(2) by (simp add: Let_def)
    show ?thesis using Cons.IH[OF _ rest Cons.prems(3)] Cons.prems(1) same by simp
  next
    case new
    hence rest: "choose_targets L hash_one now ks (slots - 1) (prim @ [key]) over ?st = (prim', over', st')"
      using Cons.prems(2) by (simp add: Let_def)
    have "ls_overflow st' ! ?b = None"
      using choose_targets_keeps[OF rest] pruned_none[of now "lim_window L" ?st st' ?b] blt new(2) by simp
    thus ?thesis using Cons.IH[OF _ rest Cons.prems(3)] Cons.prems(1) same by auto
  qed
qed simp

lemma choose_targets_free:
  assumes "0 < length (ls_overflow st)" "choose_targets L hash_one now ks slots [] [] st = (prim, over, st')"
  shows "\<forall>k \<in> set prim. map_of (ls_entries st) k = None \<longrightarrow> ls_overflow st' ! overflow_bucket hash_one st k = None"
proof (intro ballI impI)
  fix k
  assume "k \<in> set prim" "map_of (ls_entries st) k = None"
  thus "ls_overflow st' ! overflow_bucket hash_one st k = None" using choose_targets_new[OF assms, of k] by simp
qed

lemma admit_attempts_step:
  assumes wf: "wf_limiter L st" and w: "0 < lim_window L" and m: "0 < lim_max L" and ks: "distinct ks"
    and run: "admit_attempts L hash_one ks now st = (admitted, st')"
  shows "wf_limiter L st' \<and> keeps L hash_one now st st'
     \<and> (admitted \<longrightarrow> (\<forall>k \<in> set ks. \<forall>t \<ge> now. recent L t (recorded hash_one st k @ [now]) \<le> recent L t (recorded hash_one st' k)))"
proof -
  define st1 where "st1 = fold remove_empty ks (fold (prune_key L now) ks (periodic_cleanup L now st))"
  note pc = periodic_cleanup_step[OF wf w, of now hash_one]
  have pk: "wf_limiter L (fold (prune_key L now) ks (periodic_cleanup L now st))
      \<and> keeps L hash_one now (periodic_cleanup L now st) (fold (prune_key L now) ks (periodic_cleanup L now st))"
    by (rule fold_step[OF prune_key_step[OF _ w]]) (simp_all add: pc)
  have re: "wf_limiter L st1 \<and> keeps L hash_one now (fold (prune_key L now) ks (periodic_cleanup L now st)) st1"
    unfolding st1_def by (rule fold_step[OF remove_empty_step]) (simp_all add: pk)
  have st1: "wf_limiter L st1" "keeps L hash_one now st st1"
    using pc pk re keeps_trans[of L hash_one now st] by blast+
  obtain prim over st2 where ch: "choose_targets L hash_one now ks (saturating_sub (lim_capacity L) (length (ls_entries st1))) [] [] st1
      = (prim, over, st2)" by (cases rule: prod_cases3)
  have pr: "pruned now (lim_window L) st1 st2" using choose_targets_keeps[OF ch] by simp
  have st2: "wf_limiter L st2" "keeps L hash_one now st st2"
    using pruned_step[OF pr st1(1) w, of hash_one] keeps_trans[OF st1(2)] by blast+
  have es: "ls_entries st2 = ls_entries st1" and len: "length (ls_overflow st2) = length (ls_overflow st1)"
    using pr by (simp_all add: pruned_def)
  have pos: "0 < length (ls_overflow st1)" using wf_limiterD(3,4)[OF st1(1)] by simp
  have bk: "overflow_bucket hash_one st2 k = overflow_bucket hash_one st1 k" for k by (simp add: overflow_bucket_def len)
  let ?st3 = "st2\<lparr>ls_entries := fold (push_entry now) prim (ls_entries st2), ls_overflow := fold (push_bucket now) over (ls_overflow st2)\<rparr>"
  have res: "(admitted, st') = (if list_ex (\<lambda>k. over_limit L (map_of (ls_entries st2) k)) prim then (False, st2)
      else if list_ex (\<lambda>b. over_limit L (ls_overflow st2 ! b)) over then (False, st2) else (True, ?st3))"
    using run ch by (simp add: admit_attempts_def Let_def st1_def)
  show ?thesis
  proof (cases "list_ex (\<lambda>k. over_limit L (map_of (ls_entries st2) k)) prim \<or> list_ex (\<lambda>b. over_limit L (ls_overflow st2 ! b)) over")
    case True
    hence "\<not> admitted" "st' = st2" using res by (auto split: if_splits)
    thus ?thesis using st2 by simp
  next
    case False
    hence st': "st' = ?st3" using res by simp
    have shape: "distinct prim" "distinct over" "\<forall>b \<in> set over. b < length (ls_overflow st1)"
      "length (filter (\<lambda>k. map_of (ls_entries st1) k = None) prim) \<le> saturating_sub (lim_capacity L) (length (ls_entries st1))"
      using choose_targets_shape[OF pos ch] ks by simp_all
    have cover: "k \<in> set prim \<and> (map_of (ls_entries st1) k = None \<longrightarrow> ls_overflow st2 ! overflow_bucket hash_one st1 k = None)
        \<or> map_of (ls_entries st1) k = None \<and> overflow_bucket hash_one st1 k \<in> set over" if "k \<in> set ks" for k
      by (rule choose_targets_covers[OF pos ch that])
    have cap: "length (ls_entries st2) + length (filter (\<lambda>k. map_of (ls_entries st2) k = None) prim) \<le> lim_capacity L"
      using shape(4) wf_limiterD(2)[OF st1(1)] by (simp add: es saturating_sub_def)
    have free: "\<forall>k \<in> set prim. map_of (ls_entries st2) k = None \<longrightarrow> ls_overflow st2 ! overflow_bucket hash_one st2 k = None"
      using choose_targets_free[OF pos ch] by (simp add: es bk)
    have push: "wf_limiter L st' \<and> keeps L hash_one now st2 st'
       \<and> (\<forall>k. k \<in> set prim \<or> map_of (ls_entries st2) k = None \<and> overflow_bucket hash_one st2 k \<in> set over
            \<longrightarrow> recorded hash_one st' k = recorded hash_one st2 k @ [now])"
      using False shape(3) by (intro push_targets[OF st2(1) m shape(1) cap shape(2) _ free _ _ st']) (simp_all add: len)
    have "recent L t (recorded hash_one st k @ [now]) \<le> recent L t (recorded hash_one st' k)" if "k \<in> set ks" "now \<le> t" for k t
    proof -
      have "recorded hash_one st' k = recorded hash_one st2 k @ [now]" using push cover[OF that(1)] by (auto simp: es bk)
      moreover have "recent L t (recorded hash_one st k) \<le> recent L t (recorded hash_one st2 k)"
        using st2(2) that(2) by (simp add: keeps_def)
      ultimately show ?thesis by (simp add: recent_snoc)
    qed
    thus ?thesis using push keeps_trans[OF st2(2)] by blast
  qed
qed

section \<open>Recovery of a poisoned lock\<close>

lemma keep_last_length: "length (keep_last n h) \<le> n"
  by (simp add: keep_last_def)

lemma keep_last_short: "length h \<le> n \<Longrightarrow> keep_last n h = h"
  by (simp add: keep_last_def)

lemma recover_entries:
  "\<not> (length (ls_overflow st) \<noteq> lim_overflow_buckets L \<or> lim_capacity L < length (ls_entries st)) \<Longrightarrow>
     ls_entries (recover L now st) = map (\<lambda>(k, h). (k, keep_last (lim_max L) h)) (ls_entries (cleanup_expired L now st))
     \<and> ls_overflow (recover L now st) = map (map_option (keep_last (lim_max L))) (ls_overflow (cleanup_expired L now st))"
  by (simp add: recover_def Let_def)

lemma recover_wf_eq:
  assumes wf: "wf_limiter L st"
  shows "recover L now st = cleanup_expired L now st"
proof -
  let ?c = "cleanup_expired L now st"
  have c: "wf_limiter L ?c" by (rule cleanup_expired_wf[OF wf])
  have nd: "\<not> (length (ls_overflow st) \<noteq> lim_overflow_buckets L \<or> lim_capacity L < length (ls_entries st))"
    using wf_limiterD(2,3)[OF wf] by simp
  have "map (\<lambda>(k, h). (k, keep_last (lim_max L) h)) (ls_entries ?c) = ls_entries ?c"
  proof (rule map_idI)
    fix e
    assume e: "e \<in> set (ls_entries ?c)"
    obtain k h where kh: "e = (k, h)" by (cases e)
    hence "map_of (ls_entries ?c) k = Some h" using e wf_limiterD(1)[OF c] by (simp add: map_of_is_SomeI)
    thus "(\<lambda>(k, h). (k, keep_last (lim_max L) h)) e = e" using wf_limiterD(5)[OF c] kh by (simp add: keep_last_short)
  qed
  moreover have "map (map_option (keep_last (lim_max L))) (ls_overflow ?c) = ls_overflow ?c"
  proof (rule map_idI)
    fix b
    assume "b \<in> set (ls_overflow ?c)"
    then obtain i where i: "i < length (ls_overflow ?c)" "ls_overflow ?c ! i = b" by (auto simp only: in_set_conv_nth)
    show "map_option (keep_last (lim_max L)) b = b"
      using wf_limiterD(6)[OF c i(1)] i(2) by (cases b) (simp_all add: keep_last_short)
  qed
  ultimately show ?thesis using nd by (simp add: recover_def Let_def)
qed

lemma lock_state_wf: "wf_limiter L (snd m) \<Longrightarrow> wf_limiter L (lock_state L now m)"
  by (auto simp: lock_state_def recover_wf_eq cleanup_expired_wf split: prod.splits)

lemma lock_state_keeps: "wf_limiter L (snd m) \<Longrightarrow> 0 < lim_window L \<Longrightarrow> keeps L hash_one now (snd m) (lock_state L now m)"
  by (auto simp: lock_state_def recover_wf_eq cleanup_expired_keeps split: prod.splits)

section \<open>Any run of the limiter\<close>

text \<open>The calls of a limiter in the order of its lock, the instants not decreasing, with a panic of a
  thread that holds the lock between any two of them. Beside the mutex the run records, for every key, the
  instants of the attempts that were admitted since the last success of the key.\<close>

datatype limiter_event = Attempts "rstr list" instant instant | Succeeded rstr instant | Poisoned

fun limiter_event_step ::
  "limiter \<Rightarrow> (rstr \<Rightarrow> nat) \<Rightarrow> limiter_event \<Rightarrow> (bool \<times> limiter_state) \<times> (rstr \<Rightarrow> instant list)
     \<Rightarrow> (bool \<times> limiter_state) \<times> (rstr \<Rightarrow> instant list)" where
  "limiter_event_step L hash_one (Attempts keys now0 now) (m, calls) =
     (case check_and_record_attempts L hash_one keys now0 now m of
        (admitted, m') \<Rightarrow> (m', \<lambda>k. if admitted \<and> k \<in> set keys then calls k @ [now] else calls k))"
| "limiter_event_step L hash_one (Succeeded key now0) (m, calls) = (success L key now0 m, calls(key := []))"
| "limiter_event_step L hash_one Poisoned (m, calls) = ((True, snd m), calls)"

definition limiter_run ::
  "limiter \<Rightarrow> (rstr \<Rightarrow> nat) \<Rightarrow> limiter_event list \<Rightarrow> (bool \<times> limiter_state) \<times> (rstr \<Rightarrow> instant list)
     \<Rightarrow> (bool \<times> limiter_state) \<times> (rstr \<Rightarrow> instant list)" where
  "limiter_run L hash_one evs s = fold (limiter_event_step L hash_one) evs s"

fun times_ordered :: "instant \<Rightarrow> limiter_event list \<Rightarrow> bool" where
  "times_ordered now [] \<longleftrightarrow> True"
| "times_ordered now (Attempts keys now0 now1 # evs) \<longleftrightarrow> now \<le> now0 \<and> now0 \<le> now1 \<and> times_ordered now1 evs"
| "times_ordered now (Succeeded key now0 # evs) \<longleftrightarrow> now \<le> now0 \<and> times_ordered now0 evs"
| "times_ordered now (Poisoned # evs) \<longleftrightarrow> times_ordered now evs"

definition in_window :: "limiter \<Rightarrow> instant \<Rightarrow> instant list \<Rightarrow> nat" where
  "in_window L t h = length (filter (\<lambda>a. t - int (lim_window L) < a \<and> a \<le> t) h)"

definition run_inv :: "limiter \<Rightarrow> (rstr \<Rightarrow> nat) \<Rightarrow> instant \<Rightarrow> (bool \<times> limiter_state) \<times> (rstr \<Rightarrow> instant list) \<Rightarrow> bool" where
  "run_inv L hash_one now s \<longleftrightarrow> wf_limiter L (snd (fst s))
     \<and> (\<forall>k t. now \<le> t \<longrightarrow> recent L t (snd s k) \<le> recent L t (recorded hash_one (snd (fst s)) k))
     \<and> (\<forall>k t. in_window L t (snd s k) \<le> lim_max L)
     \<and> (lim_max L = 0 \<or> lim_window L = 0 \<longrightarrow> (\<forall>k. snd s k = []))"

lemma in_window_le_recent: "in_window L t h \<le> recent L t h"
  unfolding in_window_def recent_def by (induction h) auto

lemma in_window_Nil [simp]: "in_window L t [] = 0"
  by (simp add: in_window_def)

lemma in_window_past: "t < a \<Longrightarrow> in_window L t (h @ [a]) = in_window L t h"
  by (simp add: in_window_def)

lemma attempts_inv:
  assumes inv: "run_inv L hash_one now (m, calls)" and t: "now \<le> now0" "now0 \<le> now1"
  shows "run_inv L hash_one now1 (limiter_event_step L hash_one (Attempts keys now0 now1) (m, calls))"
proof (cases "lim_max L = 0 \<or> lim_window L = 0 \<or> keys = []")
  case True
  thus ?thesis using inv t by (auto simp: run_inv_def check_and_record_attempts_def)
next
  case False
  hence pos: "0 < lim_window L" "0 < lim_max L" by simp_all
  have wf: "wf_limiter L (snd m)" and dom: "\<And>k t. now \<le> t \<Longrightarrow> recent L t (calls k) \<le> recent L t (recorded hash_one (snd m) k)"
    and win: "\<And>k t. in_window L t (calls k) \<le> lim_max L" using inv by (auto simp: run_inv_def)
  define st where "st = lock_state L now0 m"
  obtain admitted st' where run: "admit_attempts L hash_one (unique_keys keys) now1 st = (admitted, st')" by fastforce
  have st: "wf_limiter L st" "keeps L hash_one now1 (snd m) st"
    using lock_state_wf[OF wf] keeps_later[OF lock_state_keeps[OF wf pos(1)] t(2)] by (simp_all add: st_def)
  note step = admit_attempts_step[OF st(1) pos unique_keys_distinct run]
  let ?calls = "\<lambda>k. if admitted \<and> k \<in> set keys then calls k @ [now1] else calls k"
  have dom': "recent L u (?calls k) \<le> recent L u (recorded hash_one st' k)" if u: "now1 \<le> u" for k u
  proof -
    have d: "recent L u (calls k) \<le> recent L u (recorded hash_one st k)"
      using u t by (intro order_trans[OF dom keepsD[OF st(2)]]) simp_all
    show ?thesis
    proof (cases "admitted \<and> k \<in> set keys")
      case True
      hence "recent L u (recorded hash_one st k @ [now1]) \<le> recent L u (recorded hash_one st' k)"
        using step u by (simp add: unique_keys_set)
      thus ?thesis using True d by (simp add: recent_snoc)
    next
      case False
      have "keeps L hash_one now1 st st'" using step by blast
      from order_trans[OF d keepsD[OF this u]] show ?thesis unfolding if_not_P[OF False] .
    qed
  qed
  have win': "in_window L u (?calls k) \<le> lim_max L" for k u
  proof (cases "u < now1")
    case True
    thus ?thesis using win[of u k] by (simp add: in_window_past)
  next
    case False
    hence "in_window L u (?calls k) \<le> recent L u (recorded hash_one st' k)"
      by (intro order_trans[OF in_window_le_recent dom']) simp
    also have "\<dots> \<le> lim_max L" using recent_le_length recorded_le_max step by (meson order_trans)
    finally show ?thesis .
  qed
  have "limiter_event_step L hash_one (Attempts keys now0 now1) (m, calls) = ((False, st'), ?calls)"
    using False run by (simp add: check_and_record_attempts_def st_def)
  thus ?thesis using step dom' win' pos by (simp add: run_inv_def)
qed

lemma success_inv:
  assumes inv: "run_inv L hash_one now (m, calls)" and t: "now \<le> now0"
  shows "run_inv L hash_one now0 (limiter_event_step L hash_one (Succeeded key now0) (m, calls))"
proof -
  have wf: "wf_limiter L (snd m)" and dom: "\<And>k t. now \<le> t \<Longrightarrow> recent L t (calls k) \<le> recent L t (recorded hash_one (snd m) k)"
    and nil: "lim_max L = 0 \<or> lim_window L = 0 \<Longrightarrow> calls k = []" for k using inv by (auto simp: run_inv_def)
  define st where "st = lock_state L now0 m"
  define st' where "st' = st\<lparr>ls_entries := filter (\<lambda>(k, h). k \<noteq> key) (ls_entries st)\<rparr>"
  have st: "wf_limiter L st" using lock_state_wf[OF wf] by (simp add: st_def)
  have st': "wf_limiter L st'"
    using wf_limiterD[OF st] order_trans[OF length_filter_le wf_limiterD(2)[OF st]]
    by (intro wf_limiterI) (auto simp: st'_def map_of_without distinct_map_fst_filter split: if_splits)
  have same: "recorded hash_one st' k = recorded hash_one st k" if "k \<noteq> key" for k
    using that by (simp add: st'_def recorded_alt map_of_without cong: option.case_cong)
  have "recent L u (calls k) \<le> recent L u (recorded hash_one st k)" if "now0 \<le> u" for k u
  proof (cases "lim_window L = 0")
    case False
    hence keep: "keeps L hash_one now0 (snd m) st" using lock_state_keeps[OF wf] by (simp add: st_def)
    show ?thesis using that t by (intro order_trans[OF dom keepsD[OF keep]]) simp_all
  qed (simp add: nil)
  hence "recent L u ((calls(key := [])) k) \<le> recent L u (recorded hash_one st' k)" if "now0 \<le> u" for k u
    using that same[of k] by (cases "k = key") simp_all
  moreover have "limiter_event_step L hash_one (Succeeded key now0) (m, calls) = ((False, st'), calls(key := []))"
    by (simp add: success_def st'_def st_def Let_def)
  ultimately show ?thesis using inv st' by (simp add: run_inv_def)
qed

lemma run_inv_run:
  "times_ordered now evs \<Longrightarrow> run_inv L hash_one now s \<Longrightarrow> \<exists>now'. run_inv L hash_one now' (limiter_run L hash_one evs s)"
proof (induction now evs arbitrary: s rule: times_ordered.induct)
  case (2 now keys now0 now1 evs)
  obtain m calls where s: "s = (m, calls)" by (cases s)
  show ?case using 2 attempts_inv[of L hash_one now m calls now0 now1 keys] by (simp add: limiter_run_def s del: limiter_event_step.simps)
next
  case (3 now key now0 evs)
  obtain m calls where s: "s = (m, calls)" by (cases s)
  show ?case using 3 success_inv[of L hash_one now m calls now0 key] by (simp add: limiter_run_def s del: limiter_event_step.simps)
next
  case (4 now evs)
  obtain m calls where s: "s = (m, calls)" by (cases s)
  show ?case using 4 by (simp add: limiter_run_def s run_inv_def)
qed (auto simp: limiter_run_def)

text \<open>C9: Over any run of a limiter, whatever the keys, their hashes, the overflow of the table, the
  cleanups and the panics between the calls, no key has more than the configured number of attempts admitted
  in any window since its last success; and the memory stays bounded: at most the capacity of entries, the
  configured number of buckets, and no history longer than the limit.\<close>

theorem limiter_bounds_attempts:
  assumes "with_capacity_and_overflow maximum window capacity buckets = (L, st0)"
    and "times_ordered start evs"
    and "limiter_run L hash_one evs ((False, st0), \<lambda>_. []) = s"
  shows "in_window L t (snd s k) \<le> maximum \<and> wf_limiter L (snd (fst s))"
proof -
  have "wf_limiter L st0" "lim_max L = maximum"
    using assms(1) by (auto simp: with_capacity_and_overflow_def Let_def wf_limiter_def)
  hence "run_inv L hash_one start ((False, st0), \<lambda>_. [])" "lim_max L = maximum" by (simp_all add: run_inv_def)
  thus ?thesis using run_inv_run[OF assms(2)] assms(3) by (fastforce simp: run_inv_def)
qed

text \<open>Three attempts of a key with room for two, in a table of one entry that another key holds.\<close>

theorem limiter_bounds_attempts_witness:
  "\<exists>L st0 s. with_capacity_and_overflow 2 10 1 1 = (L, st0)
     \<and> limiter_run L (\<lambda>_. 7) [Attempts [lit ''b''] 0 0, Attempts [lit ''a''] 1 1, Poisoned, Attempts [lit ''a''] 2 2,
          Attempts [lit ''a''] 3 3, Succeeded (lit ''b'') 4] ((False, st0), \<lambda>_. []) = s
     \<and> snd s (lit ''a'') = [1, 2] \<and> in_window L 3 (snd s (lit ''a'')) \<le> 2 \<and> wf_limiter L (snd (fst s))"
proof -
  let ?evs = "[Attempts [lit ''b''] 0 0, Attempts [lit ''a''] 1 1, Poisoned, Attempts [lit ''a''] 2 2,
      Attempts [lit ''a''] 3 3, Succeeded (lit ''b'') 4]"
  let ?p = "with_capacity_and_overflow 2 10 1 1"
  let ?s = "limiter_run (fst ?p) (\<lambda>_. 7) ?evs ((False, snd ?p), \<lambda>_. [])"
  have c: "?p = (fst ?p, snd ?p)" by simp
  have "times_ordered 0 ?evs" by simp
  from limiter_bounds_attempts[OF c this refl, where hash_one = "\<lambda>_. 7" and t = 3 and k = "lit ''a''"]
  have "in_window (fst ?p) 3 (snd ?s (lit ''a'')) \<le> 2 \<and> wf_limiter (fst ?p) (snd (fst ?s))" .
  moreover have "snd ?s (lit ''a'') = [1, 2]" by code_simp
  ultimately show ?thesis using c by blast
qed

section \<open>A damaged limiter stays closed\<close>

definition damaged :: "limiter \<Rightarrow> limiter_state \<Rightarrow> bool" where
  "damaged L st \<longleftrightarrow> length (ls_overflow st) \<noteq> lim_overflow_buckets L \<or> lim_capacity L < length (ls_entries st)"

definition saturated :: "limiter \<Rightarrow> instant \<Rightarrow> limiter_state \<Rightarrow> bool" where
  "saturated L r st \<longleftrightarrow> ls_entries st = [] \<and> ls_overflow st = replicate (lim_overflow_buckets L) (Some (replicate (lim_max L) r))"

lemma damaged_recover: "damaged L st \<Longrightarrow> saturated L now (recover L now st)"
  by (auto simp: damaged_def recover_def saturated_def)

lemma prune_saturated:
  "0 < lim_max L \<Longrightarrow> now - r < int (lim_window L) \<Longrightarrow> 0 < lim_window L
     \<Longrightarrow> prune_bucket now (lim_window L) (Some (replicate (lim_max L) r)) = Some (replicate (lim_max L) r)"
  by (auto simp: prune_bucket_def prune_history_def)

lemma saturated_cleanup:
  "saturated L r st \<Longrightarrow> 0 < lim_max L \<Longrightarrow> now - r < int (lim_window L) \<Longrightarrow> 0 < lim_window L
     \<Longrightarrow> saturated L r (cleanup_expired L now st)"
  by (simp add: saturated_def cleanup_expired_def prune_saturated)

lemma saturated_periodic:
  "saturated L r st \<Longrightarrow> 0 < lim_max L \<Longrightarrow> now - r < int (lim_window L) \<Longrightarrow> 0 < lim_window L
     \<Longrightarrow> saturated L r (periodic_cleanup L now st)"
  using saturated_cleanup[of L r "st\<lparr>ls_operations := (ls_operations st + 1) mod 2 ^ 64\<rparr>" now]
  by (simp add: periodic_cleanup_def Let_def saturated_def)

lemma saturated_recover:
  "saturated L r st \<Longrightarrow> 0 < lim_max L \<Longrightarrow> now - r < int (lim_window L) \<Longrightarrow> 0 < lim_window L
     \<Longrightarrow> saturated L r (recover L now st)"
  by (simp add: saturated_def recover_def cleanup_expired_def Let_def keep_last_def prune_saturated)

lemma saturated_folds:
  assumes sat: "saturated L r st"
  shows "fold (prune_key L now) ks st = st" "fold remove_empty ks st = st"
proof -
  have "prune_key L now k st = st" "remove_empty k st = st" for k
    using sat by (cases st; simp add: saturated_def prune_key_def remove_empty_def)+
  thus "fold (prune_key L now) ks st = st" "fold remove_empty ks st = st" by (induction ks) simp_all
qed

lemma saturated_choose:
  assumes "saturated L r st" "0 < lim_max L" "now - r < int (lim_window L)" "0 < lim_window L" "0 < lim_overflow_buckets L"
    "\<forall>b \<in> set over. b < lim_overflow_buckets L"
  shows "\<exists>over'. choose_targets L hash_one now ks slots [] over st = ([], over', st)
     \<and> (\<forall>b \<in> set over'. b < lim_overflow_buckets L) \<and> (ks \<noteq> [] \<or> over \<noteq> [] \<longrightarrow> over' \<noteq> [])"
  using assms(6)
proof (induction ks arbitrary: over)
  case (Cons k ks)
  let ?b = "overflow_bucket hash_one st k"
  let ?over = "if ?b \<in> set over then over else over @ [?b]"
  have b: "?b < lim_overflow_buckets L" using assms(1,5) by (simp add: overflow_bucket_def saturated_def)
  have none: "map_of (ls_entries st) k = None" using assms(1) by (simp add: saturated_def)
  have at: "ls_overflow st ! ?b = Some (replicate (lim_max L) r)" using assms(1) b by (simp add: saturated_def)
  have same: "st\<lparr>ls_overflow := (ls_overflow st)[?b := prune_bucket now (lim_window L) (ls_overflow st ! ?b)]\<rparr> = st"
    using prune_saturated[OF assms(2-4)] by (simp add: at flip: at)
  have ne: "?over \<noteq> []" "\<forall>b \<in> set ?over. b < lim_overflow_buckets L" using Cons.prems b by auto
  have "choose_targets L hash_one now (k # ks) slots [] over st = choose_targets L hash_one now ks slots [] ?over st"
    using none by (simp only: choose_targets.simps Let_def same) (simp add: at)
  thus ?case using Cons.IH[OF ne(2)] ne(1) by auto
qed simp

lemma saturated_refuses:
  assumes sat: "saturated L r st" and pos: "0 < lim_max L" "now - r < int (lim_window L)" "0 < lim_window L" "0 < lim_overflow_buckets L"
    and ks: "ks \<noteq> []"
  shows "\<exists>st'. admit_attempts L hash_one ks now st = (False, st') \<and> saturated L r st'"
proof -
  let ?p = "periodic_cleanup L now st"
  have p: "saturated L r ?p" by (rule saturated_periodic[OF sat pos(1-3)])
  obtain over where ch: "choose_targets L hash_one now ks (saturating_sub (lim_capacity L) (length (ls_entries ?p))) [] [] ?p = ([], over, ?p)"
    and over: "\<forall>b \<in> set over. b < lim_overflow_buckets L" "over \<noteq> []"
    using saturated_choose[OF p pos, of "[]" hash_one ks "saturating_sub (lim_capacity L) (length (ls_entries ?p))"] ks by auto
  have "list_ex (\<lambda>b. over_limit L (ls_overflow ?p ! b)) over"
    using over p by (cases over) (auto simp: over_limit_def saturated_def)
  thus ?thesis using ch p by (auto simp: admit_attempts_def Let_def saturated_folds)
qed

fun events_before :: "instant \<Rightarrow> limiter_event list \<Rightarrow> bool" where
  "events_before limit [] \<longleftrightarrow> True"
| "events_before limit (Attempts keys now0 now # evs) \<longleftrightarrow> now0 < limit \<and> now < limit \<and> events_before limit evs"
| "events_before limit (Succeeded key now0 # evs) \<longleftrightarrow> now0 < limit \<and> events_before limit evs"
| "events_before limit (Poisoned # evs) \<longleftrightarrow> events_before limit evs"

definition closed :: "limiter \<Rightarrow> instant \<Rightarrow> bool \<times> limiter_state \<Rightarrow> bool" where
  "closed L start m \<longleftrightarrow> (fst m \<and> damaged L (snd m)) \<or> (\<exists>r. start \<le> r \<and> saturated L r (snd m))"

lemma closed_lock:
  assumes "closed L start m" "start \<le> now" "now < start + int (lim_window L)" "0 < lim_max L" "0 < lim_window L"
  shows "\<exists>r. start \<le> r \<and> saturated L r (lock_state L now m)"
proof (cases "fst m \<and> damaged L (snd m)")
  case True
  thus ?thesis using damaged_recover[of L "snd m" now] assms(2) by (cases m) (auto simp: lock_state_def)
next
  case False
  then obtain r where r: "start \<le> r" "saturated L r (snd m)" using assms(1) by (auto simp: closed_def)
  have "saturated L r (recover L now (snd m))" using r assms(3-5) by (intro saturated_recover) auto
  thus ?thesis using r by (cases m) (auto simp: lock_state_def)
qed

lemma closed_run:
  assumes "0 < lim_max L" "0 < lim_window L" "0 < lim_overflow_buckets L"
  shows "times_ordered now evs \<Longrightarrow> start \<le> now \<Longrightarrow> events_before (start + int (lim_window L)) evs \<Longrightarrow> closed L start (fst s)
     \<Longrightarrow> snd s = (\<lambda>_. []) \<Longrightarrow> snd (limiter_run L hash_one evs s) = (\<lambda>_. [])"
proof (induction now evs arbitrary: s rule: times_ordered.induct)
  case (2 now keys now0 now1 evs)
  obtain m calls where s: "s = (m, calls)" by (cases s)
  have "closed L start (fst (limiter_event_step L hash_one (Attempts keys now0 now1) s))
      \<and> snd (limiter_event_step L hash_one (Attempts keys now0 now1) s) = (\<lambda>_. [])"
  proof (cases "keys = []")
    case True
    thus ?thesis using 2 by (simp add: s check_and_record_attempts_def)
  next
    case False
    obtain r where r: "start \<le> r" "saturated L r (lock_state L now0 m)"
      using closed_lock[of L start m now0] 2 assms by (auto simp: s)
    have "unique_keys keys \<noteq> []" using False unique_keys_set[of keys] by force
    moreover have "now1 - r < int (lim_window L)" using 2(4) r(1) by simp
    ultimately obtain st' where "admit_attempts L hash_one (unique_keys keys) now1 (lock_state L now0 m) = (False, st')" "saturated L r st'"
      using saturated_refuses[OF r(2) assms(1) _ assms(2,3)] by blast
    thus ?thesis using 2 False assms r(1) by (auto simp: s check_and_record_attempts_def closed_def)
  qed
  thus ?case using 2 by (simp add: limiter_run_def s del: limiter_event_step.simps)
next
  case (3 now key now0 evs)
  obtain m calls where s: "s = (m, calls)" by (cases s)
  obtain r where "start \<le> r" "saturated L r (lock_state L now0 m)"
    using closed_lock[of L start m now0] 3 assms by (auto simp: s)
  hence "closed L start (success L key now0 m)" by (auto simp: success_def Let_def closed_def saturated_def)
  moreover have "(\<lambda>_. [])(key := []) = (\<lambda>_. [] :: instant list)" by (simp add: fun_eq_iff)
  ultimately show ?case using 3 by (simp add: limiter_run_def s)
next
  case (4 now evs)
  obtain m calls where s: "s = (m, calls)" by (cases s)
  have "closed L start (True, snd m)" using 4(5) by (auto simp: s closed_def)
  thus ?case using 4(1)[of "((True, snd m), calls)"] 4(2-6) by (simp add: limiter_run_def s)
qed (simp add: limiter_run_def)

lemma disabled_run:
  "lim_max L = 0 \<or> lim_window L = 0 \<Longrightarrow> snd s = (\<lambda>_. []) \<Longrightarrow> snd (limiter_run L hash_one evs s) = (\<lambda>_. [])"
proof (induction evs arbitrary: s)
  case (Cons ev evs)
  have "snd (limiter_event_step L hash_one ev s) = (\<lambda>_. [])"
    using Cons.prems by (cases s; cases ev) (auto simp: check_and_record_attempts_def)
  thus ?case using Cons by (simp add: limiter_run_def)
qed (simp add: limiter_run_def)

text \<open>A limiter whose poisoned state is structurally damaged fails closed: from the instant of the
  panic until the window has passed, whatever the attempts, successes and further panics, no attempt is
  admitted for any key.\<close>

theorem limiter_recovery_closed:
  assumes "damaged L st" "0 < lim_overflow_buckets L"
    and "times_ordered now evs" "events_before (now + int (lim_window L)) evs"
  shows "snd (limiter_run L hash_one evs ((True, st), \<lambda>_. [])) k = []"
proof (cases "lim_max L = 0 \<or> lim_window L = 0")
  case True
  thus ?thesis using disabled_run by simp
next
  case False
  hence "snd (limiter_run L hash_one evs ((True, st), \<lambda>_. [])) = (\<lambda>_. [])"
    using assms by (intro closed_run[OF _ _ _ _ order_refl]) (simp_all add: closed_def)
  thus ?thesis by simp
qed

theorem limiter_recovery_closed_witness:
  "\<exists>L st. damaged L st
     \<and> snd (limiter_run L (\<lambda>_. 0) [Attempts [lit ''a'', lit ''b''] 1 2, Succeeded (lit ''a'') 3, Poisoned, Attempts [lit ''a''] 9 9]
          ((True, st), \<lambda>_. [])) (lit ''a'') = []
     \<and> snd (limiter_run L (\<lambda>_. 0) [Attempts [lit ''a'', lit ''b''] 1 2, Attempts [lit ''a''] 19 19] ((True, st), \<lambda>_. [])) (lit ''a'') = [19]"
proof -
  let ?L = "\<lparr>lim_max = 2, lim_window = 10, lim_capacity = 1, lim_overflow_buckets = 1\<rparr>"
  let ?st = "\<lparr>ls_entries = [], ls_overflow = [], ls_operations = 0\<rparr>"
  let ?evs = "[Attempts [lit ''a'', lit ''b''] 1 2, Succeeded (lit ''a'') 3, Poisoned, Attempts [lit ''a''] 9 9]"
  have d: "damaged ?L ?st" by (simp add: damaged_def)
  have "snd (limiter_run ?L (\<lambda>_. 0) ?evs ((True, ?st), \<lambda>_. [])) (lit ''a'') = []"
    by (rule limiter_recovery_closed[OF d, where now = 1]) simp_all
  moreover have "snd (limiter_run ?L (\<lambda>_. 0) [Attempts [lit ''a'', lit ''b''] 1 2, Attempts [lit ''a''] 19 19]
      ((True, ?st), \<lambda>_. [])) (lit ''a'') = [19]" by code_simp
  ultimately show ?thesis using d by blast
qed

section \<open>One-time codes\<close>

lemma matching_totp_step_window:
  assumes "matching_totp_step code_at secret code now = Some step" "now \<le> u64_max"
  shows "code_at secret step = Some code \<and> int (now div 30) - 1 \<le> int step \<and> step \<le> now div 30 + 1
     \<and> (\<forall>step' > step. step' \<le> now div 30 + 1 \<longrightarrow> step' \<le> u64_max \<longrightarrow> code_at secret step' \<noteq> Some code)"
  using assms
  apply (auto simp: matching_totp_step_def Let_def List.map_filter_def checked_add_def checked_sub_def less_Suc_eq_le le_Suc_eq
      split: if_splits)
  subgoal for step' by (cases "step' = now div 30") auto
  done

end
