(* ===== verification/Admin_Safety.thy ===== *)
theory Admin_Safety
  imports Admin_Accounts
begin

text \<open>
  Safety of administrator authentication over every schedule of the operations of
  \<open>Admin_Sessions\<close> and \<open>Admin_Accounts\<close>.
\<close>

section \<open>Schedules\<close>

inductive auth_step :: "(rstr \<Rightarrow> rstr) \<Rightarrow> encrypt \<Rightarrow> decrypt \<Rightarrow> (rstr \<Rightarrow> rstr) \<Rightarrow> db \<Rightarrow> db \<Rightarrow> bool"
  for th encrypt decrypt lower where
  login: "create_session_for_verified_password th idle token i expected csrf expires ra now d = (r1, d')
     \<Longrightarrow> auth_step th encrypt decrypt lower d d'"
| load: "session_at th idle token now d = (r2, d') \<Longrightarrow> auth_step th encrypt decrypt lower d d'"
| totp: "verify_mfa_with_totp_step th idle old new csrf i step ra now d = (r3, d')
     \<Longrightarrow> auth_step th encrypt decrypt lower d d'"
| security_key: "complete_webauthn_mfa th idle old new csrf cid i b1 b2 ra now d = (r3, d')
     \<Longrightarrow> auth_step th encrypt decrypt lower d d'"
| logout: "delete_session th token ctx now d = (r4, d') \<Longrightarrow> auth_step th encrypt decrypt lower d d'"
| initial: "create_initial_admin encrypt lower username pw secret ctx now d = (r5, d')
     \<Longrightarrow> auth_step th encrypt decrypt lower d d'"
| recover: "recover_admin encrypt lower username pw' secret' now d = (r6, d')
     \<Longrightarrow> auth_step th encrypt decrypt lower d d'"
| create: "required_transaction_for_mfa_session proof idle now ctx (create_admin username pw t later) d = (r7, d')
     \<Longrightarrow> auth_step th encrypt decrypt lower d d'"
| activate: "required_transaction_for_mfa_session proof idle now ctx (activate_admin i) d = (r8, d')
     \<Longrightarrow> auth_step th encrypt decrypt lower d d'"
| deactivate: "required_transaction_for_mfa_session proof idle now ctx (deactivate_admin i) d = (r9, d')
     \<Longrightarrow> auth_step th encrypt decrypt lower d d'"
| password: "required_transaction_for_mfa_session proof idle now ctx
       (change_admin_password_cas (prf_admin_id proof) expected pw) d = (r10, d')
     \<Longrightarrow> auth_step th encrypt decrypt lower d d'"
| reset_password: "required_transaction_for_mfa_session proof idle now ctx (reset_admin_password i pw) d = (r8, d')
     \<Longrightarrow> auth_step th encrypt decrypt lower d d'"
| reset_totp: "reset_admin_totp_for_session encrypt lower proof idle i secret ctx now d = (r11, d')
     \<Longrightarrow> auth_step th encrypt decrypt lower d d'"
| enroll: "start_admin_mfa_enrollment_for_session th encrypt proof idle token secret step ctx now later d = (r12, d')
     \<Longrightarrow> auth_step th encrypt decrypt lower d d'"
| pending: "admin_mfa_enrollment th decrypt i token now d = (r13, d') \<Longrightarrow> auth_step th encrypt decrypt lower d d'"
| confirm: "activate_admin_mfa_enrollment_for_session th encrypt decrypt lower proof idle token step ctx now later d
       = (r14, d') \<Longrightarrow> auth_step th encrypt decrypt lower d d'"
| add_key: "required_transaction_for_mfa_session proof idle now ctx
       (register_webauthn_credential (prf_admin_id proof) label cred blob later) d = (r15, d')
     \<Longrightarrow> auth_step th encrypt decrypt lower d d'"
| delete_key: "required_transaction_for_mfa_session proof idle now (own_context proof ip d)
       (delete_credential_with_totp (prf_admin_id proof) cid expected generation step) d = (r16, d')
     \<Longrightarrow> auth_step th encrypt decrypt lower d d'"
| delete_key_only: "required_transaction_for_mfa_session proof idle now (own_context proof ip d)
       (delete_credential_without_totp (prf_admin_id proof) cid expected) d = (r16, d')
     \<Longrightarrow> auth_step th encrypt decrypt lower d d'"
| totp_setting: "required_transaction_for_mfa_session proof idle now (own_context proof ip d)
       (set_admin_totp_enabled (prf_admin_id proof) expected generation enabled ostep) d = (r17, d')
     \<Longrightarrow> auth_step th encrypt decrypt lower d d'"

lemma register_credential_ok:
  "register_webauthn_credential i label cred blob now d = Inr ((x, evs), d') \<Longrightarrow> auth_inv d \<Longrightarrow> auth_ok d d'"
  by (auto simp: register_webauthn_credential_def intro: insert_credential_ok split: sum.splits)

lemma start_for_session_ok:
  assumes "start_admin_mfa_enrollment_for_session th encrypt proof idle token secret step ctx now later d = (r, d')"
    and inv: "auth_inv d"
  shows "auth_ok d d'"
  using assms start_enrollment_ok[OF _ inv]
  by (auto simp: start_admin_mfa_enrollment_for_session_def split: sum.splits elim!: session_transaction_ok)

lemma confirm_for_session_ok:
  assumes "activate_admin_mfa_enrollment_for_session th encrypt decrypt lower proof idle token step ctx now later d = (r, d')"
    and inv: "auth_inv d"
  shows "auth_ok d d'"
  using assms activate_enrollment_ok[OF _ inv]
  by (auto simp: activate_admin_mfa_enrollment_for_session_def split: if_splits elim!: session_transaction_ok)

lemmas session_operation_ok = create_admin_ok activate_admin_ok deactivate_admin_ok change_password_ok
  reset_password_ok register_credential_ok delete_with_totp_ok delete_without_totp_ok set_totp_enabled_ok

lemmas plain_operation_ok = create_session_ok session_at_ok verify_mfa_ok complete_webauthn_ok delete_session_ok
  create_initial_admin_ok recover_admin_ok reset_totp_for_session_ok start_for_session_ok
  admin_mfa_enrollment_ok confirm_for_session_ok

lemma auth_step_ok: "auth_step th encrypt decrypt lower d d' \<Longrightarrow> auth_inv d \<Longrightarrow> auth_ok d d'"
  by (induction rule: auth_step.induct)
    (erule (1) plain_operation_ok
      | erule (1) session_transaction_ok, erule session_operation_ok, assumption)+

lemma auth_steps_ok:
  "(auth_step th encrypt decrypt lower)\<^sup>*\<^sup>* d d' \<Longrightarrow> auth_inv d \<Longrightarrow> auth_ok d d'"
  by (induction rule: rtranclp_induct) (auto intro: ok_trans auth_step_ok dest: ok_inv)

lemma empty_auth_inv: "auth_inv empty_db"
  by (simp add: auth_inv_def empty_db_def wf_admins_def wf_usernames_def wf_sessions_def wf_replay_def
      wf_credentials_def)

section \<open>Properties\<close>

text \<open>C26: no schedule of administrator operations locks everybody out or weakens an account
  below two factors. From a fresh installation, as long as there are administrators one of
  them is active, an administrator who switched TOTP off keeps at least two security keys,
  names are unique up to ASCII case, and sessions exist for active administrators only.\<close>

theorem accounts_stay_safe:
  assumes "(auth_step th encrypt decrypt lower)\<^sup>*\<^sup>* empty_db d"
  shows "(admins d \<noteq> [] \<longrightarrow> (\<exists>a\<in>set (admins d). adm_active a))
    \<and> (\<forall>a\<in>set (admins d). \<not> adm_totp_enabled a \<longrightarrow>
         2 \<le> length (filter (\<lambda>c. crd_admin_id c = adm_id a) (webauthn_credentials d)))
    \<and> (\<forall>a\<in>set (admins d). \<forall>b\<in>set (admins d).
         eq_ignore_ascii_case (adm_username a) (adm_username b) \<longrightarrow> a = b)
    \<and> (\<forall>s\<in>set (sessions d). \<exists>a\<in>set (admins d). adm_id a = ses_admin_id s \<and> adm_active a)"
proof -
  have inv: "auth_inv d" using auth_steps_ok[OF assms empty_auth_inv] by (rule ok_inv)
  have "a = b" if "a \<in> set (admins d)" "b \<in> set (admins d)" "eq_ignore_ascii_case (adm_username a) (adm_username b)"
    for a b
    using username_index.unique[OF auth_invD(2)[OF inv] that(1,2)] that(3) by (simp add: eq_ignore_case_key)
  then show ?thesis
    using inv by (auto simp: auth_inv_def sql_exists_iff admin_active_def credential_count_def sql_count_def)
qed

lemma verify_True_consumes:
  assumes "verify_mfa_with_totp_step th idle old new csrf i step ra now d = (Inr True, d')"
  obtains d1 where "consume_admin_totp_step i step d = (True, d1)" "totp_replay d' = totp_replay d1" "admins d' = admins d1"
proof -
  obtain b d1 where c: "consume_admin_totp_step i step d = (b, d1)" by fastforce
  then have b: b using assms by (cases b) (auto simp: verify_mfa_with_totp_step_def Let_def split: if_splits)
  then obtain n d2 where rot: "rotate_session (th old) (th new) csrf i idle now d1 = Inr (n, d2)"
    and fin: "finish_audited ra now [audit_event LoginSuccess None None] True d d2 = (Inr True, d')"
    using assms c by (auto simp: verify_mfa_with_totp_step_def Let_def split: if_splits sum.splits)
  have "totp_replay d2 = totp_replay d1" "admins d2 = admins d1"
    using rot by (auto simp: rotate_session_def Let_def split: if_splits)
  moreover have "totp_replay d' = totp_replay d2" "admins d' = admins d2"
    using fin by (auto simp: finish_audited_def commit_audited_def split: option.splits sum.splits)
  ultimately show thesis using that c b by simp
qed

text \<open>C27: a TOTP code opens at most one session. After a code of a step was accepted, no code
  of that or an earlier step is accepted for the same secret of the same administrator,
  whatever authentication operations run in between.\<close>

theorem totp_code_single_use:
  assumes inv: "auth_inv d"
    and first: "verify_mfa_with_totp_step th idle old new csrf i step ra now d = (Inr True, d1)"
    and between: "(auth_step th encrypt decrypt lower)\<^sup>*\<^sup>* d1 d2"
    and secret: "totp_generation i d2 = totp_generation i d1"
    and again: "verify_mfa_with_totp_step th idle' old' new' csrf' i step' ra' now' d2 = (out, d3)"
    and step: "step' \<le> step"
  shows "out \<noteq> Inr True"
proof
  assume "out = Inr True"
  then obtain d2' where c2: "consume_admin_totp_step i step' d2 = (True, d2')"
    using again by (auto elim: verify_True_consumes)
  obtain d1' where c1: "consume_admin_totp_step i step d = (True, d1')" "totp_replay d1 = totp_replay d1'"
    using first by (auto elim: verify_True_consumes)
  have inv1: "auth_inv d1" using verify_mfa_ok[OF first inv] by (rule ok_inv)
  note ok = auth_steps_ok[OF between inv1]
  have "last_step i d1 = int step"
    using consume_effect[OF auth_invD(4)[OF inv] c1(1)] c1(2) by (auto simp: last_step_def)
  moreover have "last_step i d1 \<le> last_step i d2" using ok secret unfolding auth_ok_def mark_le_def by (metis less_irrefl)
  moreover have "last_step i d2 < int step'"
    using consume_effect[OF auth_invD(4)[OF ok_inv[OF ok]] c2] by auto
  ultimately show False using step by simp
qed

text \<open>An installation with one administrator who typed the password, used by the examples.\<close>

definition example_encrypt :: encrypt where
  "example_encrypt secret aad = Inr (1, secret)"

definition example_context :: audit_context where
  "example_context = \<lparr>actor = lit ''admin'', ctx_client_ip = None\<rparr>"

definition example_login :: db where
  "example_login = snd (create_session_for_verified_password (\<lambda>x. x) 30 [1] 1 [80] [9] (seconds 36000) None 0
     (snd (create_initial_admin example_encrypt (\<lambda>x. x) (lit ''root'') [80] [83] example_context 0 empty_db)))"

definition example_verified :: db where
  "example_verified = snd (verify_mfa_with_totp_step (\<lambda>x. x) 30 [1] [2] [10] 1 7 None (seconds 1) example_login)"

lemma example_login_steps:
  "(auth_step (\<lambda>x. x) example_encrypt decrypt (\<lambda>x. x))\<^sup>*\<^sup>* empty_db example_login"
  unfolding example_login_def
  by (rule rtranclp.rtrancl_into_rtrancl[OF r_into_rtranclp[of "auth_step (\<lambda>x. x) example_encrypt decrypt (\<lambda>x. x)",
        OF auth_step.initial[OF surjective_pairing]]])
    (rule auth_step.login[OF surjective_pairing])

lemma example_login_inv: "auth_inv example_login"
  by (rule ok_inv[OF auth_steps_ok[OF example_login_steps[of "\<lambda>_ _ _. Inl InvalidQuery"] empty_auth_inv]])

theorem accounts_stay_safe_witness:
  "length (admins example_login) = 1 \<and> (\<exists>a\<in>set (admins example_login). adm_active a)"
proof -
  have "length (admins example_login) = 1" by code_simp
  then show ?thesis
    using accounts_stay_safe[OF example_login_steps[of "\<lambda>_ _ _. Inl InvalidQuery"]] by auto
qed

theorem totp_code_single_use_witness:
  "let r1 = verify_mfa_with_totp_step (\<lambda>x. x) 30 [1] [2] [10] 1 7 None (seconds 1) example_login;
       r2 = create_session_for_verified_password (\<lambda>x. x) 30 [3] 1 [80] [9] (seconds 36000) None (seconds 2) (snd r1);
       r3 = verify_mfa_with_totp_step (\<lambda>x. x) 30 [3] [4] [10] 1 7 None (seconds 3) (snd r2) in
   fst r1 = Inr True \<and> fst r2 = Inr Created \<and> fst r3 \<noteq> Inr True"
proof -
  define r1 where "r1 = verify_mfa_with_totp_step (\<lambda>x. x) 30 [1] [2] [10] 1 7 None (seconds 1) example_login"
  define r2 where "r2 = create_session_for_verified_password (\<lambda>x. x) 30 [3] 1 [80] [9] (seconds 36000) None (seconds 2) (snd r1)"
  define r3 where "r3 = verify_mfa_with_totp_step (\<lambda>x. x) 30 [3] [4] [10] 1 7 None (seconds 3) (snd r2)"
  have f: "fst r1 = Inr True" "fst r2 = Inr Created" unfolding r2_def r1_def by code_simp+
  then have 1: "verify_mfa_with_totp_step (\<lambda>x. x) 30 [1] [2] [10] 1 7 None (seconds 1) example_login = (Inr True, snd r1)"
    by (metis prod.collapse r1_def)
  have 2: "(auth_step (\<lambda>x. x) example_encrypt (\<lambda>_ _ _. Inl InvalidQuery) (\<lambda>x. x))\<^sup>*\<^sup>* (snd r1) (snd r2)"
    unfolding r2_def by (rule r_into_rtranclp, rule auth_step.login[OF surjective_pairing])
  have 3: "totp_generation 1 (snd r2) = totp_generation 1 (snd r1)" unfolding r2_def r1_def by code_simp
  have "fst r3 \<noteq> Inr True"
    by (rule totp_code_single_use[OF example_login_inv 1 2 3, of 30 "[3]" "[4]" "[10]" 7 None "seconds 3" "fst r3" "snd r3"])
      (simp_all add: r3_def)
  then show ?thesis using f unfolding Let_def r3_def r2_def r1_def by blast
qed

lemma commit_audited_Inr:
  assumes "commit_audited now ctx evs out d0 d1 = (Inr x, d')"
  shows "x = out \<and> sessions d' = sessions d1 \<and> admins d' = admins d1"
  using assms by (auto simp: commit_audited_def split: sum.splits)

text \<open>C28: a privileged mutation is authorized by a live verified session at the moment it
  commits. When the transaction reports \<open>Authorized\<close>, the store it ran on has an unexpired,
  not idle and verified session with the proof's token for the proof's active administrator;
  in every other case nothing changed.\<close>

theorem privileged_needs_live_mfa:
  assumes "required_transaction_for_mfa_session proof idle now ctx operation d = (out, d')"
  shows "if \<exists>x. out = Inr (Authorized x)
    then \<exists>s\<in>set (sessions d). ses_token_hash s = prf_token_hash proof \<and> ses_admin_id s = prf_admin_id proof
       \<and> ses_mfa_verified s \<and> now < ses_expires_at s \<and> now - seconds (idle * 60) < ses_last_activity_at s
       \<and> (\<exists>a\<in>set (admins d). adm_id a = ses_admin_id s \<and> adm_active a)
    else d' = d"
proof (cases "live_mfa_session proof idle now d")
  case False
  then show ?thesis using assms by (auto simp: required_transaction_for_mfa_session_def)
next
  case True
  then have "\<exists>s\<in>set (sessions d). ses_token_hash s = prf_token_hash proof \<and> ses_admin_id s = prf_admin_id proof
       \<and> ses_mfa_verified s \<and> now < ses_expires_at s \<and> now - seconds (idle * 60) < ses_last_activity_at s
       \<and> (\<exists>a\<in>set (admins d). adm_id a = ses_admin_id s \<and> adm_active a)"
    by (fastforce simp: live_mfa_session_def sql_exists_iff live_session_def idle_cutoff_def admin_active_def)
  moreover have "d' = d" if "\<nexists>x. out = Inr (Authorized x)"
    using assms that True
    by (auto simp: required_transaction_for_mfa_session_def commit_audited_def split: sum.splits)
  ultimately show ?thesis by simp
qed

theorem privileged_needs_live_mfa_witness:
  "fst (required_transaction_for_mfa_session \<lparr>prf_token_hash = [2], prf_admin_id = 1\<rparr> 30 (seconds 2) example_context
      (activate_admin 1) example_verified) = Inr (Authorized True)
   \<and> (\<exists>s\<in>set (sessions example_verified). ses_mfa_verified s)"
proof -
  let ?r = "required_transaction_for_mfa_session \<lparr>prf_token_hash = [2], prf_admin_id = 1\<rparr> 30 (seconds 2) example_context
      (activate_admin 1) example_verified"
  have "fst ?r = Inr (Authorized True)" by code_simp
  then have "?r = (Inr (Authorized True), snd ?r)" by (metis prod.collapse)
  from privileged_needs_live_mfa[OF this] have "\<exists>s\<in>set (sessions example_verified). ses_mfa_verified s"
    by (auto simp: ex_bool_eq)
  then show ?thesis using \<open>fst ?r = Inr (Authorized True)\<close> by simp
qed














text \<open>Requests of one browser at given times, with what each of them sees.\<close>

fun session_visits :: "(rstr \<Rightarrow> rstr) \<Rightarrow> int \<Rightarrow> rstr \<Rightarrow> instant list \<Rightarrow> db \<Rightarrow> session option list" where
  "session_visits th idle token [] d = []"
| "session_visits th idle token (t # ts) d =
     (case session_at th idle token t d of (r, d') \<Rightarrow> r # session_visits th idle token ts d')"

fun spaced :: "int \<Rightarrow> instant \<Rightarrow> instant \<Rightarrow> instant list \<Rightarrow> bool" where
  "spaced idle expiry previous [] = True"
| "spaced idle expiry previous (t # ts) \<longleftrightarrow> previous \<le> t \<and> t < expiry
     \<and> t - previous \<le> seconds (idle * 60 - SESSION_TOUCH_INTERVAL_SECONDS) \<and> spaced idle expiry t ts"

lemma visit_keeps_alive:
  assumes inv: "auth_inv d" and s: "s \<in> set (sessions d)" "ses_token_hash s = th token"
    and live: "touch_cutoff p < ses_last_activity_at s" "spaced idle (ses_expires_at s) p [t]"
    and eq: "session_at th idle token t d = (r, d')"
  shows "\<exists>x s'. r = Some x \<and> s_admin_id x = ses_admin_id s \<and> s' \<in> set (sessions d') \<and> ses_token_hash s' = th token
    \<and> ses_admin_id s' = ses_admin_id s \<and> ses_expires_at s' = ses_expires_at s \<and> touch_cutoff t < ses_last_activity_at s'"
proof -
  have "idle_cutoff idle t < ses_last_activity_at s"
    using live by (simp add: idle_cutoff_def touch_cutoff_def seconds_def SESSION_TOUCH_INTERVAL_SECONDS_def algebra_simps)
  then have ls: "live_session idle t s" using live(2) by (simp add: live_session_def)
  have first: "sql_first (\<lambda>x. ses_token_hash x = th token \<and> live_session idle t x \<and> admin_active (ses_admin_id x) d)
      (sessions d) = Some s"
    by (rule session_table.lookup_member[OF auth_invD(3)[OF inv] s(1)]) (use s ls auth_invD(6)[OF inv s(1)] in auto)
  obtain x where r: "r = Some x" "s_admin_id x = ses_admin_id s"
    using eq first by (auto simp: session_at_def Let_def)
  show ?thesis
  proof (cases "ses_last_activity_at s \<le> touch_cutoff t")
    case True
    let ?s = "ses_last_activity_at_update (\<lambda>_. t) s"
    have "?s \<in> set (sessions d')"
      using eq first True s ls by (auto simp: session_at_def Let_def set_sql_update intro!: image_eqI[of _ _ s])
    then show ?thesis
      using r s by (intro exI[of _ ?s] exI[of _ x] conjI) (auto simp: touch_cutoff_def seconds_def SESSION_TOUCH_INTERVAL_SECONDS_def)
  next
    case False
    then show ?thesis using r s eq first by (auto simp: session_at_def Let_def)
  qed
qed

text \<open>C30: an administrator who keeps working stays signed in. As long as the session has not
  reached its absolute expiry and successive requests are no more than the idle timeout minus
  the touch interval apart, every request finds the session of the same administrator, even
  though activity is written at most once per minute.\<close>

theorem active_session_survives:
  assumes "auth_inv d" "s \<in> set (sessions d)" "ses_token_hash s = th token"
    and "previous - seconds 60 < ses_last_activity_at s"
    and "spaced idle (ses_expires_at s) previous ts"
  shows "list_all (\<lambda>r. \<exists>x. r = Some x \<and> s_admin_id x = ses_admin_id s) (session_visits th idle token ts d)"
  using assms
proof (induction ts arbitrary: d s previous)
  case (Cons t ts)
  obtain r d' where eq: "session_at th idle token t d = (r, d')" by fastforce
  have "touch_cutoff previous < ses_last_activity_at s"
    using Cons.prems(4) by (simp add: touch_cutoff_def SESSION_TOUCH_INTERVAL_SECONDS_def)
  then obtain x s' where x: "r = Some x" "s_admin_id x = ses_admin_id s"
    and s': "s' \<in> set (sessions d')" "ses_token_hash s' = th token" "ses_admin_id s' = ses_admin_id s"
      "ses_expires_at s' = ses_expires_at s" "touch_cutoff t < ses_last_activity_at s'"
    using visit_keeps_alive[where th = th, OF Cons.prems(1,2,3) _ _ eq, of previous] Cons.prems(5) by auto
  have "list_all (\<lambda>r. \<exists>x. r = Some x \<and> s_admin_id x = ses_admin_id s') (session_visits th idle token ts d')"
    by (rule Cons.IH[OF ok_inv[OF session_at_ok[OF eq Cons.prems(1)]] s'(1,2), of t])
      (use s' Cons.prems(5) in \<open>auto simp: touch_cutoff_def SESSION_TOUCH_INTERVAL_SECONDS_def\<close>)
  then show ?case using x s'(3) by (simp add: eq)
qed simp

theorem active_session_survives_witness:
  "map (\<lambda>r. r \<noteq> None) (session_visits (\<lambda>x. x) 30 [1] [seconds 1700, seconds 3400, seconds 5000] example_login)
     = [True, True, True]"
proof -
  have s: "map ses_token_hash (sessions example_login) = [[1]]" "map ses_last_activity_at (sessions example_login) = [0]"
    "map ses_expires_at (sessions example_login) = [seconds 36000]" by code_simp+
  then obtain s where s': "sessions example_login = [s]" by (auto simp: map_eq_Cons_conv)
  have "spaced 30 (seconds 36000) 0 [seconds 1700, seconds 3400, seconds 5000]"
    by (simp add: seconds_def SESSION_TOUCH_INTERVAL_SECONDS_def)
  then have "list_all (\<lambda>r. \<exists>x. r = Some x \<and> s_admin_id x = ses_admin_id s)
      (session_visits (\<lambda>x. x) 30 [1] [seconds 1700, seconds 3400, seconds 5000] example_login)"
    using s s' by (intro active_session_survives[OF example_login_inv, of s _ _ 0]) (auto simp: seconds_def)
  then show ?thesis by (auto simp: split: prod.splits)
qed

lemma rotate_one:
  assumes "auth_inv d" "rotate_session old new csrf i idle now d = Inr (1, d')"
  obtains s where "s \<in> set (sessions d)" "unverified_session old i idle now s"
    "s\<lparr>ses_token_hash := new, ses_csrf_token := csrf, ses_mfa_verified := True, ses_last_activity_at := now\<rparr>
       \<in> set (sessions d')"
    "new \<noteq> old \<Longrightarrow> \<forall>x\<in>set (sessions d'). ses_token_hash x \<noteq> old"
    "admins d' = admins d"
proof -
  let ?P = "unverified_session old i idle now"
  define f where "f = (\<lambda>s :: session_row. s\<lparr>ses_token_hash := new, ses_csrf_token := csrf,
           ses_mfa_verified := True, ses_last_activity_at := now\<rparr>)"
  have one: "sql_count ?P (sessions d) = 1" and d': "d' = d\<lparr>sessions := sql_update ?P f (sessions d)\<rparr>"
    using assms(2) by (auto simp: rotate_session_def Let_def f_def split: if_splits)
  obtain s where s: "s \<in> set (sessions d)" "?P s" using one by (rule sql_count_one_member)
  have "f s \<in> set (sessions d')" unfolding d' using s by (auto simp: set_sql_update intro!: image_eqI[of _ _ s])
  moreover have "ses_token_hash x \<noteq> old" if ne: "new \<noteq> old" and x: "x \<in> set (sessions d')" for x
  proof -
    obtain y where y: "y \<in> set (sessions d)" "x = (if ?P y then f y else y)"
      using x unfolding d' by (auto simp: set_sql_update)
    have "?P y" if "ses_token_hash y = old"
      using session_table.unique[OF auth_invD(3)[OF assms(1)] y(1) s(1)] that s(2) by (auto simp: unverified_session_def)
    then show ?thesis using y(2) ne by (auto simp: f_def)
  qed
  ultimately show thesis using s that d' by (auto simp: f_def)
qed

text \<open>Passing the second factor replaces the token. When a TOTP login succeeds, the token
  of the half-open session no longer opens any session, and the new token is a verified
  session of the same administrator that authorizes privileged transactions at once.\<close>

theorem totp_login_rotates_token:
  assumes inv: "auth_inv d" and idle: "0 < idle"
    and eq: "verify_mfa_with_totp_step th idle old new csrf i step ra now d = (Inr True, d')"
    and fresh: "th new \<noteq> th old"
  shows "fst (session_at th idle' old t d') = None
    \<and> live_mfa_session \<lparr>prf_token_hash = th new, prf_admin_id = i\<rparr> idle now d'"
proof -
  obtain b d1 where c: "consume_admin_totp_step i step d = (b, d1)" by fastforce
  have b: b using eq c by (cases b) (auto simp: verify_mfa_with_totp_step_def Let_def split: if_splits)
  then obtain d2 where rot: "rotate_session (th old) (th new) csrf i idle now d1 = Inr (1, d2)"
    and fin: "finish_audited ra now [audit_event LoginSuccess None None] True d d2 = (Inr True, d')"
    using eq c by (auto simp: verify_mfa_with_totp_step_def Let_def split: if_splits sum.splits)
  have same: "sessions d' = sessions d2" "admins d' = admins d2"
    using fin by (auto simp: finish_audited_def split: option.splits dest: commit_audited_Inr)
  note inv1 = ok_inv[OF ok_consume[OF inv c]]
  obtain s where s: "s \<in> set (sessions d1)" "unverified_session (th old) i idle now s"
    "s\<lparr>ses_token_hash := th new, ses_csrf_token := csrf, ses_mfa_verified := True, ses_last_activity_at := now\<rparr>
       \<in> set (sessions d2)" "\<forall>x\<in>set (sessions d2). ses_token_hash x \<noteq> th old" "admins d2 = admins d1"
    using rotate_one[OF inv1 rot] fresh by metis
  have "fst (session_at th idle' old t d') = None"
  proof -
    have "sql_first (\<lambda>x. ses_token_hash x = th old \<and> live_session idle' t x \<and> admin_active (ses_admin_id x) d')
        (sessions d') = None" using s(4) same by (simp add: sql_first_None)
    then show ?thesis by (simp add: session_at_def Let_def)
  qed
  moreover have "live_mfa_session \<lparr>prf_token_hash = th new, prf_admin_id = i\<rparr> idle now d'"
    unfolding live_mfa_session_def sql_exists_iff same
    using s(2,3,5) auth_invD(6)[OF inv1 s(1)] same idle
    by (intro bexI[of _ "s\<lparr>ses_token_hash := th new, ses_csrf_token := csrf, ses_mfa_verified := True,
          ses_last_activity_at := now\<rparr>"])
      (auto simp: unverified_session_def live_session_def idle_cutoff_def seconds_def admin_active_def)
  ultimately show ?thesis ..
qed

theorem totp_login_rotates_token_witness:
  "fst (session_at (\<lambda>x. x) 30 [1] (seconds 2) example_verified) = None
   \<and> live_mfa_session \<lparr>prf_token_hash = [2], prf_admin_id = 1\<rparr> 30 (seconds 1) example_verified"
proof -
  let ?r = "verify_mfa_with_totp_step (\<lambda>x. x) 30 [1] [2] [10] 1 7 None (seconds 1) example_login"
  have "fst ?r = Inr True" by code_simp
  then have "?r = (Inr True, example_verified)" by (metis prod.collapse example_verified_def)
  then show ?thesis by (intro totp_login_rotates_token[OF example_login_inv]) auto
qed

end
