(* ===== verification/Share_Listing.thy ===== *)
theory Share_Listing
  imports Share_Admin "HOL-Library.Multiset"
begin

text \<open>
  The paged, searchable list of shares (\<open>src/src/db/shares/listing.rs\<close>, \<open>src/src/share_search.rs\<close>).
  A page takes its candidates either from a bounded probe window, filtered afterwards, or from
  an indexed query, for the active shares as the union of two index ranges. The full-text index
  is the parameter \<open>fts\<close>: whether a quoted phrase matches the indexed keys of a share.
\<close>

section \<open>Search terms\<close>

datatype share_search_error = TooShort | TooLong

primrec message :: "share_search_error \<Rightarrow> rstr" where
  "message TooShort = lit ''Share search requires at least three characters''"
| "message TooLong = lit ''Share search query is too long''"

definition MAX_SEARCH_QUERY_BYTES :: nat where
  "MAX_SEARCH_QUERY_BYTES = 256"

definition validate_share_search :: "rstr option \<Rightarrow> share_search_error + rstr option" where
  "validate_share_search query =
     (case map_option str_trim query of
        None \<Rightarrow> Inr None
      | Some q \<Rightarrow>
          if q = [] then Inr None
          else if MAX_SEARCH_QUERY_BYTES < str_len q then Inl TooLong
          else if length q < 3 then Inl TooShort
          else Inr (Some q))"

definition fts5_phrase :: "rstr \<Rightarrow> rstr" where
  "fts5_phrase value = [34] @ concat (map (\<lambda>c. if c = 34 then [34, 34] else [c]) value) @ [34]"

fun instr :: "rstr \<Rightarrow> rstr \<Rightarrow> bool" where
  "instr [] needle = (needle = [])"
| "instr (c # cs) needle = (starts_with needle (c # cs) \<or> instr cs needle)"

definition literal_match :: "rstr \<Rightarrow> share_row \<Rightarrow> bool" where
  "literal_match needle s \<longleftrightarrow>
     (case sh_alias_search_key s of None \<Rightarrow> False | Some key \<Rightarrow> instr key needle)
     \<or> instr (sh_path_search_key s) needle"

section \<open>Options\<close>

datatype share_list_status = All | Active | Protected | Expired | LimitReached | Inactive

datatype share_list_sort = Newest | Oldest

definition share_list_status_parse :: "rstr \<Rightarrow> share_list_status option" where
  "share_list_status_parse v =
     (if v = lit ''all'' then Some All
      else if v = lit ''active'' then Some Active
      else if v = lit ''protected'' then Some Protected
      else if v = lit ''expired'' then Some Expired
      else if v = lit ''limit'' then Some LimitReached
      else if v = lit ''inactive'' then Some share_list_status.Inactive
      else None)"

primrec share_list_status_as_str :: "share_list_status \<Rightarrow> rstr" where
  "share_list_status_as_str All = lit ''all''"
| "share_list_status_as_str Active = lit ''active''"
| "share_list_status_as_str Protected = lit ''protected''"
| "share_list_status_as_str Expired = lit ''expired''"
| "share_list_status_as_str LimitReached = lit ''limit''"
| "share_list_status_as_str share_list_status.Inactive = lit ''inactive''"

definition share_list_sort_parse :: "rstr \<Rightarrow> share_list_sort option" where
  "share_list_sort_parse v =
     (if v = lit ''newest'' then Some Newest else if v = lit ''oldest'' then Some Oldest else None)"

record share_list_options =
  lo_query :: "rstr option"
  lo_status :: share_list_status
  lo_sort :: share_list_sort
  lo_cursor :: "int option"
  lo_limit :: nat
  lo_now :: instant

definition below_download_limit :: "share_row \<Rightarrow> bool" where
  "below_download_limit s \<longleftrightarrow> sh_active s
     \<and> (case sh_max_downloads s of None \<Rightarrow> True | Some m \<Rightarrow> sh_download_count s < m)"

fun status_predicate :: "share_list_status \<Rightarrow> instant \<Rightarrow> share_row \<Rightarrow> bool" where
  "status_predicate All now s = True"
| "status_predicate Active now s = (below_download_limit s \<and> (sh_expires_at s = None \<or> unexpired (sh_expires_at s) now))"
| "status_predicate Protected now s = (sh_password_hash s \<noteq> None)"
| "status_predicate Expired now s = (\<not> unexpired (sh_expires_at s) now)"
| "status_predicate LimitReached now s =
     (case sh_max_downloads s of None \<Rightarrow> False | Some m \<Rightarrow> m \<le> sh_download_count s)"
| "status_predicate share_list_status.Inactive now s = (\<not> sh_active s)"

text \<open>Ascending order of the ids, or of their negations for \<open>DESC\<close>.\<close>

fun direction :: "share_list_sort \<Rightarrow> int \<Rightarrow> int" where
  "direction Newest i = - i"
| "direction Oldest i = i"

definition cursor_predicate :: "share_list_options \<Rightarrow> int \<Rightarrow> bool" where
  "cursor_predicate options i =
     (case lo_cursor options of
        None \<Rightarrow> True
      | Some c \<Rightarrow> (case lo_sort options of Newest \<Rightarrow> i < c | Oldest \<Rightarrow> c < i))"

definition order_rows :: "share_list_sort \<Rightarrow> share_row list \<Rightarrow> share_row list" where
  "order_rows srt = sort_key (\<lambda>s. direction srt (sh_id s))"

definition order_ids :: "share_list_sort \<Rightarrow> int list \<Rightarrow> int list" where
  "order_ids srt = sort_key (direction srt)"

section \<open>Candidates\<close>

definition fts_membership :: "(rstr \<Rightarrow> share_row \<Rightarrow> bool) \<Rightarrow> rstr option \<Rightarrow> share_row \<Rightarrow> bool" where
  "fts_membership fts needle s =
     (case needle of None \<Rightarrow> True | Some n \<Rightarrow> fts (fts5_phrase n) s \<and> literal_match n s)"

definition direct_candidates ::
  "(rstr \<Rightarrow> share_row \<Rightarrow> bool) \<Rightarrow> share_list_options \<Rightarrow> rstr option \<Rightarrow> nat \<Rightarrow> share_row list \<Rightarrow> int list" where
  "direct_candidates fts options needle limit rows =
     (let hit = (\<lambda>s. if needle \<noteq> None \<and> lo_status options = All
                     then fts_membership fts needle s \<and> cursor_predicate options (sh_id s)
                     else status_predicate (lo_status options) (lo_now options) s
                       \<and> cursor_predicate options (sh_id s) \<and> fts_membership fts needle s) in
      take limit (map sh_id (order_rows (lo_sort options) (filter hit rows))))"

definition probe_candidates ::
  "(rstr \<Rightarrow> share_row \<Rightarrow> bool) \<Rightarrow> share_list_options \<Rightarrow> rstr option \<Rightarrow> nat \<Rightarrow> share_row list \<Rightarrow> (int \<times> bool) list" where
  "probe_candidates fts options needle window rows =
     (let hit = (\<lambda>s. cursor_predicate options (sh_id s)
                   \<and> (case needle of None \<Rightarrow> True | Some n \<Rightarrow> fts (fts5_phrase n) s));
          matched = (\<lambda>s. status_predicate (lo_status options) (lo_now options) s
                   \<and> (case needle of None \<Rightarrow> True | Some n \<Rightarrow> literal_match n s)) in
      map (\<lambda>s. (sh_id s, matched s)) (take window (order_rows (lo_sort options) (filter hit rows))))"

definition available_candidates ::
  "(rstr \<Rightarrow> share_row \<Rightarrow> bool) \<Rightarrow> share_list_options \<Rightarrow> rstr option \<Rightarrow> nat \<Rightarrow> share_row list \<Rightarrow> int list" where
  "available_candidates fts options needle limit rows =
     (let branch = (\<lambda>expiry. take limit (map sh_id (order_rows (lo_sort options)
            (filter (\<lambda>s. below_download_limit s \<and> expiry s \<and> cursor_predicate options (sh_id s)
               \<and> fts_membership fts needle s) rows))));
          permanent = branch (\<lambda>s. sh_expires_at s = None);
          future = branch (\<lambda>s. case sh_expires_at s of None \<Rightarrow> False | Some t \<Rightarrow> lo_now options < t) in
      take limit (order_ids (lo_sort options) (permanent @ future)))"

definition clamp_limit :: "nat \<Rightarrow> nat" where
  "clamp_limit n = min 200 (max 1 n)"

definition candidate_ids ::
  "(rstr \<Rightarrow> share_row \<Rightarrow> bool) \<Rightarrow> share_list_options \<Rightarrow> rstr option \<Rightarrow> share_row list \<Rightarrow> int list" where
  "candidate_ids fts options needle rows =
     (let fetch = clamp_limit (lo_limit options) + 1;
          window = 4 * fetch;
          batch = probe_candidates fts options needle window rows;
          ids = take fetch (map fst (filter snd batch)) in
      if lo_status options \<noteq> All \<and> (needle \<noteq> None \<or> lo_status options \<in> set [Active, Expired])
         \<and> (length ids = fetch \<or> length batch < window)
      then ids
      else if lo_status options = Active then available_candidates fts options needle fetch rows
      else direct_candidates fts options needle fetch rows)"

section \<open>Pages\<close>

record share_page =
  pg_shares :: "share list"
  pg_next_cursor :: "int option"

fun collect_results :: "('e + 'a) list \<Rightarrow> 'e + 'a list" where
  "collect_results [] = Inr []"
| "collect_results (Inl e # rs) = Inl e"
| "collect_results (Inr x # rs) = (case collect_results rs of Inl e \<Rightarrow> Inl e | Inr xs \<Rightarrow> Inr (x # xs))"

definition list_share_page ::
  "decrypt \<Rightarrow> (nat \<Rightarrow> rstr) \<Rightarrow> (rstr \<Rightarrow> share_row \<Rightarrow> bool) \<Rightarrow> share_list_options \<Rightarrow> db \<Rightarrow> db_error + share_page" where
  "list_share_page decrypt lower fts options d =
     (case validate_share_search (lo_query options) of
        Inl e \<Rightarrow> Inl (InvalidParameterName (message e))
      | Inr query \<Rightarrow>
          (let needle = map_option (unicode_search_key lower) query;
               limit = clamp_limit (lo_limit options);
               ids = candidate_ids fts options needle (shares d);
               rows = order_rows (lo_sort options) (filter (\<lambda>s. sh_id s \<in> set ids) (shares d)) in
           case (if ids = [] then Inr [] else collect_results (map (map_share decrypt d) rows)) of
             Inl e \<Rightarrow> Inl e
           | Inr all_shares \<Rightarrow>
               (let page = take limit all_shares in
                Inr \<lparr>pg_shares = page,
                     pg_next_cursor = (if limit < length all_shares \<and> page \<noteq> [] then Some (shr_id (last page)) else None)\<rparr>)))"

section \<open>The reference list\<close>

text \<open>All matching shares in the requested order, and those after the cursor.\<close>

definition share_hit ::
  "(rstr \<Rightarrow> share_row \<Rightarrow> bool) \<Rightarrow> share_list_options \<Rightarrow> rstr option \<Rightarrow> share_row \<Rightarrow> bool" where
  "share_hit fts options needle s \<longleftrightarrow> status_predicate (lo_status options) (lo_now options) s
     \<and> fts_membership fts needle s"

definition matching_rows ::
  "(rstr \<Rightarrow> share_row \<Rightarrow> bool) \<Rightarrow> share_list_options \<Rightarrow> rstr option \<Rightarrow> share_row list \<Rightarrow> share_row list" where
  "matching_rows fts options needle rows =
     order_rows (lo_sort options)
       (filter (\<lambda>s. share_hit fts options needle s \<and> cursor_predicate options (sh_id s)) rows)"

lemma filter_order_rows: "filter P (order_rows srt rows) = order_rows srt (filter P rows)"
  by (simp add: order_rows_def filter_sort)

lemma set_order_rows [simp]: "set (order_rows srt rows) = set rows"
  by (simp add: order_rows_def)

lemma take_filter_prefix:
  "n \<le> length (filter P (take k xs)) \<Longrightarrow> take n (filter P (take k xs)) = take n (filter P xs)"
  by (metis append_take_drop_id filter_append take_append diff_is_0_eq take0 append_Nil2 take_0)

lemma probe_hit:
  assumes "length batch < window \<or> length ids = fetch"
    and "batch = probe_candidates fts options needle window rows"
    and "ids = take fetch (map fst (filter snd batch))"
  shows "ids = take fetch (map sh_id (matching_rows fts options needle rows))"
proof -
  define hit where "hit = (\<lambda>s. cursor_predicate options (sh_id s)
     \<and> (case needle of None \<Rightarrow> True | Some n \<Rightarrow> fts (fts5_phrase n) s))"
  define matched where "matched = (\<lambda>s. status_predicate (lo_status options) (lo_now options) s
     \<and> (case needle of None \<Rightarrow> True | Some n \<Rightarrow> literal_match n s))"
  define X where "X = order_rows (lo_sort options) (filter hit rows)"
  have batch: "batch = map (\<lambda>s. (sh_id s, matched s)) (take window X)"
    by (simp add: assms(2) probe_candidates_def Let_def X_def hit_def matched_def)
  have ids: "ids = map sh_id (take fetch (filter matched (take window X)))"
    by (simp add: assms(3) batch filter_map o_def take_map)
  have "matching_rows fts options needle rows = filter matched X"
    unfolding matching_rows_def X_def filter_order_rows
    by (rule arg_cong[where f = "order_rows _"])
      (auto simp: hit_def matched_def share_hit_def fts_membership_def split: option.splits intro!: filter_cong)
  moreover have "take fetch (filter matched (take window X)) = take fetch (filter matched X)"
  proof (cases "length batch < window")
    case True
    then show ?thesis by (simp add: batch)
  next
    case False
    then have "fetch \<le> length (filter matched (take window X))" using assms(1) ids by simp
    then show ?thesis by (rule take_filter_prefix)
  qed
  ultimately show ?thesis by (simp add: ids take_map)
qed

lemma inj_direction: "inj (direction srt)"
  by (cases srt) (auto simp: inj_def)

lemma order_ids_mset: "mset xs = mset ys \<Longrightarrow> order_ids srt xs = order_ids srt ys"
  unfolding order_ids_def
  by (rule sort_key_inj_key_eq) (auto intro: inj_on_subset[OF inj_direction])

lemma map_order_rows: "map sh_id (order_rows srt rows) = order_ids srt (map sh_id rows)"
  unfolding order_ids_def
  by (rule sort_key_inj_key_eq[symmetric])
    (auto intro: inj_on_subset[OF inj_direction] simp: order_rows_def o_def mset_map)

fun merge_ids :: "(int \<Rightarrow> int) \<Rightarrow> int list \<Rightarrow> int list \<Rightarrow> int list" where
  "merge_ids k [] ys = ys"
| "merge_ids k xs [] = xs"
| "merge_ids k (x # xs) (y # ys) =
     (if k x \<le> k y then x # merge_ids k xs (y # ys) else y # merge_ids k (x # xs) ys)"

lemma merge_ids_Nil2 [simp]: "merge_ids k xs [] = xs"
  by (cases xs) simp_all

lemma mset_merge_ids: "mset (merge_ids k xs ys) = mset xs + mset ys"
  by (induction k xs ys rule: merge_ids.induct) auto

lemma set_merge_ids: "set (merge_ids k xs ys) = set xs \<union> set ys"
  using arg_cong[OF mset_merge_ids[of k xs ys], of set_mset] by simp

lemma sorted_merge_ids:
  "sorted (map k xs) \<Longrightarrow> sorted (map k ys) \<Longrightarrow> sorted (map k (merge_ids k xs ys))"
  by (induction k xs ys rule: merge_ids.induct) (auto simp: set_merge_ids)

lemma take_merge_ids:
  "n \<le> a \<Longrightarrow> n \<le> b \<Longrightarrow> take n (merge_ids k (take a xs) (take b ys)) = take n (merge_ids k xs ys)"
proof (induction k xs ys arbitrary: n a b rule: merge_ids.induct)
  case (3 k x xs y ys)
  show ?case
  proof (cases n)
    case (Suc m)
    then obtain a' b' where ab: "a = Suc a'" "b = Suc b'" using "3.prems" by (cases a; cases b) auto
    show ?thesis
    proof (cases "k x \<le> k y")
      case True
      then show ?thesis using "3.IH"(1)[OF True, of m a' b] "3.prems" by (simp add: Suc ab)
    next
      case False
      then show ?thesis using "3.IH"(2)[OF False, of m a b'] "3.prems" by (simp add: Suc ab)
    qed
  qed simp
qed (simp_all add: min_def)

lemma order_ids_merge:
  "order_ids srt (order_ids srt xs @ order_ids srt ys) = merge_ids (direction srt) (order_ids srt xs) (order_ids srt ys)"
  unfolding order_ids_def
  by (rule sort_key_inj_key_eq)
    (auto intro: inj_on_subset[OF inj_direction] sorted_merge_ids simp: mset_merge_ids)

lemma order_ids_take_merge:
  assumes "xs = order_ids srt xs'" "ys = order_ids srt ys'"
  shows "order_ids srt (take n xs @ take n ys) = merge_ids (direction srt) (take n xs) (take n ys)"
proof -
  have "sorted (map (direction srt) (take n xs))" "sorted (map (direction srt) (take n ys))"
    using assms by (auto simp: order_ids_def take_map[symmetric] intro!: sorted_wrt_take)
  then show ?thesis
    unfolding order_ids_def
    by (intro sort_key_inj_key_eq) (auto intro: inj_on_subset[OF inj_direction] sorted_merge_ids simp: mset_merge_ids)
qed

lemma order_ids_idem_append: "order_ids srt (order_ids srt xs @ order_ids srt ys) = order_ids srt (xs @ ys)"
  by (rule order_ids_mset) (simp add: order_ids_def)

lemma available_hit:
  assumes "lo_status options = Active"
  shows "available_candidates fts options needle n rows = take n (map sh_id (matching_rows fts options needle rows))"
proof -
  define P where "P = (\<lambda>s. below_download_limit s \<and> cursor_predicate options (sh_id s) \<and> fts_membership fts needle s)"
  define A where "A = map sh_id (filter (\<lambda>s. below_download_limit s \<and> sh_expires_at s = None
     \<and> cursor_predicate options (sh_id s) \<and> fts_membership fts needle s) rows)"
  define B where "B = map sh_id (filter (\<lambda>s. below_download_limit s
     \<and> (case sh_expires_at s of None \<Rightarrow> False | Some t \<Rightarrow> lo_now options < t)
     \<and> cursor_predicate options (sh_id s) \<and> fts_membership fts needle s) rows)"
  let ?o = "order_ids (lo_sort options)"
  have "available_candidates fts options needle n rows = take n (?o (take n (?o A) @ take n (?o B)))"
    by (simp add: available_candidates_def Let_def map_order_rows A_def B_def)
  also have "\<dots> = take n (merge_ids (direction (lo_sort options)) (?o A) (?o B))"
    by (simp add: order_ids_take_merge[OF refl refl] take_merge_ids)
  also have "\<dots> = take n (?o (A @ B))"
    by (simp add: order_ids_merge[symmetric] order_ids_idem_append)
  also have "?o (A @ B) = ?o (map sh_id (filter (\<lambda>s. share_hit fts options needle s \<and> cursor_predicate options (sh_id s)) rows))"
  proof (rule order_ids_mset)
    show "mset (A @ B) = mset (map sh_id (filter (\<lambda>s. share_hit fts options needle s \<and> cursor_predicate options (sh_id s)) rows))"
      unfolding A_def B_def
      by (induction rows) (auto simp: share_hit_def assms unexpired_def split: option.splits)
  qed
  finally show ?thesis by (simp add: matching_rows_def map_order_rows)
qed

lemma direct_hit:
  "direct_candidates fts options needle n rows = take n (map sh_id (matching_rows fts options needle rows))"
  unfolding direct_candidates_def matching_rows_def Let_def share_hit_def
  by (auto intro!: arg_cong[where f = "\<lambda>rows. take n (map sh_id (order_rows _ rows))"] filter_cong)

lemma candidates_are_matching:
  "candidate_ids fts options needle rows
     = take (clamp_limit (lo_limit options) + 1) (map sh_id (matching_rows fts options needle rows))"
  unfolding candidate_ids_def Let_def
  using probe_hit[OF _ refl refl] available_hit direct_hit by (auto simp del: take_map)

section \<open>Pages against the reference list\<close>

lemma filter_member_take:
  "distinct X \<Longrightarrow> filter (\<lambda>s. s \<in> set (take n (filter Q X))) X = take n (filter Q X)"
proof (induction X arbitrary: n)
  case (Cons x X)
  show ?case
  proof (cases "Q x \<and> n \<noteq> 0")
    case True
    then obtain m where n: "n = Suc m" by (cases n) auto
    have "filter (\<lambda>s. s = x \<or> s \<in> set (take m (filter Q X))) X = filter (\<lambda>s. s \<in> set (take m (filter Q X))) X"
      using Cons.prems by (auto intro!: filter_cong)
    then show ?thesis using True Cons by (simp add: n)
  next
    case False
    then have "take n (filter Q (x # X)) = take n (filter Q X)" by (cases n) auto
    moreover have "x \<notin> set (take n (filter Q X))" using Cons.prems by (auto dest: in_set_takeD)
    ultimately show ?thesis using Cons by simp
  qed
qed simp

lemma filter_id_member_take:
  assumes "distinct (map sh_id X)"
  shows "filter (\<lambda>s. sh_id s \<in> set (take n (map sh_id (filter Q X)))) X = take n (filter Q X)"
proof -
  have "sh_id s \<in> set (take n (map sh_id (filter Q X))) \<longleftrightarrow> s \<in> set (take n (filter Q X))" if "s \<in> set X" for s
  proof -
    have "set (take n (filter Q X)) \<subseteq> set X" using set_take_subset[of n "filter Q X"] by auto
    then show ?thesis
      using inj_on_image_mem_iff[of sh_id "set X" s] assms that by (simp add: take_map distinct_map)
  qed
  then have "filter (\<lambda>s. sh_id s \<in> set (take n (map sh_id (filter Q X)))) X
      = filter (\<lambda>s. s \<in> set (take n (filter Q X))) X" by (rule filter_cong[OF refl])
  then show ?thesis using filter_member_take[of X n Q] assms by (simp add: distinct_map)
qed

lemma distinct_order_rows: "wf_shares rows \<Longrightarrow> distinct (map sh_id (order_rows srt rows))"
  by (simp add: map_order_rows order_ids_def wf_shares_def)

lemma collect_results_all:
  "(\<And>r. r \<in> set rs \<Longrightarrow> \<exists>x. f r = Inr x) \<Longrightarrow> collect_results (map f rs) = Inr (map (projr \<circ> f) rs)"
  by (induction rs) (force split: sum.splits)+

definition page_of :: "(share_row \<Rightarrow> share) \<Rightarrow> nat \<Rightarrow> share_row list \<Rightarrow> share_page" where
  "page_of m limit rows = \<lparr>pg_shares = map m (take limit rows),
     pg_next_cursor = (if limit < length rows then Some (sh_id (rows ! (limit - 1))) else None)\<rparr>"

definition readable :: "decrypt \<Rightarrow> db \<Rightarrow> bool" where
  "readable decrypt d \<longleftrightarrow> (\<forall>s\<in>set (shares d). case map_share decrypt d s of Inl _ \<Rightarrow> False | Inr _ \<Rightarrow> True)"

lemma readable_Inr: "readable decrypt d \<Longrightarrow> s \<in> set (shares d) \<Longrightarrow> \<exists>x. map_share decrypt d s = Inr x \<and> shr_id x = sh_id s"
  by (auto simp: readable_def map_share_def split: sum.splits)

lemma page_from_matching:
  assumes wf: "wf_shares (shares d)" and ok: "readable decrypt d"
    and query: "validate_share_search (lo_query options) = Inr query"
  shows "list_share_page decrypt lower fts options d
    = Inr (page_of (projr \<circ> map_share decrypt d) (clamp_limit (lo_limit options))
        (matching_rows fts options (map_option (unicode_search_key lower) query) (shares d)))"
proof -
  define needle where "needle = map_option (unicode_search_key lower) query"
  define n where "n = clamp_limit (lo_limit options)"
  define Q where "Q = (\<lambda>s. share_hit fts options needle s \<and> cursor_predicate options (sh_id s))"
  define X where "X = order_rows (lo_sort options) (shares d)"
  define M where "M = matching_rows fts options needle (shares d)"
  define ids where "ids = candidate_ids fts options needle (shares d)"
  have n: "0 < n" by (simp add: n_def clamp_limit_def)
  have MX: "M = filter Q X" by (simp add: M_def matching_rows_def X_def Q_def filter_order_rows)
  have ids: "ids = take (Suc n) (map sh_id (filter Q X))"
    unfolding ids_def candidates_are_matching M_def[symmetric] n_def[symmetric] by (simp add: MX)
  have rows: "order_rows (lo_sort options) (filter (\<lambda>s. sh_id s \<in> set ids) (shares d)) = take (Suc n) M"
    using filter_id_member_take[of X "Suc n" Q] distinct_order_rows[OF wf]
    unfolding MX filter_order_rows[symmetric] X_def[symmetric] ids by (simp add: X_def)
  have "set M \<subseteq> set (shares d)" by (auto simp: MX X_def)
  then have mem: "s \<in> set (shares d)" if "s \<in> set (take (Suc n) M)" for s
    using that by (auto dest: in_set_takeD)
  have "collect_results (map (map_share decrypt d) (take (Suc n) M)) = Inr (map (projr \<circ> map_share decrypt d) (take (Suc n) M))"
    by (rule collect_results_all) (use mem readable_Inr[OF ok] in blast)
  moreover have "ids = [] \<Longrightarrow> M = []" by (simp add: ids MX)
  ultimately have got: "(if ids = [] then Inr [] else collect_results (map (map_share decrypt d) (take (Suc n) M)))
      = Inr (map (projr \<circ> map_share decrypt d) (take (Suc n) M))" by auto
  have last_id: "shr_id (last (take n (map (projr \<circ> map_share decrypt d) (take (Suc n) M)))) = sh_id (M ! (n - 1))" if "n < length M"
  proof -
    have "M ! (n - 1) \<in> set (shares d)"
      using that \<open>set M \<subseteq> set (shares d)\<close> n by (meson diff_less nth_mem order.strict_trans subsetD zero_less_one)
    then have "shr_id (projr (map_share decrypt d (M ! (n - 1)))) = sh_id (M ! (n - 1))"
      using readable_Inr[OF ok] by fastforce
    moreover have "last (take n M) = M ! (n - 1)" "take n M \<noteq> []"
      using that n last_conv_nth[of "take n M"] by (cases "M = []"; auto)+
    ultimately show ?thesis using that n by (simp add: take_map min_def last_map)
  qed
  show ?thesis
    unfolding list_share_page_def query sum.case Let_def needle_def[symmetric] n_def[symmetric] ids_def[symmetric]
      M_def[symmetric] rows got page_of_def
    using n last_id by (auto simp: take_map min_def)
qed

section \<open>Following the cursors\<close>

text \<open>A client that asks for the next page with the cursor of the last one, until there is none.\<close>

primrec follow_pages ::
  "nat \<Rightarrow> decrypt \<Rightarrow> (nat \<Rightarrow> rstr) \<Rightarrow> (rstr \<Rightarrow> share_row \<Rightarrow> bool) \<Rightarrow> share_list_options \<Rightarrow> db \<Rightarrow> share list option" where
  "follow_pages 0 decrypt lower fts options d = None"
| "follow_pages (Suc fuel) decrypt lower fts options d =
     (case list_share_page decrypt lower fts options d of
        Inl _ \<Rightarrow> None
      | Inr page \<Rightarrow>
          (case pg_next_cursor page of
             None \<Rightarrow> Some (pg_shares page)
           | Some c \<Rightarrow> map_option (\<lambda>rest. pg_shares page @ rest)
               (follow_pages fuel decrypt lower fts (options\<lparr>lo_cursor := Some c\<rparr>) d)))"

lemma filter_after_nth:
  fixes f :: "'a \<Rightarrow> int"
  assumes "sorted_wrt (<) (map f M)" "0 < k" "k \<le> length M"
  shows "filter (\<lambda>s. f (M ! (k - 1)) < f s) M = drop k M"
proof -
  have lt: "f (M ! i) < f (M ! j)" if "i < j" "j < length M" for i j
    using sorted_wrt_nth_less[OF assms(1)] that by simp
  have "filter (\<lambda>s. f (M ! (k - 1)) < f s) (take k M) = []"
  proof -
    have "\<not> f (M ! (k - 1)) < f (M ! i)" if "i < k" for i
      using lt[of i "k - 1"] that assms(2,3) by (cases "i = k - 1") (auto simp: not_less intro: less_imp_le)
    then show ?thesis by (auto simp: filter_empty_conv in_set_conv_nth)
  qed
  moreover have "filter (\<lambda>s. f (M ! (k - 1)) < f s) (drop k M) = drop k M"
  proof -
    have "f (M ! (k - 1)) < f (M ! (k + i))" if "k + i < length M" for i
      using lt[of "k - 1" "k + i"] that assms(2) by simp
    then show ?thesis by (auto simp: filter_id_conv in_set_conv_nth)
  qed
  ultimately show ?thesis using filter_append[of _ "take k M" "drop k M"] by simp
qed

lemma cursor_after: "cursor_predicate (options\<lparr>lo_cursor := Some c\<rparr>) i \<longleftrightarrow> direction (lo_sort options) c < direction (lo_sort options) i"
  by (cases "lo_sort options") (auto simp: cursor_predicate_def)

lemma cursor_trans:
  "cursor_predicate options c \<Longrightarrow> direction (lo_sort options) c < direction (lo_sort options) i \<Longrightarrow> cursor_predicate options i"
  by (cases "lo_sort options") (auto simp: cursor_predicate_def split: option.splits)

lemma matching_after_cursor:
  assumes wf: "wf_shares rows" and M: "M = matching_rows fts options needle rows" and k: "0 < k" "k \<le> length M"
  shows "matching_rows fts (options\<lparr>lo_cursor := Some (sh_id (M ! (k - 1)))\<rparr>) needle rows = drop k M"
proof -
  let ?c = "sh_id (M ! (k - 1))" and ?d = "direction (lo_sort options)"
  have "M ! (k - 1) \<in> set M" using k by simp
  then have c: "cursor_predicate options ?c" by (simp add: M matching_rows_def)
  have "sorted (map (\<lambda>s. ?d (sh_id s)) M)" by (simp add: M matching_rows_def order_rows_def)
  moreover have "distinct (map (\<lambda>s. ?d (sh_id s)) M)"
  proof -
    have "distinct (map sh_id M)"
      unfolding M matching_rows_def filter_order_rows[symmetric]
      using distinct_order_rows[OF wf] by (rule distinct_map_filter)
    then have "distinct (map ?d (map sh_id M))"
      using inj_on_subset[OF inj_direction, of "set (map sh_id M)"] by (subst distinct_map) simp
    then show ?thesis by (simp add: o_def)
  qed
  ultimately have "filter (\<lambda>s. ?d ?c < ?d (sh_id s)) M = drop k M"
    using filter_after_nth[of "\<lambda>s. ?d (sh_id s)" M k] k by (simp add: strict_sorted_iff)
  moreover have "matching_rows fts (options\<lparr>lo_cursor := Some ?c\<rparr>) needle rows = filter (\<lambda>s. ?d ?c < ?d (sh_id s)) M"
  proof -
    define C where "C = ?c"
    have "filter (\<lambda>s. share_hit fts options needle s \<and> ?d C < ?d (sh_id s)) rows
        = filter (\<lambda>s. (share_hit fts options needle s \<and> cursor_predicate options (sh_id s)) \<and> ?d C < ?d (sh_id s)) rows"
      using cursor_trans[OF c] unfolding C_def[symmetric] by (intro filter_cong) auto
    then show ?thesis
      unfolding C_def[symmetric] unfolding M matching_rows_def filter_order_rows filter_filter
      by (simp add: cursor_after share_hit_def)
  qed
  ultimately show ?thesis by simp
qed

lemma follow_pages_all:
  assumes wf: "wf_shares (shares d)" and ok: "readable decrypt d"
    and query: "validate_share_search (lo_query options) = Inr query"
    and M: "M = matching_rows fts options (map_option (unicode_search_key lower) query) (shares d)"
    and fuel: "length M < fuel"
  shows "follow_pages fuel decrypt lower fts options d = Some (map (projr \<circ> map_share decrypt d) M)"
  using query M fuel
proof (induction fuel arbitrary: options M)
  case (Suc fuel)
  define n where "n = clamp_limit (lo_limit options)"
  have n: "0 < n" by (simp add: n_def clamp_limit_def)
  let ?m = "projr \<circ> map_share decrypt d"
  have page: "list_share_page decrypt lower fts options d = Inr (page_of ?m n M)"
    using page_from_matching[OF wf ok Suc.prems(1)] by (simp add: Suc.prems(2) n_def)
  show ?case
  proof (cases "n < length M")
    case True
    let ?o = "options\<lparr>lo_cursor := Some (sh_id (M ! (n - 1)))\<rparr>"
    have "drop n M = matching_rows fts ?o (map_option (unicode_search_key lower) query) (shares d)"
      using matching_after_cursor[OF wf Suc.prems(2) n] True by simp
    moreover have "validate_share_search (lo_query ?o) = Inr query" using Suc.prems(1) by simp
    moreover have "length (drop n M) < fuel" using Suc.prems(3) n True by simp
    ultimately have "follow_pages fuel decrypt lower fts ?o d = Some (map ?m (drop n M))"
      by (intro Suc.IH)
    then show ?thesis using True page by (simp add: page_of_def map_append[symmetric] del: map_append)
  next
    case False
    then show ?thesis using page by (simp add: page_of_def)
  qed
qed simp

section \<open>Properties\<close>

text \<open>C22: a page of the share list is the page of the reference list. Whatever of the probe
  window, the indexed query and the union of two index ranges served it, the page holds the
  first \<open>limit\<close> (between 1 and 200) of the matching shares after the cursor in the requested
  order, and it names a next cursor, the id of its last share, exactly when more shares match.\<close>

theorem page_matches_reference:
  assumes "wf_shares (shares d)" "readable decrypt d" "validate_share_search (lo_query options) = Inr query"
    and "M = order_rows (lo_sort options) (filter (\<lambda>s. cursor_predicate options (sh_id s)
       \<and> status_predicate (lo_status options) (lo_now options) s
       \<and> fts_membership fts (map_option (unicode_search_key lower) query) s) (shares d))"
  shows "\<exists>page. list_share_page decrypt lower fts options d = Inr page
    \<and> map shr_id (pg_shares page) = map sh_id (take (clamp_limit (lo_limit options)) M)
    \<and> pg_next_cursor page = (if clamp_limit (lo_limit options) < length M
        then Some (sh_id (M ! (clamp_limit (lo_limit options) - 1))) else None)"
proof -
  have M: "matching_rows fts options (map_option (unicode_search_key lower) query) (shares d) = M"
    unfolding matching_rows_def share_hit_def assms(4)
    by (rule arg_cong[where f = "order_rows _"], rule filter_cong) auto
  have "set M \<subseteq> set (shares d)" by (auto simp: assms(4))
  then have "shr_id (projr (map_share decrypt d s)) = sh_id s" if "s \<in> set (take n M)" for s n
    using readable_Inr[OF assms(2), of s] that by (fastforce dest: in_set_takeD)
  then show ?thesis
    using page_from_matching[OF assms(1-3), of lower fts] unfolding M by (auto simp: page_of_def)
qed

definition example_options :: share_list_options where
  "example_options = \<lparr>lo_query = Some (lit '' b/X ''), lo_status = Active, lo_sort = Newest, lo_cursor = None,
     lo_limit = 1, lo_now = 5\<rparr>"

definition example_reader :: decrypt where
  "example_reader key_id ciphertext aad = Inr ciphertext"

definition example_fts :: "rstr \<Rightarrow> share_row \<Rightarrow> bool" where
  "example_fts phrase s = True"

lemma example_paths_readable: "wf_shares (shares example_paths)" "readable example_reader example_paths"
  by code_simp+

lemma example_query: "validate_share_search (lo_query example_options) = Inr (Some (lit ''b/X''))"
  by code_simp

theorem page_matches_reference_witness:
  "\<exists>page. list_share_page example_reader example_lower example_fts example_options example_paths = Inr page
     \<and> map shr_id (pg_shares page) = [2] \<and> pg_next_cursor page = None"
proof -
  let ?M = "order_rows Newest (filter (\<lambda>s. cursor_predicate example_options (sh_id s)
       \<and> status_predicate Active 5 s \<and> fts_membership example_fts (Some (lit ''b/x'')) s) (shares example_paths))"
  have "map sh_id ?M = [2]" "clamp_limit 1 = 1" by code_simp+
  moreover have "map_option (unicode_search_key example_lower) (Some (lit ''b/X'')) = Some (lit ''b/x'')" by code_simp
  moreover have "lo_sort example_options = Newest" "lo_status example_options = Active" "lo_now example_options = 5"
    "lo_limit example_options = 1" by (simp_all add: example_options_def)
  moreover have "length ?M = 1" using arg_cong[OF \<open>map sh_id ?M = [2]\<close>, of length] by simp
  ultimately show ?thesis
    using page_matches_reference[OF example_paths_readable example_query refl, of example_lower example_fts]
    by (auto simp: take_map[symmetric] simp del: lit_simps)
qed

text \<open>C23: a client that follows the cursors sees every matching share exactly once, in order,
  and reaches the last page after at most as many requests as there are shares plus one.\<close>

theorem following_cursors_lists_all:
  assumes "wf_shares (shares d)" "readable decrypt d" "validate_share_search (lo_query options) = Inr query"
    and "lo_cursor options = None" and "length (shares d) < fuel"
  shows "\<exists>found. follow_pages fuel decrypt lower fts options d = Some found
    \<and> distinct (map shr_id found) \<and> sorted (map (\<lambda>s. direction (lo_sort options) (shr_id s)) found)
    \<and> set (map shr_id found) = sh_id ` {s \<in> set (shares d). status_predicate (lo_status options) (lo_now options) s
        \<and> fts_membership fts (map_option (unicode_search_key lower) query) s}"
proof -
  define M where "M = matching_rows fts options (map_option (unicode_search_key lower) query) (shares d)"
  have sub: "set M = {s \<in> set (shares d). status_predicate (lo_status options) (lo_now options) s
        \<and> fts_membership fts (map_option (unicode_search_key lower) query) s}"
    by (auto simp: M_def matching_rows_def share_hit_def cursor_predicate_def assms(4))
  have "length M \<le> length (shares d)" by (simp add: M_def matching_rows_def order_rows_def)
  then have pages: "follow_pages fuel decrypt lower fts options d = Some (map (projr \<circ> map_share decrypt d) M)"
    using follow_pages_all[OF assms(1-3) M_def] assms(5) by simp
  have same: "shr_id (projr (map_share decrypt d s)) = sh_id s" if "s \<in> set M" for s
    using readable_Inr[OF assms(2), of s] that sub by fastforce
  define found where "found = map (projr \<circ> map_share decrypt d) M"
  have ids: "map shr_id found = map sh_id M" using same by (simp add: found_def)
  have "map (\<lambda>s. direction (lo_sort options) (shr_id s)) found
      = map (\<lambda>s. direction (lo_sort options) (sh_id s)) M" using same by (simp add: found_def)
  moreover have "sorted (map (\<lambda>s. direction (lo_sort options) (sh_id s)) M)" by (simp add: M_def matching_rows_def order_rows_def)
  moreover have "distinct (map sh_id M)"
    unfolding M_def matching_rows_def filter_order_rows[symmetric]
    using distinct_order_rows[OF assms(1)] by (rule distinct_map_filter)
  moreover have "set (map sh_id M) = sh_id ` set M" by simp
  ultimately show ?thesis
    using pages[folded found_def] ids sub by (intro exI[of _ found]) (simp only: simp_thms)
qed

theorem following_cursors_lists_all_witness:
  "\<exists>found. follow_pages 3 example_reader example_lower example_fts (example_options\<lparr>lo_query := None\<rparr>) example_paths = Some found
     \<and> set (map shr_id found) = {1, 2} \<and> distinct (map shr_id found)"
proof -
  let ?o = "example_options\<lparr>lo_query := None\<rparr>"
  have q: "validate_share_search (lo_query ?o) = Inr None" by (simp add: validate_share_search_def)
  have c: "lo_cursor ?o = None" by (simp add: example_options_def)
  have f: "length (shares example_paths) < 3" by code_simp
  have "sh_id ` {s \<in> set (shares example_paths). status_predicate Active 5 s \<and> fts_membership example_fts None s} = {1, 2}"
    by code_simp
  then show ?thesis
    using following_cursors_lists_all[OF example_paths_readable q c f, of example_lower example_fts]
    by (auto simp add: example_options_def)
qed

end
