(* ===== verification/Public_Sessions.thy ===== *)
theory Public_Sessions
  imports Share_Policy "HOL-Library.Multiset" "HOL-Library.List_Lexorder" "HOL-Library.Product_Lexorder"
begin

text \<open>
  Sessions of public visitors (\<open>src/src/db/public_sessions.rs\<close>): an unlock session for a share
  with a password, created only while the password and the policy epoch the caller verified
  are still current, and preview sessions with limits per resource, per visitor and share, per
  share and for the installation.
\<close>

section \<open>Unlock sessions\<close>

definition insert_unlock_session :: "unlock_session_row \<Rightarrow> db \<Rightarrow> db_error + db" where
  "insert_unlock_session u d =
     (if sql_exists (\<lambda>x. unl_token_hash x = unl_token_hash u) (unlock_sessions d) then Inl ConstraintUnique
      else Inr (d\<lparr>unlock_sessions := unlock_sessions d @ [u]\<rparr>))"

definition create_unlock_session_for_verified_password ::
  "(rstr \<Rightarrow> rstr) \<Rightarrow> rstr \<Rightarrow> int \<Rightarrow> rstr \<Rightarrow> nat \<Rightarrow> rstr \<Rightarrow> instant \<Rightarrow> audit_context option \<Rightarrow> instant \<Rightarrow> db
     \<Rightarrow> bool outcome" where
  "create_unlock_session_for_verified_password th token i expected epoch csrf expires required_audit now d =
     (let d1 = d\<lparr>unlock_sessions := sql_delete (\<lambda>u. unl_expires_at u \<le> now) (unlock_sessions d)\<rparr>;
          P = (\<lambda>s. sh_id s = i \<and> sh_password_hash s = Some expected \<and> sh_upload_policy_epoch s = epoch
                \<and> sh_active s \<and> unexpired (sh_expires_at s) now) in
      if \<not> sql_exists P (shares d1) then finish_audited required_audit now [] False d d1
      else case insert_unlock_session \<lparr>unl_token_hash = th token, unl_share_id = i, unl_expires_at = expires,
                  unl_csrf_token = csrf\<rparr> d1 of
        Inl e \<Rightarrow> (Inl e, d)
      | Inr d2 \<Rightarrow> finish_audited required_audit now [audit_event ShareUnlocked (Some (dec_int i)) None] True d d2)"

definition unlock_session :: "(rstr \<Rightarrow> rstr) \<Rightarrow> rstr \<Rightarrow> int \<Rightarrow> instant \<Rightarrow> db \<Rightarrow> bool" where
  "unlock_session th token i now d \<longleftrightarrow>
     sql_exists (\<lambda>u. unl_token_hash u = th token \<and> unl_share_id u = i \<and> now < unl_expires_at u) (unlock_sessions d)"

definition unlock_session_csrf :: "(rstr \<Rightarrow> rstr) \<Rightarrow> rstr \<Rightarrow> int \<Rightarrow> instant \<Rightarrow> db \<Rightarrow> rstr option" where
  "unlock_session_csrf th token i now d =
     map_option unl_csrf_token (sql_first (\<lambda>u. unl_token_hash u = th token \<and> unl_share_id u = i
        \<and> now < unl_expires_at u \<and> unl_csrf_token u \<noteq> []) (unlock_sessions d))"

section \<open>Preview sessions\<close>

datatype preview_session_create_outcome =
  Created | OwnerCapacityReached | ShareCapacityReached | GlobalCapacityReached

definition MAX_ACTIVE_PREVIEW_SESSIONS_PER_RESOURCE :: nat where
  "MAX_ACTIVE_PREVIEW_SESSIONS_PER_RESOURCE = 8"

definition MAX_ACTIVE_PREVIEW_SESSIONS_PER_OWNER_SHARE :: nat where
  "MAX_ACTIVE_PREVIEW_SESSIONS_PER_OWNER_SHARE = 64"

definition MAX_ACTIVE_PREVIEW_SESSIONS_PER_SHARE :: nat where
  "MAX_ACTIVE_PREVIEW_SESSIONS_PER_SHARE = 512"

definition MAX_ACTIVE_PREVIEW_SESSIONS_GLOBAL :: nat where
  "MAX_ACTIVE_PREVIEW_SESSIONS_GLOBAL = 10000"

definition in_bucket :: "int \<Rightarrow> rstr \<Rightarrow> rstr \<Rightarrow> preview_session_row \<Rightarrow> bool" where
  "in_bucket i path owner p \<longleftrightarrow> prv_share_id p = i \<and> prv_relative_path p = path \<and> prv_owner_key_hash p = owner"

text \<open>The newest sessions of a bucket, in descending order of expiry and token hash.\<close>

definition kept_previews :: "int \<Rightarrow> rstr \<Rightarrow> rstr \<Rightarrow> instant \<Rightarrow> preview_session_row list \<Rightarrow> rstr list" where
  "kept_previews i path owner now rows =
     map prv_token_hash (take (MAX_ACTIVE_PREVIEW_SESSIONS_PER_RESOURCE - 1)
       (rev (sort_key (\<lambda>p. (prv_expires_at p, prv_token_hash p))
         (filter (\<lambda>p. in_bucket i path owner p \<and> now < prv_expires_at p) rows))))"

definition insert_preview_session :: "preview_session_row \<Rightarrow> db \<Rightarrow> db_error + db" where
  "insert_preview_session p d =
     (if sql_exists (\<lambda>x. prv_token_hash x = prv_token_hash p) (preview_sessions d) then Inl ConstraintUnique
      else if \<not> sql_exists (\<lambda>s. sh_id s = prv_share_id p) (shares d) then Inl ConstraintForeignKey
      else Inr (d\<lparr>preview_sessions := preview_sessions d @ [p]\<rparr>))"

definition create_preview_session ::
  "(rstr \<Rightarrow> rstr) \<Rightarrow> rstr \<Rightarrow> rstr \<Rightarrow> int \<Rightarrow> rstr \<Rightarrow> instant \<Rightarrow> instant \<Rightarrow> db \<Rightarrow> preview_session_create_outcome outcome" where
  "create_preview_session th token owner_key i path expires now d =
     (let owner = th owner_key;
          rows = sql_delete (\<lambda>p. prv_expires_at p \<le> now) (preview_sessions d);
          d1 = d\<lparr>preview_sessions := rows\<rparr>;
          evictions = max 0 (int (sql_count (in_bucket i path owner) rows)
                        - (int MAX_ACTIVE_PREVIEW_SESSIONS_PER_RESOURCE - 1)) in
      if int MAX_ACTIVE_PREVIEW_SESSIONS_PER_OWNER_SHARE
           < int (sql_count (\<lambda>p. prv_share_id p = i \<and> prv_owner_key_hash p = owner) rows) - evictions + 1
      then (Inr OwnerCapacityReached, d1)
      else if int MAX_ACTIVE_PREVIEW_SESSIONS_PER_SHARE
           < int (sql_count (\<lambda>p. prv_share_id p = i) rows) - evictions + 1
      then (Inr ShareCapacityReached, d1)
      else if int MAX_ACTIVE_PREVIEW_SESSIONS_GLOBAL < int (length rows) - evictions + 1
      then (Inr GlobalCapacityReached, d1)
      else
        let d2 = d1\<lparr>preview_sessions := sql_delete (\<lambda>p. in_bucket i path owner p
                     \<and> prv_token_hash p \<notin> set (kept_previews i path owner now rows)) rows\<rparr> in
        case insert_preview_session \<lparr>prv_token_hash = th token, prv_share_id = i, prv_relative_path = path,
               prv_expires_at = expires, prv_owner_key_hash = owner\<rparr> d2 of
          Inl e \<Rightarrow> (Inl e, d)
        | Inr d3 \<Rightarrow> (Inr preview_session_create_outcome.Created, d3))"

definition preview_session :: "(rstr \<Rightarrow> rstr) \<Rightarrow> rstr \<Rightarrow> int \<Rightarrow> rstr \<Rightarrow> instant \<Rightarrow> db \<Rightarrow> bool" where
  "preview_session th token i path now d \<longleftrightarrow>
     sql_exists (\<lambda>p. prv_token_hash p = th token \<and> prv_share_id p = i \<and> prv_relative_path p = path
        \<and> now < prv_expires_at p) (preview_sessions d)"

section \<open>Bounds\<close>

definition wf_previews :: "preview_session_row list \<Rightarrow> bool" where
  "wf_previews rows = distinct (map prv_token_hash rows)"

interpretation preview_table: keyed_table prv_token_hash wf_previews
  by unfold_locales (simp add: wf_previews_def)

definition previews_bounded :: "preview_session_row list \<Rightarrow> bool" where
  "previews_bounded rows \<longleftrightarrow> wf_previews rows
     \<and> (\<forall>i path owner. sql_count (in_bucket i path owner) rows \<le> MAX_ACTIVE_PREVIEW_SESSIONS_PER_RESOURCE)
     \<and> (\<forall>i owner. sql_count (\<lambda>p. prv_share_id p = i \<and> prv_owner_key_hash p = owner) rows
          \<le> MAX_ACTIVE_PREVIEW_SESSIONS_PER_OWNER_SHARE)
     \<and> (\<forall>i. sql_count (\<lambda>p. prv_share_id p = i) rows \<le> MAX_ACTIVE_PREVIEW_SESSIONS_PER_SHARE)
     \<and> length rows \<le> MAX_ACTIVE_PREVIEW_SESSIONS_GLOBAL"

lemma sql_count_True: "sql_count (\<lambda>_. True) rows = length rows"
  by (induction rows) auto

lemma previews_bounded_delete: "previews_bounded rows \<Longrightarrow> previews_bounded (sql_delete P rows)"
  unfolding previews_bounded_def sql_count_True[symmetric]
  by (meson order_trans sql_count_delete_le preview_table.delete)

text \<open>Evicting all but the newest of a bucket removes exactly what the capacity checks
  subtracted.\<close>

lemma evicted_count:
  assumes wf: "wf_previews rows" and live: "\<forall>p\<in>set rows. now < prv_expires_at p"
    and Q: "\<And>p. in_bucket i path owner p \<Longrightarrow> Q p"
  shows "int (sql_count Q (sql_delete (\<lambda>p. in_bucket i path owner p
      \<and> prv_token_hash p \<notin> set (kept_previews i path owner now rows)) rows))
    = int (sql_count Q rows) - max 0 (int (sql_count (in_bucket i path owner) rows)
        - (int MAX_ACTIVE_PREVIEW_SESSIONS_PER_RESOURCE - 1))"
proof -
  let ?B = "in_bucket i path owner" and ?m = "MAX_ACTIVE_PREVIEW_SESSIONS_PER_RESOURCE - 1"
  define S where "S = rev (sort_key (\<lambda>p. (prv_expires_at p, prv_token_hash p)) (filter ?B rows))"
  have fl: "filter (\<lambda>p. ?B p \<and> now < prv_expires_at p) rows = filter ?B rows" using live by (auto intro: filter_cong)
  have kept: "kept_previews i path owner now rows = map prv_token_hash (take ?m S)"
    by (simp only: kept_previews_def fl S_def)
  have setS: "set S = {p \<in> set rows. ?B p}" and lenS: "length S = sql_count ?B rows" and dS: "distinct S"
    using wf by (auto simp: S_def sql_count_def wf_previews_def distinct_map)
  have inj: "inj_on prv_token_hash (set rows)" using wf by (simp add: wf_previews_def distinct_map)
  have mem: "prv_token_hash p \<in> set (kept_previews i path owner now rows) \<longleftrightarrow> p \<in> set (take ?m S)"
    if "p \<in> set rows" for p
    using inj_on_image_mem_iff[OF inj that, of "set (take ?m S)"] set_take_subset[of ?m S] setS
    by (auto simp: kept)
  have "sql_count (\<lambda>p. Q p \<and> ?B p \<and> prv_token_hash p \<notin> set (kept_previews i path owner now rows)) rows
      = sql_count (\<lambda>p. ?B p \<and> p \<notin> set (take ?m S)) rows"
    using Q mem by (intro sql_count_cong) auto
  also have "\<dots> = length (filter (\<lambda>p. p \<notin> set (take ?m S)) S)"
  proof -
    have "mset (filter ?B rows) = mset S" by (simp add: S_def)
    then have "size (filter_mset (\<lambda>p. p \<notin> set (take ?m S)) (mset (filter ?B rows)))
        = size (filter_mset (\<lambda>p. p \<notin> set (take ?m S)) (mset S))" by simp
    then have "length (filter (\<lambda>p. p \<notin> set (take ?m S)) (filter ?B rows)) = length (filter (\<lambda>p. p \<notin> set (take ?m S)) S)"
      by (metis mset_filter size_mset)
    then show ?thesis by (simp add: sql_count_def conj_commute)
  qed
  also have "\<dots> = length S - min (length S) ?m"
  proof -
    have "filter (\<lambda>p. p \<notin> set (take ?m S)) S = drop ?m S"
    proof -
      have "set (take ?m S) \<inter> set (drop ?m S) = {}" using dS by (rule set_take_disj_set_drop_if_distinct) simp
      then have "filter (\<lambda>p. p \<notin> set (take ?m S)) (take ?m S @ drop ?m S) = drop ?m S"
        by (subst filter_append) (auto simp: filter_empty_conv filter_id_conv)
      then show ?thesis by simp
    qed
    then show ?thesis by simp
  qed
  finally have gone: "sql_count (\<lambda>p. Q p \<and> ?B p \<and> prv_token_hash p \<notin> set (kept_previews i path owner now rows)) rows
      = sql_count ?B rows - ?m" by (simp add: lenS)
  have "sql_count Q (sql_delete (\<lambda>p. ?B p \<and> prv_token_hash p \<notin> set (kept_previews i path owner now rows)) rows)
      + (sql_count ?B rows - ?m) = sql_count Q rows"
    using sql_count_delete_split[of Q "\<lambda>p. ?B p \<and> prv_token_hash p \<notin> set (kept_previews i path owner now rows)" rows]
    by (simp add: gone)
  then show ?thesis by (simp add: MAX_ACTIVE_PREVIEW_SESSIONS_PER_RESOURCE_def)
qed

lemma bounded_after_insert:
  assumes wf: "previews_bounded rows" and live: "\<forall>p\<in>set rows. now < prv_expires_at p"
    and rows': "rows' = sql_delete (\<lambda>p. in_bucket i path owner p
      \<and> prv_token_hash p \<notin> set (kept_previews i path owner now rows)) rows"
    and new: "prv_share_id p = i" "prv_relative_path p = path" "prv_owner_key_hash p = owner"
      "\<forall>x\<in>set rows'. prv_token_hash x \<noteq> prv_token_hash p"
    and ev: "ev = max 0 (int (sql_count (in_bucket i path owner) rows) - (int MAX_ACTIVE_PREVIEW_SESSIONS_PER_RESOURCE - 1))"
    and caps: "int (sql_count (\<lambda>p. prv_share_id p = i \<and> prv_owner_key_hash p = owner) rows) - ev + 1
        \<le> int MAX_ACTIVE_PREVIEW_SESSIONS_PER_OWNER_SHARE"
      "int (sql_count (\<lambda>p. prv_share_id p = i) rows) - ev + 1 \<le> int MAX_ACTIVE_PREVIEW_SESSIONS_PER_SHARE"
      "int (length rows) - ev + 1 \<le> int MAX_ACTIVE_PREVIEW_SESSIONS_GLOBAL"
  shows "previews_bounded (rows' @ [p])"
proof -
  have b': "previews_bounded rows'" unfolding rows' by (rule previews_bounded_delete[OF wf])
  have wf': "wf_previews (rows' @ [p])"
    using b' new(4) by (intro preview_table.insert_fresh) (auto simp: previews_bounded_def)
  have count: "int (sql_count Q rows') = int (sql_count Q rows) - ev"
    if "\<And>p. in_bucket i path owner p \<Longrightarrow> Q p" for Q
    unfolding rows' ev using wf live that by (intro evicted_count) (auto simp: previews_bounded_def)
  have "sql_count (in_bucket a b c) (rows' @ [p]) \<le> MAX_ACTIVE_PREVIEW_SESSIONS_PER_RESOURCE" for a b c
  proof (cases "in_bucket a b c p")
    case True
    then have abc: "a = i" "b = path" "c = owner" using new by (auto simp: in_bucket_def)
    show ?thesis
      using count[of "in_bucket i path owner"] True
      by (simp add: abc ev MAX_ACTIVE_PREVIEW_SESSIONS_PER_RESOURCE_def)
  next
    case False
    then show ?thesis using b' by (simp add: previews_bounded_def)
  qed
  moreover have "sql_count (\<lambda>p. prv_share_id p = a \<and> prv_owner_key_hash p = c) (rows' @ [p])
      \<le> MAX_ACTIVE_PREVIEW_SESSIONS_PER_OWNER_SHARE" for a c
    using count[of "\<lambda>p. prv_share_id p = i \<and> prv_owner_key_hash p = owner"] caps(1) b' new
    by (cases "a = i \<and> c = owner") (auto simp: in_bucket_def previews_bounded_def)
  moreover have "sql_count (\<lambda>p. prv_share_id p = a) (rows' @ [p]) \<le> MAX_ACTIVE_PREVIEW_SESSIONS_PER_SHARE" for a
    using count[of "\<lambda>p. prv_share_id p = i"] caps(2) b' new
    by (cases "a = i") (auto simp: in_bucket_def previews_bounded_def)
  moreover have "length (rows' @ [p]) \<le> MAX_ACTIVE_PREVIEW_SESSIONS_GLOBAL"
    using count[of "\<lambda>_. True"] caps(3) by (simp add: sql_count_True)
  ultimately show ?thesis using wf' unfolding previews_bounded_def by blast
qed

section \<open>Properties\<close>

text \<open>C25: preview sessions stay within all four limits, and a new one never takes another
  visitor's place. Creating a session keeps at most eight per visitor and resource, 64 per
  visitor and share, 512 per share and 10000 in all; when it reports \<open>Created\<close> the session is
  valid until it expires; and every unexpired session of another visitor, share or resource is
  still there.\<close>

theorem preview_sessions_bounded:
  assumes bounded: "previews_bounded (preview_sessions d)"
    and eq: "create_preview_session th token owner_key i path expires now d = (out, d')"
  shows "previews_bounded (preview_sessions d')
    \<and> (out = Inr preview_session_create_outcome.Created \<longrightarrow> (\<forall>t<expires. preview_session th token i path t d'))
    \<and> (\<forall>p\<in>set (preview_sessions d). now < prv_expires_at p \<and> \<not> in_bucket i path (th owner_key) p
          \<longrightarrow> p \<in> set (preview_sessions d'))"
proof -
  define rows where "rows = sql_delete (\<lambda>p. prv_expires_at p \<le> now) (preview_sessions d)"
  define owner where "owner = th owner_key"
  define ev where "ev = max 0 (int (sql_count (in_bucket i path owner) rows) - (int MAX_ACTIVE_PREVIEW_SESSIONS_PER_RESOURCE - 1))"
  define rows' where "rows' = sql_delete (\<lambda>p. in_bucket i path owner p
      \<and> prv_token_hash p \<notin> set (kept_previews i path owner now rows)) rows"
  define p where "p = \<lparr>prv_token_hash = th token, prv_share_id = i, prv_relative_path = path,
      prv_expires_at = expires, prv_owner_key_hash = owner\<rparr>"
  have b: "previews_bounded rows" unfolding rows_def by (rule previews_bounded_delete[OF bounded])
  consider "d' = d" "\<exists>e. out = Inl e"
    | "preview_sessions d' = rows" "out \<noteq> Inr preview_session_create_outcome.Created"
    | "preview_sessions d' = rows' @ [p]" "\<forall>x\<in>set rows'. prv_token_hash x \<noteq> prv_token_hash p"
      "int (sql_count (\<lambda>p. prv_share_id p = i \<and> prv_owner_key_hash p = owner) rows) - ev + 1
        \<le> int MAX_ACTIVE_PREVIEW_SESSIONS_PER_OWNER_SHARE"
      "int (sql_count (\<lambda>p. prv_share_id p = i) rows) - ev + 1 \<le> int MAX_ACTIVE_PREVIEW_SESSIONS_PER_SHARE"
      "int (length rows) - ev + 1 \<le> int MAX_ACTIVE_PREVIEW_SESSIONS_GLOBAL"
    using eq unfolding create_preview_session_def Let_def owner_def[symmetric] rows_def[symmetric] ev_def[symmetric]
      rows'_def[symmetric] p_def[symmetric] insert_preview_session_def
    by (auto simp: not_less sql_exists_iff split: if_splits)
  then show ?thesis
  proof cases
    case 3
    have "previews_bounded (rows' @ [p])"
      by (rule bounded_after_insert[OF b _ rows'_def _ _ _ 3(2) ev_def 3(3-5)]) (auto simp: rows_def p_def)
    moreover have "preview_session th token i path t d'" if "t < expires" for t
      using that 3(1) by (auto simp: preview_session_def sql_exists_iff p_def)
    moreover have "x \<in> set rows'" if "x \<in> set (preview_sessions d)" "now < prv_expires_at x" "\<not> in_bucket i path owner x" for x
      using that by (auto simp: rows'_def rows_def)
    ultimately show ?thesis using 3(1) by (auto simp: owner_def)
  qed (use b bounded in \<open>auto simp: rows_def\<close>)
qed

definition example_preview :: "preview_session_create_outcome outcome" where
  "example_preview = create_preview_session (\<lambda>x. x) [1] [2] 1 (lit ''a'') 50 10 example_db"

theorem preview_sessions_bounded_witness:
  "fst example_preview = Inr preview_session_create_outcome.Created
   \<and> preview_session (\<lambda>x. x) [1] 1 (lit ''a'') 49 (snd example_preview)"
proof -
  have out: "fst example_preview = Inr preview_session_create_outcome.Created" by code_simp
  then have eq: "create_preview_session (\<lambda>x. x) [1] [2] 1 (lit ''a'') 50 10 example_db
      = (Inr preview_session_create_outcome.Created, snd example_preview)"
    by (metis example_preview_def prod.collapse)
  have "previews_bounded (preview_sessions example_db)"
    by (simp add: previews_bounded_def example_db_def empty_db_def wf_previews_def)
  from preview_sessions_bounded[OF this eq] show ?thesis using out by simp
qed

lemma finish_audited_value: "finish_audited ra t [] False d d1 = (Inr True, e) \<Longrightarrow> False"
  by (auto simp: finish_audited_def commit_audited_def split: option.splits sum.splits)

lemma finish_audited_unlock: "finish_audited ra t evs x d d1 = (Inr y, e) \<Longrightarrow> unlock_sessions e = unlock_sessions d1"
  by (auto simp: finish_audited_def commit_audited_def split: option.splits sum.splits)

lemma created_unlock:
  assumes "create_unlock_session_for_verified_password th token i expected epoch csrf expires ra t d = (Inr True, e)"
  shows "\<exists>r\<in>set (shares d). sh_id r = i \<and> sh_password_hash r = Some expected \<and> sh_upload_policy_epoch r = epoch
      \<and> sh_active r \<and> unexpired (sh_expires_at r) t"
    and "\<forall>t'<expires. unlock_session th token i t' e"
proof -
  define d1 where "d1 = d\<lparr>unlock_sessions := sql_delete (\<lambda>u. unl_expires_at u \<le> t) (unlock_sessions d)\<rparr>"
  define u where "u = \<lparr>unl_token_hash = th token, unl_share_id = i, unl_expires_at = expires, unl_csrf_token = csrf\<rparr>"
  define P where "P = (\<lambda>s :: share_row. sh_id s = i \<and> sh_password_hash s = Some expected \<and> sh_upload_policy_epoch s = epoch
      \<and> sh_active s \<and> unexpired (sh_expires_at s) t)"
  note eq = assms[unfolded create_unlock_session_for_verified_password_def Let_def, folded d1_def u_def P_def]
  have P: "sql_exists P (shares d)"
  proof (rule ccontr)
    assume "\<not> sql_exists P (shares d)"
    then have "finish_audited ra t [] False d d1 = (Inr True, e)" using eq by (simp add: d1_def)
    then show False by (rule finish_audited_value)
  qed
  have "\<exists>evs. finish_audited ra t evs True d (d1\<lparr>unlock_sessions := unlock_sessions d1 @ [u]\<rparr>) = (Inr True, e)"
  proof -
    have "sql_exists P (shares d1)" using P by (simp add: d1_def)
    then show ?thesis using eq unfolding insert_unlock_session_def by (auto split: if_splits)
  qed
  moreover have "\<exists>r\<in>set (shares d). sh_id r = i \<and> sh_password_hash r = Some expected \<and> sh_upload_policy_epoch r = epoch
      \<and> sh_active r \<and> unexpired (sh_expires_at r) t"
    using P by (auto simp: sql_exists_iff P_def)
  ultimately have "(\<exists>r\<in>set (shares d). sh_id r = i \<and> sh_password_hash r = Some expected \<and> sh_upload_policy_epoch r = epoch
      \<and> sh_active r \<and> unexpired (sh_expires_at r) t) \<and> unlock_sessions e = unlock_sessions d1 @ [u]"
    by (auto dest!: finish_audited_unlock)
  then show "\<exists>r\<in>set (shares d). sh_id r = i \<and> sh_password_hash r = Some expected \<and> sh_upload_policy_epoch r = epoch
      \<and> sh_active r \<and> unexpired (sh_expires_at r) t"
    and "\<forall>t'<expires. unlock_session th token i t' e"
    by (auto simp: unlock_session_def sql_exists_iff u_def)
qed

text \<open>C24: an unlock session stands for the password that is set. One is created only for an
  active, unexpired share whose password hash and policy epoch are the verified ones. Setting
  or removing the password ends every unlock session of the share, and a request that verified
  the old password before that change creates none after it.\<close>

theorem unlock_follows_password:
  assumes set: "required_transaction_for_mfa_session proof idle now ctx (set_share_password i hash action) d
      = (Inr (Authorized x), d')"
    and s: "share_by_id d i = Some s" and wf: "wf_store d"
    and unlock: "create_unlock_session_for_verified_password th token i expected (sh_upload_policy_epoch s) csrf expires ra t d'
      = (out, d'')"
  shows "(\<forall>token t. \<not> unlock_session th token i t d') \<and> out \<noteq> Inr True
    \<and> (\<forall>token expected epoch t e. create_unlock_session_for_verified_password th token i expected epoch csrf expires ra t d
           = (Inr True, e)
         \<longrightarrow> sh_password_hash s = Some expected \<and> sh_upload_policy_epoch s = epoch \<and> sh_active s
           \<and> unexpired (sh_expires_at s) t \<and> (\<forall>t'<expires. unlock_session th token i t' e))"
proof -
  let ?f = "\<lambda>s. s\<lparr>sh_upload_policy_epoch := sh_upload_policy_epoch s + 1, sh_password_hash := hash\<rparr>"
  from set obtain evs d1 new where op: "set_share_password i hash action d = Inr ((x, evs), d1)"
    and d': "d' = d1\<lparr>audit := audit d1 @ new\<rparr>" by (rule authorized_effect)
  have sh: "shares d' = sql_update (\<lambda>s. sh_id s = i) ?f (shares d)"
    and un: "unlock_sessions d' = sql_delete (\<lambda>u. unl_share_id u = i) (unlock_sessions d)"
    using op unfolding d' set_share_password_def Let_def by auto
  have uniq: "r = s" if "r \<in> set (shares d)" "sh_id r = i" for r
    using that share_by_id_member[OF wf that(1)] s by simp
  have "\<not> unlock_session th token i t d'" for token t by (auto simp: unlock_session_def un sql_exists_iff)
  moreover have "out \<noteq> Inr True"
  proof -
    have "sh_upload_policy_epoch r \<noteq> sh_upload_policy_epoch s" if r: "r \<in> set (shares d')" "sh_id r = i" for r
    proof -
      obtain r0 where r0: "r0 \<in> set (shares d)" "r = (if sh_id r0 = i then ?f r0 else r0)"
        using r(1) by (auto simp: sh set_sql_update)
      have "sh_id r0 = i" using r(2) r0(2) by (auto split: if_splits)
      then have "r = ?f s" using r0 uniq by simp
      then show ?thesis by simp
    qed
    then have "\<not> sql_exists (\<lambda>r. sh_id r = i \<and> sh_password_hash r = Some expected
        \<and> sh_upload_policy_epoch r = sh_upload_policy_epoch s \<and> sh_active r \<and> unexpired (sh_expires_at r) t)
        (shares (d'\<lparr>unlock_sessions := sql_delete (\<lambda>u. unl_expires_at u \<le> t) (unlock_sessions d')\<rparr>))"
      by (auto simp: sql_exists_iff)
    then have "finish_audited ra t [] False d' (d'\<lparr>unlock_sessions := sql_delete (\<lambda>u. unl_expires_at u \<le> t) (unlock_sessions d')\<rparr>)
        = (out, d'')"
      using unlock unfolding create_unlock_session_for_verified_password_def Let_def by simp
    then show ?thesis
      by (auto simp: finish_audited_def commit_audited_def split: option.splits sum.splits)
  qed
  moreover have "sh_password_hash s = Some expected \<and> sh_upload_policy_epoch s = epoch \<and> sh_active s
      \<and> unexpired (sh_expires_at s) t \<and> (\<forall>t'<expires. unlock_session th token i t' e)"
    if "create_unlock_session_for_verified_password th token i expected epoch csrf expires ra t d = (Inr True, e)"
    for token expected epoch t e
    using created_unlock[OF that] uniq by blast
  ultimately show ?thesis by blast
qed

definition example_locked :: db where
  "example_locked = (snd example_created)\<lparr>shares := map (\<lambda>s. s\<lparr>sh_password_hash := Some (lit ''h'')\<rparr>) (shares (snd example_created))\<rparr>"

definition example_reset :: "bool session_bound outcome" where
  "example_reset = required_transaction_for_mfa_session example_proof 30 5 example_ctx
     (set_share_password 1 None SharePasswordRemoved) example_locked"

theorem unlock_follows_password_witness:
  "fst example_reset = Inr (Authorized True)
   \<and> fst (create_unlock_session_for_verified_password (\<lambda>x. x) [3] 1 (lit ''h'') 0 [4] 90 None 4 example_locked) = Inr True
   \<and> fst (create_unlock_session_for_verified_password (\<lambda>x. x) [3] 1 (lit ''h'') 0 [4] 90 None 6 (snd example_reset)) \<noteq> Inr True"
proof -
  let ?u = "create_unlock_session_for_verified_password (\<lambda>x. x) [3] 1 (lit ''h'') 0 [4] 90 None 6 (snd example_reset)"
  have out: "fst example_reset = Inr (Authorized True)" by code_simp
  then have set: "required_transaction_for_mfa_session example_proof 30 5 example_ctx
      (set_share_password 1 None SharePasswordRemoved) example_locked = (Inr (Authorized True), snd example_reset)"
    by (metis example_reset_def prod.collapse)
  have "\<exists>s. share_by_id example_locked 1 = Some s \<and> sh_upload_policy_epoch s = 0"
  proof -
    have "map_option sh_upload_policy_epoch (share_by_id example_locked 1) = Some 0" by code_simp
    then show ?thesis by auto
  qed
  then obtain s where s: "share_by_id example_locked 1 = Some s" "sh_upload_policy_epoch s = 0" by blast
  have "map sh_id (shares example_locked) = [1]" "grants example_locked = []" "leases example_locked = []"
    "upload_usage example_locked = []" "upload_reservations example_locked = []" "upload_operations example_locked = []"
    "map aud_id (audit example_locked) = [1]"
    by code_simp+
  then have wf: "wf_store example_locked"
    by (simp add: wf_store_def share_refs_def wf_shares_def wf_grants_def
      wf_grant_identities_def wf_leases_def wf_usage_def wf_reservations_def wf_operations_def wf_audit_def)
  have "?u = (fst ?u, snd ?u)" by simp
  from unlock_follows_password[OF set s(1) wf, unfolded s(2), OF this]
  have "fst ?u \<noteq> Inr True" by blast
  moreover have "fst (create_unlock_session_for_verified_password (\<lambda>x. x) [3] 1 (lit ''h'') 0 [4] 90 None 4 example_locked) = Inr True"
    by code_simp
  ultimately show ?thesis using out by blast
qed

end
