(* ===== verification/Service_Tokens.thy ===== *)
theory Service_Tokens
  imports Share_Policy
begin

unbundle bit_operations_syntax

text \<open>
  API tokens for monitoring (\<open>src/src/db/service_tokens.rs\<close> and \<open>src/src/db/service_tokens/\<close>
  management.rs, authorization.rs): creation by an administrator who authenticates again,
  authorization of a request with a throttled use time stamp, and revocation. \<open>decode\<close> is the
  URL-safe base64 decoder. The lookup and the update of the use time of one authorization are
  separate statements; \<open>after_lookup\<close> is whatever other connections commit in between.
\<close>

section \<open>Tokens\<close>

record service_token =
  st_id :: int
  st_name :: rstr
  st_scope_mask :: int
  st_created_by :: int
  st_created_by_username :: rstr
  st_created_at :: instant
  st_expires_at :: "instant option"
  st_last_used_at :: "instant option"

datatype service_token_creation_outcome =
  Created service_token | ReauthenticationRejected | CapacityReached | NameConflict

datatype service_token_authorization_outcome = Authorized int | Unauthorized | InsufficientScope

definition SERVICE_TOKEN_PREFIX :: rstr where
  "SERVICE_TOKEN_PREFIX = lit ''vlk_st_v1_''"

definition SERVICE_TOKEN_RANDOM_BYTES :: nat where
  "SERVICE_TOKEN_RANDOM_BYTES = 32"

definition SERVICE_TOKEN_TOUCH_INTERVAL_SECONDS :: int where
  "SERVICE_TOKEN_TOUCH_INTERVAL_SECONDS = 5 * 60"

definition SERVICE_TOKEN_SCOPE_MONITORING_READ :: int where
  "SERVICE_TOKEN_SCOPE_MONITORING_READ = 1"

definition MAX_SERVICE_TOKENS :: nat where
  "MAX_SERVICE_TOKENS = 64"

definition SERVICE_TOKEN_NAME_MIN_CHARACTERS :: nat where
  "SERVICE_TOKEN_NAME_MIN_CHARACTERS = 1"

definition SERVICE_TOKEN_NAME_MAX_CHARACTERS :: nat where
  "SERVICE_TOKEN_NAME_MAX_CHARACTERS = 80"

definition valid_service_token :: "(rstr \<Rightarrow> rstr option) \<Rightarrow> rstr \<Rightarrow> bool" where
  "valid_service_token decode token \<longleftrightarrow> starts_with SERVICE_TOKEN_PREFIX token
     \<and> (case decode (drop (length SERVICE_TOKEN_PREFIX) token) of
          None \<Rightarrow> False
        | Some bytes \<Rightarrow> length bytes = SERVICE_TOKEN_RANDOM_BYTES)"

definition valid_service_token_name :: "rstr \<Rightarrow> bool" where
  "valid_service_token_name name \<longleftrightarrow> name = str_trim name
     \<and> SERVICE_TOKEN_NAME_MIN_CHARACTERS \<le> length name \<and> length name \<le> SERVICE_TOKEN_NAME_MAX_CHARACTERS
     \<and> \<not> list_ex is_control name"

section \<open>Creating and listing\<close>

definition hash_text :: "rstr \<Rightarrow> bool" where
  "hash_text h \<longleftrightarrow> length h = 64 \<and> list_all (\<lambda>c. ascii_digit c \<or> 97 \<le> c \<and> c \<le> 102) h"

text \<open>The table has an AUTOINCREMENT key, whose last value \<open>sqlite_sequence\<close> keeps, a capacity
  trigger, and a CHECK on the name and the hash.\<close>

definition insert_service_token :: "service_token_row \<Rightarrow> db \<Rightarrow> db_error + int \<times> db" where
  "insert_service_token t d =
     (let i = max (service_token_seq d) (if service_tokens d = [] then 0 else Max (set (map tok_id (service_tokens d)))) + 1 in
      if MAX_SERVICE_TOKENS \<le> length (service_tokens d) then Inl ConstraintTrigger
      else if \<not> (dropWhile (\<lambda>c. c = 32) (tok_name t) = tok_name t \<and> trim_end_matches (\<lambda>c. c = 32) (tok_name t) = tok_name t
                  \<and> 1 \<le> length (tok_name t) \<and> length (tok_name t) \<le> 80 \<and> hash_text (tok_token_hash t) \<and> tok_scope_mask t = 1)
      then Inl ConstraintCheck
      else if sql_exists (\<lambda>x. eq_ignore_ascii_case (tok_name x) (tok_name t) \<or> tok_token_hash x = tok_token_hash t) (service_tokens d)
      then Inl ConstraintUnique
      else if \<not> sql_exists (\<lambda>a. adm_id a = tok_created_by t) (admins d) then Inl ConstraintForeignKey
      else Inr (i, d\<lparr>service_tokens := service_tokens d @ [t\<lparr>tok_id := i\<rparr>], service_token_seq := i\<rparr>))"

definition create_service_token ::
  "(rstr \<Rightarrow> rstr) \<Rightarrow> int \<Rightarrow> rstr \<Rightarrow> rstr \<Rightarrow> rstr \<Rightarrow> instant option \<Rightarrow> instant \<Rightarrow> db
     \<Rightarrow> db_error + (service_token_creation_outcome \<times> required_audit_event list) \<times> db" where
  "create_service_token th admin expected name token expires now d =
     (if (case expires of None \<Rightarrow> False | Some e \<Rightarrow> e \<le> now) then Inl InvalidQuery
      else case admin_by_id admin d of
        None \<Rightarrow> Inl QueryReturnedNoRows
      | Some a \<Rightarrow>
          if adm_password_hash a \<noteq> expected then Inr ((service_token_creation_outcome.ReauthenticationRejected, []), d)
          else if sql_exists (\<lambda>t. eq_ignore_ascii_case (tok_name t) name) (service_tokens d)
          then Inr ((NameConflict, []), d)
          else if MAX_SERVICE_TOKENS \<le> length (service_tokens d) then Inr ((CapacityReached, []), d)
          else case insert_service_token \<lparr>tok_id = 0, tok_name = name, tok_token_hash = th token, tok_scope_mask = 1,
                      tok_created_by = admin, tok_created_at = now, tok_expires_at = expires, tok_last_used_at = None\<rparr> d of
            Inl e \<Rightarrow> Inl e
          | Inr (i, d1) \<Rightarrow>
              Inr ((service_token_creation_outcome.Created \<lparr>st_id = i, st_name = name,
                      st_scope_mask = SERVICE_TOKEN_SCOPE_MONITORING_READ, st_created_by = admin,
                      st_created_by_username = adm_username a, st_created_at = now, st_expires_at = expires,
                      st_last_used_at = None\<rparr>,
                    [audit_event ServiceTokenCreated (Some (dec_int i)) (Some (lit ''scope=monitoring:read''))]), d1))"

definition create_service_token_for_mfa_session ::
  "(rstr \<Rightarrow> rstr) \<Rightarrow> (rstr \<Rightarrow> rstr option) \<Rightarrow> mfa_session_proof \<Rightarrow> int \<Rightarrow> rstr \<Rightarrow> rstr \<Rightarrow> rstr \<Rightarrow> instant option
     \<Rightarrow> audit_context \<Rightarrow> instant \<Rightarrow> db \<Rightarrow> service_token_creation_outcome session_bound outcome" where
  "create_service_token_for_mfa_session th decode proof idle expected name token expires ctx now d =
     (if \<not> valid_service_token_name name \<or> \<not> valid_service_token decode token then (Inl InvalidQuery, d)
      else required_transaction_for_mfa_session proof idle now ctx
             (create_service_token th (prf_admin_id proof) expected name token expires now) d)"

definition map_service_token :: "admin_row \<Rightarrow> service_token_row \<Rightarrow> service_token" where
  "map_service_token a t = \<lparr>st_id = tok_id t, st_name = tok_name t, st_scope_mask = tok_scope_mask t,
     st_created_by = tok_created_by t, st_created_by_username = adm_username a, st_created_at = tok_created_at t,
     st_expires_at = tok_expires_at t, st_last_used_at = tok_last_used_at t\<rparr>"

definition list_service_tokens :: "db \<Rightarrow> service_token list" where
  "list_service_tokens d =
     List.map_filter (\<lambda>t. map_option (\<lambda>a. map_service_token a t) (admin_by_id (tok_created_by t) d))
       (rev (sort_key tok_id (service_tokens d)))"

section \<open>Authorizing\<close>

definition touch_service_token :: "int \<Rightarrow> instant \<Rightarrow> db \<Rightarrow> db" where
  "touch_service_token i now d =
     d\<lparr>service_tokens := sql_update (\<lambda>t. tok_id t = i \<and> unexpired (tok_expires_at t) now
          \<and> (case tok_last_used_at t of None \<Rightarrow> True
             | Some u \<Rightarrow> u \<le> now - seconds SERVICE_TOKEN_TOUCH_INTERVAL_SECONDS))
        (tok_last_used_at_update (\<lambda>_. Some now)) (service_tokens d)\<rparr>"

definition authorize_service_token_at_after_lookup ::
  "(rstr \<Rightarrow> rstr) \<Rightarrow> (rstr \<Rightarrow> rstr option) \<Rightarrow> rstr \<Rightarrow> int \<Rightarrow> instant \<Rightarrow> (db \<Rightarrow> db) \<Rightarrow> db
     \<Rightarrow> service_token_authorization_outcome outcome" where
  "authorize_service_token_at_after_lookup th decode token required now after_lookup d =
     (if required \<le> 0 then (Inl InvalidQuery, d)
      else if \<not> valid_service_token decode token
      then (Inr service_token_authorization_outcome.Unauthorized, d)
      else case sql_first (\<lambda>t. tok_token_hash t = th token) (service_tokens d) of
        None \<Rightarrow> (Inr service_token_authorization_outcome.Unauthorized, d)
      | Some t \<Rightarrow>
          if \<not> unexpired (tok_expires_at t) now
          then (Inr service_token_authorization_outcome.Unauthorized, d)
          else if tok_scope_mask t AND required \<noteq> required then (Inr InsufficientScope, d)
          else
            let d1 = after_lookup d in
            (Inr (service_token_authorization_outcome.Authorized (tok_id t)),
             if (case tok_last_used_at t of None \<Rightarrow> True
                 | Some u \<Rightarrow> u \<le> now - seconds SERVICE_TOKEN_TOUCH_INTERVAL_SECONDS)
             then touch_service_token (tok_id t) now d1 else d1))"

section \<open>Revoking\<close>

definition revoke_service_token :: "int \<Rightarrow> db \<Rightarrow> db_error + (bool \<times> required_audit_event list) \<times> db" where
  "revoke_service_token i d =
     (if \<not> sql_exists (\<lambda>t. tok_id t = i) (service_tokens d) then Inr ((False, []), d)
      else if sql_count (\<lambda>t. tok_id t = i) (service_tokens d) \<noteq> 1 then Inl InvalidQuery
      else Inr ((True, [audit_event ServiceTokenRevoked (Some (dec_int i)) None]),
                d\<lparr>service_tokens := sql_delete (\<lambda>t. tok_id t = i) (service_tokens d)\<rparr>))"

definition revoke_all_service_tokens_and_audit :: "audit_context \<Rightarrow> instant \<Rightarrow> db \<Rightarrow> nat outcome" where
  "revoke_all_service_tokens_and_audit ctx now d =
     (let n = length (service_tokens d) in
      commit_audited now ctx [audit_event ServiceTokensRevokedAll None (Some (lit ''count='' @ dec_nat n))] n d
        (d\<lparr>service_tokens := []\<rparr>))"

section \<open>Every schedule of token operations\<close>

inductive token_step :: "(rstr \<Rightarrow> rstr) \<Rightarrow> (rstr \<Rightarrow> rstr option) \<Rightarrow> int \<Rightarrow> db \<Rightarrow> db \<Rightarrow> bool" for th decode idle where
  create: "create_service_token_for_mfa_session th decode pf idle expected name token expires ctx now d = (out, d')
      \<Longrightarrow> token_step th decode idle d d'"
| touch: "d' = touch_service_token i now d \<Longrightarrow> token_step th decode idle d d'"
| revoke: "required_transaction_for_mfa_session pf idle now ctx (revoke_service_token i) d = (out', d')
      \<Longrightarrow> token_step th decode idle d d'"
| revoke_all: "revoke_all_service_tokens_and_audit ctx now d = (n, d') \<Longrightarrow> token_step th decode idle d d'"
| environment: "service_tokens d' = service_tokens d \<Longrightarrow> service_token_seq d' = service_token_seq d
      \<Longrightarrow> token_step th decode idle d d'"

definition wf_tokens :: "service_token_row list \<Rightarrow> bool" where
  "wf_tokens rows = distinct (map tok_id rows)"

interpretation token_table: keyed_table tok_id wf_tokens
  by unfold_locales (simp add: wf_tokens_def)

definition tokens_ok :: "db \<Rightarrow> bool" where
  "tokens_ok d \<longleftrightarrow> wf_tokens (service_tokens d) \<and> distinct (map tok_token_hash (service_tokens d))
     \<and> length (service_tokens d) \<le> MAX_SERVICE_TOKENS \<and> (\<forall>t\<in>set (service_tokens d). tok_id t \<le> service_token_seq d)"

definition tokens_later :: "db \<Rightarrow> db \<Rightarrow> bool" where
  "tokens_later d d' \<longleftrightarrow> tokens_ok d' \<and> service_token_seq d \<le> service_token_seq d'
     \<and> (\<forall>t\<in>set (service_tokens d'). service_token_seq d < tok_id t \<or> tok_id t \<in> tok_id ` set (service_tokens d))"

lemma tokens_later_refl: "tokens_ok d \<Longrightarrow> tokens_later d d"
  by (simp add: tokens_later_def)

lemma tokens_later_trans: "tokens_later a b \<Longrightarrow> tokens_later b c \<Longrightarrow> tokens_later a c"
  unfolding tokens_later_def by (fastforce simp: image_iff)

lemma tokens_later_frame:
  "tokens_later d d1 \<Longrightarrow> service_tokens d' = service_tokens d1 \<Longrightarrow> service_token_seq d' = service_token_seq d1
     \<Longrightarrow> tokens_later d d'"
  by (simp add: tokens_later_def tokens_ok_def)

lemma insert_token_later:
  assumes ok: "tokens_ok d" and ins: "insert_service_token t d = Inr (i, d')"
  shows "tokens_later d d'"
proof -
  let ?m = "if service_tokens d = [] then 0 else Max (set (map tok_id (service_tokens d)))"
  have d': "d' = d\<lparr>service_tokens := service_tokens d @ [t\<lparr>tok_id := i\<rparr>], service_token_seq := i\<rparr>"
    and i: "i = max (service_token_seq d) ?m + 1"
    and uniq: "\<forall>x\<in>set (service_tokens d). tok_token_hash x \<noteq> tok_token_hash t"
    and room: "length (service_tokens d) < MAX_SERVICE_TOKENS"
    using ins unfolding insert_service_token_def Let_def by (auto simp: sql_exists_iff split: if_splits)
  have lt: "service_token_seq d < i" using i by simp
  have "\<forall>x\<in>set (service_tokens d). tok_id x < i" using ok lt by (fastforce simp: tokens_ok_def)
  then show ?thesis
    using ok uniq lt room token_table.insert_fresh[of "service_tokens d" "t\<lparr>tok_id := i\<rparr>"]
    by (auto simp: tokens_later_def tokens_ok_def d')
qed

lemma commit_later:
  assumes "commit_audited now ctx evs out d d1 = (r, d')" "tokens_ok d" "tokens_later d d1"
  shows "tokens_later d d'"
  using assms(1)
proof (cases rule: commit_audited_cases)
  case (committed new)
  then show ?thesis using tokens_later_frame[OF assms(3), of d'] by simp
qed (simp add: tokens_later_refl[OF assms(2)])

lemma session_later:
  assumes "required_transaction_for_mfa_session proof idle now ctx operation d = (r, d')" "tokens_ok d"
    and "\<And>x evs d1. operation d = Inr ((x, evs), d1) \<Longrightarrow> tokens_later d d1"
  shows "tokens_later d d'"
  using assms commit_later[OF _ assms(2)] tokens_later_refl[OF assms(2)]
  by (fastforce simp: required_transaction_for_mfa_session_def split: sum.splits if_splits)

lemma create_token_later:
  assumes "create_service_token th admin expected name token expires now d = Inr ((x, evs), d')" "tokens_ok d"
  shows "tokens_later d d'"
  using assms insert_token_later[OF assms(2)] tokens_later_refl[OF assms(2)]
  unfolding create_service_token_def by (auto split: if_splits option.splits sum.splits)

lemma delete_tokens_later:
  "tokens_ok d \<Longrightarrow> tokens_later d (d\<lparr>service_tokens := sql_delete P (service_tokens d)\<rparr>)"
  using token_table.delete[of "service_tokens d" P] order_trans[OF length_filter_le[of "\<lambda>r. \<not> P r" "service_tokens d"]]
  by (auto simp: tokens_later_def tokens_ok_def sql_delete_def distinct_map_filter)

lemma touch_keys [simp]:
  "map tok_id (service_tokens (touch_service_token i now d)) = map tok_id (service_tokens d)"
  "map tok_token_hash (service_tokens (touch_service_token i now d)) = map tok_token_hash (service_tokens d)"
  "length (service_tokens (touch_service_token i now d)) = length (service_tokens d)"
  "service_token_seq (touch_service_token i now d) = service_token_seq d"
  by (simp_all add: touch_service_token_def sql_update_def)

lemma touch_later:
  assumes "tokens_ok d"
  shows "tokens_later d (touch_service_token i now d)"
proof -
  have "tok_id ` set (service_tokens (touch_service_token i now d)) = tok_id ` set (service_tokens d)"
    using arg_cong[OF touch_keys(1)[of i now d], of set] by (simp only: set_map)
  then have "\<forall>t\<in>set (service_tokens (touch_service_token i now d)). tok_id t \<in> tok_id ` set (service_tokens d)"
    by blast
  then show ?thesis
    using assms unfolding tokens_later_def tokens_ok_def wf_tokens_def by (simp, fastforce)
qed

lemma token_step_later: "token_step th decode idle d d' \<Longrightarrow> tokens_ok d \<Longrightarrow> tokens_later d d'"
proof (induction rule: token_step.induct)
  case (create pf expected name token expires ctx now d out d')
  then show ?case
    using tokens_later_refl[of d] unfolding create_service_token_for_mfa_session_def
    by (auto split: if_splits intro: session_later create_token_later)
next
  case (revoke pf now ctx i d out' d')
  then show ?case
    by (elim session_later) (auto simp: revoke_service_token_def tokens_later_refl delete_tokens_later split: if_splits)
next
  case (revoke_all ctx now d n d')
  have "tokens_later d (d\<lparr>service_tokens := []\<rparr>)"
    using delete_tokens_later[OF revoke_all(2), of "\<lambda>_. True"] by (simp add: sql_delete_def)
  then show ?case
    using revoke_all(1) unfolding revoke_all_service_tokens_and_audit_def Let_def
    by (elim commit_later[OF _ revoke_all(2)])
qed (auto intro: touch_later tokens_later_frame[OF tokens_later_refl])

lemma token_steps_later:
  assumes "(token_step th decode idle)\<^sup>*\<^sup>* d d'" "tokens_ok d"
  shows "tokens_later d d'"
  using assms
proof (induction rule: rtranclp_induct)
  case (step y z)
  then have "tokens_later d y" "tokens_later y z" using token_step_later[of th decode idle y z] by (simp_all add: tokens_later_def)
  then show ?case by (rule tokens_later_trans)
qed (rule tokens_later_refl)

lemma authorize_result:
  assumes "authorize_service_token_at_after_lookup th decode token required now after_lookup d
    = (Inr (service_token_authorization_outcome.Authorized i), d')"
  shows "\<exists>t\<in>set (service_tokens d). tok_id t = i \<and> tok_token_hash t = th token \<and> unexpired (tok_expires_at t) now"
  using assms unfolding authorize_service_token_at_after_lookup_def Let_def
  by (auto split: if_splits option.splits dest!: sql_first_Some)

lemma revoke_effect:
  assumes "required_transaction_for_mfa_session pf idle now ctx (revoke_service_token i) d = (Inr (session_bound.Authorized True), d')"
    and "tokens_ok d"
  shows "tokens_later d d'" "i \<le> service_token_seq d'" "i \<notin> tok_id ` set (service_tokens d')"
proof -
  obtain evs d1 new where op: "revoke_service_token i d = Inr ((True, evs), d1)" and d': "d' = d1\<lparr>audit := audit d1 @ new\<rparr>"
    using assms(1) by (rule authorized_effect)
  have ex: "sql_exists (\<lambda>t. tok_id t = i) (service_tokens d)"
    and d1: "d1 = d\<lparr>service_tokens := sql_delete (\<lambda>t. tok_id t = i) (service_tokens d)\<rparr>"
    using op unfolding revoke_service_token_def by (auto split: if_splits)
  show "tokens_later d d'"
    using tokens_later_frame[OF delete_tokens_later[OF assms(2)], of d'] d' d1 by simp
  show "i \<le> service_token_seq d'" using ex assms(2) d' d1 by (auto simp: sql_exists_iff tokens_ok_def)
  show "i \<notin> tok_id ` set (service_tokens d')" using d' d1 by (auto simp: sql_delete_def)
qed

text \<open>C39: A revoked API token never comes back. After an administrator's revocation of token \<open>i\<close> commits,
  whatever creations, revocations and late updates of the use time by requests that were authorized
  before follow in whatever order, no later request is authorized as token \<open>i\<close>, no row has its id (ids
  are not reused), and there are never more than 64 tokens.\<close>

theorem revoked_token_stays_revoked:
  assumes "tokens_ok d"
    and "required_transaction_for_mfa_session pf idle now ctx (revoke_service_token i) d
           = (Inr (session_bound.Authorized True), d1)"
    and "(token_step th decode idle)\<^sup>*\<^sup>* d1 d2"
  shows "fst (authorize_service_token_at_after_lookup th decode token required later after_lookup d2)
           \<noteq> Inr (service_token_authorization_outcome.Authorized i)
         \<and> i \<notin> tok_id ` set (service_tokens d2) \<and> length (service_tokens d2) \<le> 64"
proof (intro conjI)
  have d1: "tokens_ok d1" "i \<le> service_token_seq d1" "i \<notin> tok_id ` set (service_tokens d1)"
    using revoke_effect[OF assms(2,1)] by (simp_all add: tokens_later_def)
  have later: "tokens_later d1 d2" using token_steps_later[OF assms(3) d1(1)] .
  show gone: "i \<notin> tok_id ` set (service_tokens d2)" using later d1(2,3) by (fastforce simp: tokens_later_def)
  show "length (service_tokens d2) \<le> 64" using later by (simp add: tokens_later_def tokens_ok_def MAX_SERVICE_TOKENS_def)
  show "fst (authorize_service_token_at_after_lookup th decode token required later after_lookup d2)
          \<noteq> Inr (service_token_authorization_outcome.Authorized i)"
    using gone authorize_result[of th decode token required later after_lookup d2 i] by (auto simp: prod_eq_iff)
qed

definition example_hash :: "rstr \<Rightarrow> rstr" where
  "example_hash token = replicate (64 - length token mod 64) 48 @ replicate (length token mod 64) 49"

definition example_decode :: "rstr \<Rightarrow> rstr option" where
  "example_decode text = Some (replicate 32 (hd (text @ [0])))"

definition example_token :: rstr where
  "example_token = SERVICE_TOKEN_PREFIX @ [65]"

definition example_token_db :: db where
  "example_token_db = snd (create_service_token_for_mfa_session example_hash example_decode example_proof 30 (lit ''p'')
     (lit ''ci'') example_token None example_ctx 2 example_admin_db)"

definition example_revoked_db :: db where
  "example_revoked_db = snd (required_transaction_for_mfa_session example_proof 30 3 example_ctx (revoke_service_token 1) example_token_db)"

theorem revoked_token_stays_revoked_witness:
  "fst (authorize_service_token_at_after_lookup example_hash example_decode example_token 1 3 (\<lambda>d. d) example_token_db)
     = Inr (service_token_authorization_outcome.Authorized 1)
   \<and> fst (authorize_service_token_at_after_lookup example_hash example_decode example_token 1 4 (\<lambda>d. d)
       (touch_service_token 1 4 example_revoked_db)) \<noteq> Inr (service_token_authorization_outcome.Authorized 1)"
proof (intro conjI)
  show "fst (authorize_service_token_at_after_lookup example_hash example_decode example_token 1 3 (\<lambda>d. d) example_token_db)
     = Inr (service_token_authorization_outcome.Authorized 1)" by code_simp
  have ok: "tokens_ok example_token_db" by code_simp
  have "fst (required_transaction_for_mfa_session example_proof 30 3 example_ctx (revoke_service_token 1) example_token_db)
      = Inr (session_bound.Authorized True)" by code_simp
  then have rev: "required_transaction_for_mfa_session example_proof 30 3 example_ctx (revoke_service_token 1) example_token_db
      = (Inr (session_bound.Authorized True), example_revoked_db)" by (simp add: example_revoked_db_def prod_eq_iff)
  have "(token_step example_hash example_decode 30)\<^sup>*\<^sup>* example_revoked_db (touch_service_token 1 4 example_revoked_db)"
    by (rule r_into_rtranclp, rule token_step.touch, rule refl)
  from revoked_token_stays_revoked[OF ok rev this]
  show "fst (authorize_service_token_at_after_lookup example_hash example_decode example_token 1 4 (\<lambda>d. d)
       (touch_service_token 1 4 example_revoked_db)) \<noteq> Inr (service_token_authorization_outcome.Authorized 1)" by (rule conjunct1)
qed

end
