(* ===== verification/Monitoring.thy ===== *)
theory Monitoring
  imports Share_Listing Transfer_Leases "HOL-Library.List_Lexorder"
begin

text \<open>
  What monitoring reads (\<open>src/src/db/service_tokens/monitoring.rs\<close>,
  \<open>src/src/db/transfers/statistics.rs\<close>): the summary of all shares and of the transfers of a
  month, and the paged list of shares with their status. \<open>month\<close> formats an instant as year and
  month.
\<close>

section \<open>Status of a share\<close>

datatype monitoring_share_list_status = All | Available | Inactive | Expired | DownloadLimitReached

datatype monitoring_share_status = Available | Inactive | Expired | DownloadLimitReached

definition monitoring_share_list_status_parse :: "rstr \<Rightarrow> monitoring_share_list_status option" where
  "monitoring_share_list_status_parse v =
     (if v = lit ''all'' then Some monitoring_share_list_status.All
      else if v = lit ''available'' then Some monitoring_share_list_status.Available
      else if v = lit ''inactive'' then Some monitoring_share_list_status.Inactive
      else if v = lit ''expired'' then Some monitoring_share_list_status.Expired
      else if v = lit ''download_limit_reached'' then Some monitoring_share_list_status.DownloadLimitReached
      else None)"

primrec monitoring_share_list_status_as_str :: "monitoring_share_list_status \<Rightarrow> rstr" where
  "monitoring_share_list_status_as_str monitoring_share_list_status.All = lit ''all''"
| "monitoring_share_list_status_as_str monitoring_share_list_status.Available = lit ''available''"
| "monitoring_share_list_status_as_str monitoring_share_list_status.Inactive = lit ''inactive''"
| "monitoring_share_list_status_as_str monitoring_share_list_status.Expired = lit ''expired''"
| "monitoring_share_list_status_as_str monitoring_share_list_status.DownloadLimitReached = lit ''download_limit_reached''"

primrec monitoring_share_status_as_str :: "monitoring_share_status \<Rightarrow> rstr" where
  "monitoring_share_status_as_str monitoring_share_status.Available = lit ''available''"
| "monitoring_share_status_as_str monitoring_share_status.Inactive = lit ''inactive''"
| "monitoring_share_status_as_str monitoring_share_status.Expired = lit ''expired''"
| "monitoring_share_status_as_str monitoring_share_status.DownloadLimitReached = lit ''download_limit_reached''"

definition parse_monitoring_status :: "rstr \<Rightarrow> db_error + monitoring_share_status" where
  "parse_monitoring_status v =
     (if v = lit ''available'' then Inr monitoring_share_status.Available
      else if v = lit ''inactive'' then Inr monitoring_share_status.Inactive
      else if v = lit ''expired'' then Inr monitoring_share_status.Expired
      else if v = lit ''download_limit_reached'' then Inr monitoring_share_status.DownloadLimitReached
      else Inl InvalidQuery)"

definition has_expired :: "instant \<Rightarrow> share_row \<Rightarrow> bool" where
  "has_expired now s \<longleftrightarrow> (case sh_expires_at s of None \<Rightarrow> False | Some t \<Rightarrow> t \<le> now)"

definition is_unexpired :: "instant \<Rightarrow> share_row \<Rightarrow> bool" where
  "is_unexpired now s \<longleftrightarrow> (case sh_expires_at s of None \<Rightarrow> True | Some t \<Rightarrow> now < t)"

definition limit_reached :: "share_row \<Rightarrow> bool" where
  "limit_reached s \<longleftrightarrow> (case sh_max_downloads s of None \<Rightarrow> False | Some m \<Rightarrow> m \<le> sh_download_count s)"

definition downloads_left :: "share_row \<Rightarrow> bool" where
  "downloads_left s \<longleftrightarrow> (case sh_max_downloads s of None \<Rightarrow> True | Some m \<Rightarrow> sh_download_count s < m)"

text \<open>The CASE expression of the list query.\<close>

definition status_column :: "instant \<Rightarrow> share_row \<Rightarrow> rstr" where
  "status_column now s =
     (if \<not> sh_active s then lit ''inactive''
      else if has_expired now s then lit ''expired''
      else if limit_reached s then lit ''download_limit_reached''
      else lit ''available'')"

text \<open>The WHERE predicates of the five queries.\<close>

fun monitoring_predicate :: "monitoring_share_list_status \<Rightarrow> instant \<Rightarrow> share_row \<Rightarrow> bool" where
  "monitoring_predicate monitoring_share_list_status.All now s = True"
| "monitoring_predicate monitoring_share_list_status.Inactive now s = (\<not> sh_active s)"
| "monitoring_predicate monitoring_share_list_status.Expired now s = (sh_active s \<and> has_expired now s)"
| "monitoring_predicate monitoring_share_list_status.DownloadLimitReached now s =
     (sh_active s \<and> is_unexpired now s \<and> limit_reached s)"
| "monitoring_predicate monitoring_share_list_status.Available now s =
     (sh_active s \<and> is_unexpired now s \<and> downloads_left s)"

section \<open>Summary\<close>

record transfer_counts =
  tc_month :: rstr
  tc_download :: nat
  tc_zip_download :: nat
  tc_preview :: nat

record summary_data =
  ms_total :: nat
  ms_available :: nat
  ms_inactive :: nat
  ms_expired :: nat
  ms_download_limit_reached :: nat
  ms_protected :: nat
  ms_transfers :: transfer_counts
  ms_statistics_started_at :: instant

definition transfer_statistics_started_at :: "db \<Rightarrow> db_error + instant" where
  "transfer_statistics_started_at d =
     (case transfer_statistics d of [] \<Rightarrow> Inl QueryReturnedNoRows | t # _ \<Rightarrow> Inr t)"

definition monthly_sum :: "rstr \<Rightarrow> rstr \<Rightarrow> db \<Rightarrow> nat" where
  "monthly_sum m action d =
     sum_list (map (\<lambda>((_, a), n). if a = action then n else 0) (filter (\<lambda>((m', _), _). m' = m) (monthly_counts d)))"

definition monitoring_summary :: "(instant \<Rightarrow> rstr) \<Rightarrow> instant \<Rightarrow> db \<Rightarrow> db_error + summary_data" where
  "monitoring_summary month now d =
     (let n = (\<lambda>P. sum_list (map (\<lambda>s. if P s then 1 else 0) (shares d))) in
      case transfer_statistics_started_at d of
        Inl e \<Rightarrow> Inl e
      | Inr started \<Rightarrow>
          Inr \<lparr>ms_total = length (shares d),
               ms_available = n (\<lambda>s. sh_active s \<and> is_unexpired now s \<and> downloads_left s),
               ms_inactive = n (\<lambda>s. \<not> sh_active s),
               ms_expired = n (\<lambda>s. sh_active s \<and> has_expired now s),
               ms_download_limit_reached = n (\<lambda>s. sh_active s \<and> is_unexpired now s \<and> limit_reached s),
               ms_protected = n (\<lambda>s. sh_password_hash s \<noteq> None),
               ms_transfers = \<lparr>tc_month = month now, tc_download = monthly_sum (month now) (lit ''download'') d,
                 tc_zip_download = monthly_sum (month now) (lit ''zip_download'') d,
                 tc_preview = monthly_sum (month now) (lit ''preview'') d\<rparr>,
               ms_statistics_started_at = started\<rparr>)"

text \<open>The loop over the rows of a month; an action that is none of the three is an error.\<close>

fun collect_counts :: "(rstr \<times> nat) list \<Rightarrow> transfer_counts \<Rightarrow> db_error + transfer_counts" where
  "collect_counts [] counts = Inr counts"
| "collect_counts ((action, n) # rows) counts =
     (if action = lit ''download'' then collect_counts rows (counts\<lparr>tc_download := n\<rparr>)
      else if action = lit ''zip_download'' then collect_counts rows (counts\<lparr>tc_zip_download := n\<rparr>)
      else if action = lit ''preview'' then collect_counts rows (counts\<lparr>tc_preview := n\<rparr>)
      else Inl InvalidQuery)"

definition transfer_monthly_counts :: "rstr \<Rightarrow> db \<Rightarrow> db_error + transfer_counts" where
  "transfer_monthly_counts m d =
     (if \<not> valid_utc_month m then Inl (InvalidParameterName (lit ''month must use UTC YYYY-MM''))
      else collect_counts
        (sort_key fst (map (\<lambda>((_, a), n). (a, n)) (filter (\<lambda>((m', _), _). m' = m) (monthly_counts d))))
        \<lparr>tc_month = m, tc_download = 0, tc_zip_download = 0, tc_preview = 0\<rparr>)"

definition current_transfer_monthly_counts :: "(instant \<Rightarrow> rstr) \<Rightarrow> instant \<Rightarrow> db \<Rightarrow> db_error + transfer_counts" where
  "current_transfer_monthly_counts month now d = transfer_monthly_counts (month now) d"

section \<open>The list\<close>

record monitoring_share_list_options =
  mo_status :: monitoring_share_list_status
  mo_cursor :: "int option"
  mo_limit :: nat
  mo_now :: instant

record monitoring_share =
  mn_id :: int
  mn_status :: monitoring_share_status
  mn_permission :: permission
  mn_is_directory :: bool
  mn_password_protected :: bool
  mn_created_at :: instant
  mn_expires_at :: "instant option"
  mn_download_count :: nat
  mn_max_downloads :: "nat option"
  mn_max_upload_size_bytes :: "nat option"
  mn_uploaded_bytes :: nat
  mn_max_upload_total_size_bytes :: "nat option"
  mn_uploaded_files :: nat
  mn_max_upload_files :: "nat option"

record monitoring_share_page =
  mp_shares :: "monitoring_share list"
  mp_next_cursor :: "int option"

definition monitoring_share_query_for ::
  "monitoring_share_list_status \<Rightarrow> int option \<Rightarrow> instant \<Rightarrow> nat \<Rightarrow> share_row list \<Rightarrow> share_row list" where
  "monitoring_share_query_for status cursor now limit rows =
     take limit (sort_key (\<lambda>s. - sh_id s)
       (filter (\<lambda>s. monitoring_predicate status now s
          \<and> (case cursor of None \<Rightarrow> True | Some c \<Rightarrow> sh_id s < c)) rows))"

definition map_monitoring_share :: "instant \<Rightarrow> db \<Rightarrow> share_row \<Rightarrow> db_error + monitoring_share" where
  "map_monitoring_share now d s =
     (case parse_monitoring_status (status_column now s) of
        Inl e \<Rightarrow> Inl e
      | Inr status \<Rightarrow> Inr \<lparr>mn_id = sh_id s, mn_status = status, mn_permission = sh_permission s,
          mn_is_directory = sh_is_directory s, mn_password_protected = (sh_password_hash s \<noteq> None),
          mn_created_at = sh_created_at s, mn_expires_at = sh_expires_at s,
          mn_download_count = sh_download_count s, mn_max_downloads = sh_max_downloads s,
          mn_max_upload_size_bytes = sh_max_upload_size s,
          mn_uploaded_bytes = us_uploaded_bytes (usage_of d (sh_id s)),
          mn_max_upload_total_size_bytes = sh_max_upload_total_size s,
          mn_uploaded_files = us_uploaded_files (usage_of d (sh_id s)),
          mn_max_upload_files = sh_max_upload_files s\<rparr>)"

definition list_monitoring_share_page ::
  "monitoring_share_list_options \<Rightarrow> db \<Rightarrow> db_error + monitoring_share_page" where
  "list_monitoring_share_page options d =
     (let limit = clamp_limit (mo_limit options) in
      case collect_results (map (map_monitoring_share (mo_now options) d)
             (monitoring_share_query_for (mo_status options) (mo_cursor options) (mo_now options) (limit + 1) (shares d))) of
        Inl e \<Rightarrow> Inl e
      | Inr all_shares \<Rightarrow>
          if limit < length all_shares then
            (let page = butlast all_shares in
             Inr \<lparr>mp_shares = page, mp_next_cursor = (if page = [] then None else Some (mn_id (last page)))\<rparr>)
          else Inr \<lparr>mp_shares = all_shares, mp_next_cursor = None\<rparr>)"

section \<open>Properties\<close>

lemma lit_status_distinct [simp]:
  "lit ''available'' \<noteq> lit ''inactive''" "lit ''available'' \<noteq> lit ''expired''"
  "lit ''available'' \<noteq> lit ''download_limit_reached''" "lit ''inactive'' \<noteq> lit ''expired''"
  "lit ''inactive'' \<noteq> lit ''download_limit_reached''" "lit ''expired'' \<noteq> lit ''download_limit_reached''"
  "lit ''available'' \<noteq> lit ''all''" "lit ''inactive'' \<noteq> lit ''all''" "lit ''expired'' \<noteq> lit ''all''"
  "lit ''download_limit_reached'' \<noteq> lit ''all''"
  by code_simp+

lemma parse_status_as_str: "parse_monitoring_status (monitoring_share_status_as_str st) = Inr st"
  by (cases st) (simp_all add: parse_monitoring_status_def lit_status_distinct [symmetric])

lemma status_column_total: "\<exists>st. status_column now s = monitoring_share_status_as_str st"
  unfolding status_column_def
  by (metis monitoring_share_status_as_str.simps)

text \<open>The five predicates select exactly the rows whose status column is the requested one.\<close>

lemma predicate_iff_column:
  "monitoring_predicate st now s \<longleftrightarrow> st = monitoring_share_list_status.All
     \<or> status_column now s = monitoring_share_list_status_as_str st"
  by (cases st) (auto simp: status_column_def has_expired_def is_unexpired_def limit_reached_def
      downloads_left_def lit_status_distinct [symmetric] split: option.splits)

lemma sum_list_indicator: "sum_list (map (\<lambda>s. if P s then 1 else 0) xs) = length (filter P xs)"
  by (induction xs) auto

definition summary_count :: "monitoring_share_list_status \<Rightarrow> summary_data \<Rightarrow> nat" where
  "summary_count st s = (case st of
     monitoring_share_list_status.All \<Rightarrow> ms_total s
   | monitoring_share_list_status.Available \<Rightarrow> ms_available s
   | monitoring_share_list_status.Inactive \<Rightarrow> ms_inactive s
   | monitoring_share_list_status.Expired \<Rightarrow> ms_expired s
   | monitoring_share_list_status.DownloadLimitReached \<Rightarrow> ms_download_limit_reached s)"

lemma summary_count_filter:
  assumes "monitoring_summary month now d = Inr s"
  shows "summary_count st s = length (filter (monitoring_predicate st now) (shares d))"
proof -
  have *: "(\<Sum>x\<leftarrow>shares d. if monitoring_predicate st now x then 1 else 0) = length (filter (monitoring_predicate st now) (shares d))"
    for st by (rule sum_list_indicator)
  show ?thesis
    using assms *[of st] unfolding monitoring_summary_def Let_def
    by (cases st) (auto simp: summary_count_def split: sum.splits)
qed

lemma partition_four:
  "\<forall>x\<in>set xs. (P x \<and> \<not> Q x \<and> \<not> R x \<and> \<not> S x) \<or> (\<not> P x \<and> Q x \<and> \<not> R x \<and> \<not> S x)
     \<or> (\<not> P x \<and> \<not> Q x \<and> R x \<and> \<not> S x) \<or> (\<not> P x \<and> \<not> Q x \<and> \<not> R x \<and> S x)
   \<Longrightarrow> length xs = length (filter P xs) + length (filter Q xs) + length (filter R xs) + length (filter S xs)"
  by (induction xs) auto

lemma collect_results_Inr: "\<forall>x\<in>set xs. \<exists>y. f x = Inr y \<Longrightarrow> collect_results (map f xs) = Inr (map (projr \<circ> f) xs)"
  by (induction xs) auto

lemma map_monitoring_share_Inr:
  "\<exists>m. map_monitoring_share now d s = Inr m \<and> mn_id m = sh_id s
     \<and> monitoring_share_status_as_str (mn_status m) = status_column now s"
proof -
  obtain st where "status_column now s = monitoring_share_status_as_str st" using status_column_total by blast
  then show ?thesis by (simp add: map_monitoring_share_def parse_status_as_str)
qed

text \<open>C40: the monitoring numbers and lists agree. Each share is counted once: the total is the
  sum of the available, inactive, expired and exhausted shares. The number the summary reports
  for a status is the number of shares that the list of that status holds in all its pages, and
  a page of the list, read at the same time, lists the shares with exactly that status, newest
  first, from the cursor on, at most \<open>limit\<close> (between 1 and 200) of them, with a next cursor
  exactly when more of them follow.\<close>

theorem monitoring_agrees:
  assumes "monitoring_summary month (mo_now options) d = Inr s"
  defines "hits \<equiv> filter (\<lambda>r. mo_status options = monitoring_share_list_status.All
      \<or> status_column (mo_now options) r = monitoring_share_list_status_as_str (mo_status options)) (shares d)"
    and "rest \<equiv> \<lambda>rows. sort_key (\<lambda>r. - sh_id r)
      (filter (\<lambda>r. case mo_cursor options of None \<Rightarrow> True | Some c \<Rightarrow> sh_id r < c) rows)"
    and "limit \<equiv> min 200 (max 1 (mo_limit options))"
  shows "ms_total s = ms_available s + ms_inactive s + ms_expired s + ms_download_limit_reached s
    \<and> summary_count (mo_status options) s = length hits
    \<and> (\<exists>page. list_monitoring_share_page options d = Inr page
        \<and> map mn_id (mp_shares page) = map sh_id (take limit (rest hits))
        \<and> map (monitoring_share_status_as_str \<circ> mn_status) (mp_shares page)
            = map (status_column (mo_now options)) (take limit (rest hits))
        \<and> mp_next_cursor page = (if limit < length (rest hits) then Some (mn_id (last (mp_shares page))) else None))"
proof (intro conjI)
  let ?P = "\<lambda>st. monitoring_predicate st (mo_now options)"
  note count = summary_count_filter[OF assms(1)]
  have "length (shares d) = length (filter (?P monitoring_share_list_status.Available) (shares d))
      + length (filter (?P monitoring_share_list_status.Inactive) (shares d))
      + length (filter (?P monitoring_share_list_status.Expired) (shares d))
      + length (filter (?P monitoring_share_list_status.DownloadLimitReached) (shares d))"
    by (rule partition_four)
      (auto simp: has_expired_def is_unexpired_def limit_reached_def downloads_left_def split: option.splits)
  then show "ms_total s = ms_available s + ms_inactive s + ms_expired s + ms_download_limit_reached s"
    unfolding count[of monitoring_share_list_status.Available, symmetric] count[of monitoring_share_list_status.Inactive, symmetric]
      count[of monitoring_share_list_status.Expired, symmetric] count[of monitoring_share_list_status.DownloadLimitReached, symmetric]
    using count[of monitoring_share_list_status.All] by (simp add: summary_count_def)
  have hits: "hits = filter (?P (mo_status options)) (shares d)"
    unfolding hits_def predicate_iff_column by simp
  then show "summary_count (mo_status options) s = length hits" using count by simp
  define f where "f = map_monitoring_share (mo_now options) d"
  have f: "\<exists>m. f r = Inr m \<and> mn_id m = sh_id r \<and> monitoring_share_status_as_str (mn_status m) = status_column (mo_now options) r" for r
    unfolding f_def by (rule map_monitoring_share_Inr)
  have proj: "mn_id (projr (f r)) = sh_id r"
    "monitoring_share_status_as_str (mn_status (projr (f r))) = status_column (mo_now options) r" for r
    using f[of r] by auto
  have lim: "clamp_limit (mo_limit options) = limit" "0 < limit" by (simp_all add: clamp_limit_def limit_def)
  have q: "monitoring_share_query_for (mo_status options) (mo_cursor options) (mo_now options) n (shares d) = take n (rest hits)" for n
    unfolding monitoring_share_query_for_def rest_def hits filter_filter by (simp add: conj_commute)
  have rows: "collect_results (map f (take (limit + 1) (rest hits))) = Inr (map (projr \<circ> f) (take (limit + 1) (rest hits)))"
    using f by (intro collect_results_Inr) blast
  let ?page = "map (projr \<circ> f) (take limit (rest hits))"
  have "list_monitoring_share_page options d = Inr \<lparr>mp_shares = ?page,
      mp_next_cursor = (if limit < length (rest hits) then Some (mn_id (last ?page)) else None)\<rparr>"
    unfolding list_monitoring_share_page_def Let_def lim q f_def[symmetric] rows sum.case
    using lim(2) by (cases "rest hits = []") (auto simp: map_butlast[symmetric] butlast_take)
  then show "\<exists>page. list_monitoring_share_page options d = Inr page
        \<and> map mn_id (mp_shares page) = map sh_id (take limit (rest hits))
        \<and> map (monitoring_share_status_as_str \<circ> mn_status) (mp_shares page)
            = map (status_column (mo_now options)) (take limit (rest hits))
        \<and> mp_next_cursor page = (if limit < length (rest hits) then Some (mn_id (last (mp_shares page))) else None)"
    by (simp add: o_def proj)
qed

definition example_monitored :: db where
  "example_monitored = empty_db\<lparr>shares := [example_share, example_share\<lparr>sh_id := 2, sh_active := False\<rparr>,
     example_share\<lparr>sh_id := 3, sh_download_count := 1\<rparr>]\<rparr>"

theorem monitoring_agrees_witness:
  "\<exists>page. list_monitoring_share_page
      \<lparr>mo_status = monitoring_share_list_status.DownloadLimitReached, mo_cursor = None, mo_limit = 5, mo_now = 1\<rparr> example_monitored
      = Inr page \<and> map mn_id (mp_shares page) = [3]"
proof -
  let ?o = "\<lparr>mo_status = monitoring_share_list_status.DownloadLimitReached, mo_cursor = None, mo_limit = 5, mo_now = 1\<rparr>"
  have "\<exists>s. monitoring_summary (\<lambda>_. lit ''2024-01'') (mo_now ?o) example_monitored = Inr s"
    by (simp add: monitoring_summary_def transfer_statistics_started_at_def example_monitored_def empty_db_def)
  then obtain s where s: "monitoring_summary (\<lambda>_. lit ''2024-01'') (mo_now ?o) example_monitored = Inr s" by blast
  have "map sh_id (take (min 200 (max 1 (mo_limit ?o))) (sort_key (\<lambda>r. - sh_id r)
     (filter (\<lambda>r. case mo_cursor ?o of None \<Rightarrow> True | Some c \<Rightarrow> sh_id r < c)
       (filter (\<lambda>r. mo_status ?o = monitoring_share_list_status.All
         \<or> status_column (mo_now ?o) r = monitoring_share_list_status_as_str (mo_status ?o)) (shares example_monitored))))) = [3]"
    by code_simp
  with monitoring_agrees[OF s] show ?thesis by fastforce
qed

end
