(* ===== verification/File_System.thy ===== *)
theory File_System
  imports Path_Security Share_Paths "HOL-Library.List_Lexorder" "HOL-Library.Finite_Map"
begin

text \<open>
  The storage under \<open>src/src/secure_fs\<close>: directory trees, the system calls of \<open>secure_fs/capability.rs\<close>,
  private names (\<open>secure_fs/model.rs\<close>), identity probes (\<open>secure_fs/identity.rs\<close>) and the journals of
  \<open>secure_fs/journal.rs\<close>.

  A program reads and writes the storage, the database and the set of active private names. Every system
  call takes the next fault of a list: it works, it fails without effect, its effect happens but the answer
  is lost, or the process stops before or after the effect. Errors of the storage itself (a missing or an
  existing name, a directory that is not empty) are always reported truthfully. The effects of a call are
  durable when it returns, so a \<open>sync\<close> can fail but changes nothing, and nobody else writes to the storage
  while an operation holds its lock. Serialization is an argument, the two functions for a path and the two
  for a journal entry.
\<close>

section \<open>Trees\<close>

type_synonym identity = "nat \<times> nat"

datatype node =
    FileNode identity "nat list"
  | DirNode identity "(rstr, node) fmap"
  | OtherNode identity

type_synonym entries = "(rstr, node) fmap"

datatype entry_kind = EntryFile | EntryDirectory

fun node_identity :: "node \<Rightarrow> identity" where
  "node_identity (FileNode i c) = i"
| "node_identity (DirNode i es) = i"
| "node_identity (OtherNode i) = i"

fun node_kind :: "node \<Rightarrow> entry_kind option" where
  "node_kind (FileNode i c) = Some EntryFile"
| "node_kind (DirNode i es) = Some EntryDirectory"
| "node_kind (OtherNode i) = None"

fun node_non_empty :: "node \<Rightarrow> bool" where
  "node_non_empty (DirNode i es) \<longleftrightarrow> es \<noteq> fmempty"
| "node_non_empty n \<longleftrightarrow> False"

fun get_dir :: "node \<Rightarrow> rstr list \<Rightarrow> entries option" where
  "get_dir (DirNode i es) [] = Some es"
| "get_dir (DirNode i es) (c # cs) = (case fmlookup es c of None \<Rightarrow> None | Some n \<Rightarrow> get_dir n cs)"
| "get_dir n cs = None"

fun put_dir :: "node \<Rightarrow> rstr list \<Rightarrow> entries \<Rightarrow> node" where
  "put_dir (DirNode i es) [] new = DirNode i new"
| "put_dir (DirNode i es) (c # cs) new =
     (case fmlookup es c of None \<Rightarrow> DirNode i es | Some n \<Rightarrow> DirNode i (fmupd c (put_dir n cs new) es))"
| "put_dir n cs new = n"

section \<open>Programs\<close>

datatype io_error =
  ENotFound | EAlreadyExists | EPermissionDenied | EInvalidInput | EInvalidData | EDirectoryNotEmpty | ENotADirectory | EWouldBlock | EOther

text \<open>The number of a failing or stopping call is how much of a buffer a write has written by then.\<close>

datatype fault = Works | Fails nat | Loses | Dies nat | DiesAfter

record sys =
  sys_root :: node
  sys_staging :: entries
  sys_active :: "rstr list"
  sys_db :: db
  sys_tokens :: "rstr list"
  sys_inode :: nat
  sys_recovery_required :: bool
  sys_generation :: nat
  sys_cleanup_requested :: bool
  sys_faults :: "fault list"

type_synonym 'a prog = "sys \<Rightarrow> 'a option \<times> sys"

definition ret :: "'a \<Rightarrow> 'a prog" where
  "ret x s = (Some x, s)"

definition bnd :: "'a prog \<Rightarrow> ('a \<Rightarrow> 'b prog) \<Rightarrow> 'b prog" where
  "bnd m f s = (case m s of (None, s') \<Rightarrow> (None, s') | (Some x, s') \<Rightarrow> f x s')"

definition bndE :: "('e + 'a) prog \<Rightarrow> ('a \<Rightarrow> ('e + 'b) prog) \<Rightarrow> ('e + 'b) prog" where
  "bndE m f = bnd m (\<lambda>r. case r of Inl e \<Rightarrow> ret (Inl e) | Inr x \<Rightarrow> f x)"

definition fail :: "'e \<Rightarrow> ('e + 'a) prog" where
  "fail e = ret (Inl e)"

definition done_with :: "'a \<Rightarrow> ('e + 'a) prog" where
  "done_with x = ret (Inr x)"

definition lift_result :: "'e + 'a \<Rightarrow> ('e + 'a) prog" where
  "lift_result r = ret r"

definition next_fault :: "sys \<Rightarrow> fault \<times> sys" where
  "next_fault s = (case sys_faults s of [] \<Rightarrow> (Works, s) | f # fs \<Rightarrow> (f, s\<lparr>sys_faults := fs\<rparr>))"

definition lose :: "'e \<Rightarrow> 'e + 'a \<Rightarrow> 'e + 'a" where
  "lose e0 r = (case r of Inl e \<Rightarrow> Inl e | Inr _ \<Rightarrow> Inl e0)"

definition call_as :: "'e \<Rightarrow> (sys \<Rightarrow> ('e + 'a) \<times> sys) \<Rightarrow> ('e + 'a) prog" where
  "call_as e0 act s =
     (case next_fault s of (f, s0) \<Rightarrow>
        (case f of
           Works \<Rightarrow> (Some (fst (act s0)), snd (act s0))
         | Fails n \<Rightarrow> (Some (Inl e0), s0)
         | Loses \<Rightarrow> (Some (lose e0 (fst (act s0))), snd (act s0))
         | Dies n \<Rightarrow> (None, s0)
         | DiesAfter \<Rightarrow> (None, snd (act s0))))"

definition call :: "(sys \<Rightarrow> (io_error + 'a) \<times> sys) \<Rightarrow> (io_error + 'a) prog" where
  "call act = call_as EOther act"

definition mapE :: "('e \<Rightarrow> 'f) \<Rightarrow> ('e + 'a) prog \<Rightarrow> ('f + 'a) prog" where
  "mapE f m = bnd m (\<lambda>r. ret (map_err f r))"

text \<open>The next random token. A run that needs more of them than it was given stops.\<close>

definition random_token :: "rstr prog" where
  "random_token s = (case sys_tokens s of [] \<Rightarrow> (None, s) | t # ts \<Rightarrow> (Some t, s\<lparr>sys_tokens := ts\<rparr>))"

section \<open>System calls\<close>

datatype dir = Visible "rstr list" | Staging

fun dir_entries :: "dir \<Rightarrow> sys \<Rightarrow> entries option" where
  "dir_entries (Visible p) s = get_dir (sys_root s) p"
| "dir_entries Staging s = Some (sys_staging s)"

fun set_entries :: "dir \<Rightarrow> entries \<Rightarrow> sys \<Rightarrow> sys" where
  "set_entries (Visible p) es s = s\<lparr>sys_root := put_dir (sys_root s) p es\<rparr>"
| "set_entries Staging es s = s\<lparr>sys_staging := es\<rparr>"

definition look :: "dir \<Rightarrow> rstr \<Rightarrow> sys \<Rightarrow> node option" where
  "look d name s = (case dir_entries d s of None \<Rightarrow> None | Some es \<Rightarrow> fmlookup es name)"

definition edit :: "dir \<Rightarrow> (entries \<Rightarrow> entries) \<Rightarrow> sys \<Rightarrow> sys" where
  "edit d f s = (case dir_entries d s of None \<Rightarrow> s | Some es \<Rightarrow> set_entries d (f es) s)"

text \<open>Opening a name without following it, and reading the metadata of the opened object.\<close>

definition openat2 :: "dir \<Rightarrow> rstr \<Rightarrow> (io_error + node) prog" where
  "openat2 d name = call (\<lambda>s. (case look d name s of None \<Rightarrow> Inl ENotFound | Some n \<Rightarrow> Inr n, s))"

definition metadata_of :: "node \<Rightarrow> (io_error + node) prog" where
  "metadata_of n = call (\<lambda>s. (Inr n, s))"

definition sync_all :: "dir \<Rightarrow> (io_error + unit) prog" where
  "sync_all d = call (\<lambda>s. (Inr (), s))"

definition try_clone :: "(io_error + unit) prog" where
  "try_clone = call (\<lambda>s. (Inr (), s))"

definition rename_noreplace_between :: "dir \<Rightarrow> rstr \<Rightarrow> dir \<Rightarrow> rstr \<Rightarrow> (io_error + unit) prog" where
  "rename_noreplace_between d old d' new =
     call (\<lambda>s. (case look d old s of
                  None \<Rightarrow> (Inl ENotFound, s)
                | Some n \<Rightarrow> (if look d' new s \<noteq> None then (Inl EAlreadyExists, s)
                            else (Inr (), edit d' (fmupd new n) (edit d (fmdrop old) s)))))"

definition rename_noreplace :: "dir \<Rightarrow> rstr \<Rightarrow> rstr \<Rightarrow> (io_error + unit) prog" where
  "rename_noreplace d old new = rename_noreplace_between d old d new"

definition rename_replace_between :: "dir \<Rightarrow> rstr \<Rightarrow> dir \<Rightarrow> rstr \<Rightarrow> (io_error + unit) prog" where
  "rename_replace_between d old d' new =
     call (\<lambda>s. (case look d old s of
                  None \<Rightarrow> (Inl ENotFound, s)
                | Some n \<Rightarrow> (Inr (), edit d' (fmupd new n) (edit d (fmdrop old) s))))"

definition unlink :: "dir \<Rightarrow> rstr \<Rightarrow> (io_error + unit) prog" where
  "unlink d name =
     call (\<lambda>s. (case look d name s of
                  None \<Rightarrow> (Inl ENotFound, s)
                | Some (DirNode i es) \<Rightarrow> (Inl EOther, s)
                | Some n \<Rightarrow> (Inr (), edit d (fmdrop name) s)))"

definition rmdir :: "dir \<Rightarrow> rstr \<Rightarrow> (io_error + unit) prog" where
  "rmdir d name =
     call (\<lambda>s. (case look d name s of
                  None \<Rightarrow> (Inl ENotFound, s)
                | Some (DirNode i es) \<Rightarrow> (if es \<noteq> fmempty then (Inl EDirectoryNotEmpty, s) else (Inr (), edit d (fmdrop name) s))
                | Some n \<Rightarrow> (Inl ENotADirectory, s)))"

definition create_excl :: "dir \<Rightarrow> rstr \<Rightarrow> (io_error + unit) prog" where
  "create_excl d name =
     call (\<lambda>s. (if look d name s \<noteq> None then (Inl EAlreadyExists, s)
                else (Inr (), (edit d (fmupd name (FileNode (0, sys_inode s) [])) s)\<lparr>sys_inode := sys_inode s + 1\<rparr>)))"

text \<open>Writing a buffer to the file just created: a call that fails or stops has written a part of it.\<close>

definition append_bytes :: "dir \<Rightarrow> rstr \<Rightarrow> nat list \<Rightarrow> sys \<Rightarrow> sys" where
  "append_bytes d name bs s =
     (case look d name s of Some (FileNode i c) \<Rightarrow> edit d (fmupd name (FileNode i (c @ bs))) s | _ \<Rightarrow> s)"

definition write_all :: "dir \<Rightarrow> rstr \<Rightarrow> nat list \<Rightarrow> (io_error + unit) prog" where
  "write_all d name bs s =
     (case next_fault s of (f, s0) \<Rightarrow>
        (case f of
           Works \<Rightarrow> (Some (Inr ()), append_bytes d name bs s0)
         | Fails n \<Rightarrow> (Some (Inl EOther), append_bytes d name (take n bs) s0)
         | Loses \<Rightarrow> (Some (Inl EOther), append_bytes d name bs s0)
         | Dies n \<Rightarrow> (None, append_bytes d name (take n bs) s0)
         | DiesAfter \<Rightarrow> (None, append_bytes d name bs s0)))"

definition read_content :: "node \<Rightarrow> (io_error + nat list) prog" where
  "read_content n = call (\<lambda>s. (case n of FileNode i c \<Rightarrow> Inr c | _ \<Rightarrow> Inl EOther, s))"

definition read_names :: "dir \<Rightarrow> (io_error + rstr list) prog" where
  "read_names d = call (\<lambda>s. (case dir_entries d s of None \<Rightarrow> Inl ENotFound | Some es \<Rightarrow> Inr (sorted_list_of_fset (fmdom es)), s))"

section \<open>Private names\<close>

definition strip_suffix :: "rstr \<Rightarrow> rstr \<Rightarrow> rstr option" where
  "strip_suffix suffix s = (if ends_with suffix s then Some (take (length s - length suffix) s) else None)"

definition rsplit_once :: "nat \<Rightarrow> rstr \<Rightarrow> (rstr \<times> rstr) option" where
  "rsplit_once c s = (if c \<in> set s then Some (rev (drop 1 (dropWhile (\<lambda>x. x \<noteq> c) (rev s))), rev (takeWhile (\<lambda>x. x \<noteq> c) (rev s))) else None)"

definition deletion_tombstone_name :: "rstr \<Rightarrow> rstr" where
  "deletion_tombstone_name token = lit ''.vaultlink-delete-'' @ token @ lit ''.tombstone''"

definition deletion_pending_name :: "rstr \<Rightarrow> rstr" where
  "deletion_pending_name token = lit ''.vaultlink-delete-pending-'' @ token @ lit ''.pending''"

definition is_deletion_pending_name :: "rstr \<Rightarrow> bool" where
  "is_deletion_pending_name name = private_token_name name (lit ''.vaultlink-delete-pending-'') (lit ''.pending'')"

definition deletion_manifest_name :: "rstr \<Rightarrow> rstr" where
  "deletion_manifest_name pending_name = pending_name @ lit ''.manifest''"

definition deletion_pending_from_manifest_name :: "rstr \<Rightarrow> rstr option" where
  "deletion_pending_from_manifest_name name =
     (case strip_suffix (lit ''.manifest'') name of
        None \<Rightarrow> None
      | Some pending_name \<Rightarrow> if is_deletion_pending_name pending_name then Some pending_name else None)"

definition file_operation_name :: "rstr \<Rightarrow> rstr" where
  "file_operation_name token = lit ''.vaultlink-operation-'' @ token @ lit ''.json''"

definition is_file_operation_name :: "rstr \<Rightarrow> bool" where
  "is_file_operation_name name = private_token_name name (lit ''.vaultlink-operation-'') (lit ''.json'')"

definition is_file_operation_temporary_name :: "rstr \<Rightarrow> bool" where
  "is_file_operation_temporary_name name =
     (case strip_suffix (lit ''.pending'') name of None \<Rightarrow> False | Some n \<Rightarrow> is_file_operation_name n)"

definition is_deletion_tombstone_name :: "rstr \<Rightarrow> bool" where
  "is_deletion_tombstone_name name = private_token_name name (lit ''.vaultlink-delete-'') (lit ''.tombstone'')"

section \<open>Paths\<close>

definition normalized :: "rstr \<Rightarrow> io_error + rstr" where
  "normalized raw = (case validate_relative raw of Inl e \<Rightarrow> Inl EPermissionDenied | Inr p \<Rightarrow> Inr p)"

definition split_parent_name :: "rstr \<Rightarrow> io_error + rstr \<times> rstr" where
  "split_parent_name relative =
     (case normalized relative of
        Inl e \<Rightarrow> Inl e
      | Inr p \<Rightarrow>
          if p = [] then Inl EInvalidInput
          else let (parent, name) = (case rsplit_once 47 p of None \<Rightarrow> ([], p) | Some pn \<Rightarrow> pn) in
               (case safe_admin_filename name of Inl e \<Rightarrow> Inl EPermissionDenied | Inr _ \<Rightarrow> Inr (parent, name)))"

definition join_relative :: "rstr \<Rightarrow> rstr \<Rightarrow> rstr" where
  "join_relative parent name = (if parent = [] then name else parent @ [47] @ name)"

text \<open>\<open>bind_directory\<close>: opening a directory below the root by its path.\<close>

definition bind_directory :: "rstr \<Rightarrow> (io_error + dir) prog" where
  "bind_directory relative =
     (case normalized relative of
        Inl e \<Rightarrow> fail e
      | Inr p \<Rightarrow> call (\<lambda>s. (if get_dir (sys_root s) (path_names p) = None then Inl ENotFound else Inr (Visible (path_names p)), s)))"

section \<open>Active private names\<close>

definition register_fragment :: "rstr \<Rightarrow> bool prog" where
  "register_fragment key s = (if key \<in> set (sys_active s) then (Some False, s) else (Some True, s\<lparr>sys_active := key # sys_active s\<rparr>))"

definition unregister_upload_fragment :: "rstr \<Rightarrow> unit prog" where
  "unregister_upload_fragment key s = (Some (), s\<lparr>sys_active := removeAll key (sys_active s)\<rparr>)"

section \<open>Identities\<close>

datatype entry_identity_state = Expected | Missing | Replaced

definition matches_identity :: "identity \<Rightarrow> entry_kind \<Rightarrow> node \<Rightarrow> bool" where
  "matches_identity expected kind n \<longleftrightarrow> node_identity n = expected \<and> node_kind n = Some kind"

definition entry_identity_state :: "dir \<Rightarrow> rstr \<Rightarrow> identity \<Rightarrow> entry_kind \<Rightarrow> (io_error + entry_identity_state) prog" where
  "entry_identity_state d name expected kind =
     bnd (openat2 d name) (\<lambda>r. case r of
       Inl e \<Rightarrow> if e = ENotFound \<or> e = ENotADirectory then done_with Missing else fail e
     | Inr n \<Rightarrow> bndE (metadata_of n) (\<lambda>n. done_with (if matches_identity expected kind n then Expected else Replaced)))"

definition entry_matches_identity :: "dir \<Rightarrow> rstr \<Rightarrow> identity \<Rightarrow> entry_kind \<Rightarrow> bool prog" where
  "entry_matches_identity d name expected kind =
     bnd (entry_identity_state d name expected kind) (\<lambda>r. ret (r = Inr Expected))"

definition entry_exists :: "dir \<Rightarrow> rstr \<Rightarrow> (io_error + bool) prog" where
  "entry_exists d name =
     bnd (openat2 d name) (\<lambda>r. case r of
       Inr _ \<Rightarrow> done_with True
     | Inl e \<Rightarrow> if e = ENotFound \<or> e = ENotADirectory then done_with False else fail e)"

section \<open>Journals\<close>

datatype durable_phase = PhaseIntent | PhaseMoved | PhaseRollback

datatype durable_operation =
    RenameOp rstr rstr entry_kind identity durable_phase
  | DeleteOp rstr entry_kind identity rstr rstr bool durable_phase

record codec =
  enc_path :: "rstr \<Rightarrow> nat list"
  dec_path :: "nat list \<Rightarrow> rstr option"
  enc_op :: "durable_operation \<Rightarrow> nat list"
  dec_op :: "nat list \<Rightarrow> durable_operation option"

definition MAX_OPERATION_BYTES :: nat where
  "MAX_OPERATION_BYTES = 64 * 1024"

definition write_pending_manifest :: "codec \<Rightarrow> rstr \<Rightarrow> rstr \<Rightarrow> (io_error + rstr) prog" where
  "write_pending_manifest J pending_name original_path =
     (let manifest_name = deletion_manifest_name pending_name in
      bndE (create_excl Staging manifest_name) (\<lambda>_.
      bnd (bndE (write_all Staging manifest_name (enc_path J original_path @ [10])) (\<lambda>_.
           bndE (sync_all Staging) (\<lambda>_.
           sync_all Staging))) (\<lambda>result.
      case result of
        Inl e \<Rightarrow> bnd (unlink Staging manifest_name) (\<lambda>_. bnd (sync_all Staging) (\<lambda>_. fail e))
      | Inr _ \<Rightarrow> done_with manifest_name)))"

text \<open>\<open>write_file_operation\<close> gives on failure the error and the name it had already published.\<close>

fun write_file_operation_loop :: "codec \<Rightarrow> durable_operation \<Rightarrow> nat \<Rightarrow> ((io_error \<times> rstr option) + rstr) prog" where
  "write_file_operation_loop J operation 0 = fail (EAlreadyExists, None)"
| "write_file_operation_loop J operation (Suc n) =
     bnd random_token (\<lambda>token.
     let operation_name = file_operation_name token; temporary_name = operation_name @ lit ''.pending'' in
     bnd (create_excl Staging temporary_name) (\<lambda>created. case created of
       Inl e \<Rightarrow> if e = EAlreadyExists then write_file_operation_loop J operation n else fail (e, None)
     | Inr _ \<Rightarrow>
         bnd (bndE (write_all Staging temporary_name (enc_op J operation @ [10])) (\<lambda>_.
              bndE (sync_all Staging) (\<lambda>_.
              rename_noreplace Staging temporary_name operation_name))) (\<lambda>moved. case moved of
           Inl e \<Rightarrow>
             bnd (unlink Staging temporary_name) (\<lambda>_. bnd (sync_all Staging) (\<lambda>_.
             if e = EAlreadyExists then write_file_operation_loop J operation n else fail (e, None)))
         | Inr _ \<Rightarrow> bnd (sync_all Staging) (\<lambda>r. case r of
             Inl e \<Rightarrow> fail (e, Some operation_name)
           | Inr _ \<Rightarrow> done_with operation_name))))"

definition write_file_operation :: "codec \<Rightarrow> durable_operation \<Rightarrow> ((io_error \<times> rstr option) + rstr) prog" where
  "write_file_operation J operation = write_file_operation_loop J operation 16"

definition replace_file_operation :: "codec \<Rightarrow> rstr \<Rightarrow> durable_operation \<Rightarrow> (io_error + unit) prog" where
  "replace_file_operation J operation_name operation =
     (if \<not> is_file_operation_name operation_name then fail EInvalidInput
      else
        let temporary_name = operation_name @ lit ''.pending'' in
        bndE (create_excl Staging temporary_name) (\<lambda>_.
        bnd (bndE (write_all Staging temporary_name (enc_op J operation @ [10])) (\<lambda>_.
             bndE (sync_all Staging) (\<lambda>_.
             rename_replace_between Staging temporary_name Staging operation_name))) (\<lambda>moved. case moved of
          Inl e \<Rightarrow> bnd (unlink Staging temporary_name) (\<lambda>_. bnd (sync_all Staging) (\<lambda>_. fail e))
        | Inr _ \<Rightarrow> sync_all Staging)))"

definition read_small_file :: "(nat list \<Rightarrow> 'a option) \<Rightarrow> rstr \<Rightarrow> (io_error + 'a) prog" where
  "read_small_file decode name =
     bndE (openat2 Staging name) (\<lambda>n.
     bndE (metadata_of n) (\<lambda>n.
     (case n of
        FileNode i c \<Rightarrow>
          if MAX_OPERATION_BYTES < length c then fail EInvalidData
          else bndE (read_content n) (\<lambda>c. (case decode c of None \<Rightarrow> fail EOther | Some x \<Rightarrow> done_with x))
      | _ \<Rightarrow> fail EInvalidData)))"

definition read_file_operation :: "codec \<Rightarrow> rstr \<Rightarrow> (io_error + durable_operation) prog" where
  "read_file_operation J operation_name = read_small_file (dec_op J) operation_name"

definition read_pending_manifest :: "codec \<Rightarrow> rstr \<Rightarrow> (io_error + rstr) prog" where
  "read_pending_manifest J manifest_name = read_small_file (dec_path J) manifest_name"

definition replace_delete_operation_phase :: "codec \<Rightarrow> rstr \<Rightarrow> durable_phase \<Rightarrow> (io_error + unit) prog" where
  "replace_delete_operation_phase J operation_name phase =
     bndE (read_file_operation J operation_name) (\<lambda>operation. case operation of
       DeleteOp original_path kind i pending_name tombstone_name allow_recursive _ \<Rightarrow>
         replace_file_operation J operation_name (DeleteOp original_path kind i pending_name tombstone_name allow_recursive phase)
     | RenameOp _ _ _ _ _ \<Rightarrow> fail EInvalidData)"

definition remove_staged :: "rstr \<Rightarrow> (io_error + unit) prog" where
  "remove_staged name =
     bnd (unlink Staging name) (\<lambda>r. case r of
       Inr _ \<Rightarrow> sync_all Staging
     | Inl e \<Rightarrow> if e = ENotFound then done_with () else fail e)"

definition remove_file_operation :: "rstr \<Rightarrow> (io_error + unit) prog" where
  "remove_file_operation operation_name = remove_staged operation_name"

definition remove_pending_manifest :: "rstr \<Rightarrow> (io_error + unit) prog" where
  "remove_pending_manifest manifest_name = remove_staged manifest_name"

end
