(* ===== verification/File_Staging.thy ===== *)
theory File_Staging
  imports File_System
begin

text \<open>
  Staged renames and deletions (\<open>src/src/secure_fs/staging\<close>) and their recovery from the journals
  (\<open>src/src/secure_fs/recovery\<close>). Logging and the hooks of the tests are left out.
\<close>

section \<open>Staging a rename\<close>

record staged_rename =
  sr_original_path :: rstr
  sr_new_path :: rstr
  sr_kind :: entry_kind
  sr_identity :: identity
  sr_parent :: dir
  sr_original_name :: rstr
  sr_new_name :: rstr
  sr_operation_name :: rstr
  sr_commit_started :: bool

datatype rename_stage_outcome = RenameReady staged_rename | RenameUncertain rstr entry_kind io_error

text \<open>\<open>SecureDirectory::rename_noreplace\<close> only warns when the sync fails.\<close>

definition directory_rename_noreplace :: "dir \<Rightarrow> rstr \<Rightarrow> rstr \<Rightarrow> (io_error + unit) prog" where
  "directory_rename_noreplace d old new =
     bndE (rename_noreplace d old new) (\<lambda>_. bnd (sync_all d) (\<lambda>_. done_with ()))"

definition reconcile_rename_result ::
  "dir \<Rightarrow> rstr \<Rightarrow> rstr \<Rightarrow> rstr \<Rightarrow> identity \<Rightarrow> entry_kind \<Rightarrow> rstr \<Rightarrow> io_error + unit \<Rightarrow> (io_error + rename_stage_outcome option) prog" where
  "reconcile_rename_result parent original_name new_name new_path source_identity kind operation_name rename =
     bnd (entry_identity_state parent new_name source_identity kind) (\<lambda>destination. case destination of
       Inl e \<Rightarrow> done_with (Some (RenameUncertain new_path kind e))
     | Inr destination_state \<Rightarrow>
         (case (rename, destination_state) of
            (Inr _, Expected) \<Rightarrow> done_with None
          | (Inr _, Missing) \<Rightarrow> done_with (Some (RenameUncertain new_path kind ENotFound))
          | (Inr _, Replaced) \<Rightarrow> done_with (Some (RenameUncertain new_path kind EPermissionDenied))
          | (Inl e, Expected) \<Rightarrow>
              bnd (entry_identity_state parent original_name source_identity kind) (\<lambda>source. case source of
                Inl probe \<Rightarrow> done_with (Some (RenameUncertain new_path kind probe))
              | Inr Expected \<Rightarrow> bndE (remove_file_operation operation_name) (\<lambda>_. fail e)
              | Inr Missing \<Rightarrow> done_with None
              | Inr Replaced \<Rightarrow> done_with (Some (RenameUncertain new_path kind e)))
          | (Inl e, _) \<Rightarrow>
              bnd (entry_identity_state parent original_name source_identity kind) (\<lambda>source. case source of
                Inl probe \<Rightarrow> done_with (Some (RenameUncertain new_path kind probe))
              | Inr Expected \<Rightarrow> bndE (remove_file_operation operation_name) (\<lambda>_. fail e)
              | Inr _ \<Rightarrow> done_with (Some (RenameUncertain new_path kind e)))))"

definition rename_and_publish ::
  "codec \<Rightarrow> dir \<Rightarrow> rstr \<Rightarrow> rstr \<Rightarrow> rstr \<Rightarrow> rstr \<Rightarrow> identity \<Rightarrow> entry_kind \<Rightarrow> rstr \<Rightarrow> (io_error + rename_stage_outcome) prog" where
  "rename_and_publish J parent original_name new_name original_path new_path source_identity kind operation_name =
     bnd (directory_rename_noreplace parent original_name new_name) (\<lambda>rename.
     bndE (reconcile_rename_result parent original_name new_name new_path source_identity kind operation_name rename) (\<lambda>outcome.
     case outcome of
       Some out \<Rightarrow> done_with out
     | None \<Rightarrow>
         bnd (sync_all parent) (\<lambda>r. case r of
           Inl e \<Rightarrow> done_with (RenameUncertain new_path kind e)
         | Inr _ \<Rightarrow>
             bnd (replace_file_operation J operation_name (RenameOp original_path new_path kind source_identity PhaseMoved)) (\<lambda>r. case r of
               Inl e \<Rightarrow> done_with (RenameUncertain new_path kind e)
             | Inr _ \<Rightarrow>
                 done_with (RenameReady \<lparr>sr_original_path = original_path, sr_new_path = new_path, sr_kind = kind,
                   sr_identity = source_identity, sr_parent = parent, sr_original_name = original_name,
                   sr_new_name = new_name, sr_operation_name = operation_name, sr_commit_started = False\<rparr>)))))"

definition stage_rename_with_outcome :: "codec \<Rightarrow> rstr \<Rightarrow> rstr \<Rightarrow> (io_error + rename_stage_outcome) prog" where
  "stage_rename_with_outcome J relative new_name =
     bndE (lift_result (split_parent_name relative)) (\<lambda>(parent_path, original_name).
     let original_path = join_relative parent_path original_name in
     case safe_admin_filename new_name of
       Inl _ \<Rightarrow> fail EInvalidInput
     | Inr new_name \<Rightarrow>
         if original_name = new_name then fail EInvalidInput
         else
           bndE (bind_directory parent_path) (\<lambda>parent.
           bndE try_clone (\<lambda>_.
           bndE try_clone (\<lambda>_.
           bndE (openat2 parent original_name) (\<lambda>source.
           bndE (metadata_of source) (\<lambda>source.
           case node_kind source of
             None \<Rightarrow> fail EInvalidInput
           | Some kind \<Rightarrow>
               let new_path = join_relative parent_path new_name in
               bnd (write_file_operation J (RenameOp original_path new_path kind (node_identity source) PhaseIntent)) (\<lambda>w. case w of
                 Inl (e, _) \<Rightarrow> fail e
               | Inr operation_name \<Rightarrow>
                   rename_and_publish J parent original_name new_name original_path new_path (node_identity source) kind operation_name)))))))"

definition begin_database_commit :: "staged_rename \<Rightarrow> staged_rename" where
  "begin_database_commit staged = staged\<lparr>sr_commit_started := True\<rparr>"

definition commit_rename :: "staged_rename \<Rightarrow> (io_error + unit) prog" where
  "commit_rename staged = remove_file_operation (sr_operation_name staged)"

definition rollback_rename :: "codec \<Rightarrow> staged_rename \<Rightarrow> (io_error + unit) prog" where
  "rollback_rename J staged =
     bndE (entry_identity_state (sr_parent staged) (sr_new_name staged) (sr_identity staged) (sr_kind staged)) (\<lambda>state. case state of
       Missing \<Rightarrow> fail ENotFound
     | Replaced \<Rightarrow> fail EPermissionDenied
     | Expected \<Rightarrow>
         bndE (replace_file_operation J (sr_operation_name staged)
                (RenameOp (sr_original_path staged) (sr_new_path staged) (sr_kind staged) (sr_identity staged) PhaseRollback)) (\<lambda>_.
         bndE (rename_noreplace (sr_parent staged) (sr_new_name staged) (sr_original_name staged)) (\<lambda>_.
         bndE (sync_all (sr_parent staged)) (\<lambda>_.
         remove_file_operation (sr_operation_name staged)))))"

definition drop_staged_rename :: "codec \<Rightarrow> staged_rename \<Rightarrow> unit prog" where
  "drop_staged_rename J staged = (if sr_commit_started staged then ret () else bnd (rollback_rename J staged) (\<lambda>_. ret ()))"

section \<open>Staging a deletion\<close>

record staged_delete =
  sd_original_path :: rstr
  sd_kind :: entry_kind
  sd_non_empty :: bool
  sd_parent :: dir
  sd_original_name :: rstr
  sd_tombstone_name :: rstr
  sd_manifest_name :: rstr
  sd_operation_name :: "rstr option"
  sd_identity :: identity
  sd_active_key :: "rstr option"

datatype pending_delete_stage = PendingReady rstr rstr | PendingUncertain io_error

datatype delete_stage_outcome = DeleteReady staged_delete | DeleteUncertain rstr entry_kind io_error

definition prepare_pending_delete_candidate :: "codec \<Rightarrow> rstr \<Rightarrow> (io_error + (rstr \<times> rstr) option) prog" where
  "prepare_pending_delete_candidate J original_path =
     bnd random_token (\<lambda>token.
     let candidate = deletion_pending_name token in
     bnd (register_fragment candidate) (\<lambda>inserted.
     if \<not> inserted then done_with None
     else bnd (write_pending_manifest J candidate original_path) (\<lambda>w. case w of
       Inr manifest_name \<Rightarrow> done_with (Some (candidate, manifest_name))
     | Inl e \<Rightarrow> bnd (unregister_upload_fragment candidate) (\<lambda>_. if e = EAlreadyExists then done_with None else fail e))))"

definition source_is_unchanged_and_pending_is_foreign :: "io_error + entry_identity_state \<Rightarrow> io_error + entry_identity_state \<Rightarrow> bool" where
  "source_is_unchanged_and_pending_is_foreign source_state pending_state \<longleftrightarrow>
     source_state = Inr Expected \<and> (pending_state = Inr Missing \<or> pending_state = Inr Replaced)"

definition discard_unused_pending_delete :: "rstr \<Rightarrow> rstr \<Rightarrow> unit prog" where
  "discard_unused_pending_delete candidate manifest_name =
     bnd (remove_pending_manifest manifest_name) (\<lambda>_. unregister_upload_fragment candidate)"

definition reconcile_pending_delete_rename ::
  "dir \<Rightarrow> rstr \<Rightarrow> identity \<Rightarrow> entry_kind \<Rightarrow> rstr \<Rightarrow> rstr \<Rightarrow> io_error \<Rightarrow> (io_error + pending_delete_stage option) prog" where
  "reconcile_pending_delete_rename parent original_name i kind candidate manifest_name rename_error =
     bnd (entry_identity_state Staging candidate i kind) (\<lambda>pending_state.
     if pending_state = Inr Expected then done_with (Some (PendingReady candidate manifest_name))
     else
       bnd (entry_identity_state parent original_name i kind) (\<lambda>source_state.
       if source_is_unchanged_and_pending_is_foreign source_state pending_state then
         bnd (discard_unused_pending_delete candidate manifest_name) (\<lambda>_.
         if rename_error = EAlreadyExists then done_with None else fail rename_error)
       else done_with (Some (PendingUncertain rename_error))))"

text \<open>Every round of the loop draws a token, so the number of tokens left bounds the rounds.\<close>

fun stage_pending_delete_loop ::
  "codec \<Rightarrow> dir \<Rightarrow> rstr \<Rightarrow> rstr \<Rightarrow> identity \<Rightarrow> entry_kind \<Rightarrow> nat \<Rightarrow> (io_error + pending_delete_stage) prog" where
  "stage_pending_delete_loop J parent original_name original_path i kind 0 = (\<lambda>s. (None, s))"
| "stage_pending_delete_loop J parent original_name original_path i kind (Suc n) =
     bndE (prepare_pending_delete_candidate J original_path) (\<lambda>prepared. case prepared of
       None \<Rightarrow> stage_pending_delete_loop J parent original_name original_path i kind n
     | Some (candidate, manifest_name) \<Rightarrow>
         bnd (rename_noreplace_between parent original_name Staging candidate) (\<lambda>rename. case rename of
           Inr _ \<Rightarrow> done_with (PendingReady candidate manifest_name)
         | Inl e \<Rightarrow>
             bndE (reconcile_pending_delete_rename parent original_name i kind candidate manifest_name e) (\<lambda>outcome. case outcome of
               Some out \<Rightarrow> done_with out
             | None \<Rightarrow> stage_pending_delete_loop J parent original_name original_path i kind n)))"

definition stage_pending_delete ::
  "codec \<Rightarrow> dir \<Rightarrow> rstr \<Rightarrow> rstr \<Rightarrow> identity \<Rightarrow> entry_kind \<Rightarrow> (io_error + pending_delete_stage) prog" where
  "stage_pending_delete J parent original_name original_path i kind s =
     stage_pending_delete_loop J parent original_name original_path i kind (Suc (length (sys_tokens s))) s"

text \<open>Whether an object is a directory with entries.\<close>

definition scan_non_empty :: "dir \<Rightarrow> rstr \<Rightarrow> (io_error + bool) prog" where
  "scan_non_empty d name = bndE (openat2 d name) (\<lambda>n. call (\<lambda>s. (Inr (node_non_empty n), s)))"

definition inspect_pending_delete :: "dir \<Rightarrow> rstr \<Rightarrow> node \<Rightarrow> (io_error + entry_kind \<times> bool) prog" where
  "inspect_pending_delete parent tombstone_name source =
     bndE (openat2 Staging tombstone_name) (\<lambda>tombstone.
     bndE (metadata_of tombstone) (\<lambda>tombstone.
     if node_identity tombstone \<noteq> node_identity source \<or> node_kind tombstone \<noteq> node_kind source then fail EPermissionDenied
     else
       bndE (case node_kind tombstone of
               Some EntryFile \<Rightarrow> done_with (EntryFile, False)
             | Some EntryDirectory \<Rightarrow> bndE (scan_non_empty Staging tombstone_name) (\<lambda>b. done_with (EntryDirectory, b))
             | None \<Rightarrow> fail EInvalidInput) (\<lambda>status.
       bndE (sync_all Staging) (\<lambda>_.
       bndE (sync_all parent) (\<lambda>_.
       done_with status)))))"

definition reconcile_failed_delete_stage ::
  "io_error \<Rightarrow> rstr \<Rightarrow> rstr \<Rightarrow> dir \<Rightarrow> rstr \<Rightarrow> rstr \<Rightarrow> identity \<Rightarrow> entry_kind \<Rightarrow> (io_error + delete_stage_outcome) prog" where
  "reconcile_failed_delete_stage original_error pending_name manifest_name parent original_name original_path i kind =
     bnd (rename_noreplace_between Staging pending_name parent original_name) (\<lambda>rollback.
     bnd (entry_identity_state parent original_name i kind) (\<lambda>source_state.
     bnd (entry_identity_state Staging pending_name i kind) (\<lambda>pending_state.
     bnd (sync_all parent) (\<lambda>parent_sync.
     bnd (sync_all Staging) (\<lambda>staging_sync.
     if source_state = Inr Expected \<and> pending_state = Inr Missing \<and> parent_sync = Inr () \<and> staging_sync = Inr ()
     then bnd (remove_pending_manifest manifest_name) (\<lambda>r. case r of
         Inr _ \<Rightarrow> bnd (unregister_upload_fragment pending_name) (\<lambda>_. fail original_error)
       | Inl _ \<Rightarrow> done_with (DeleteUncertain original_path kind original_error))
     else done_with (DeleteUncertain original_path kind original_error))))))"

definition stage_delete :: "codec \<Rightarrow> rstr \<Rightarrow> (io_error + delete_stage_outcome) prog" where
  "stage_delete J relative =
     bndE (lift_result (split_parent_name relative)) (\<lambda>(parent_path, original_name).
     let original_path = join_relative parent_path original_name in
     bndE (bind_directory parent_path) (\<lambda>parent.
     bndE try_clone (\<lambda>_.
     bndE try_clone (\<lambda>_.
     bndE (openat2 parent original_name) (\<lambda>source.
     bndE (metadata_of source) (\<lambda>source.
     case node_kind source of
       None \<Rightarrow> fail EInvalidInput
     | Some kind \<Rightarrow>
         bndE (stage_pending_delete J parent original_name original_path (node_identity source) kind) (\<lambda>staged. case staged of
           PendingUncertain e \<Rightarrow> done_with (DeleteUncertain original_path kind e)
         | PendingReady tombstone_name manifest_name \<Rightarrow>
             bnd (inspect_pending_delete parent tombstone_name source) (\<lambda>r. case r of
               Inl e \<Rightarrow> reconcile_failed_delete_stage e tombstone_name manifest_name parent original_name original_path (node_identity source) kind
             | Inr (k, non_empty) \<Rightarrow>
                 done_with (DeleteReady \<lparr>sd_original_path = original_path, sd_kind = k, sd_non_empty = non_empty,
                   sd_parent = parent, sd_original_name = original_name, sd_tombstone_name = tombstone_name,
                   sd_manifest_name = manifest_name, sd_operation_name = None, sd_identity = node_identity source,
                   sd_active_key = Some tombstone_name\<rparr>))))))))) "

section \<open>Committing a deletion\<close>

definition release_active :: "staged_delete \<Rightarrow> unit prog" where
  "release_active sd = (case sd_active_key sd of None \<Rightarrow> ret () | Some key \<Rightarrow> unregister_upload_fragment key)"

definition rollback_delete :: "codec \<Rightarrow> staged_delete \<Rightarrow> (io_error + unit) prog" where
  "rollback_delete J sd =
     bndE (case sd_operation_name sd of
             None \<Rightarrow> done_with ()
           | Some operation_name \<Rightarrow> replace_delete_operation_phase J operation_name PhaseRollback) (\<lambda>_.
     bndE (rename_noreplace_between Staging (sd_tombstone_name sd) (sd_parent sd) (sd_original_name sd)) (\<lambda>_.
     bndE (sync_all (sd_parent sd)) (\<lambda>_.
     bndE (sync_all Staging) (\<lambda>_.
     bnd (remove_pending_manifest (sd_manifest_name sd)) (\<lambda>_.
     case sd_operation_name sd of
       None \<Rightarrow> done_with ()
     | Some operation_name \<Rightarrow> remove_file_operation operation_name)))))"

definition drop_staged_delete :: "codec \<Rightarrow> staged_delete \<Rightarrow> unit prog" where
  "drop_staged_delete J sd = bnd (rollback_delete J sd) (\<lambda>_. release_active sd)"

definition confirm_empty_only_delete :: "staged_delete \<Rightarrow> bool \<Rightarrow> (io_error + unit) prog" where
  "confirm_empty_only_delete sd allow_recursive =
     (if sd_kind sd = EntryDirectory \<and> \<not> allow_recursive
      then bndE (scan_non_empty Staging (sd_tombstone_name sd)) (\<lambda>b. if b then fail EDirectoryNotEmpty else done_with ())
      else done_with ())"

text \<open>\<open>finish_promotion\<close> moves the active name to the committed tombstone.\<close>

definition finish_promotion :: "rstr \<Rightarrow> staged_delete \<Rightarrow> staged_delete prog" where
  "finish_promotion committed_name sd =
     bnd (case sd_active_key sd of None \<Rightarrow> ret () | Some previous \<Rightarrow> unregister_upload_fragment previous) (\<lambda>_.
     ret (sd\<lparr>sd_active_key := Some committed_name, sd_tombstone_name := committed_name\<rparr>))"

definition publish_moved :: "codec \<Rightarrow> rstr \<Rightarrow> rstr \<Rightarrow> staged_delete \<Rightarrow> ((io_error + rstr \<times> rstr) \<times> staged_delete) prog" where
  "publish_moved J committed_name operation_name sd =
     bnd (finish_promotion committed_name sd) (\<lambda>sd.
     bnd (bndE (sync_all Staging) (\<lambda>_.
          bndE (replace_delete_operation_phase J operation_name PhaseMoved) (\<lambda>_.
          done_with (committed_name, operation_name)))) (\<lambda>r. ret (r, sd)))"

fun promote_loop :: "codec \<Rightarrow> bool \<Rightarrow> identity \<Rightarrow> nat \<Rightarrow> staged_delete \<Rightarrow> ((io_error + rstr \<times> rstr) \<times> staged_delete) prog" where
  "promote_loop J allow_recursive pending_identity 0 sd = ret (Inl EAlreadyExists, sd)"
| "promote_loop J allow_recursive pending_identity (Suc n) sd =
     bnd random_token (\<lambda>token.
     let committed_name = deletion_tombstone_name token in
     bnd (register_fragment committed_name) (\<lambda>inserted.
     if \<not> inserted then promote_loop J allow_recursive pending_identity n sd
     else
       bnd (write_file_operation J (DeleteOp (sd_original_path sd) (sd_kind sd) (sd_identity sd) (sd_tombstone_name sd)
              committed_name allow_recursive PhaseIntent)) (\<lambda>w. case w of
         Inl (e, published) \<Rightarrow>
           bnd (unregister_upload_fragment committed_name) (\<lambda>_. ret (Inl e, sd\<lparr>sd_operation_name := published\<rparr>))
       | Inr operation_name \<Rightarrow>
           let sd = sd\<lparr>sd_operation_name := Some operation_name\<rparr> in
           bnd (rename_noreplace Staging (sd_tombstone_name sd) committed_name) (\<lambda>rename. case rename of
             Inr _ \<Rightarrow> publish_moved J committed_name operation_name sd
           | Inl e \<Rightarrow>
               bnd (entry_matches_identity Staging committed_name pending_identity (sd_kind sd)) (\<lambda>moved.
               if moved then publish_moved J committed_name operation_name sd
               else
                 bnd (unregister_upload_fragment committed_name) (\<lambda>_.
                 bnd (entry_matches_identity Staging (sd_tombstone_name sd) pending_identity (sd_kind sd)) (\<lambda>still.
                 bnd (if still then remove_file_operation operation_name else done_with ()) (\<lambda>removed. case removed of
                   Inl e' \<Rightarrow> ret (Inl e', sd)
                 | Inr _ \<Rightarrow>
                     let sd = (if still then sd\<lparr>sd_operation_name := None\<rparr> else sd) in
                     if e \<noteq> EAlreadyExists then ret (Inl e, sd)
                     else promote_loop J allow_recursive pending_identity n sd))))))))"

definition promote_for_cleanup :: "codec \<Rightarrow> bool \<Rightarrow> staged_delete \<Rightarrow> ((io_error + rstr \<times> rstr) \<times> staged_delete) prog" where
  "promote_for_cleanup J allow_recursive sd =
     bnd (bndE (openat2 Staging (sd_tombstone_name sd)) metadata_of) (\<lambda>r. case r of
       Inl e \<Rightarrow> ret (Inl e, sd)
     | Inr pending \<Rightarrow> promote_loop J allow_recursive (node_identity pending) 16 sd)"

record pending_delete_commit =
  pdc_operation_name :: rstr
  pdc_cleanup_pending :: bool
  pdc_tombstone_path :: "rstr option"
  pdc_active_key :: "rstr option"

datatype delete_commit_outcome = CommitReady pending_delete_commit | CommitUncertain bool io_error

definition published_uncertain :: "bool \<Rightarrow> io_error \<Rightarrow> staged_delete \<Rightarrow> (io_error + delete_commit_outcome) prog" where
  "published_uncertain cleanup_pending e sd = bnd (release_active sd) (\<lambda>_. done_with (CommitUncertain cleanup_pending e))"

definition rollback_commit_failure :: "codec \<Rightarrow> io_error \<Rightarrow> staged_delete \<Rightarrow> (io_error + delete_commit_outcome) prog" where
  "rollback_commit_failure J e sd =
     bnd (rollback_delete J sd) (\<lambda>r. case r of
       Inr _ \<Rightarrow> bnd (release_active sd) (\<lambda>_. fail e)
     | Inl rollback_error \<Rightarrow> published_uncertain True rollback_error sd)"

text \<open>An empty-only deletion whose \<open>rmdir\<close> failed.\<close>

definition reconcile_empty_only ::
  "codec \<Rightarrow> io_error \<Rightarrow> rstr \<Rightarrow> staged_delete \<Rightarrow> (io_error + delete_commit_outcome) prog" where
  "reconcile_empty_only J e operation_name sd =
     bnd (entry_identity_state Staging (sd_tombstone_name sd) (sd_identity sd) (sd_kind sd)) (\<lambda>probe. case probe of
       Inl probe_error \<Rightarrow> published_uncertain True probe_error sd
     | Inr Missing \<Rightarrow>
         bnd (sync_all Staging) (\<lambda>r. case r of
           Inl sync_error \<Rightarrow> published_uncertain False sync_error sd
         | Inr _ \<Rightarrow> done_with (CommitReady \<lparr>pdc_operation_name = operation_name, pdc_cleanup_pending = False,
               pdc_tombstone_path = None, pdc_active_key = sd_active_key sd\<rparr>))
     | Inr Replaced \<Rightarrow> published_uncertain True EAlreadyExists sd
     | Inr Expected \<Rightarrow>
         bnd (scan_non_empty Staging (sd_tombstone_name sd)) (\<lambda>non_empty.
         bnd (rollback_delete J sd) (\<lambda>r. case r of
           Inr _ \<Rightarrow> bnd (release_active sd) (\<lambda>_. fail (if non_empty = Inr True then EDirectoryNotEmpty else e))
         | Inl rollback_error \<Rightarrow> published_uncertain True rollback_error sd)))"

definition remove_tombstone :: "codec \<Rightarrow> bool \<Rightarrow> rstr \<Rightarrow> rstr \<Rightarrow> staged_delete \<Rightarrow> (io_error + delete_commit_outcome) prog" where
  "remove_tombstone J allow_recursive committed_tombstone operation_name sd =
     (let pending = \<lparr>pdc_operation_name = operation_name, pdc_cleanup_pending = True,
            pdc_tombstone_path = Some committed_tombstone, pdc_active_key = sd_active_key sd\<rparr> in
      if sd_kind sd = EntryDirectory \<and> allow_recursive then done_with (CommitReady pending)
      else
        bnd (case sd_kind sd of
               EntryFile \<Rightarrow> unlink Staging (sd_tombstone_name sd)
             | EntryDirectory \<Rightarrow> rmdir Staging (sd_tombstone_name sd)) (\<lambda>removal. case removal of
          Inl e \<Rightarrow>
            if sd_kind sd = EntryDirectory \<and> \<not> allow_recursive then reconcile_empty_only J e operation_name sd
            else done_with (CommitReady pending)
        | Inr _ \<Rightarrow>
            bnd (sync_all Staging) (\<lambda>r. case r of
              Inl e \<Rightarrow> published_uncertain False e sd
            | Inr _ \<Rightarrow> done_with (CommitReady (pending\<lparr>pdc_cleanup_pending := False, pdc_tombstone_path := None\<rparr>)))))"

definition commit_with_outcome :: "codec \<Rightarrow> bool \<Rightarrow> staged_delete \<Rightarrow> (io_error + delete_commit_outcome) prog" where
  "commit_with_outcome J allow_recursive sd =
     bnd (confirm_empty_only_delete sd allow_recursive) (\<lambda>r. case r of
       Inl e \<Rightarrow> rollback_commit_failure J e sd
     | Inr _ \<Rightarrow>
         bnd try_clone (\<lambda>r. case r of
           Inl e \<Rightarrow> rollback_commit_failure J e sd
         | Inr _ \<Rightarrow>
             bnd (promote_for_cleanup J allow_recursive sd) (\<lambda>(r, sd). case r of
               Inl e \<Rightarrow> rollback_commit_failure J e sd
             | Inr (committed_tombstone, operation_name) \<Rightarrow>
                 bnd (remove_pending_manifest (sd_manifest_name sd)) (\<lambda>_.
                 remove_tombstone J allow_recursive committed_tombstone operation_name sd))))"

text \<open>Dropping a committed deletion only releases its active name.\<close>

definition drop_pending_commit :: "pending_delete_commit \<Rightarrow> unit prog" where
  "drop_pending_commit c = (case pdc_active_key c of None \<Rightarrow> ret () | Some key \<Rightarrow> unregister_upload_fragment key)"

definition complete_delete :: "pending_delete_commit \<Rightarrow> (io_error + unit) prog" where
  "complete_delete c =
     bnd (remove_file_operation (pdc_operation_name c)) (\<lambda>r.
     bnd (drop_pending_commit c) (\<lambda>_. ret r))"

section \<open>Recovery\<close>

datatype file_operation_recovery =
    RecoveredRename rstr rstr bool
  | RecoveredDelete rstr bool "rstr option"
  | Cancelled

record pending_file_operation =
  pf_journal_name :: rstr
  pf_operation :: durable_operation

definition recover_rename_intent ::
  "codec \<Rightarrow> rstr \<Rightarrow> rstr \<Rightarrow> rstr \<Rightarrow> entry_kind \<Rightarrow> identity \<Rightarrow> dir \<Rightarrow> rstr \<Rightarrow> rstr \<Rightarrow> (io_error + bool) prog" where
  "recover_rename_intent J operation_name original_path new_path kind i parent original_name new_name =
     bndE (entry_identity_state parent new_name i kind) (\<lambda>destination. case destination of
       Replaced \<Rightarrow> fail EAlreadyExists
     | Expected \<Rightarrow>
         bndE (sync_all parent) (\<lambda>_.
         bndE (replace_file_operation J operation_name (RenameOp original_path new_path kind i PhaseMoved)) (\<lambda>_.
         done_with True))
     | Missing \<Rightarrow>
         bndE (entry_identity_state parent original_name i kind) (\<lambda>source. case source of
           Expected \<Rightarrow> bndE (remove_file_operation operation_name) (\<lambda>_. done_with False)
         | Replaced \<Rightarrow> fail EAlreadyExists
         | Missing \<Rightarrow> fail ENotFound))"

definition recover_rename_rollback ::
  "rstr \<Rightarrow> entry_kind \<Rightarrow> identity \<Rightarrow> dir \<Rightarrow> rstr \<Rightarrow> rstr \<Rightarrow> (io_error + unit) prog" where
  "recover_rename_rollback operation_name kind i parent original_name new_name =
     bndE (entry_identity_state parent original_name i kind) (\<lambda>original_state.
     bndE (entry_identity_state parent new_name i kind) (\<lambda>destination_state.
     bndE (case (original_state, destination_state) of
             (Expected, Missing) \<Rightarrow> sync_all parent
           | (Missing, Expected) \<Rightarrow> bndE (rename_noreplace parent new_name original_name) (\<lambda>_. sync_all parent)
           | (Replaced, _) \<Rightarrow> fail EAlreadyExists
           | (_, Replaced) \<Rightarrow> fail EAlreadyExists
           | (Expected, Expected) \<Rightarrow> fail EAlreadyExists
           | (Missing, Missing) \<Rightarrow> fail ENotFound) (\<lambda>_.
     remove_file_operation operation_name)))"

definition recover_rename_operation ::
  "codec \<Rightarrow> rstr \<Rightarrow> rstr \<Rightarrow> rstr \<Rightarrow> entry_kind \<Rightarrow> identity \<Rightarrow> durable_phase \<Rightarrow> (io_error + file_operation_recovery) prog" where
  "recover_rename_operation J operation_name original_path new_path kind i phase =
     bndE (lift_result (split_parent_name original_path)) (\<lambda>(original_parent, original_name).
     bndE (lift_result (split_parent_name new_path)) (\<lambda>(new_parent, new_name).
     if original_parent \<noteq> new_parent then fail EInvalidData
     else
       bndE (bind_directory original_parent) (\<lambda>parent.
       let outcome = RecoveredRename original_path new_path (kind = EntryDirectory) in
       case phase of
         PhaseIntent \<Rightarrow>
           bndE (recover_rename_intent J operation_name original_path new_path kind i parent original_name new_name) (\<lambda>moved.
           done_with (if moved then outcome else Cancelled))
       | PhaseMoved \<Rightarrow>
           bndE (entry_identity_state parent new_name i kind) (\<lambda>destination. case destination of
             Expected \<Rightarrow> bndE (sync_all parent) (\<lambda>_. done_with outcome)
           | Replaced \<Rightarrow> fail EAlreadyExists
           | Missing \<Rightarrow> done_with outcome)
       | PhaseRollback \<Rightarrow>
           bndE (recover_rename_rollback operation_name kind i parent original_name new_name) (\<lambda>_. done_with Cancelled))))"

definition private_source :: "rstr \<Rightarrow> rstr \<Rightarrow> entry_identity_state \<Rightarrow> entry_identity_state \<Rightarrow> io_error + rstr option" where
  "private_source pending_name tombstone_name pending_state tombstone_state =
     (case (pending_state, tombstone_state) of
        (Expected, Missing) \<Rightarrow> Inr (Some pending_name)
      | (Missing, Expected) \<Rightarrow> Inr (Some tombstone_name)
      | (Missing, Missing) \<Rightarrow> Inr None
      | (_, _) \<Rightarrow> Inl EAlreadyExists)"

definition restore_private :: "dir \<Rightarrow> rstr \<Rightarrow> identity \<Rightarrow> entry_kind \<Rightarrow> rstr \<Rightarrow> (io_error + unit) prog" where
  "restore_private parent original_name i kind private_name =
     bnd (rename_noreplace_between Staging private_name parent original_name) (\<lambda>rename.
     bndE (case rename of
             Inr _ \<Rightarrow> done_with ()
           | Inl e \<Rightarrow>
               bnd (entry_matches_identity parent original_name i kind) (\<lambda>there.
               if \<not> there then fail e
               else bndE (entry_exists Staging private_name) (\<lambda>still. if still then fail e else done_with ()))) (\<lambda>_.
     bndE (sync_all parent) (\<lambda>_.
     sync_all Staging)))"

definition recover_delete_rollback ::
  "rstr \<Rightarrow> rstr \<Rightarrow> entry_kind \<Rightarrow> identity \<Rightarrow> rstr \<Rightarrow> rstr \<Rightarrow> (io_error + file_operation_recovery) prog" where
  "recover_delete_rollback operation_name original_path kind i pending_name tombstone_name =
     bndE (lift_result (split_parent_name original_path)) (\<lambda>(parent_path, original_name).
     bndE (bind_directory parent_path) (\<lambda>parent.
     bndE (entry_identity_state parent original_name i kind) (\<lambda>original_state.
     bndE (entry_identity_state Staging pending_name i kind) (\<lambda>pending_state.
     bndE (entry_identity_state Staging tombstone_name i kind) (\<lambda>tombstone_state.
     if original_state = Replaced \<or> pending_state = Replaced \<or> tombstone_state = Replaced then fail EAlreadyExists
     else
       bndE (lift_result (private_source pending_name tombstone_name pending_state tombstone_state)) (\<lambda>private.
       bndE (case (original_state, private) of
               (Expected, None) \<Rightarrow> sync_all parent
             | (Expected, Some _) \<Rightarrow> fail EAlreadyExists
             | (Missing, Some private_name) \<Rightarrow> restore_private parent original_name i kind private_name
             | (_, _) \<Rightarrow> fail ENotFound) (\<lambda>_.
       bndE (remove_pending_manifest (deletion_manifest_name pending_name)) (\<lambda>_.
       bndE (remove_file_operation operation_name) (\<lambda>_.
       bnd (unregister_upload_fragment pending_name) (\<lambda>_.
       bnd (unregister_upload_fragment tombstone_name) (\<lambda>_.
       done_with Cancelled)))))))))))"

text \<open>The end of a recovered deletion, from the tombstone.\<close>

definition finish_recovered_delete ::
  "codec \<Rightarrow> rstr \<Rightarrow> rstr \<Rightarrow> rstr \<Rightarrow> entry_kind \<Rightarrow> identity \<Rightarrow> rstr \<Rightarrow> bool \<Rightarrow> dir \<Rightarrow> (io_error + file_operation_recovery) prog" where
  "finish_recovered_delete J operation_name original_path original_name kind i tombstone_name allow_recursive parent =
     (case kind of
        EntryFile \<Rightarrow>
          bndE (bnd (unlink Staging tombstone_name) (\<lambda>r. case r of
                  Inr _ \<Rightarrow> sync_all Staging
                | Inl e \<Rightarrow> if e = ENotFound then done_with () else fail e)) (\<lambda>_.
          done_with (RecoveredDelete original_path False None))
      | EntryDirectory \<Rightarrow>
          if allow_recursive then done_with (RecoveredDelete original_path True (Some tombstone_name))
          else bnd (rmdir Staging tombstone_name) (\<lambda>r. case r of
            Inr _ \<Rightarrow> bndE (sync_all Staging) (\<lambda>_. done_with (RecoveredDelete original_path True None))
          | Inl e \<Rightarrow>
              bndE (entry_identity_state Staging tombstone_name i EntryDirectory) (\<lambda>state. case state of
                Missing \<Rightarrow> bndE (sync_all Staging) (\<lambda>_. done_with (RecoveredDelete original_path True None))
              | Replaced \<Rightarrow> fail EAlreadyExists
              | Expected \<Rightarrow>
                  if e \<noteq> EDirectoryNotEmpty then fail e
                  else
                    bndE (replace_delete_operation_phase J operation_name PhaseRollback) (\<lambda>_.
                    bndE (rename_noreplace_between Staging tombstone_name parent original_name) (\<lambda>_.
                    bndE (sync_all parent) (\<lambda>_.
                    bndE (sync_all Staging) (\<lambda>_.
                    bndE (remove_file_operation operation_name) (\<lambda>_.
                    bnd (unregister_upload_fragment tombstone_name) (\<lambda>_.
                    done_with Cancelled)))))))))"

definition recover_delete_operation ::
  "codec \<Rightarrow> rstr \<Rightarrow> rstr \<Rightarrow> entry_kind \<Rightarrow> identity \<Rightarrow> rstr \<Rightarrow> rstr \<Rightarrow> bool \<Rightarrow> durable_phase \<Rightarrow> (io_error + file_operation_recovery) prog" where
  "recover_delete_operation J operation_name original_path kind i pending_name tombstone_name allow_recursive phase =
     (if phase = PhaseIntent \<or> phase = PhaseRollback
      then recover_delete_rollback operation_name original_path kind i pending_name tombstone_name
      else
        bndE (lift_result (split_parent_name original_path)) (\<lambda>(parent_path, original_name).
        bndE (bind_directory parent_path) (\<lambda>parent.
        bnd (entry_matches_identity Staging tombstone_name i kind) (\<lambda>tombstone_present.
        let finish = bndE (remove_pending_manifest (deletion_manifest_name pending_name)) (\<lambda>_.
              finish_recovered_delete J operation_name original_path original_name kind i tombstone_name allow_recursive parent) in
        if tombstone_present then finish
        else
          bndE (entry_exists Staging tombstone_name) (\<lambda>replaced.
          if replaced then fail EAlreadyExists
          else
            bnd (entry_matches_identity Staging pending_name i kind) (\<lambda>pending_present.
            if pending_present then
              bndE (rename_noreplace Staging pending_name tombstone_name) (\<lambda>_.
              bndE (sync_all Staging) (\<lambda>_. finish))
            else
              bndE (entry_exists Staging pending_name) (\<lambda>foreign.
              if foreign then fail EAlreadyExists
              else
                bndE (remove_pending_manifest (deletion_manifest_name pending_name)) (\<lambda>_.
                done_with (RecoveredDelete original_path (kind = EntryDirectory) None)))))))))"

fun validate_file_operation :: "durable_operation \<Rightarrow> io_error + unit" where
  "validate_file_operation (RenameOp original_path new_path kind (device, inode) phase) =
     (case split_parent_name original_path of
        Inl e \<Rightarrow> Inl e
      | Inr (original_parent, _) \<Rightarrow>
          (case split_parent_name new_path of
             Inl e \<Rightarrow> Inl e
           | Inr (new_parent, _) \<Rightarrow>
               if original_parent \<noteq> new_parent \<or> original_path = new_path then Inl EInvalidData
               else if device = 0 \<or> inode = 0 then Inl EInvalidData else Inr ()))"
| "validate_file_operation (DeleteOp original_path kind (device, inode) pending_name tombstone_name allow_recursive phase) =
     (case split_parent_name original_path of
        Inl e \<Rightarrow> Inl e
      | Inr _ \<Rightarrow>
          if \<not> is_deletion_pending_name pending_name \<or> \<not> is_deletion_tombstone_name tombstone_name then Inl EInvalidData
          else if device = 0 \<or> inode = 0 then Inl EInvalidData else Inr ())"

fun remove_temporaries :: "rstr list \<Rightarrow> (io_error + bool) prog" where
  "remove_temporaries [] = done_with False"
| "remove_temporaries (name # names) =
     (if \<not> is_file_operation_temporary_name name then remove_temporaries names
      else bnd (unlink Staging name) (\<lambda>r. case r of
        Inr _ \<Rightarrow> bndE (remove_temporaries names) (\<lambda>_. done_with True)
      | Inl e \<Rightarrow> if e = ENotFound then remove_temporaries names else fail e))"

definition remove_incomplete_file_operation_writes :: "(io_error + unit) prog" where
  "remove_incomplete_file_operation_writes =
     bndE (read_names Staging) (\<lambda>names.
     bndE (remove_temporaries names) (\<lambda>removed.
     if removed then sync_all Staging else done_with ()))"

fun read_operations :: "codec \<Rightarrow> rstr list \<Rightarrow> (io_error + pending_file_operation list) prog" where
  "read_operations J [] = done_with []"
| "read_operations J (name # names) =
     (if \<not> is_file_operation_name name then read_operations J names
      else bndE (read_file_operation J name) (\<lambda>operation.
           bndE (lift_result (validate_file_operation operation)) (\<lambda>_.
           bndE (read_operations J names) (\<lambda>rest.
           done_with (\<lparr>pf_journal_name = name, pf_operation = operation\<rparr> # rest)))))"

definition pending_file_operations :: "codec \<Rightarrow> (io_error + pending_file_operation list) prog" where
  "pending_file_operations J =
     bndE (read_names Staging) (\<lambda>names.
     bndE (read_operations J names) (\<lambda>operations.
     done_with (sort_key pf_journal_name operations)))"

text \<open>The two loops of \<open>recover_pending_deletions\<close>.\<close>

fun finalize_restored :: "codec \<Rightarrow> rstr list \<Rightarrow> rstr list \<Rightarrow> (io_error + unit) prog" where
  "finalize_restored J journaled [] = done_with ()"
| "finalize_restored J journaled (manifest_name # names) =
     (case deletion_pending_from_manifest_name manifest_name of
        None \<Rightarrow> finalize_restored J journaled names
      | Some pending_name \<Rightarrow>
          if pending_name \<in> set journaled then finalize_restored J journaled names
          else
            bndE (entry_exists Staging pending_name) (\<lambda>present.
            if present then finalize_restored J journaled names
            else
              bndE (read_pending_manifest J manifest_name) (\<lambda>original_path.
              bndE (lift_result (split_parent_name original_path)) (\<lambda>(parent_path, original_name).
              bndE (bind_directory parent_path) (\<lambda>parent.
              bndE (entry_exists parent original_name) (\<lambda>restored.
              if \<not> restored then fail ENotFound
              else
                bndE (sync_all parent) (\<lambda>_.
                bndE (sync_all Staging) (\<lambda>_.
                bndE (remove_pending_manifest manifest_name) (\<lambda>_.
                bnd (unregister_upload_fragment pending_name) (\<lambda>_.
                finalize_restored J journaled names))))))))))"

fun restore_pending :: "codec \<Rightarrow> rstr list \<Rightarrow> rstr list \<Rightarrow> (io_error + unit) prog" where
  "restore_pending J journaled [] = done_with ()"
| "restore_pending J journaled (pending_name # names) =
     (if \<not> is_deletion_pending_name pending_name \<or> pending_name \<in> set journaled then restore_pending J journaled names
      else
        let manifest_name = deletion_manifest_name pending_name in
        bndE (read_pending_manifest J manifest_name) (\<lambda>original_path.
        bndE (lift_result (split_parent_name original_path)) (\<lambda>(parent_path, original_name).
        bndE (bind_directory parent_path) (\<lambda>parent.
        bndE (rename_noreplace_between Staging pending_name parent original_name) (\<lambda>_.
        bndE (sync_all parent) (\<lambda>_.
        bndE (sync_all Staging) (\<lambda>_.
        bnd (remove_pending_manifest manifest_name) (\<lambda>manifest_result.
        bnd (unregister_upload_fragment pending_name) (\<lambda>_.
        bndE (lift_result manifest_result) (\<lambda>_.
        restore_pending J journaled names))))))))))"

fun journaled_pending :: "pending_file_operation list \<Rightarrow> rstr list" where
  "journaled_pending [] = []"
| "journaled_pending (p # ps) =
     (case pf_operation p of DeleteOp _ _ _ pending_name _ _ _ \<Rightarrow> [pending_name] | RenameOp _ _ _ _ _ \<Rightarrow> []) @ journaled_pending ps"

definition recover_pending_deletions :: "codec \<Rightarrow> pending_file_operation list \<Rightarrow> (io_error + unit) prog" where
  "recover_pending_deletions J pending_operations =
     (let journaled = journaled_pending pending_operations in
      bndE (read_names Staging) (\<lambda>names.
      bndE (finalize_restored J journaled names) (\<lambda>_.
      restore_pending J journaled names)))"

definition recover_file_operation :: "codec \<Rightarrow> pending_file_operation \<Rightarrow> (io_error + file_operation_recovery) prog" where
  "recover_file_operation J pending =
     (case pf_operation pending of
        RenameOp original_path new_path kind i phase \<Rightarrow>
          recover_rename_operation J (pf_journal_name pending) original_path new_path kind i phase
      | DeleteOp original_path kind i pending_name tombstone_name allow_recursive phase \<Rightarrow>
          recover_delete_operation J (pf_journal_name pending) original_path kind i pending_name tombstone_name allow_recursive phase)"

definition complete_file_operation :: "pending_file_operation \<Rightarrow> (io_error + unit) prog" where
  "complete_file_operation pending =
     bndE (remove_file_operation (pf_journal_name pending)) (\<lambda>_.
     case pf_operation pending of
       DeleteOp _ _ _ _ tombstone_name _ _ \<Rightarrow> bnd (unregister_upload_fragment tombstone_name) (\<lambda>_. done_with ())
     | RenameOp _ _ _ _ _ \<Rightarrow> done_with ())"

end
