(* ===== verification/File_Operations.thy ===== *)
theory File_Operations
  imports File_Staging Upload_Operations Share_Admin
begin

text \<open>
  File operations of administrators (\<open>src/src/file_ops.rs\<close>, \<open>src/src/file_ops/upload_recovery.rs\<close>) over the
  staged mutations of the storage and the transactions of the database, with the sticky recovery flag of
  \<open>src/src/storage_authority.rs\<close> and the recovery of the start of the server.

  A transaction reads the database when it begins and its COMMIT is one call: it works, fails, or its answer
  is lost. A transaction of its own (\<open>rename_share_paths_and_audit\<close> and the like) is one call. The error of a
  failing database call is only logged, so one value stands for all of them.
\<close>

section \<open>Results\<close>

datatype file_operation_error =
    FInvalidPath
  | FInvalidName
  | FNotFound
  | FConflict
  | FConfirmationRequired rstr
  | FDatabase db_error
  | FDatabaseCapacity
  | FIo io_error

datatype audit_durability = Durable | Uncertain

record create_directory_result =
  cd_path :: rstr
  cd_durability :: audit_durability

record rename_result =
  rn_path :: rstr
  rn_kind :: entry_kind
  rn_updated_shares :: nat
  rn_durability :: audit_durability

record delete_result =
  dl_path :: rstr
  dl_kind :: entry_kind
  dl_deactivated_shares :: nat
  dl_cleanup_pending :: bool
  dl_durability :: audit_durability

datatype 'a required_audit_file_outcome = AuditedOutcome "'a session_bound" | UncertainOutcome "'a session_bound"

record file_env =
  fe_codec :: codec
  fe_lower :: "nat \<Rightarrow> rstr"
  fe_now :: instant
  fe_idle :: int
  fe_active_uploads :: "rstr set"

definition map_io :: "io_error \<Rightarrow> file_operation_error" where
  "map_io e =
     (case e of
        ENotFound \<Rightarrow> FNotFound
      | ENotADirectory \<Rightarrow> FNotFound
      | EAlreadyExists \<Rightarrow> FConflict
      | EInvalidInput \<Rightarrow> FInvalidPath
      | EInvalidData \<Rightarrow> FInvalidPath
      | EPermissionDenied \<Rightarrow> FInvalidPath
      | _ \<Rightarrow> FIo e)"

text \<open>The part of a path after its last slash.\<close>

definition last_part :: "rstr \<Rightarrow> rstr" where
  "last_part path = (case rsplit_once 47 path of None \<Rightarrow> path | Some (_, name) \<Rightarrow> name)"

definition map_delete_commit_io :: "io_error \<Rightarrow> rstr \<Rightarrow> file_operation_error" where
  "map_delete_commit_io e original_path =
     (if e = EDirectoryNotEmpty then FConfirmationRequired (last_part original_path) else map_io e)"

definition normalize :: "rstr \<Rightarrow> bool \<Rightarrow> file_operation_error + rstr" where
  "normalize raw allow_empty =
     (case validate_relative raw of
        Inl _ \<Rightarrow> Inl FInvalidPath
      | Inr p \<Rightarrow>
          let path = map (\<lambda>c. if c = 92 then 47 else c) p in
          if \<not> allow_empty \<and> path = [] then Inl FInvalidPath else Inr path)"

definition validate_name :: "rstr \<Rightarrow> file_operation_error + rstr" where
  "validate_name name = map_err (\<lambda>_. FInvalidName) (safe_admin_filename name)"

record rename_plan =
  rp_path :: rstr
  rp_new_name :: rstr
  rp_destination :: rstr

definition plan_rename :: "rstr \<Rightarrow> rstr \<Rightarrow> file_operation_error + rename_plan" where
  "plan_rename path new_name =
     (case normalize path False of
        Inl e \<Rightarrow> Inl e
      | Inr path \<Rightarrow>
          (case validate_name new_name of
             Inl e \<Rightarrow> Inl e
           | Inr new_name \<Rightarrow>
               let parent = (case rsplit_once 47 path of None \<Rightarrow> [] | Some (parent, _) \<Rightarrow> parent);
                   destination = (if parent = [] then new_name else parent @ [47] @ new_name) in
               if destination = path then Inl FInvalidName
               else Inr \<lparr>rp_path = path, rp_new_name = new_name, rp_destination = destination\<rparr>))"

definition validated_rename_paths :: "rstr \<Rightarrow> rstr \<Rightarrow> file_operation_error + rstr \<times> rstr" where
  "validated_rename_paths path new_name =
     (case plan_rename path new_name of
        Inl e \<Rightarrow> Inl e
      | Inr plan \<Rightarrow>
          (case validate_event (audit_event PathRenamed (Some (rp_destination plan))
                  (Some (lit ''old_path='' @ rp_path plan @ lit '';updated_shares='' @ dec_nat u64_max @ lit '';recovery=false''))) of
             Inl e \<Rightarrow> Inl (FDatabase e)
           | Inr _ \<Rightarrow> Inr (rp_path plan, rp_new_name plan)))"

definition validate_delete_confirmation :: "rstr \<Rightarrow> bool \<Rightarrow> rstr option \<Rightarrow> file_operation_error + unit" where
  "validate_delete_confirmation path directory_non_empty confirm_name =
     (case normalize path False of
        Inl e \<Rightarrow> Inl e
      | Inr path \<Rightarrow>
          if directory_non_empty \<and> confirm_name \<noteq> Some (last_part path)
          then Inl (FConfirmationRequired (last_part path)) else Inr ())"

section \<open>Storage authority\<close>

text \<open>\<open>acquire_mutation\<close> marks the storage dirty and gives whether it was.\<close>

definition acquire_mutation :: "bool prog" where
  "acquire_mutation s = (Some (sys_recovery_required s), s\<lparr>sys_recovery_required := True\<rparr>)"

definition recovery_required :: "bool prog" where
  "recovery_required s = (Some (sys_recovery_required s), s)"

definition finish_clean :: "unit prog" where
  "finish_clean s = (Some (), s\<lparr>sys_recovery_required := False, sys_generation := (sys_generation s + 1) mod 2 ^ 64\<rparr>)"

definition request_cleanup :: "unit prog" where
  "request_cleanup s = (Some (), s\<lparr>sys_cleanup_requested := True\<rparr>)"

section \<open>The database\<close>

definition database_failure :: db_error where
  "database_failure = InvalidQuery"

definition acquire_database_permit :: "(file_operation_error + unit) prog" where
  "acquire_database_permit = call_as FDatabaseCapacity (\<lambda>s. (Inr (), s))"

definition transaction :: "(db \<Rightarrow> 'a outcome) \<Rightarrow> (file_operation_error + 'a) prog" where
  "transaction act = call_as (FDatabase database_failure)
     (\<lambda>s. case act (sys_db s) of (r, d) \<Rightarrow> (map_err FDatabase r, s\<lparr>sys_db := d\<rparr>))"

text \<open>A statement inside a transaction gives the next state of the transaction.\<close>

definition statement :: "(db \<Rightarrow> 'a \<times> db) \<Rightarrow> db \<Rightarrow> (file_operation_error + 'a \<times> db) prog" where
  "statement act d = call_as (FDatabase database_failure) (\<lambda>s. (Inr (act d), s))"

definition begin_transaction :: "mfa_session_proof \<Rightarrow> int \<Rightarrow> instant \<Rightarrow> (file_operation_error + (bool \<times> db)) prog" where
  "begin_transaction proof idle now =
     call_as (FDatabase database_failure) (\<lambda>s. (Inr (live_mfa_session proof idle now (sys_db s), sys_db s), s))"

definition commit_transaction ::
  "instant \<Rightarrow> audit_context \<Rightarrow> required_audit_event list \<Rightarrow> db \<Rightarrow> (file_operation_error + unit) prog" where
  "commit_transaction now ctx evs d1 =
     call_as (FDatabase database_failure)
       (\<lambda>s. case commit_audited now ctx evs () (sys_db s) d1 of (r, d) \<Rightarrow> (map_err FDatabase r, s\<lparr>sys_db := d\<rparr>))"

text \<open>
  \<open>required_transaction_for_mfa_session_audited\<close>: the operation gets the state of the transaction and gives,
  beside its result, the variable it captures; when the audits or the COMMIT fail, its result is dropped.
\<close>

definition required_transaction_for_mfa_session_audited ::
  "file_env \<Rightarrow> mfa_session_proof \<Rightarrow> audit_context \<Rightarrow> 'c \<Rightarrow> ('a \<Rightarrow> unit prog)
     \<Rightarrow> (db \<Rightarrow> ((file_operation_error + ('a \<times> required_audit_event list) \<times> db) \<times> 'c) prog)
     \<Rightarrow> ((file_operation_error + 'a session_bound) \<times> 'c) prog" where
  "required_transaction_for_mfa_session_audited env proof ctx captured drop_outcome operation =
     bnd (begin_transaction proof (fe_idle env) (fe_now env)) (\<lambda>r. case r of
       Inl e \<Rightarrow> ret (Inl e, captured)
     | Inr (live, d) \<Rightarrow>
         if \<not> live then ret (Inr SessionUnavailable, captured)
         else (case validate_context ctx of
           Inl e \<Rightarrow> ret (Inl (FDatabase e), captured)
         | Inr _ \<Rightarrow>
             bnd (operation d) (\<lambda>(r, captured). case r of
               Inl e \<Rightarrow> ret (Inl e, captured)
             | Inr ((out, evs), d1) \<Rightarrow>
                 bnd (commit_transaction (fe_now env) ctx evs d1) (\<lambda>r. case r of
                   Inl e \<Rightarrow> bnd (drop_outcome out) (\<lambda>_. ret (Inl e, captured))
                 | Inr _ \<Rightarrow> ret (Inr (Authorized out), captured)))))"

section \<open>Recovery\<close>

definition system_context :: audit_context where
  "system_context = \<lparr>actor = lit ''system'', ctx_client_ip = None\<rparr>"

definition recover_one :: "file_env \<Rightarrow> pending_file_operation \<Rightarrow> (file_operation_error + rstr list) prog" where
  "recover_one env pending =
     bndE (mapE map_io (recover_file_operation (fe_codec env) pending)) (\<lambda>recovery. case recovery of
       RecoveredRename original_path new_path is_directory \<Rightarrow>
         bndE (transaction (rename_share_paths_and_audit (fe_lower env) original_path new_path is_directory system_context True (fe_now env))) (\<lambda>_.
         bndE (mapE map_io (complete_file_operation pending)) (\<lambda>_.
         done_with []))
     | RecoveredDelete original_path is_directory tombstone_path \<Rightarrow>
         bndE (transaction (deactivate_shares_for_path_and_audit original_path is_directory system_context True
                 (tombstone_path \<noteq> None) (fe_now env))) (\<lambda>_.
         bndE (mapE map_io (complete_file_operation pending)) (\<lambda>_.
         done_with (case tombstone_path of None \<Rightarrow> [] | Some t \<Rightarrow> [t])))
     | Cancelled \<Rightarrow> done_with [])"

fun recover_each :: "file_env \<Rightarrow> pending_file_operation list \<Rightarrow> (file_operation_error + rstr list) prog" where
  "recover_each env [] = done_with []"
| "recover_each env (p # ps) =
     bndE (recover_one env p) (\<lambda>paths. bndE (recover_each env ps) (\<lambda>rest. done_with (paths @ rest)))"

definition recover_pending_file_operations_blocking :: "file_env \<Rightarrow> (file_operation_error + rstr list) prog" where
  "recover_pending_file_operations_blocking env =
     bndE (mapE map_io (pending_file_operations (fe_codec env))) (\<lambda>pending_operations.
     bndE (mapE map_io (recover_pending_deletions (fe_codec env) pending_operations)) (\<lambda>_.
     recover_each env pending_operations))"

definition recover_uncertain_file_operation_before_unlock :: "file_env \<Rightarrow> bool prog" where
  "recover_uncertain_file_operation_before_unlock env =
     bnd (recover_pending_file_operations_blocking env) (\<lambda>r. case r of
       Inr cleanup_paths \<Rightarrow> bnd (if cleanup_paths = [] then ret () else request_cleanup) (\<lambda>_. ret True)
     | Inl _ \<Rightarrow> ret False)"

definition finish_recovery_if_clean :: "file_env \<Rightarrow> unit prog" where
  "finish_recovery_if_clean env =
     bnd (recover_uncertain_file_operation_before_unlock env) (\<lambda>clean. if clean then finish_clean else ret ())"

definition recover_upload_operations_call :: "file_env \<Rightarrow> (file_operation_error + unit) prog" where
  "recover_upload_operations_call env = transaction (recover_upload_operations (fe_active_uploads env) (fe_now env))"

definition recover_pending_file_operations_with_guard :: "file_env \<Rightarrow> bool \<Rightarrow> (file_operation_error + unit) prog" where
  "recover_pending_file_operations_with_guard env recovery_required_on_entry =
     (if \<not> recovery_required_on_entry then done_with ()
      else
        bndE acquire_database_permit (\<lambda>_.
        bndE (recover_pending_file_operations_blocking env) (\<lambda>cleanup_paths.
        bndE (recover_upload_operations_call env) (\<lambda>_.
        bnd (if cleanup_paths = [] then ret () else request_cleanup) (\<lambda>_.
        done_with ())))))"

definition acquire_storage_mutation :: "file_env \<Rightarrow> (file_operation_error + unit) prog" where
  "acquire_storage_mutation env = bnd acquire_mutation (\<lambda>dirty. recover_pending_file_operations_with_guard env dirty)"

text \<open>One reader at a time: the loop of \<open>acquire_storage_read\<close> ends after the recovery it runs itself.\<close>

definition acquire_storage_read :: "file_env \<Rightarrow> (file_operation_error + unit) prog" where
  "acquire_storage_read env =
     bnd recovery_required (\<lambda>dirty.
     if \<not> dirty then done_with ()
     else bndE (recover_pending_file_operations_with_guard env True) (\<lambda>_. bnd finish_clean (\<lambda>_. done_with ())))"

definition recover_pending_file_operations :: "file_env \<Rightarrow> (file_operation_error + unit) prog" where
  "recover_pending_file_operations env =
     bnd acquire_mutation (\<lambda>dirty.
     bndE (recover_pending_file_operations_with_guard env dirty) (\<lambda>_.
     bndE (recover_upload_operations_call env) (\<lambda>_.
     bnd finish_clean (\<lambda>_.
     done_with ()))))"

text \<open>The end of opening the storage.\<close>

definition open_storage :: "codec \<Rightarrow> (io_error + unit) prog" where
  "open_storage J =
     bndE remove_incomplete_file_operation_writes (\<lambda>_.
     bndE (pending_file_operations J) (\<lambda>pending_operations.
     recover_pending_deletions J pending_operations))"

text \<open>The start of a server process: no name is active yet, and the storage counts as dirty.\<close>

definition startup :: "file_env \<Rightarrow> (file_operation_error + unit) prog" where
  "startup env s =
     bndE (mapE map_io (open_storage (fe_codec env))) (\<lambda>_. recover_pending_file_operations env)
       (s\<lparr>sys_active := [], sys_recovery_required := True, sys_generation := 0, sys_cleanup_requested := False\<rparr>)"

section \<open>Renaming\<close>

type_synonym rename_outcome = "staged_rename option \<times> rstr \<times> entry_kind \<times> nat"

definition rename_operation ::
  "file_env \<Rightarrow> rstr \<Rightarrow> rstr \<Rightarrow> db
     \<Rightarrow> ((file_operation_error + (rename_outcome \<times> required_audit_event list) \<times> db) \<times> (rstr \<times> entry_kind) option) prog" where
  "rename_operation env path new_name d =
     bnd (mapE map_io (stage_rename_with_outcome (fe_codec env) path new_name)) (\<lambda>outcome. case outcome of
       Inl e \<Rightarrow> ret (Inl e, None)
     | Inr (RenameUncertain new_path kind e) \<Rightarrow> ret (Inr (((None, new_path, kind, 0), []), d), None)
     | Inr (RenameReady staged) \<Rightarrow>
         let new_path = sr_new_path staged; kind = sr_kind staged; staged_snapshot = Some (new_path, kind);
             staged = begin_database_commit staged in
         bnd (statement (rename_share_paths_in_transaction (fe_lower env) (sr_original_path staged) new_path
                (kind = EntryDirectory) False) d) (\<lambda>r. case r of
           Inl e \<Rightarrow> bnd (drop_staged_rename (fe_codec env) staged) (\<lambda>_. ret (Inl e, staged_snapshot))
         | Inr ((updated_shares, evs), d1) \<Rightarrow>
             ret (Inr (((Some staged, new_path, kind, updated_shares), evs), d1), staged_snapshot)))"

definition drop_rename_outcome :: "file_env \<Rightarrow> rename_outcome \<Rightarrow> unit prog" where
  "drop_rename_outcome env out = (case fst out of None \<Rightarrow> ret () | Some staged \<Rightarrow> drop_staged_rename (fe_codec env) staged)"

definition uncertain_rename :: "file_env \<Rightarrow> rstr \<Rightarrow> entry_kind \<Rightarrow> nat \<Rightarrow> rename_result prog" where
  "uncertain_rename env new_path kind updated_shares =
     bnd (finish_recovery_if_clean env) (\<lambda>_.
     ret \<lparr>rn_path = new_path, rn_kind = kind, rn_updated_shares = updated_shares, rn_durability = Uncertain\<rparr>)"

definition finish_rename :: "file_env \<Rightarrow> rename_outcome \<Rightarrow> rename_result prog" where
  "finish_rename env out =
     (case out of (staged, new_path, kind, updated_shares) \<Rightarrow>
        (case staged of
           None \<Rightarrow> uncertain_rename env new_path kind 0
         | Some staged \<Rightarrow>
             bnd (commit_rename staged) (\<lambda>r. case r of
               Inl e \<Rightarrow> uncertain_rename env new_path kind updated_shares
             | Inr _ \<Rightarrow>
                 bnd finish_clean (\<lambda>_.
                 ret \<lparr>rn_path = new_path, rn_kind = kind, rn_updated_shares = updated_shares, rn_durability = Durable\<rparr>))))"

definition finish_rename_outcome ::
  "file_env \<Rightarrow> (file_operation_error + rename_outcome session_bound) \<times> (rstr \<times> entry_kind) option
     \<Rightarrow> (file_operation_error + rename_result required_audit_file_outcome) prog" where
  "finish_rename_outcome env r =
     (case r of (outcome, staged_snapshot) \<Rightarrow>
        (case outcome of
           Inr SessionUnavailable \<Rightarrow> bnd finish_clean (\<lambda>_. done_with (AuditedOutcome SessionUnavailable))
         | Inr (Authorized out) \<Rightarrow> bnd (finish_rename env out) (\<lambda>result. done_with (AuditedOutcome (Authorized result)))
         | Inl e \<Rightarrow>
             (case (e, staged_snapshot) of
                (FDatabase _, Some (new_path, kind)) \<Rightarrow>
                  bnd (uncertain_rename env new_path kind 0) (\<lambda>result. done_with (UncertainOutcome (Authorized result)))
              | _ \<Rightarrow> fail e)))"

definition rename_path ::
  "file_env \<Rightarrow> mfa_session_proof \<Rightarrow> rstr \<Rightarrow> rstr \<Rightarrow> audit_context
     \<Rightarrow> (file_operation_error + rename_result required_audit_file_outcome) prog" where
  "rename_path env proof path new_name ctx =
     bndE (lift_result (validated_rename_paths path new_name)) (\<lambda>(path, new_name).
     bndE (acquire_storage_mutation env) (\<lambda>_.
     bndE acquire_database_permit (\<lambda>_.
     bnd (required_transaction_for_mfa_session_audited env proof ctx None (drop_rename_outcome env)
            (rename_operation env path new_name))
       (finish_rename_outcome env))))"

section \<open>Deleting\<close>

definition entry_status :: "rstr \<Rightarrow> (io_error + entry_kind \<times> bool) prog" where
  "entry_status relative =
     bndE (lift_result (split_parent_name relative)) (\<lambda>(parent, name).
     bndE (bind_directory parent) (\<lambda>d.
     case safe_admin_filename name of
       Inl _ \<Rightarrow> fail EInvalidInput
     | Inr _ \<Rightarrow>
         bndE (openat2 d name) (\<lambda>child.
         bndE (metadata_of child) (\<lambda>child. case node_kind child of
           None \<Rightarrow> fail ENotFound
         | Some EntryFile \<Rightarrow> done_with (EntryFile, False)
         | Some EntryDirectory \<Rightarrow> bndE (scan_non_empty d name) (\<lambda>b. done_with (EntryDirectory, b))))))"

type_synonym prepared_delete_outcome = "pending_delete_commit option \<times> rstr \<times> entry_kind \<times> bool \<times> nat"

definition commit_staged_delete ::
  "file_env \<Rightarrow> rstr option \<Rightarrow> staged_delete \<Rightarrow> db
     \<Rightarrow> ((file_operation_error + (prepared_delete_outcome \<times> required_audit_event list) \<times> db) \<times> (rstr \<times> entry_kind \<times> bool) option) prog" where
  "commit_staged_delete env confirmation staged d =
     (let original_path = sd_original_path staged; kind = sd_kind staged;
          allow_recursive = (confirmation = Some (last_part original_path)) in
      bnd (commit_with_outcome (fe_codec env) allow_recursive staged) (\<lambda>r. case r of
        Inl e \<Rightarrow> ret (Inl (map_delete_commit_io e original_path), None)
      | Inr (CommitUncertain cleanup_pending e) \<Rightarrow> ret (Inr (((None, original_path, kind, cleanup_pending, 0), []), d), None)
      | Inr (CommitReady committed) \<Rightarrow>
          let cleanup_pending = pdc_cleanup_pending committed;
              committed_snapshot = Some (original_path, kind, cleanup_pending) in
          bnd (statement (deactivate_shares_for_path_in_transaction original_path (kind = EntryDirectory) False cleanup_pending) d) (\<lambda>r. case r of
            Inl e \<Rightarrow> bnd (drop_pending_commit committed) (\<lambda>_. ret (Inl e, committed_snapshot))
          | Inr ((deactivated_shares, evs), d1) \<Rightarrow>
              ret (Inr (((Some committed, original_path, kind, cleanup_pending, deactivated_shares), evs), d1), committed_snapshot))))"

definition delete_operation ::
  "file_env \<Rightarrow> rstr \<Rightarrow> rstr option \<Rightarrow> db
     \<Rightarrow> ((file_operation_error + (prepared_delete_outcome \<times> required_audit_event list) \<times> db) \<times> (rstr \<times> entry_kind \<times> bool) option) prog" where
  "delete_operation env path confirmation d =
     bnd (bndE (mapE map_io (entry_status path)) (\<lambda>(kind, non_empty).
          bndE (lift_result (validate_delete_confirmation path (kind = EntryDirectory \<and> non_empty) confirmation)) (\<lambda>_.
          mapE map_io (stage_delete (fe_codec env) path)))) (\<lambda>r. case r of
       Inl e \<Rightarrow> ret (Inl e, None)
     | Inr (DeleteUncertain original_path kind e) \<Rightarrow> ret (Inr (((None, original_path, kind, False, 0), []), d), None)
     | Inr (DeleteReady staged) \<Rightarrow>
         (case validate_delete_confirmation path (sd_kind staged = EntryDirectory \<and> sd_non_empty staged) confirmation of
            Inl e \<Rightarrow> bnd (drop_staged_delete (fe_codec env) staged) (\<lambda>_. ret (Inl e, None))
          | Inr _ \<Rightarrow> commit_staged_delete env confirmation staged d))"

definition drop_delete_outcome :: "prepared_delete_outcome \<Rightarrow> unit prog" where
  "drop_delete_outcome out = (case fst out of None \<Rightarrow> ret () | Some committed \<Rightarrow> drop_pending_commit committed)"

definition uncertain_delete :: "file_env \<Rightarrow> rstr \<Rightarrow> entry_kind \<Rightarrow> bool \<Rightarrow> nat \<Rightarrow> delete_result prog" where
  "uncertain_delete env original_path kind cleanup_pending deactivated_shares =
     bnd (finish_recovery_if_clean env) (\<lambda>_.
     ret \<lparr>dl_path = original_path, dl_kind = kind, dl_deactivated_shares = deactivated_shares,
       dl_cleanup_pending = cleanup_pending, dl_durability = Uncertain\<rparr>)"

definition finish_delete :: "file_env \<Rightarrow> prepared_delete_outcome \<Rightarrow> delete_result prog" where
  "finish_delete env out =
     (case out of (committed, original_path, kind, cleanup_pending, deactivated_shares) \<Rightarrow>
        (case committed of
           None \<Rightarrow> uncertain_delete env original_path kind cleanup_pending 0
         | Some committed \<Rightarrow>
             bnd (complete_delete committed) (\<lambda>r. case r of
               Inl e \<Rightarrow> uncertain_delete env original_path kind cleanup_pending deactivated_shares
             | Inr _ \<Rightarrow>
                 bnd (if pdc_tombstone_path committed = None then ret () else request_cleanup) (\<lambda>_.
                 bnd finish_clean (\<lambda>_.
                 ret \<lparr>dl_path = original_path, dl_kind = kind, dl_deactivated_shares = deactivated_shares,
                   dl_cleanup_pending = pdc_cleanup_pending committed, dl_durability = Durable\<rparr>)))))"

definition finish_delete_outcome ::
  "file_env \<Rightarrow> (file_operation_error + prepared_delete_outcome session_bound) \<times> (rstr \<times> entry_kind \<times> bool) option
     \<Rightarrow> (file_operation_error + delete_result required_audit_file_outcome) prog" where
  "finish_delete_outcome env r =
     (case r of (outcome, committed_snapshot) \<Rightarrow>
        (case outcome of
           Inr SessionUnavailable \<Rightarrow> bnd finish_clean (\<lambda>_. done_with (AuditedOutcome SessionUnavailable))
         | Inr (Authorized out) \<Rightarrow> bnd (finish_delete env out) (\<lambda>result. done_with (AuditedOutcome (Authorized result)))
         | Inl e \<Rightarrow>
             (case (e, committed_snapshot) of
                (FDatabase _, Some (original_path, kind, cleanup_pending)) \<Rightarrow>
                  bnd (uncertain_delete env original_path kind cleanup_pending 0) (\<lambda>result.
                  done_with (UncertainOutcome (Authorized result)))
              | _ \<Rightarrow> fail e)))"

definition delete_path ::
  "file_env \<Rightarrow> mfa_session_proof \<Rightarrow> rstr \<Rightarrow> rstr option \<Rightarrow> audit_context
     \<Rightarrow> (file_operation_error + delete_result required_audit_file_outcome) prog" where
  "delete_path env proof path confirm_name ctx =
     bndE (lift_result (normalize path False)) (\<lambda>path.
     bndE (lift_result (map_err FDatabase (validate_event (audit_event PathDeleted (Some path) None)))) (\<lambda>_.
     bndE (acquire_storage_mutation env) (\<lambda>_.
     bndE acquire_database_permit (\<lambda>_.
     bnd (required_transaction_for_mfa_session_audited env proof ctx None drop_delete_outcome
            (delete_operation env path confirm_name))
       (finish_delete_outcome env)))))"

record delete_inspection =
  di_path :: rstr
  di_name :: rstr
  di_kind :: entry_kind
  di_non_empty :: bool
  di_affected_shares :: nat

definition inspect_delete :: "file_env \<Rightarrow> rstr \<Rightarrow> (file_operation_error + delete_inspection) prog" where
  "inspect_delete env path =
     bndE (lift_result (normalize path False)) (\<lambda>path.
     bndE (acquire_storage_read env) (\<lambda>_.
     bndE acquire_database_permit (\<lambda>_.
     bndE (mapE map_io (entry_status path)) (\<lambda>(kind, non_empty).
     bndE (transaction (\<lambda>d. (Inr (count_active_shares_for_path path (kind = EntryDirectory) d), d))) (\<lambda>affected_shares.
     done_with \<lparr>di_path = path, di_name = last_part path, di_kind = kind, di_non_empty = non_empty,
       di_affected_shares = affected_shares\<rparr>)))))"

section \<open>Creating a directory\<close>

datatype publish_outcome = PublishDurable | PublishedSyncUncertain io_error | PublishedUncertain io_error

definition mkdir :: "dir \<Rightarrow> rstr \<Rightarrow> (io_error + unit) prog" where
  "mkdir d name =
     call (\<lambda>s. (if look d name s \<noteq> None then (Inl EAlreadyExists, s)
                else (Inr (), (edit d (fmupd name (DirNode (0, sys_inode s) fmempty)) s)\<lparr>sys_inode := sys_inode s + 1\<rparr>)))"

definition create_directory_with_outcome :: "dir \<Rightarrow> rstr \<Rightarrow> (io_error + publish_outcome) prog" where
  "create_directory_with_outcome d name =
     (case safe_admin_filename name of
        Inl _ \<Rightarrow> fail EInvalidInput
      | Inr _ \<Rightarrow>
          bndE (entry_exists d name) (\<lambda>there.
          if there then fail EAlreadyExists
          else
            bnd (mkdir d name) (\<lambda>made.
            bndE (case made of
                    Inr _ \<Rightarrow> done_with None
                  | Inl e \<Rightarrow> bnd (entry_exists d name) (\<lambda>probe. if probe = Inr False then fail e else done_with (Some e))) (\<lambda>publication_error.
            bnd (sync_all d) (\<lambda>sync.
            done_with (case publication_error of
                Some e \<Rightarrow> PublishedUncertain e
              | None \<Rightarrow> (case sync of Inr _ \<Rightarrow> PublishDurable | Inl e \<Rightarrow> PublishedSyncUncertain e)))))))"

definition root_create_directory :: "rstr \<Rightarrow> rstr \<Rightarrow> (io_error + rstr \<times> publish_outcome) prog" where
  "root_create_directory parent name =
     bndE (lift_result (normalized parent)) (\<lambda>parent.
     case safe_admin_filename name of
       Inl _ \<Rightarrow> fail EInvalidInput
     | Inr name \<Rightarrow>
         bndE (bind_directory parent) (\<lambda>d.
         bndE (create_directory_with_outcome d name) (\<lambda>outcome.
         done_with (join_relative parent name, outcome))))"

definition create_directory_operation ::
  "rstr \<Rightarrow> rstr \<Rightarrow> db \<Rightarrow> ((file_operation_error + (create_directory_result \<times> required_audit_event list) \<times> db) \<times> rstr option) prog" where
  "create_directory_operation parent name d =
     bnd (mapE map_io (root_create_directory parent name)) (\<lambda>r. case r of
       Inl e \<Rightarrow> ret (Inl e, None)
     | Inr (path, publication) \<Rightarrow>
         ret (Inr ((\<lparr>cd_path = path, cd_durability = (if publication = PublishDurable then Durable else Uncertain)\<rparr>,
                    [audit_event DirectoryCreated (Some path) None]), d), Some path))"

definition create_directory ::
  "file_env \<Rightarrow> mfa_session_proof \<Rightarrow> rstr \<Rightarrow> rstr \<Rightarrow> audit_context
     \<Rightarrow> (file_operation_error + create_directory_result required_audit_file_outcome) prog" where
  "create_directory env proof parent name ctx =
     bndE (lift_result (normalize parent True)) (\<lambda>parent.
     bndE (lift_result (validate_name name)) (\<lambda>name.
     bndE (lift_result (map_err FDatabase (validate_context ctx))) (\<lambda>_.
     bndE (lift_result (map_err FDatabase (validate_event (audit_event DirectoryCreated
             (Some (if parent = [] then name else parent @ [47] @ name)) None)))) (\<lambda>_.
     bndE (acquire_storage_mutation env) (\<lambda>_.
     bndE acquire_database_permit (\<lambda>_.
     bnd (required_transaction_for_mfa_session_audited env proof ctx None (\<lambda>_. ret ()) (create_directory_operation parent name)) (\<lambda>(outcome, created_path).
     bndE (case outcome of
             Inr out \<Rightarrow> done_with (AuditedOutcome out)
           | Inl e \<Rightarrow>
               (case (e, created_path) of
                  (FDatabase _, Some path) \<Rightarrow> done_with (UncertainOutcome (Authorized \<lparr>cd_path = path, cd_durability = Uncertain\<rparr>))
                | _ \<Rightarrow> fail e)) (\<lambda>result.
     bnd finish_clean (\<lambda>_.
     done_with result)))))))))"

end
