(* ===== verification/Crash_Logic.thy ===== *)
theory Crash_Logic
  imports File_Operations
begin

text \<open>
  A logic for programs whose calls can fail, lose their answer or stop. During one rename or deletion the
  storage and the shares are in one of few configurations: where the object is, what the manifest, the
  journal and its temporary file hold, and whether the shares have changed. \<open>ok j K m Q c\<close> says that a run of
  \<open>m\<close> from configuration \<open>c\<close> ends in a configuration that satisfies \<open>Q\<close>, or stops in one that satisfies
  \<open>K\<close>; a quiet run has no faults and does not stop.
\<close>

section \<open>Configurations\<close>

datatype place = AtOld | AtNew | AtPending | AtTombstone | Gone

record job =
  j_root :: node
  j_dir :: "rstr list"
  j_entries :: entries
  j_staging :: entries
  j_node :: node
  j_old :: rstr
  j_new :: rstr
  j_pending :: rstr
  j_tombstone :: rstr
  j_manifest :: rstr
  j_journal :: rstr
  j_temporary :: rstr
  j_shares :: "bool \<Rightarrow> share_row list"

record cfg =
  at :: place
  man :: "nat list option"
  jour :: "nat list option"
  temp :: "nat list option"
  moved :: bool
  act :: "rstr list"
  toks :: "rstr list"
  dirty :: bool
  quiet :: bool

lemma cfg_same [simp]: "c\<lparr>at := at c\<rparr> = c" "c\<lparr>man := man c\<rparr> = c" "c\<lparr>jour := jour c\<rparr> = c" "c\<lparr>temp := temp c\<rparr> = c"
  "c\<lparr>moved := moved c\<rparr> = c" "c\<lparr>dirty := dirty c\<rparr> = c"
  "\<not> moved c \<Longrightarrow> c\<lparr>moved := False\<rparr> = c" "moved c \<Longrightarrow> c\<lparr>moved := True\<rparr> = c"
  by (cases c; simp)+

definition private_names :: "job \<Rightarrow> rstr list" where
  "private_names j = [j_pending j, j_tombstone j, j_manifest j, j_journal j, j_temporary j]"

definition wf_job :: "job \<Rightarrow> bool" where
  "wf_job j \<longleftrightarrow> get_dir (j_root j) (j_dir j) = Some (j_entries j)
     \<and> fmlookup (j_entries j) (j_old j) = Some (j_node j) \<and> j_old j \<noteq> j_new j
     \<and> distinct (private_names j) \<and> (\<forall>n\<in>set (private_names j). fmlookup (j_staging j) n = None)"

fun visible :: "job \<Rightarrow> place \<Rightarrow> entries" where
  "visible j AtOld = j_entries j"
| "visible j AtNew = fmupd (j_new j) (j_node j) (fmdrop (j_old j) (j_entries j))"
| "visible j l = fmdrop (j_old j) (j_entries j)"

definition file_is :: "entries \<Rightarrow> rstr \<Rightarrow> nat list option \<Rightarrow> bool" where
  "file_is es name content \<longleftrightarrow>
     (case content of None \<Rightarrow> fmlookup es name = None | Some c \<Rightarrow> \<exists>i. fmlookup es name = Some (FileNode i c))"

definition staging_is :: "job \<Rightarrow> cfg \<Rightarrow> entries \<Rightarrow> bool" where
  "staging_is j c es \<longleftrightarrow>
     fmlookup es (j_pending j) = (if at c = AtPending then Some (j_node j) else None)
     \<and> fmlookup es (j_tombstone j) = (if at c = AtTombstone then Some (j_node j) else None)
     \<and> file_is es (j_manifest j) (man c) \<and> file_is es (j_journal j) (jour c) \<and> file_is es (j_temporary j) (temp c)
     \<and> (\<forall>n. n \<notin> set (private_names j) \<longrightarrow> fmlookup es n = fmlookup (j_staging j) n)"

definition view :: "job \<Rightarrow> cfg \<Rightarrow> sys \<Rightarrow> bool" where
  "view j c s \<longleftrightarrow> sys_root s = put_dir (j_root j) (j_dir j) (visible j (at c))
     \<and> staging_is j c (sys_staging s) \<and> shares (sys_db s) = j_shares j (moved c)
     \<and> (at c = AtNew \<longrightarrow> fmlookup (j_entries j) (j_new j) = None)
     \<and> sys_active s = act c \<and> sys_tokens s = toks c \<and> sys_recovery_required s = dirty c
     \<and> (quiet c \<longrightarrow> sys_faults s = [])"

section \<open>Runs\<close>

definition ok :: "job \<Rightarrow> (cfg \<Rightarrow> bool) \<Rightarrow> 'a prog \<Rightarrow> ('a \<Rightarrow> cfg \<Rightarrow> bool) \<Rightarrow> cfg \<Rightarrow> bool" where
  "ok j K m Q c \<longleftrightarrow> (\<forall>s. view j c s \<longrightarrow>
     (case m s of
        (None, s') \<Rightarrow> \<not> quiet c \<and> (\<exists>c'. K c' \<and> \<not> quiet c' \<and> view j c' s')
      | (Some x, s') \<Rightarrow> (\<exists>c'. Q x c' \<and> quiet c' = quiet c \<and> view j c' s')))"

named_theorems ok_rule

lemma ok_ret [ok_rule]: "Q x c \<Longrightarrow> ok j K (ret x) Q c"
  by (auto simp: ok_def ret_def)

lemma ok_fail [ok_rule]: "Q (Inl e) c \<Longrightarrow> ok j K (fail e) Q c"
  by (simp add: fail_def ok_ret)

lemma ok_done_with [ok_rule]: "Q (Inr x) c \<Longrightarrow> ok j K (done_with x) Q c"
  by (simp add: done_with_def ok_ret)

lemma ok_lift_result [ok_rule]: "Q r c \<Longrightarrow> ok j K (lift_result r) Q c"
  by (simp add: lift_result_def ok_ret)

lemma ok_mono: "ok j K m Q c \<Longrightarrow> (\<And>x c. Q x c \<Longrightarrow> Q' x c) \<Longrightarrow> ok j K m Q' c"
  by (fastforce simp: ok_def split: prod.splits option.splits)

lemma ok_weaken:
  "ok j K m Q c \<Longrightarrow> (\<And>c. K c \<Longrightarrow> K' c) \<Longrightarrow> (\<And>x c. Q x c \<Longrightarrow> Q' x c) \<Longrightarrow> ok j K' m Q' c"
  by (fastforce simp: ok_def split: prod.splits option.splits)

lemma ok_quiet: "ok j K m Q c \<Longrightarrow> ok j K m (\<lambda>x c'. Q x c' \<and> quiet c' = quiet c) c"
  by (fastforce simp: ok_def split: prod.splits option.splits)

lemma ok_bnd [ok_rule]: "ok j K m (\<lambda>x. ok j K (f x) Q) c \<Longrightarrow> ok j K (bnd m f) Q c"
  by (fastforce simp: ok_def bnd_def split: prod.splits option.splits)

lemma ok_bndE [ok_rule]:
  "ok j K m (\<lambda>r. case r of Inl e \<Rightarrow> Q (Inl e) | Inr x \<Rightarrow> ok j K (f x) Q) c \<Longrightarrow> ok j K (bndE m f) Q c"
  unfolding bndE_def
  by (rule ok_bnd, erule ok_mono) (auto intro: ok_ret split: sum.splits)

lemma ok_mapE [ok_rule]: "ok j K m (\<lambda>r. Q (map_err g r)) c \<Longrightarrow> ok j K (mapE g m) Q c"
  unfolding mapE_def
  by (rule ok_bnd, erule ok_mono) (rule ok_ret)

lemma map_err_simps [simp]: "map_err f (Inl e) = Inl (f e)" "map_err f (Inr x) = Inr x"
  by (simp_all add: map_err_def)

lemma view_fault:
  assumes "view j c s" "sys_faults s = f # fs"
  shows "view j c (s\<lparr>sys_faults := fs\<rparr>)" "\<not> quiet c"
  using assms by (auto simp: view_def)

text \<open>The rule for a call from what its action does when it works.\<close>

lemma ok_call_as:
  assumes act: "\<And>s. view j c s \<Longrightarrow> \<exists>r s'. f s = (r, s') \<and> view j c' s' \<and> Q r c' \<and> (\<not> quiet c \<longrightarrow> Q (lose e r) c')"
    and q: "quiet c' = quiet c" and noisy: "\<not> quiet c \<Longrightarrow> Q (Inl e) c \<and> K c \<and> K c'"
  shows "ok j K (call_as e f) Q c"
  unfolding ok_def
proof (intro allI impI)
  fix s assume s: "view j c s"
  show "case call_as e f s of (None, s') \<Rightarrow> \<not> quiet c \<and> (\<exists>c'. K c' \<and> \<not> quiet c' \<and> view j c' s')
      | (Some x, s') \<Rightarrow> \<exists>c'. Q x c' \<and> quiet c' = quiet c \<and> view j c' s'"
  proof (cases "sys_faults s")
    case Nil
    then show ?thesis using act[OF s] q by (auto simp: call_as_def next_fault_def)
  next
    case (Cons x fs)
    let ?s = "s\<lparr>sys_faults := fs\<rparr>"
    have a: "view j c ?s" "\<not> quiet c" using view_fault[OF s Cons] by simp_all
    obtain r s' where r: "f ?s = (r, s')" "view j c' s'" "Q r c'" "Q (lose e r) c'"
      using act[OF a(1)] a(2) by blast
    show ?thesis using Cons a r q noisy[OF a(2)]
      by (cases x) (auto simp: call_as_def next_fault_def)
  qed
qed

lemma ok_call:
  assumes "\<And>s. view j c s \<Longrightarrow> f s = (r, g s) \<and> view j c' (g s)" "Q r c'" "quiet c' = quiet c"
    and "\<not> quiet c \<Longrightarrow> Q (Inl EOther) c \<and> Q (lose EOther r) c' \<and> K c \<and> K c'"
  shows "ok j K (call f) Q c"
  unfolding call_def by (rule ok_call_as[where c' = c']) (use assms in auto)

lemma lose_simps [simp]: "lose e0 (Inl e) = Inl e" "lose e0 (Inr x) = Inl e0"
  by (simp_all add: lose_def)

text \<open>Calls that change nothing.\<close>

lemma ok_const_call:
  assumes "\<And>s. view j c s \<Longrightarrow> f s = (r, s)" "Q r c" "\<not> quiet c \<Longrightarrow> Q (Inl EOther) c" "\<not> quiet c \<Longrightarrow> K c"
  shows "ok j K (call f) Q c"
  by (rule ok_call[where r = r and c' = c and g = "\<lambda>s. s"])
    (use assms in \<open>auto simp: lose_def split: sum.splits\<close>)

lemma ok_sync_all [ok_rule]:
  "Q (Inr ()) c \<Longrightarrow> (\<not> quiet c \<Longrightarrow> Q (Inl EOther) c) \<Longrightarrow> (\<not> quiet c \<Longrightarrow> K c) \<Longrightarrow> ok j K (sync_all d) Q c"
  unfolding sync_all_def by (rule ok_const_call) auto

lemma ok_try_clone [ok_rule]:
  "Q (Inr ()) c \<Longrightarrow> (\<not> quiet c \<Longrightarrow> Q (Inl EOther) c) \<Longrightarrow> (\<not> quiet c \<Longrightarrow> K c) \<Longrightarrow> ok j K try_clone Q c"
  unfolding try_clone_def by (rule ok_const_call) auto

lemma ok_metadata_of [ok_rule]:
  "Q (Inr n) c \<Longrightarrow> (\<not> quiet c \<Longrightarrow> Q (Inl EOther) c) \<Longrightarrow> (\<not> quiet c \<Longrightarrow> K c) \<Longrightarrow> ok j K (metadata_of n) Q c"
  unfolding metadata_of_def by (rule ok_const_call) auto

lemma staging_is_simps [simp]:
  "staging_is j (c\<lparr>toks := ts\<rparr>) es = staging_is j c es"
  "staging_is j (c\<lparr>act := ks\<rparr>) es = staging_is j c es"
  "staging_is j (c\<lparr>dirty := b\<rparr>) es = staging_is j c es"
  "staging_is j (c\<lparr>moved := b\<rparr>) es = staging_is j c es"
  by (simp_all add: staging_is_def)

lemma ok_step:
  assumes "\<And>s. view j c s \<Longrightarrow> m s = (Some x, g s) \<and> view j c' (g s)" "Q x c'" "quiet c' = quiet c"
  shows "ok j K m Q c"
  using assms by (fastforce simp: ok_def)

lemma ok_random_token [ok_rule]:
  assumes "toks c = t # ts" "Q t (c\<lparr>toks := ts\<rparr>)"
  shows "ok j K random_token Q c"
  by (rule ok_step[where x = t and c' = "c\<lparr>toks := ts\<rparr>" and g = "\<lambda>s. s\<lparr>sys_tokens := ts\<rparr>"])
    (use assms in \<open>auto simp: random_token_def view_def\<close>)

lemma ok_register [ok_rule]:
  assumes "key \<notin> set (act c)" "Q True (c\<lparr>act := key # act c\<rparr>)"
  shows "ok j K (register_fragment key) Q c"
  by (rule ok_step[where x = True and c' = "c\<lparr>act := key # act c\<rparr>" and g = "\<lambda>s. s\<lparr>sys_active := key # sys_active s\<rparr>"])
    (use assms in \<open>auto simp: register_fragment_def view_def\<close>)

lemma ok_unregister [ok_rule]:
  assumes "Q () (c\<lparr>act := removeAll key (act c)\<rparr>)"
  shows "ok j K (unregister_upload_fragment key) Q c"
  by (rule ok_step[where x = "()" and c' = "c\<lparr>act := removeAll key (act c)\<rparr>"
        and g = "\<lambda>s. s\<lparr>sys_active := removeAll key (sys_active s)\<rparr>"])
    (use assms in \<open>auto simp: unregister_upload_fragment_def view_def\<close>)

section \<open>Places\<close>

fun pdir :: "job \<Rightarrow> place \<Rightarrow> dir" where
  "pdir j AtOld = Visible (j_dir j)"
| "pdir j AtNew = Visible (j_dir j)"
| "pdir j l = Staging"

fun pname :: "job \<Rightarrow> place \<Rightarrow> rstr" where
  "pname j AtOld = j_old j"
| "pname j AtNew = j_new j"
| "pname j AtPending = j_pending j"
| "pname j AtTombstone = j_tombstone j"
| "pname j Gone = []"

lemma get_put_dir: "get_dir r p \<noteq> None \<Longrightarrow> get_dir (put_dir r p v) p = Some v"
  by (induction r p arbitrary: v rule: get_dir.induct) (auto split: option.splits)

lemma put_put_dir: "put_dir (put_dir r p v) p w = put_dir r p w"
  by (induction r p v arbitrary: w rule: put_dir.induct) (auto split: option.splits)

lemma put_get_dir: "get_dir r p = Some v \<Longrightarrow> put_dir r p v = r"
proof (induction r p arbitrary: v rule: get_dir.induct)
  case (2 i es x cs)
  then show ?case by (auto split: option.splits intro!: fmap_ext)
qed auto

definition found :: "job \<Rightarrow> place \<Rightarrow> cfg \<Rightarrow> node option" where
  "found j l c = (if at c = l then Some (j_node j) else if l = AtNew then fmlookup (j_entries j) (j_new j) else None)"

lemma dir_entries_visible:
  "wf_job j \<Longrightarrow> view j c s \<Longrightarrow> dir_entries (Visible (j_dir j)) s = Some (visible j (at c))"
  by (simp add: wf_job_def view_def get_put_dir)

lemma look_place:
  assumes "wf_job j" "view j c s" "l \<noteq> Gone"
  shows "look (pdir j l) (pname j l) s = found j l c"
proof (cases l)
  case AtOld
  then show ?thesis using assms dir_entries_visible[OF assms(1,2)]
    by (cases "at c") (auto simp: look_def found_def wf_job_def)
next
  case AtNew
  then show ?thesis using assms dir_entries_visible[OF assms(1,2)]
    by (cases "at c") (auto simp: look_def found_def wf_job_def)
next
  case AtPending
  then show ?thesis using assms by (auto simp: look_def found_def view_def staging_is_def)
next
  case AtTombstone
  then show ?thesis using assms by (auto simp: look_def found_def view_def staging_is_def)
qed (use assms in simp)

lemma ok_openat2_place:
  assumes "wf_job j" "l \<noteq> Gone" "Q (case found j l c of None \<Rightarrow> Inl ENotFound | Some n \<Rightarrow> Inr n) c"
    and "\<not> quiet c \<Longrightarrow> Q (Inl EOther) c" "\<not> quiet c \<Longrightarrow> K c"
  shows "ok j K (openat2 (pdir j l) (pname j l)) Q c"
  unfolding openat2_def
  by (rule ok_const_call[where r = "case found j l c of None \<Rightarrow> Inl ENotFound | Some n \<Rightarrow> Inr n"])
    (use assms in \<open>auto simp: look_place split: option.splits\<close>)

lemma edit_visible:
  "wf_job j \<Longrightarrow> view j c s \<Longrightarrow>
     edit (Visible (j_dir j)) f s = s\<lparr>sys_root := put_dir (j_root j) (j_dir j) (f (visible j (at c)))\<rparr>"
  using dir_entries_visible[of j c s] by (simp add: edit_def put_put_dir) (simp add: view_def put_put_dir)

lemma edit_staging: "edit Staging f s = s\<lparr>sys_staging := f (sys_staging s)\<rparr>"
  by (simp add: edit_def)

lemma file_is_frame [simp]:
  "name \<noteq> n \<Longrightarrow> file_is (fmdrop n es) name content = file_is es name content"
  "name \<noteq> n \<Longrightarrow> file_is (fmupd n x es) name content = file_is es name content"
  by (simp_all add: file_is_def split: option.splits)

lemma wf_job_names:
  assumes "wf_job j"
  shows "j_pending j \<noteq> j_tombstone j" "j_pending j \<noteq> j_manifest j" "j_pending j \<noteq> j_journal j"
    "j_pending j \<noteq> j_temporary j" "j_tombstone j \<noteq> j_pending j" "j_tombstone j \<noteq> j_manifest j"
    "j_tombstone j \<noteq> j_journal j" "j_tombstone j \<noteq> j_temporary j" "j_manifest j \<noteq> j_pending j"
    "j_manifest j \<noteq> j_tombstone j" "j_manifest j \<noteq> j_journal j" "j_manifest j \<noteq> j_temporary j"
    "j_journal j \<noteq> j_pending j" "j_journal j \<noteq> j_tombstone j" "j_journal j \<noteq> j_manifest j"
    "j_journal j \<noteq> j_temporary j" "j_temporary j \<noteq> j_pending j" "j_temporary j \<noteq> j_tombstone j"
    "j_temporary j \<noteq> j_manifest j" "j_temporary j \<noteq> j_journal j" "j_old j \<noteq> j_new j" "j_new j \<noteq> j_old j"
  using assms by (auto simp: wf_job_def private_names_def)

lemma visible_take:
  assumes "wf_job j" "l = AtOld \<or> l = AtNew" "l = AtNew \<Longrightarrow> fmlookup (j_entries j) (j_new j) = None"
  shows "fmdrop (pname j l) (visible j l) = visible j Gone"
  using assms by (auto intro!: fmap_ext simp: wf_job_def)

lemma visible_put:
  assumes "wf_job j" "l = AtOld \<or> l = AtNew"
  shows "fmupd (pname j l) (j_node j) (visible j Gone) = visible j l"
  using assms by (auto intro!: fmap_ext simp: wf_job_def)

lemma view_take:
  assumes "wf_job j" "view j c s" "at c = l" "l \<noteq> Gone"
  shows "view j (c\<lparr>at := Gone\<rparr>) (edit (pdir j l) (fmdrop (pname j l)) s)"
proof (cases "l = AtOld \<or> l = AtNew")
  case True
  then have "edit (pdir j l) (fmdrop (pname j l)) s = s\<lparr>sys_root := put_dir (j_root j) (j_dir j) (visible j Gone)\<rparr>"
    using assms edit_visible[OF assms(1,2)] visible_take[OF assms(1) True] by (auto simp: view_def)
  then show ?thesis using assms True by (auto simp: view_def staging_is_def)
next
  case False
  then have l: "l = AtPending \<or> l = AtTombstone" using assms(4) by (cases l) auto
  have "staging_is j c (sys_staging s)" using assms(2) by (simp add: view_def)
  then have "staging_is j (c\<lparr>at := Gone\<rparr>) (fmdrop (pname j l) (sys_staging s))"
    using l assms(3) wf_job_names[OF assms(1)] by (elim disjE) (simp_all add: staging_is_def private_names_def)
  then show ?thesis using assms l by (elim disjE) (simp_all add: view_def edit_staging)
qed

lemma view_put:
  assumes "wf_job j" "view j c s" "at c = Gone" "l \<noteq> Gone" "found j l c = None"
  shows "view j (c\<lparr>at := l\<rparr>) (edit (pdir j l) (fmupd (pname j l) (j_node j)) s)"
proof (cases "l = AtOld \<or> l = AtNew")
  case True
  then have "edit (pdir j l) (fmupd (pname j l) (j_node j)) s = s\<lparr>sys_root := put_dir (j_root j) (j_dir j) (visible j l)\<rparr>"
    using assms edit_visible[OF assms(1,2)] visible_put[OF assms(1) True] by auto
  then show ?thesis using assms True by (auto simp: view_def staging_is_def found_def)
next
  case False
  then have "l = AtPending \<or> l = AtTombstone" using assms(4) by (cases l) auto
  then show ?thesis using assms wf_job_names[OF assms(1)]
    by (auto simp: view_def staging_is_def edit_staging private_names_def)
qed

lemma found_at [simp]: "at c = l \<Longrightarrow> found j l c = Some (j_node j)"
  by (simp add: found_def)

definition rename_effect :: "job \<Rightarrow> place \<Rightarrow> place \<Rightarrow> cfg \<Rightarrow> (io_error + unit) \<times> cfg" where
  "rename_effect j l l' c =
     (if found j l c = None then (Inl ENotFound, c)
      else if found j l' c \<noteq> None then (Inl EAlreadyExists, c)
      else (Inr (), c\<lparr>at := l'\<rparr>))"

text \<open>The source of a move is a place of the object alone, so a rename moves the object or nothing.\<close>

lemma ok_rename_place:
  assumes "wf_job j" "l \<noteq> Gone" "l' \<noteq> Gone" "l \<noteq> l'" "l = AtNew \<Longrightarrow> fmlookup (j_entries j) (j_new j) = None"
    and r: "rename_effect j l l' c = (r, c')" "Q r c'"
    and "\<not> quiet c \<Longrightarrow> Q (Inl EOther) c \<and> Q (lose EOther r) c' \<and> K c \<and> K c'"
  shows "ok j K (rename_noreplace_between (pdir j l) (pname j l) (pdir j l') (pname j l')) Q c"
proof -
  let ?g = "\<lambda>s. if at c = l \<and> found j l' c = None
    then edit (pdir j l') (fmupd (pname j l') (j_node j)) (edit (pdir j l) (fmdrop (pname j l)) s) else s"
  have l: "found j l c = (if at c = l then Some (j_node j) else None)"
    using assms(5) by (auto simp: found_def)
  have "found j l' (c\<lparr>at := Gone\<rparr>) = found j l' c" if "at c = l"
    using that assms(3,4) by (auto simp: found_def)
  then have v: "view j c' (?g s)" if "view j c s" for s
    using that r l view_take[OF assms(1) that _ assms(2)] assms(1,3)
      view_put[OF assms(1) view_take[OF assms(1) that _ assms(2)] _ assms(3)]
    by (auto simp: rename_effect_def split: if_splits)
  show ?thesis unfolding rename_noreplace_between_def
  proof (rule ok_call[where r = r and c' = c' and g = ?g])
    fix s assume s: "view j c s"
    show "(case look (pdir j l) (pname j l) s of None \<Rightarrow> (Inl ENotFound, s)
       | Some n \<Rightarrow> if look (pdir j l') (pname j l') s \<noteq> None then (Inl EAlreadyExists, s)
           else (Inr (), edit (pdir j l') (fmupd (pname j l') n) (edit (pdir j l) (fmdrop (pname j l)) s)))
       = (r, ?g s) \<and> view j c' (?g s)"
      using v[OF s] look_place[OF assms(1) s] assms(2,3) l r by (auto simp: rename_effect_def split: if_splits)
  next
    show "quiet c' = quiet c" using r by (auto simp: rename_effect_def split: if_splits)
  qed (use r assms(8) in auto)
qed

text \<open>Removing the object from its tombstone.\<close>

lemma ok_unlink_tombstone:
  assumes "wf_job j" "node_kind (j_node j) = Some EntryFile"
    and "Q (if at c = AtTombstone then Inr () else Inl ENotFound) (if at c = AtTombstone then c\<lparr>at := Gone\<rparr> else c)"
    and "\<not> quiet c \<Longrightarrow> Q (Inl EOther) c" "\<not> quiet c \<Longrightarrow> at c = AtTombstone \<Longrightarrow> Q (Inl EOther) (c\<lparr>at := Gone\<rparr>)"
    and "\<not> quiet c \<Longrightarrow> K c" "\<not> quiet c \<Longrightarrow> at c = AtTombstone \<Longrightarrow> K (c\<lparr>at := Gone\<rparr>)"
  shows "ok j K (unlink Staging (j_tombstone j)) Q c"
proof -
  obtain i b where n: "j_node j = FileNode i b" using assms(2) by (cases "j_node j") auto
  show ?thesis unfolding unlink_def
    by (rule ok_call[where r = "if at c = AtTombstone then Inr () else Inl ENotFound"
          and c' = "if at c = AtTombstone then c\<lparr>at := Gone\<rparr> else c"
          and g = "\<lambda>s. if at c = AtTombstone then edit Staging (fmdrop (j_tombstone j)) s else s"])
      (use assms view_take[OF assms(1), of c _ AtTombstone] look_place[OF assms(1), of c _ AtTombstone] n
       in \<open>auto simp: found_def split: if_splits\<close>)
qed

lemma ok_rmdir_tombstone:
  assumes "wf_job j" "node_kind (j_node j) = Some EntryDirectory"
    and "rmdir_result = (if at c \<noteq> AtTombstone then (Inl ENotFound, c)
       else if node_non_empty (j_node j) then (Inl EDirectoryNotEmpty, c) else (Inr (), c\<lparr>at := Gone\<rparr>))"
    and "Q (fst rmdir_result) (snd rmdir_result)"
    and "\<not> quiet c \<Longrightarrow> Q (Inl EOther) c \<and> Q (lose EOther (fst rmdir_result)) (snd rmdir_result) \<and> K c \<and> K (snd rmdir_result)"
  shows "ok j K (rmdir Staging (j_tombstone j)) Q c"
proof -
  obtain i b where n: "j_node j = DirNode i b" using assms(2) by (cases "j_node j") auto
  show ?thesis unfolding rmdir_def
    by (rule ok_call[where r = "fst rmdir_result" and c' = "snd rmdir_result"
          and g = "\<lambda>s. if at c = AtTombstone \<and> b = fmempty then edit Staging (fmdrop (j_tombstone j)) s else s"])
      (use assms view_take[OF assms(1), of c _ AtTombstone] look_place[OF assms(1), of c _ AtTombstone] n
       in \<open>auto simp: found_def split: if_splits\<close>)
qed

section \<open>Private files\<close>

datatype slot = Manifest | Journal | Temporary

fun sname :: "job \<Rightarrow> slot \<Rightarrow> rstr" where
  "sname j Manifest = j_manifest j"
| "sname j Journal = j_journal j"
| "sname j Temporary = j_temporary j"

fun content :: "slot \<Rightarrow> cfg \<Rightarrow> nat list option" where
  "content Manifest c = man c"
| "content Journal c = jour c"
| "content Temporary c = temp c"

fun fill :: "slot \<Rightarrow> nat list option \<Rightarrow> cfg \<Rightarrow> cfg" where
  "fill Manifest v c = c\<lparr>man := v\<rparr>"
| "fill Journal v c = c\<lparr>jour := v\<rparr>"
| "fill Temporary v c = c\<lparr>temp := v\<rparr>"

lemma quiet_fill [simp]: "quiet (fill sl v c) = quiet c"
  by (cases sl) auto

lemma look_slot:
  assumes "wf_job j" "view j c s"
  shows "content sl c = None \<Longrightarrow> look Staging (sname j sl) s = None"
    and "content sl c = Some x \<Longrightarrow> \<exists>i. look Staging (sname j sl) s = Some (FileNode i x)"
  using assms(2) by (cases sl; auto simp: look_def view_def staging_is_def file_is_def)+

lemma staging_fill:
  assumes "wf_job j" "staging_is j c es" "file_is es' (sname j sl) v"
    and "\<And>n. n \<noteq> sname j sl \<Longrightarrow> fmlookup es' n = fmlookup es n"
  shows "staging_is j (fill sl v c) es'"
proof -
  have "file_is es' n w = file_is es n w" if "n \<noteq> sname j sl" for n w
    using assms(4)[OF that] by (simp add: file_is_def split: option.splits)
  then show ?thesis using assms wf_job_names[OF assms(1)]
    by (cases sl) (simp_all add: staging_is_def private_names_def)
qed

lemma view_fill:
  assumes "wf_job j" "view j c s" "file_is es' (sname j sl) v"
    and "\<And>n. n \<noteq> sname j sl \<Longrightarrow> fmlookup es' n = fmlookup (sys_staging s) n"
  shows "view j (fill sl v c) (s\<lparr>sys_staging := es'\<rparr>)" "view j (fill sl v c) (s\<lparr>sys_staging := es', sys_inode := i\<rparr>)"
proof -
  have "staging_is j (fill sl v c) es'" using assms by (intro staging_fill) (auto simp: view_def)
  then show "view j (fill sl v c) (s\<lparr>sys_staging := es'\<rparr>)" "view j (fill sl v c) (s\<lparr>sys_staging := es', sys_inode := i\<rparr>)"
    using assms(2) by (cases sl; simp add: view_def)+
qed

lemma view_clear: "wf_job j \<Longrightarrow> view j c s \<Longrightarrow> view j (fill sl None c) (edit Staging (fmdrop (sname j sl)) s)"
  unfolding edit_staging by (rule view_fill) (auto simp: file_is_def)

lemma view_write:
  "wf_job j \<Longrightarrow> view j c s \<Longrightarrow> view j (fill sl (Some x) c) (edit Staging (fmupd (sname j sl) (FileNode i x)) s)"
  unfolding edit_staging by (rule view_fill) (auto simp: file_is_def)

lemma ok_create_excl:
  assumes "wf_job j" "content sl c = None" "Q (Inr ()) (fill sl (Some []) c)"
    and "\<not> quiet c \<Longrightarrow> Q (Inl EOther) c" "\<not> quiet c \<Longrightarrow> Q (Inl EOther) (fill sl (Some []) c)"
    and "\<not> quiet c \<Longrightarrow> K c" "\<not> quiet c \<Longrightarrow> K (fill sl (Some []) c)"
  shows "ok j K (create_excl Staging (sname j sl)) Q c"
  unfolding create_excl_def
proof (rule ok_call[where r = "Inr ()" and c' = "fill sl (Some []) c"
      and g = "\<lambda>s. (edit Staging (fmupd (sname j sl) (FileNode (0, sys_inode s) [])) s)\<lparr>sys_inode := sys_inode s + 1\<rparr>"])
  fix s assume s: "view j c s"
  have "view j (fill sl (Some []) c) ((edit Staging (fmupd (sname j sl) (FileNode (0, sys_inode s) [])) s)\<lparr>sys_inode := sys_inode s + 1\<rparr>)"
    unfolding edit_staging using view_fill(2)[OF assms(1) s, of _ sl "Some []"] by (auto simp: file_is_def)
  then show "(if look Staging (sname j sl) s \<noteq> None then (Inl EAlreadyExists, s)
      else (Inr (), (edit Staging (fmupd (sname j sl) (FileNode (0, sys_inode s) [])) s)\<lparr>sys_inode := sys_inode s + 1\<rparr>))
    = (Inr (), (edit Staging (fmupd (sname j sl) (FileNode (0, sys_inode s) [])) s)\<lparr>sys_inode := sys_inode s + 1\<rparr>)
    \<and> view j (fill sl (Some []) c) ((edit Staging (fmupd (sname j sl) (FileNode (0, sys_inode s) [])) s)\<lparr>sys_inode := sys_inode s + 1\<rparr>)"
    using look_slot(1)[OF assms(1) s assms(2)] by simp
qed (use assms in auto)

lemma ok_create_excl_again:
  assumes "wf_job j" "content sl c = Some x" "Q (Inl EAlreadyExists) c" "\<not> quiet c \<Longrightarrow> Q (Inl EOther) c" "\<not> quiet c \<Longrightarrow> K c"
  shows "ok j K (create_excl Staging (sname j sl)) Q c"
  unfolding create_excl_def
  by (rule ok_const_call[where r = "Inl EAlreadyExists"])
    (use assms look_slot(2)[OF assms(1) _ assms(2)] in fastforce)+

lemma ok_unlink_file:
  assumes "wf_job j" "Q (if content sl c = None then Inl ENotFound else Inr ()) (fill sl None c)"
    and "\<not> quiet c \<Longrightarrow> Q (Inl EOther) c" "\<not> quiet c \<Longrightarrow> content sl c \<noteq> None \<Longrightarrow> Q (Inl EOther) (fill sl None c)"
    and "\<not> quiet c \<Longrightarrow> K c" "\<not> quiet c \<Longrightarrow> K (fill sl None c)"
  shows "ok j K (unlink Staging (sname j sl)) Q c"
proof (cases "content sl c")
  case None
  then have "fill sl None c = c" by (cases sl) auto
  then show ?thesis unfolding unlink_def using None assms look_slot(1)[OF assms(1)]
    by (intro ok_const_call[where r = "Inl ENotFound"]) auto
next
  case (Some x)
  show ?thesis unfolding unlink_def
    by (rule ok_call[where r = "Inr ()" and c' = "fill sl None c" and g = "\<lambda>s. edit Staging (fmdrop (sname j sl)) s"])
      (use assms Some look_slot(2)[OF assms(1) _ Some] view_clear[OF assms(1)] in fastforce)+
qed

lemma view_append:
  assumes "wf_job j" "view j c s" "content sl c = Some x"
  shows "view j (fill sl (Some (x @ bs)) c) (append_bytes Staging (sname j sl) bs s)"
proof -
  obtain i where "look Staging (sname j sl) s = Some (FileNode i x)" using look_slot(2)[OF assms] by blast
  then show ?thesis using view_write[OF assms(1,2), of sl "x @ bs" i] by (simp add: append_bytes_def)
qed

lemma ok_write_all:
  assumes "wf_job j" "content sl c = Some x" "Q (Inr ()) (fill sl (Some (x @ bs)) c)"
    and "\<And>n. \<not> quiet c \<Longrightarrow> Q (Inl EOther) (fill sl (Some (x @ take n bs)) c)"
    and "\<And>n. \<not> quiet c \<Longrightarrow> K (fill sl (Some (x @ take n bs)) c)"
  shows "ok j K (write_all Staging (sname j sl) bs) Q c"
  unfolding ok_def
proof (intro allI impI)
  fix s assume s: "view j c s"
  have all: "\<not> quiet c \<Longrightarrow> Q (Inl EOther) (fill sl (Some (x @ bs)) c) \<and> K (fill sl (Some (x @ bs)) c)"
    using assms(4)[of "length bs"] assms(5)[of "length bs"] by simp
  show "case write_all Staging (sname j sl) bs s of (None, s') \<Rightarrow> \<not> quiet c \<and> (\<exists>c'. K c' \<and> \<not> quiet c' \<and> view j c' s')
      | (Some x, s') \<Rightarrow> \<exists>c'. Q x c' \<and> quiet c' = quiet c \<and> view j c' s'"
  proof (cases "sys_faults s")
    case Nil
    then show ?thesis using assms(3) view_append[OF assms(1) s assms(2)]
      by (auto simp: write_all_def next_fault_def)
  next
    case (Cons f fs)
    note v = view_fault[OF s Cons] view_append[OF assms(1) view_fault(1)[OF s Cons] assms(2)]
    show ?thesis using Cons v(2) all assms(3-5) v(3)[of bs] v(3)[of "take n bs" for n]
      by (cases f) (fastforce simp: write_all_def next_fault_def)+
  qed
qed

text \<open>Publishing the temporary file as the journal.\<close>

lemma view_publish:
  assumes "wf_job j" "view j c s" "look Staging (j_temporary j) s = Some n" "n = FileNode i x"
  shows "view j (c\<lparr>temp := None, jour := Some x\<rparr>)
    (edit Staging (fmupd (j_journal j) n) (edit Staging (fmdrop (j_temporary j)) s))"
  using view_write[OF assms(1) view_clear[OF assms(1,2), of Temporary], of Journal x i] assms(4) by simp

lemma ok_publish_noreplace:
  assumes "wf_job j" "temp c = Some x" "jour c = None" "Q (Inr ()) (c\<lparr>temp := None, jour := Some x\<rparr>)"
    and "\<not> quiet c \<Longrightarrow> Q (Inl EOther) c" "\<not> quiet c \<Longrightarrow> Q (Inl EOther) (c\<lparr>temp := None, jour := Some x\<rparr>)"
    and "\<not> quiet c \<Longrightarrow> K c" "\<not> quiet c \<Longrightarrow> K (c\<lparr>temp := None, jour := Some x\<rparr>)"
  shows "ok j K (rename_noreplace Staging (j_temporary j) (j_journal j)) Q c"
  unfolding rename_noreplace_def rename_noreplace_between_def
  by (rule ok_call[where r = "Inr ()" and c' = "c\<lparr>temp := None, jour := Some x\<rparr>"
        and g = "\<lambda>s. edit Staging (fmupd (j_journal j) (the (look Staging (j_temporary j) s))) (edit Staging (fmdrop (j_temporary j)) s)"])
    (use assms look_slot(1)[OF assms(1), of c _ Journal] look_slot(2)[OF assms(1), of c _ Temporary x] view_publish[OF assms(1), of c]
     in \<open>fastforce split: option.splits\<close>)+

lemma ok_publish_replace:
  assumes "wf_job j" "temp c = Some x" "Q (Inr ()) (c\<lparr>temp := None, jour := Some x\<rparr>)"
    and "\<not> quiet c \<Longrightarrow> Q (Inl EOther) c" "\<not> quiet c \<Longrightarrow> Q (Inl EOther) (c\<lparr>temp := None, jour := Some x\<rparr>)"
    and "\<not> quiet c \<Longrightarrow> K c" "\<not> quiet c \<Longrightarrow> K (c\<lparr>temp := None, jour := Some x\<rparr>)"
  shows "ok j K (rename_replace_between Staging (j_temporary j) Staging (j_journal j)) Q c"
  unfolding rename_replace_between_def
  by (rule ok_call[where r = "Inr ()" and c' = "c\<lparr>temp := None, jour := Some x\<rparr>"
        and g = "\<lambda>s. edit Staging (fmupd (j_journal j) (the (look Staging (j_temporary j) s))) (edit Staging (fmdrop (j_temporary j)) s)"])
    (use assms look_slot(2)[OF assms(1), of c _ Temporary x] view_publish[OF assms(1), of c]
     in \<open>fastforce split: option.splits\<close>)+

lemma ok_openat2_file:
  assumes "wf_job j" "content sl c = Some x" "\<And>i. Q (Inr (FileNode i x)) c"
    and "\<not> quiet c \<Longrightarrow> Q (Inl EOther) c" "\<not> quiet c \<Longrightarrow> K c"
  shows "ok j K (openat2 Staging (sname j sl)) Q c"
  unfolding openat2_def call_def
  by (rule ok_call_as[where c' = c]) (use assms look_slot(2)[OF assms(1) _ assms(2)] in fastforce)+

lemma ok_openat2_no_file:
  assumes "wf_job j" "content sl c = None" "Q (Inl ENotFound) c"
    and "\<not> quiet c \<Longrightarrow> Q (Inl EOther) c" "\<not> quiet c \<Longrightarrow> K c"
  shows "ok j K (openat2 Staging (sname j sl)) Q c"
  unfolding openat2_def
  by (rule ok_const_call[where r = "Inl ENotFound"]) (use assms look_slot(1)[OF assms(1) _ assms(2)] in auto)

lemma ok_read_content [ok_rule]:
  "Q (Inr x) c \<Longrightarrow> (\<not> quiet c \<Longrightarrow> Q (Inl EOther) c) \<Longrightarrow> (\<not> quiet c \<Longrightarrow> K c) \<Longrightarrow> ok j K (read_content (FileNode i x)) Q c"
  unfolding read_content_def by (rule ok_const_call) auto

section \<open>The journal\<close>

lemma ok_read_small_file:
  assumes "wf_job j" "content sl c = Some x" "length x \<le> MAX_OPERATION_BYTES"
    and "Q (case decode x of None \<Rightarrow> Inl EOther | Some v \<Rightarrow> Inr v) c"
    and "\<not> quiet c \<Longrightarrow> Q (Inl EOther) c" "\<not> quiet c \<Longrightarrow> K c"
  shows "ok j K (read_small_file decode (sname j sl)) Q c"
  unfolding read_small_file_def
  by (rule ok_bndE, rule ok_openat2_file[OF assms(1,2)])
    (use assms in \<open>auto intro!: ok_rule split: option.splits\<close>)

lemma ok_remove_staged:
  assumes "wf_job j" "Q (Inr ()) (fill sl None c)"
    and "\<not> quiet c \<Longrightarrow> Q (Inl EOther) c" "\<not> quiet c \<Longrightarrow> Q (Inl EOther) (fill sl None c)"
    and "\<not> quiet c \<Longrightarrow> K c" "\<not> quiet c \<Longrightarrow> K (fill sl None c)"
  shows "ok j K (remove_staged (sname j sl)) Q c"
  unfolding remove_staged_def
  by (rule ok_bnd, rule ok_unlink_file[OF assms(1)]) (use assms in \<open>auto intro!: ok_rule\<close>)

lemma ok_remove_file_operation [ok_rule]:
  assumes "wf_job j" "Q (Inr ()) (c\<lparr>jour := None\<rparr>)"
    and "\<not> quiet c \<Longrightarrow> Q (Inl EOther) c" "\<not> quiet c \<Longrightarrow> Q (Inl EOther) (c\<lparr>jour := None\<rparr>)"
    and "\<not> quiet c \<Longrightarrow> K c" "\<not> quiet c \<Longrightarrow> K (c\<lparr>jour := None\<rparr>)"
  shows "ok j K (remove_file_operation (j_journal j)) Q c"
  using ok_remove_staged[OF assms(1), of Q Journal c K] assms by (simp add: remove_file_operation_def)

lemma ok_remove_pending_manifest [ok_rule]:
  assumes "wf_job j" "Q (Inr ()) (c\<lparr>man := None\<rparr>)"
    and "\<not> quiet c \<Longrightarrow> Q (Inl EOther) c" "\<not> quiet c \<Longrightarrow> Q (Inl EOther) (c\<lparr>man := None\<rparr>)"
    and "\<not> quiet c \<Longrightarrow> K c" "\<not> quiet c \<Longrightarrow> K (c\<lparr>man := None\<rparr>)"
  shows "ok j K (remove_pending_manifest (j_manifest j)) Q c"
  using ok_remove_staged[OF assms(1), of Q Manifest c K] assms by (simp add: remove_pending_manifest_def)

lemma ok_write_pending_manifest:
  assumes "wf_job j" "deletion_manifest_name pending_name = j_manifest j" "man c = None"
    and "Q (Inr (j_manifest j)) (c\<lparr>man := Some (enc_path J p @ [10])\<rparr>)"
    and "\<not> quiet c \<Longrightarrow> Q (Inl EOther) c" "\<And>n. \<not> quiet c \<Longrightarrow> Q (Inl EOther) (c\<lparr>man := Some (take n (enc_path J p @ [10]))\<rparr>)"
    and "\<not> quiet c \<Longrightarrow> K c" "\<And>n. \<not> quiet c \<Longrightarrow> K (c\<lparr>man := Some (take n (enc_path J p @ [10]))\<rparr>)"
  shows "ok j K (write_pending_manifest J pending_name p) Q c"
proof -
  let ?full = "enc_path J p @ [10]"
  have c: "c\<lparr>man := None\<rparr> = c" using assms(3) by (cases c) simp
  have cleanup: "ok j K (bnd (unlink Staging (j_manifest j)) (\<lambda>_. bnd (sync_all Staging) (\<lambda>_. fail EOther))) Q (c\<lparr>man := Some (take n ?full)\<rparr>)"
    if "\<not> quiet c" for n
    using that assms(5-8) c
    by (auto intro!: ok_rule ok_unlink_file[OF assms(1), of _ Manifest, simplified])
  have full: "take (Suc (length (enc_path J p))) ?full = ?full" by simp
  have body: "ok j K (bndE (write_all Staging (j_manifest j) ?full) (\<lambda>_. bndE (sync_all Staging) (\<lambda>_. sync_all Staging)))
     (\<lambda>result. ok j K (case result of
        Inl e \<Rightarrow> bnd (unlink Staging (j_manifest j)) (\<lambda>_. bnd (sync_all Staging) (\<lambda>_. fail e))
      | Inr _ \<Rightarrow> done_with (j_manifest j)) Q) (c\<lparr>man := Some []\<rparr>)"
    using cleanup cleanup[of "Suc (length (enc_path J p))"] assms(4,8) assms(8)[of "Suc (length (enc_path J p))"]
    by (auto intro!: ok_rule ok_write_all[OF assms(1), of Manifest, simplified])
  show ?thesis unfolding write_pending_manifest_def Let_def assms(2)
    apply (rule ok_bndE, rule ok_create_excl[OF assms(1), of Manifest, simplified])
    using assms body assms(6)[of 0] assms(8)[of 0] by (auto intro!: ok_bnd)
qed

text \<open>
  Writing the temporary file and publishing it. After an error any part of the temporary file can be left,
  and the journal can be the old or the new one.
\<close>

lemma ok_discard_temporary:
  assumes "wf_job j" "\<And>v. Q x (c\<lparr>temp := v\<rparr>)" "\<And>v. K (c\<lparr>temp := v\<rparr>)"
  shows "ok j K (bnd (unlink Staging (j_temporary j)) (\<lambda>_. bnd (sync_all Staging) (\<lambda>_. ret x))) Q c"
proof -
  have "Q x c" "K c" using assms(2)[of "temp c"] assms(3)[of "temp c"] by simp_all
  then show ?thesis using assms
    by (auto intro!: ok_rule ok_unlink_file[OF assms(1), of _ Temporary, simplified])
qed

lemma temp_again [simp]: "c\<lparr>temp := u, jour := x, temp := v\<rparr> = c\<lparr>jour := x, temp := v\<rparr>"
  by (cases c) simp

lemma ok_write_file_operation:
  fixes J op defines "full \<equiv> enc_op J op @ [10]"
  assumes "wf_job j" "toks c = t # ts" "file_operation_name t = j_journal j" "j_journal j @ lit ''.pending'' = j_temporary j"
    and "temp c = None" "jour c = None"
    and ready: "Q (Inr (j_journal j)) (c\<lparr>toks := ts, jour := Some full\<rparr>)"
    and unwritten: "\<And>v. \<not> quiet c \<Longrightarrow> Q (Inl (EOther, None)) (c\<lparr>toks := ts, temp := v\<rparr>)"
    and hidden: "\<And>v. \<not> quiet c \<Longrightarrow> Q (Inl (EOther, None)) (c\<lparr>toks := ts, jour := Some full, temp := v\<rparr>)"
    and published: "\<not> quiet c \<Longrightarrow> Q (Inl (EOther, Some (j_journal j))) (c\<lparr>toks := ts, jour := Some full\<rparr>)"
    and K: "\<And>v. \<not> quiet c \<Longrightarrow> K (c\<lparr>toks := ts, temp := v\<rparr>)" "\<And>v. \<not> quiet c \<Longrightarrow> K (c\<lparr>toks := ts, jour := Some full, temp := v\<rparr>)"
  shows "ok j K (write_file_operation J op) Q c"
proof -
  let ?c = "c\<lparr>toks := ts\<rparr>"
  have none: "?c\<lparr>temp := None\<rparr> = ?c" using assms(6) by (cases c) simp
  have none': "?c\<lparr>temp := None, jour := Some full\<rparr> = ?c\<lparr>jour := Some full\<rparr>"
    "?c\<lparr>jour := Some full, temp := None\<rparr> = ?c\<lparr>jour := Some full\<rparr>"
    using assms(6) by (cases c; simp)+
  have discard: "ok j K (bnd (unlink Staging (j_temporary j)) (\<lambda>_. bnd (sync_all Staging) (\<lambda>_.
        if EOther = EAlreadyExists then write_file_operation_loop J op 15 else fail (EOther, None)))) Q (c\<lparr>toks := ts, temp := v\<rparr>)"
    "ok j K (bnd (unlink Staging (j_temporary j)) (\<lambda>_. bnd (sync_all Staging) (\<lambda>_.
        if EOther = EAlreadyExists then write_file_operation_loop J op 15 else fail (EOther, None)))) Q (c\<lparr>toks := ts, jour := Some full\<rparr>)"
    if "\<not> quiet c" for v
    using that unwritten hidden K by (auto simp: fail_def intro!: ok_discard_temporary[OF assms(2)])
  have K': "\<not> quiet c \<Longrightarrow> K (c\<lparr>toks := ts, jour := Some full\<rparr>)" using K(2)[of None] none' by simp
  have tail: "ok j K (bnd (sync_all Staging) (\<lambda>r. case r of Inl e \<Rightarrow> fail (e, Some (j_journal j)) | Inr _ \<Rightarrow> done_with (j_journal j))) Q
     (c\<lparr>toks := ts, jour := Some full\<rparr>)"
    using ready published K' by (auto intro!: ok_rule)
  let ?R = "\<lambda>moved. ok j K (case moved of
        Inl e \<Rightarrow> bnd (unlink Staging (j_temporary j)) (\<lambda>_. bnd (sync_all Staging) (\<lambda>_.
             if e = EAlreadyExists then write_file_operation_loop J op 15 else fail (e, None)))
      | Inr _ \<Rightarrow> bnd (sync_all Staging) (\<lambda>r. case r of
             Inl e \<Rightarrow> fail (e, Some (j_journal j)) | Inr _ \<Rightarrow> done_with (j_journal j))) Q"
  have "ok j K (rename_noreplace Staging (j_temporary j) (j_journal j)) ?R (c\<lparr>toks := ts, temp := Some full\<rparr>)"
    by (rule ok_publish_noreplace[OF assms(2), of _ full]) (use discard tail K K' assms(6,7) in \<open>auto simp: none'\<close>)
  then have "ok j K (bndE (sync_all Staging) (\<lambda>_. rename_noreplace Staging (j_temporary j) (j_journal j))) ?R (c\<lparr>toks := ts, temp := Some full\<rparr>)"
    by (intro ok_bndE ok_sync_all) (use discard K in auto)
  then have body: "ok j K (bndE (write_all Staging (j_temporary j) full) (\<lambda>_. bndE (sync_all Staging) (\<lambda>_.
          rename_noreplace Staging (j_temporary j) (j_journal j)))) ?R (c\<lparr>toks := ts, temp := Some []\<rparr>)"
    by (intro ok_bndE ok_write_all[OF assms(2), of Temporary _ "[]", simplified]) (use discard K in auto)
  have loop: "write_file_operation J op = write_file_operation_loop J op (Suc 15)" by (simp add: write_file_operation_def)
  show ?thesis unfolding loop write_file_operation_loop.simps
    apply (rule ok_bnd, rule ok_random_token[OF assms(3)])
    unfolding Let_def assms(4,5)
    apply (rule ok_bnd, rule ok_create_excl[OF assms(2), of Temporary, simplified])
    using assms(6) body[unfolded full_def] unwritten[of None] unwritten K[of None] K none
    by (auto intro!: ok_rule)
qed

lemma ok_replace_file_operation:
  fixes J op defines "full \<equiv> enc_op J op @ [10]"
  assumes "wf_job j" "is_file_operation_name (j_journal j)" "j_journal j @ lit ''.pending'' = j_temporary j"
    and clean: "quiet c \<Longrightarrow> temp c = None"
    and ready: "temp c = None \<Longrightarrow> Q (Inr ()) (c\<lparr>jour := Some full\<rparr>)"
    and unwritten: "\<And>v e. \<not> quiet c \<Longrightarrow> Q (Inl e) (c\<lparr>temp := v\<rparr>)"
    and hidden: "\<And>v e. \<not> quiet c \<Longrightarrow> Q (Inl e) (c\<lparr>jour := Some full, temp := v\<rparr>)"
    and K: "\<And>v. \<not> quiet c \<Longrightarrow> K (c\<lparr>temp := v\<rparr>)" "\<And>v. \<not> quiet c \<Longrightarrow> K (c\<lparr>jour := Some full, temp := v\<rparr>)"
  shows "ok j K (replace_file_operation J (j_journal j) op) Q c"
proof (cases "temp c")
  case None
  have none: "c\<lparr>temp := None\<rparr> = c" "c\<lparr>temp := None, jour := Some full\<rparr> = c\<lparr>jour := Some full\<rparr>"
    "c\<lparr>jour := Some full, temp := None\<rparr> = c\<lparr>jour := Some full\<rparr>"
    using None by (cases c; simp)+
  have discard: "ok j K (bnd (unlink Staging (j_temporary j)) (\<lambda>_. bnd (sync_all Staging) (\<lambda>_. fail EOther))) Q (c\<lparr>temp := v\<rparr>)"
    "ok j K (bnd (unlink Staging (j_temporary j)) (\<lambda>_. bnd (sync_all Staging) (\<lambda>_. fail EOther))) Q (c\<lparr>jour := Some full\<rparr>)"
    if "\<not> quiet c" for v
    using that unwritten hidden K by (auto simp: fail_def intro!: ok_discard_temporary[OF assms(2)])
  have K': "\<not> quiet c \<Longrightarrow> K (c\<lparr>jour := Some full\<rparr>)" "\<not> quiet c \<Longrightarrow> Q (Inl e) (c\<lparr>jour := Some full\<rparr>)" for e
    using K(2)[of None] hidden[of _ None] none by auto
  let ?R = "\<lambda>moved. ok j K (case moved of
        Inl e \<Rightarrow> bnd (unlink Staging (j_temporary j)) (\<lambda>_. bnd (sync_all Staging) (\<lambda>_. fail e))
      | Inr _ \<Rightarrow> sync_all Staging) Q"
  have "ok j K (rename_replace_between Staging (j_temporary j) Staging (j_journal j)) ?R (c\<lparr>temp := Some full\<rparr>)"
    by (rule ok_publish_replace[OF assms(2), of _ full]) (use discard K K' ready[OF None] in \<open>auto simp: none intro!: ok_sync_all\<close>)
  then have "ok j K (bndE (sync_all Staging) (\<lambda>_. rename_replace_between Staging (j_temporary j) Staging (j_journal j))) ?R (c\<lparr>temp := Some full\<rparr>)"
    by (intro ok_bndE ok_sync_all) (use discard K in auto)
  then have body: "ok j K (bndE (write_all Staging (j_temporary j) full) (\<lambda>_. bndE (sync_all Staging) (\<lambda>_.
          rename_replace_between Staging (j_temporary j) Staging (j_journal j)))) ?R (c\<lparr>temp := Some []\<rparr>)"
    by (intro ok_bndE ok_write_all[OF assms(2), of Temporary _ "[]", simplified]) (use discard K in auto)
  show ?thesis using assms(3) unfolding replace_file_operation_def Let_def assms(4)
    apply (simp only: not_True_eq_False if_False)
    apply (rule ok_bndE, rule ok_create_excl[OF assms(2), of Temporary, simplified])
    using None body[unfolded full_def] unwritten[of _ None] unwritten K[of None] K none
    by (auto intro!: ok_bnd)
next
  case (Some x)
  have [simp]: "c\<lparr>temp := temp c\<rparr> = c" by (cases c) simp
  have "Q (Inl e) c" "K c" if "\<not> quiet c" for e using that unwritten[of e "temp c"] K(1)[of "temp c"] by simp_all
  moreover have "\<not> quiet c" using clean Some by auto
  ultimately show ?thesis using assms(3) Some unfolding replace_file_operation_def Let_def assms(4)
    by (auto intro!: ok_bndE ok_create_excl_again[OF assms(2), of Temporary, simplified])
qed

lemma ok_read_file_operation [ok_rule]:
  assumes "wf_job j" "jour c = Some x" "length x \<le> MAX_OPERATION_BYTES" "dec_op J x = Some op" "Q (Inr op) c"
    and "\<not> quiet c \<Longrightarrow> Q (Inl EOther) c" "\<not> quiet c \<Longrightarrow> K c"
  shows "ok j K (read_file_operation J (j_journal j)) Q c"
  using ok_read_small_file[OF assms(1), of Journal c x Q "dec_op J" K] assms by (simp add: read_file_operation_def)

section \<open>Probes\<close>

definition state_of :: "identity \<Rightarrow> entry_kind \<Rightarrow> node option \<Rightarrow> entry_identity_state" where
  "state_of i k n = (case n of None \<Rightarrow> Missing | Some n \<Rightarrow> if matches_identity i k n then Expected else Replaced)"

lemma ok_entry_identity_state:
  assumes "wf_job j" "l \<noteq> Gone" "Q (Inr (state_of i k (found j l c))) c"
    and "\<not> quiet c \<Longrightarrow> Q (Inl EOther) c" "\<not> quiet c \<Longrightarrow> K c"
  shows "ok j K (entry_identity_state (pdir j l) (pname j l) i k) Q c"
  unfolding entry_identity_state_def
  by (rule ok_bnd, rule ok_openat2_place[OF assms(1,2)])
    (use assms in \<open>auto simp: state_of_def intro!: ok_rule split: option.splits\<close>)

lemma ok_entry_matches_identity:
  assumes "wf_job j" "l \<noteq> Gone" "Q (state_of i k (found j l c) = Expected) c"
    and "\<not> quiet c \<Longrightarrow> Q False c" "\<not> quiet c \<Longrightarrow> K c"
  shows "ok j K (entry_matches_identity (pdir j l) (pname j l) i k) Q c"
  unfolding entry_matches_identity_def
  by (rule ok_bnd, rule ok_entry_identity_state[OF assms(1,2)]) (use assms in \<open>auto intro!: ok_rule\<close>)

lemma ok_entry_exists:
  assumes "wf_job j" "l \<noteq> Gone" "Q (Inr (found j l c \<noteq> None)) c"
    and "\<not> quiet c \<Longrightarrow> Q (Inl EOther) c" "\<not> quiet c \<Longrightarrow> K c"
  shows "ok j K (entry_exists (pdir j l) (pname j l)) Q c"
  unfolding entry_exists_def
  by (rule ok_bnd, rule ok_openat2_place[OF assms(1,2)])
    (use assms in \<open>auto intro!: ok_rule split: option.splits\<close>)

lemma ok_bind_directory:
  assumes "wf_job j" "normalized q = Inr p" "path_names p = j_dir j" "Q (Inr (Visible (j_dir j))) c"
    and "\<not> quiet c \<Longrightarrow> Q (Inl EOther) c" "\<not> quiet c \<Longrightarrow> K c"
  shows "ok j K (bind_directory q) Q c"
  unfolding bind_directory_def assms(2) sum.case assms(3)
  by (rule ok_const_call[where r = "Inr (Visible (j_dir j))"])
    (use assms dir_entries_visible[OF assms(1)] in \<open>auto simp: get_put_dir\<close>)

section \<open>Scans of the staging directory\<close>

definition other_names :: "rstr \<Rightarrow> bool" where
  "other_names n \<longleftrightarrow> \<not> is_file_operation_name n \<and> \<not> is_file_operation_temporary_name n
     \<and> deletion_pending_from_manifest_name n = None \<and> \<not> is_deletion_pending_name n"

definition clean_staging :: "entries \<Rightarrow> bool" where
  "clean_staging es \<longleftrightarrow> (\<forall>n. fmlookup es n \<noteq> None \<longrightarrow> other_names n)"

definition named_job :: "job \<Rightarrow> bool" where
  "named_job j \<longleftrightarrow> clean_staging (j_staging j)
     \<and> is_file_operation_name (j_journal j) \<and> \<not> is_file_operation_temporary_name (j_journal j)
     \<and> deletion_pending_from_manifest_name (j_journal j) = None \<and> \<not> is_deletion_pending_name (j_journal j)
     \<and> is_file_operation_temporary_name (j_temporary j) \<and> \<not> is_file_operation_name (j_temporary j)
     \<and> deletion_pending_from_manifest_name (j_temporary j) = None \<and> \<not> is_deletion_pending_name (j_temporary j)
     \<and> deletion_pending_from_manifest_name (j_manifest j) = Some (j_pending j) \<and> \<not> is_file_operation_name (j_manifest j)
     \<and> \<not> is_file_operation_temporary_name (j_manifest j) \<and> \<not> is_deletion_pending_name (j_manifest j)
     \<and> is_deletion_pending_name (j_pending j) \<and> \<not> is_file_operation_name (j_pending j)
     \<and> \<not> is_file_operation_temporary_name (j_pending j) \<and> deletion_pending_from_manifest_name (j_pending j) = None
     \<and> other_names (j_tombstone j) \<and> is_deletion_tombstone_name (j_tombstone j)
     \<and> j_journal j @ lit ''.pending'' = j_temporary j \<and> deletion_manifest_name (j_pending j) = j_manifest j"

definition present :: "job \<Rightarrow> cfg \<Rightarrow> rstr \<Rightarrow> bool" where
  "present j c n \<longleftrightarrow>
     (if n = j_pending j then at c = AtPending else if n = j_tombstone j then at c = AtTombstone
      else if n = j_manifest j then man c \<noteq> None else if n = j_journal j then jour c \<noteq> None
      else if n = j_temporary j then temp c \<noteq> None else fmlookup (j_staging j) n \<noteq> None)"

lemma file_is_present: "file_is es n v \<Longrightarrow> (fmlookup es n \<noteq> None) = (v \<noteq> None)"
  by (auto simp: file_is_def split: option.splits)

lemma staging_names:
  assumes "wf_job j" "staging_is j c es"
  shows "fmlookup es n \<noteq> None \<longleftrightarrow> present j c n"
  using assms(2) file_is_present[of es n "man c"] file_is_present[of es n "jour c"] file_is_present[of es n "temp c"]
  by (auto simp: present_def staging_is_def private_names_def)

lemma ok_read_names:
  assumes "wf_job j" "\<And>names. distinct names \<Longrightarrow> (\<And>n. n \<in> set names \<longleftrightarrow> present j c n) \<Longrightarrow> Q (Inr names) c"
    and "\<not> quiet c \<Longrightarrow> Q (Inl EOther) c" "\<not> quiet c \<Longrightarrow> K c"
  shows "ok j K (read_names Staging) Q c"
  unfolding read_names_def call_def
proof (rule ok_call_as[where c' = c])
  fix s assume s: "view j c s"
  let ?names = "sorted_list_of_fset (fmdom (sys_staging s))"
  have "n \<in> set ?names \<longleftrightarrow> present j c n" for n
    using staging_names[OF assms(1), of c "sys_staging s" n] s by (auto simp: view_def fmdom_notI fmlookup_dom_iff)
  then have "Q (Inr ?names) c" by (intro assms(2)) (simp_all add: sorted_list_of_fset.rep_eq)
  then show "\<exists>r s'. (case dir_entries Staging s of None \<Rightarrow> Inl ENotFound | Some es \<Rightarrow> Inr (sorted_list_of_fset (fmdom es)), s) = (r, s')
      \<and> view j c s' \<and> Q r c \<and> (\<not> quiet c \<longrightarrow> Q (lose EOther r) c)"
    using s assms(3) by simp
qed (use assms in auto)

lemma ok_scan:
  assumes "wf_job j" "\<And>names. distinct names \<Longrightarrow> (\<And>n. n \<in> set names \<longleftrightarrow> present j c n) \<Longrightarrow> ok j K (f names) Q c"
    and "\<not> quiet c \<Longrightarrow> Q (Inl EOther) c" "\<not> quiet c \<Longrightarrow> K c"
  shows "ok j K (bndE (read_names Staging) f) Q c"
  by (rule ok_bndE, rule ok_read_names[OF assms(1)]) (use assms in auto)

lemma filter_single:
  "distinct xs \<Longrightarrow> (\<And>x. x \<in> set xs \<Longrightarrow> P x \<longleftrightarrow> x = a) \<Longrightarrow> filter P xs = (if a \<in> set xs then [a] else [])"
proof (induction xs)
  case (Cons x xs)
  then show ?case by (cases "x = a") (auto simp: filter_empty_conv)
qed simp

lemma staged_other:
  assumes "wf_job j" "named_job j" "present j c n" "n \<notin> {j_pending j, j_manifest j, j_journal j, j_temporary j}"
  shows "other_names n"
  using assms by (auto simp: present_def named_job_def clean_staging_def split: if_splits)

lemma scanned:
  assumes "wf_job j" "named_job j" "distinct names" "\<And>n. n \<in> set names \<longleftrightarrow> present j c n"
  shows "filter is_file_operation_name names = (if jour c = None then [] else [j_journal j])"
    and "filter is_file_operation_temporary_name names = (if temp c = None then [] else [j_temporary j])"
    and "filter (\<lambda>n. deletion_pending_from_manifest_name n \<noteq> None) names = (if man c = None then [] else [j_manifest j])"
    and "filter is_deletion_pending_name names = (if at c = AtPending then [j_pending j] else [])"
proof -
  note names = wf_job_names[OF assms(1)]
  have other: "other_names n" if "n \<in> set names" "n \<notin> {j_pending j, j_manifest j, j_journal j, j_temporary j}" for n
    using staged_other[OF assms(1,2) _ that(2)] that(1) assms(4) by simp
  have "filter is_file_operation_name names = (if j_journal j \<in> set names then [j_journal j] else [])"
    using other assms(2) by (intro filter_single[OF assms(3)]) (auto simp: named_job_def other_names_def)
  then show "filter is_file_operation_name names = (if jour c = None then [] else [j_journal j])"
    using assms(4) names by (simp add: present_def)
  have "filter is_file_operation_temporary_name names = (if j_temporary j \<in> set names then [j_temporary j] else [])"
    using other assms(2) by (intro filter_single[OF assms(3)]) (auto simp: named_job_def other_names_def)
  then show "filter is_file_operation_temporary_name names = (if temp c = None then [] else [j_temporary j])"
    using assms(4) names by (simp add: present_def)
  have "(deletion_pending_from_manifest_name n \<noteq> None) = (n = j_manifest j)" if "n \<in> set names" for n
    using other[OF that] assms(2)
    by (cases "n \<in> {j_pending j, j_manifest j, j_journal j, j_temporary j}") (auto simp: named_job_def other_names_def)
  then have "filter (\<lambda>n. deletion_pending_from_manifest_name n \<noteq> None) names = (if j_manifest j \<in> set names then [j_manifest j] else [])"
    by (intro filter_single[OF assms(3)])
  then show "filter (\<lambda>n. deletion_pending_from_manifest_name n \<noteq> None) names = (if man c = None then [] else [j_manifest j])"
    using assms(4) names by (simp add: present_def)
  have "filter is_deletion_pending_name names = (if j_pending j \<in> set names then [j_pending j] else [])"
    using other assms(2) by (intro filter_single[OF assms(3)]) (auto simp: named_job_def other_names_def)
  then show "filter is_deletion_pending_name names = (if at c = AtPending then [j_pending j] else [])"
    using assms(4) names by (simp add: present_def)
qed

lemma remove_temporaries_filter: "remove_temporaries names = remove_temporaries (filter is_file_operation_temporary_name names)"
  by (induction names) (auto cong: if_cong)

lemma read_operations_filter: "read_operations J names = read_operations J (filter is_file_operation_name names)"
  by (induction names) (auto cong: if_cong)

lemma finalize_restored_filter:
  "finalize_restored J js names = finalize_restored J js (filter (\<lambda>n. deletion_pending_from_manifest_name n \<noteq> None) names)"
  by (induction names) (auto cong: if_cong split: option.splits)

lemma restore_pending_filter: "restore_pending J js names = restore_pending J js (filter is_deletion_pending_name names)"
  by (induction names) (auto simp: Let_def)

lemma ok_remove_incomplete:
  assumes "wf_job j" "named_job j" "Q (Inr ()) (c\<lparr>temp := None\<rparr>)"
    and "\<not> quiet c \<Longrightarrow> Q (Inl EOther) c" "\<not> quiet c \<Longrightarrow> Q (Inl EOther) (c\<lparr>temp := None\<rparr>)"
    and "\<not> quiet c \<Longrightarrow> K c" "\<not> quiet c \<Longrightarrow> K (c\<lparr>temp := None\<rparr>)"
  shows "ok j K remove_incomplete_file_operation_writes Q c"
  unfolding remove_incomplete_file_operation_writes_def
proof (rule ok_scan[OF assms(1)])
  fix names assume n: "distinct names" "\<And>n. n \<in> set names \<longleftrightarrow> present j c n"
  have t: "is_file_operation_temporary_name (j_temporary j)" using assms(2) by (simp add: named_job_def)
  have "Q (Inr ()) c" if "temp c = None" using that assms(3) by (cases c) simp
  then show "ok j K (bndE (remove_temporaries names) (\<lambda>removed. if removed then sync_all Staging else done_with ())) Q c"
    unfolding remove_temporaries_filter[of names] scanned(2)[OF assms(1,2) n] using t assms
    by (auto intro!: ok_rule ok_unlink_file[OF assms(1), of _ Temporary, simplified])
qed (use assms in auto)

lemma ok_pending_file_operations:
  assumes "wf_job j" "named_job j"
    and "jour c = None \<Longrightarrow> Q (Inr []) c"
    and "\<And>x. jour c = Some x \<Longrightarrow> length x \<le> MAX_OPERATION_BYTES \<and> dec_op J x = Some op
       \<and> validate_file_operation op = Inr () \<and> Q (Inr [\<lparr>pf_journal_name = j_journal j, pf_operation = op\<rparr>]) c"
    and "\<not> quiet c \<Longrightarrow> Q (Inl EOther) c" "\<not> quiet c \<Longrightarrow> K c"
  shows "ok j K (pending_file_operations J) Q c"
  unfolding pending_file_operations_def
proof (rule ok_scan[OF assms(1)])
  fix names assume n: "distinct names" "\<And>n. n \<in> set names \<longleftrightarrow> present j c n"
  have t: "is_file_operation_name (j_journal j)" using assms(2) by (simp add: named_job_def)
  show "ok j K (bndE (read_operations J names) (\<lambda>operations. done_with (sort_key pf_journal_name operations))) Q c"
  proof (cases "jour c")
    case None
    then show ?thesis unfolding read_operations_filter[of J names] scanned(1)[OF assms(1,2) n] using assms
      by (auto intro!: ok_rule)
  next
    case (Some x)
    then show ?thesis unfolding read_operations_filter[of J names] scanned(1)[OF assms(1,2) n]
      using t assms(4)[OF Some] assms(1,5,6)
      by (auto intro!: ok_bndE ok_done_with ok_lift_result ok_read_file_operation[OF assms(1) Some])
  qed
qed (use assms in auto)

lemma ok_bind_parent:
  assumes "wf_job j" "normalized (path_of (j_dir j)) = Inr (path_of (j_dir j))" "path_names (path_of (j_dir j)) = j_dir j"
    and "Q (Inr (Visible (j_dir j))) c" "\<not> quiet c \<Longrightarrow> Q (Inl EOther) c" "\<not> quiet c \<Longrightarrow> K c"
  shows "ok j K (bind_directory (path_of (j_dir j))) Q c"
  using assms by (intro ok_bind_directory[where p = "path_of (j_dir j)"])

text \<open>The object is at the new name only if nothing else is.\<close>

lemma ok_free:
  assumes "(at c = AtNew \<longrightarrow> fmlookup (j_entries j) (j_new j) = None) \<Longrightarrow> ok j K m Q c"
  shows "ok j K m Q c"
  using assms by (auto simp: ok_def view_def)

text \<open>No deletion is pending.\<close>

lemma ok_no_pending_deletions:
  assumes "wf_job j" "named_job j" "man c = None" "at c \<noteq> AtPending" "Q (Inr ()) c"
    and "\<not> quiet c \<Longrightarrow> Q (Inl EOther) c" "\<not> quiet c \<Longrightarrow> K c"
  shows "ok j K (recover_pending_deletions J ops) Q c"
  unfolding recover_pending_deletions_def Let_def
proof (rule ok_scan[OF assms(1)])
  fix names assume n: "distinct names" "\<And>n. n \<in> set names \<longleftrightarrow> present j c n"
  show "ok j K (bndE (finalize_restored J (journaled_pending ops) names) (\<lambda>_. restore_pending J (journaled_pending ops) names)) Q c"
    unfolding finalize_restored_filter[of J _ names] restore_pending_filter[of J _ names] scanned(3,4)[OF assms(1,2) n]
    using assms by (auto intro!: ok_rule)
qed (use assms in auto)

section \<open>Transactions\<close>

lemma view_moved:
  "view j c s \<Longrightarrow> shares d = j_shares j b \<Longrightarrow> view j (c\<lparr>moved := b\<rparr>) (s\<lparr>sys_db := d\<rparr>)"
  by (simp add: view_def)

lemma ok_transaction:
  assumes "\<And>d. shares d = j_shares j (moved c) \<Longrightarrow> \<exists>x d'. f d = (Inr x, d') \<and> shares d' = j_shares j b \<and> Q (Inr x) (c\<lparr>moved := b\<rparr>)"
    and "\<not> quiet c \<Longrightarrow> Q (Inl (FDatabase database_failure)) c" "\<not> quiet c \<Longrightarrow> Q (Inl (FDatabase database_failure)) (c\<lparr>moved := b\<rparr>)"
    and "\<not> quiet c \<Longrightarrow> K c" "\<not> quiet c \<Longrightarrow> K (c\<lparr>moved := b\<rparr>)"
  shows "ok j K (transaction f) Q c"
  unfolding transaction_def
proof (rule ok_call_as[where c' = "c\<lparr>moved := b\<rparr>"])
  fix s assume s: "view j c s"
  then obtain x d' where "f (sys_db s) = (Inr x, d')" "shares d' = j_shares j b" "Q (Inr x) (c\<lparr>moved := b\<rparr>)"
    using assms(1)[of "sys_db s"] by (auto simp: view_def)
  then show "\<exists>r s'. (case f (sys_db s) of (r, d) \<Rightarrow> (map_err FDatabase r, s\<lparr>sys_db := d\<rparr>)) = (r, s')
      \<and> view j (c\<lparr>moved := b\<rparr>) s' \<and> Q r (c\<lparr>moved := b\<rparr>) \<and> (\<not> quiet c \<longrightarrow> Q (lose (FDatabase database_failure) r) (c\<lparr>moved := b\<rparr>))"
    using view_moved[OF s] assms(3) by auto
qed (use assms in auto)

lemma ok_recover_upload_operations [ok_rule]:
  assumes "Q (Inr ()) c" "\<not> quiet c \<Longrightarrow> Q (Inl (FDatabase database_failure)) c" "\<not> quiet c \<Longrightarrow> K c"
  shows "ok j K (recover_upload_operations_call env) Q c"
  unfolding recover_upload_operations_call_def
  by (rule ok_transaction[where b = "moved c"]) (use assms in \<open>auto simp: recover_upload_operations_def\<close>)

lemma ok_acquire_database_permit [ok_rule]:
  assumes "Q (Inr ()) c" "\<not> quiet c \<Longrightarrow> Q (Inl FDatabaseCapacity) c" "\<not> quiet c \<Longrightarrow> K c"
  shows "ok j K acquire_database_permit Q c"
  unfolding acquire_database_permit_def by (rule ok_call_as[where c' = c]) (use assms in auto)

lemma ok_acquire_mutation [ok_rule]:
  assumes "Q (dirty c) (c\<lparr>dirty := True\<rparr>)"
  shows "ok j K acquire_mutation Q c"
  by (rule ok_step[where x = "dirty c" and c' = "c\<lparr>dirty := True\<rparr>" and g = "\<lambda>s. s\<lparr>sys_recovery_required := True\<rparr>"])
    (use assms in \<open>auto simp: acquire_mutation_def view_def\<close>)

lemma ok_finish_clean [ok_rule]:
  assumes "Q () (c\<lparr>dirty := False\<rparr>)"
  shows "ok j K finish_clean Q c"
  by (rule ok_step[where x = "()" and c' = "c\<lparr>dirty := False\<rparr>"
        and g = "\<lambda>s. s\<lparr>sys_recovery_required := False, sys_generation := (sys_generation s + 1) mod 2 ^ 64\<rparr>"])
    (use assms in \<open>auto simp: finish_clean_def view_def\<close>)

lemma ok_request_cleanup [ok_rule]:
  assumes "Q () c"
  shows "ok j K request_cleanup Q c"
  by (rule ok_step[where x = "()" and c' = c and g = "\<lambda>s. s\<lparr>sys_cleanup_requested := True\<rparr>"])
    (use assms in \<open>auto simp: request_cleanup_def view_def\<close>)

text \<open>The system's own audits are inserted when their fields are short enough.\<close>

lemma commit_audited_one:
  assumes "validate_audit_fields (actor ctx) (lit (as_str (ev_action ev))) (ev_object_id ev) (ev_detail ev) (ctx_client_ip ctx) = Inr ()"
  shows "\<exists>rows. commit_audited now ctx [ev] out d0 d1 = (Inr out, d1\<lparr>audit := rows\<rparr>)"
proof -
  have "\<exists>rows. insert_required_audits now (runtime_settings d1) ctx [ev] (audit d1) = Inr rows"
    using assms by (simp add: insert_audit_event_def)
  then show ?thesis by (auto simp: commit_audited_def)
qed

lemma ok_begin_transaction:
  assumes "\<And>live d. shares d = j_shares j (moved c) \<Longrightarrow> Q (Inr (live, d)) c"
    and "\<not> quiet c \<Longrightarrow> Q (Inl (FDatabase database_failure)) c" "\<not> quiet c \<Longrightarrow> K c"
  shows "ok j K (begin_transaction proof idle now) Q c"
  unfolding begin_transaction_def
  by (rule ok_call_as[where c' = c]) (use assms in \<open>auto simp: view_def\<close>)

lemma ok_statement:
  assumes "Q (Inr (f d)) c" "\<not> quiet c \<Longrightarrow> Q (Inl (FDatabase database_failure)) c" "\<not> quiet c \<Longrightarrow> K c"
  shows "ok j K (statement f d) Q c"
  unfolding statement_def by (rule ok_call_as[where c' = c]) (use assms in auto)

definition audits_fit :: "audit_context \<Rightarrow> required_audit_event list \<Rightarrow> bool" where
  "audits_fit ctx evs \<longleftrightarrow> (\<forall>ev\<in>set evs. validate_audit_fields (actor ctx) (lit (as_str (ev_action ev))) (ev_object_id ev)
     (ev_detail ev) (ctx_client_ip ctx) = Inr ())"

lemma insert_required_audits_fit:
  "audits_fit ctx evs \<Longrightarrow> \<exists>rows'. insert_required_audits now st ctx evs rows = Inr rows'"
  by (induction now st ctx evs rows rule: insert_required_audits.induct)
    (auto simp: audits_fit_def insert_audit_event_def)

lemma audits_fit_context:
  assumes "validate_context ctx = Inr ()" "audits_fit system_context evs"
  shows "audits_fit ctx evs"
  using assms by (auto simp: audits_fit_def validate_context_def validate_audit_fields_def split: if_splits)

lemma ok_commit_transaction:
  assumes "shares d1 = j_shares j b" "Q (Inr ()) (c\<lparr>moved := b\<rparr>)"
    and "\<And>e. \<not> (quiet c \<and> audits_fit ctx evs) \<Longrightarrow> Q (Inl (FDatabase e)) c"
    and "\<And>e. \<not> quiet c \<Longrightarrow> Q (Inl (FDatabase e)) (c\<lparr>moved := b\<rparr>)" "\<not> quiet c \<Longrightarrow> K c" "\<not> quiet c \<Longrightarrow> K (c\<lparr>moved := b\<rparr>)"
  shows "ok j K (commit_transaction now ctx evs d1) Q c"
proof (cases "\<exists>rows. insert_required_audits now (runtime_settings d1) ctx evs (audit d1) = Inr rows")
  case True
  then obtain rows where "insert_required_audits now (runtime_settings d1) ctx evs (audit d1) = Inr rows" by blast
  then have commit: "commit_audited now ctx evs () d d1 = (Inr (), d1\<lparr>audit := rows\<rparr>)" for d
    by (simp add: commit_audited_def)
  show ?thesis unfolding commit_transaction_def
    by (rule ok_call_as[where c' = "c\<lparr>moved := b\<rparr>"]) (use assms in \<open>auto simp: commit view_moved\<close>)
next
  case False
  then obtain e where "insert_required_audits now (runtime_settings d1) ctx evs (audit d1) = Inl e"
    by (metis obj_sumE)
  then have commit: "commit_audited now ctx evs () d d1 = (Inl e, d)" for d by (simp add: commit_audited_def)
  have "\<not> audits_fit ctx evs" using False insert_required_audits_fit by blast
  then have Q: "Q (Inl (FDatabase e)) c" for e using assms(3) by blast
  show ?thesis unfolding commit_transaction_def
    by (rule ok_call_as[where c' = c]) (use assms Q in \<open>auto simp: commit\<close>)
qed

text \<open>
  A whole transaction: the operation ends in a configuration and with a state of the transaction that agree
  with some \<open>b\<close>, and the outcome is committed or dropped.
\<close>

lemma ok_required_transaction:
  assumes "\<And>e. \<not> quiet c \<Longrightarrow> Q (Inl (FDatabase e), captured) c" "Q (Inr SessionUnavailable, captured) c"
    and "\<And>e. validate_context ctx \<noteq> Inr () \<Longrightarrow> Q (Inl (FDatabase e), captured) c" "\<not> quiet c \<Longrightarrow> K c"
    and op: "\<And>d. validate_context ctx = Inr () \<Longrightarrow> shares d = j_shares j (moved c) \<Longrightarrow>
       ok j K (operation d) (\<lambda>(r, cap) c'. case r of
         Inl e \<Rightarrow> Q (Inl e, cap) c'
       | Inr ((out, evs), d1) \<Rightarrow> ok j K (commit_transaction (fe_now env) ctx evs d1) (\<lambda>r. case r of
           Inl e \<Rightarrow> ok j K (drop_outcome out) (\<lambda>_. Q (Inl e, cap)) | Inr _ \<Rightarrow> Q (Inr (Authorized out), cap)) c') c"
  shows "ok j K (required_transaction_for_mfa_session_audited env proof ctx captured drop_outcome operation) Q c"
  unfolding required_transaction_for_mfa_session_audited_def
proof (rule ok_bnd, rule ok_begin_transaction)
  fix live and d :: db assume d: "shares d = j_shares j (moved c)"
  have "ok j K (bnd (operation d) (\<lambda>(r, captured). case r of
               Inl e \<Rightarrow> ret (Inl e, captured)
             | Inr ((out, evs), d1) \<Rightarrow>
                 bnd (commit_transaction (fe_now env) ctx evs d1) (\<lambda>r. case r of
                   Inl e \<Rightarrow> bnd (drop_outcome out) (\<lambda>_. ret (Inl e, captured))
                 | Inr _ \<Rightarrow> ret (Inr (Authorized out), captured)))) Q c" if "validate_context ctx = Inr ()"
    by (rule ok_bnd, rule ok_mono[OF op[OF that d]])
      (auto intro!: ok_bnd ok_ret elim!: ok_mono split: sum.splits prod.splits)
  then show "ok j K (case Inr (live, d) of Inl e \<Rightarrow> ret (Inl e, captured)
      | Inr (live, d) \<Rightarrow> if \<not> live then ret (Inr SessionUnavailable, captured)
         else (case validate_context ctx of
           Inl e \<Rightarrow> ret (Inl (FDatabase e), captured)
         | Inr _ \<Rightarrow>
             bnd (operation d) (\<lambda>(r, captured). case r of
               Inl e \<Rightarrow> ret (Inl e, captured)
             | Inr ((out, evs), d1) \<Rightarrow>
                 bnd (commit_transaction (fe_now env) ctx evs d1) (\<lambda>r. case r of
                   Inl e \<Rightarrow> bnd (drop_outcome out) (\<lambda>_. ret (Inl e, captured))
                 | Inr _ \<Rightarrow> ret (Inr (Authorized out), captured))))) Q c"
    using assms(2,3) by (auto intro!: ok_ret split: sum.splits)
qed (use assms in \<open>auto intro!: ok_ret\<close>)

text \<open>A recovery that finds nothing changes nothing.\<close>

lemma ok_recover_idle:
  assumes "wf_job j" "named_job j" "man c = None" "jour c = None" "at c \<noteq> AtPending" "Q (Inr ()) c"
    and "\<And>e. \<not> quiet c \<Longrightarrow> Q (Inl e) c" "\<not> quiet c \<Longrightarrow> K c"
  shows "ok j K (recover_pending_file_operations_with_guard env entry) Q c"
  unfolding recover_pending_file_operations_with_guard_def recover_pending_file_operations_blocking_def
  using assms by (auto intro!: ok_rule ok_no_pending_deletions ok_pending_file_operations)

section \<open>Names of a token\<close>

definition valid_token :: "rstr \<Rightarrow> bool" where
  "valid_token t \<longleftrightarrow> str_len t = 24 \<and> list_all (\<lambda>c. ascii_alphanumeric c \<or> c = 45 \<or> c = 95) t"

lemma ends_with_append [simp]: "ends_with p (t @ p)"
  by (simp add: ends_with_def)

lemma strip_suffix_append [simp]: "strip_suffix p (t @ p) = Some t"
  by (simp add: strip_suffix_def)

lemma private_token_name_append: "valid_token t \<Longrightarrow> private_token_name (p @ t @ q) p q"
  by (simp add: private_token_name_def valid_token_def)

lemma token_names:
  assumes "valid_token t"
  shows "is_deletion_pending_name (deletion_pending_name t)" "is_deletion_tombstone_name (deletion_tombstone_name t)"
    "is_file_operation_name (file_operation_name t)" "is_file_operation_temporary_name (file_operation_name t @ lit ''.pending'')"
    "deletion_pending_from_manifest_name (deletion_manifest_name (deletion_pending_name t)) = Some (deletion_pending_name t)"
  using private_token_name_append[OF assms]
  unfolding is_deletion_pending_name_def deletion_pending_name_def is_deletion_tombstone_name_def deletion_tombstone_name_def
    is_file_operation_name_def file_operation_name_def is_file_operation_temporary_name_def
    deletion_pending_from_manifest_name_def deletion_manifest_name_def
  by (simp_all only: strip_suffix_append option.case if_True)

lemmas private_name_defs = is_deletion_pending_name_def deletion_pending_name_def is_deletion_tombstone_name_def deletion_tombstone_name_def
    is_file_operation_name_def file_operation_name_def is_file_operation_temporary_name_def
    deletion_pending_from_manifest_name_def deletion_manifest_name_def private_token_name_def

lemma private_token_name_last:
  assumes "private_token_name name p q" "q \<noteq> []"
  shows "last name = last q"
proof -
  obtain t where "rev (drop (length p) name) = rev q @ t"
    using assms(1) by (auto simp: private_token_name_def ends_with_def starts_with_iff)
  then have "drop (length p) name = rev t @ q" by (metis rev_append rev_rev_ident)
  then show ?thesis using assms(2)
    by (metis append_is_Nil_conv drop_eq_Nil last_appendR last_drop linorder_not_less)
qed

lemma token_names_apart:
  "\<not> is_file_operation_name (deletion_pending_name t)" "\<not> is_file_operation_temporary_name (deletion_pending_name t)"
  "deletion_pending_from_manifest_name (deletion_pending_name t) = None"
  "\<not> is_file_operation_name (deletion_manifest_name (deletion_pending_name t))"
  "\<not> is_file_operation_temporary_name (deletion_manifest_name (deletion_pending_name t))"
  "\<not> is_deletion_pending_name (deletion_manifest_name (deletion_pending_name t))"
  "\<not> is_file_operation_temporary_name (file_operation_name t)"
  "deletion_pending_from_manifest_name (file_operation_name t) = None" "\<not> is_deletion_pending_name (file_operation_name t)"
  "\<not> is_file_operation_name (file_operation_name t @ lit ''.pending'')"
  "deletion_pending_from_manifest_name (file_operation_name t @ lit ''.pending'') = None"
  "\<not> is_deletion_pending_name (file_operation_name t @ lit ''.pending'')"
  by (simp_all add: private_name_defs strip_suffix_def ends_with_def)

lemma tombstone_other: "other_names (deletion_tombstone_name t)"
proof -
  have "\<not> is_deletion_pending_name (deletion_tombstone_name t)"
    using private_token_name_last[of "deletion_tombstone_name t" "lit ''.vaultlink-delete-pending-''" "lit ''.pending''"]
    by (auto simp: is_deletion_pending_name_def deletion_tombstone_name_def)
  moreover have "\<not> is_file_operation_name (deletion_tombstone_name t)" "\<not> is_file_operation_temporary_name (deletion_tombstone_name t)"
    "deletion_pending_from_manifest_name (deletion_tombstone_name t) = None"
    by (simp_all add: private_name_defs strip_suffix_def ends_with_def)
  ultimately show ?thesis by (simp add: other_names_def)
qed

lemma token_names_distinct:
  "distinct [deletion_pending_name a, deletion_tombstone_name b, deletion_manifest_name (deletion_pending_name a),
     file_operation_name t, file_operation_name t @ lit ''.pending'']"
proof -
  have "last (deletion_pending_name a) = 103" "last (deletion_tombstone_name b) = 101"
    "last (deletion_manifest_name (deletion_pending_name a)) = 116" "last (file_operation_name t) = 110"
    "last (file_operation_name t @ lit ''.pending'') = 103" "deletion_pending_name a ! 11 = 100"
    "(file_operation_name t @ lit ''.pending'') ! 11 = 111"
    by (simp_all add: deletion_pending_name_def deletion_tombstone_name_def deletion_manifest_name_def file_operation_name_def)
  then show ?thesis by (auto simp del: lit_simps)
qed

section \<open>Paths of a directory\<close>

definition good_name :: "rstr \<Rightarrow> bool" where
  "good_name n \<longleftrightarrow> plain_name n \<and> n \<noteq> [46, 46] \<and> \<not> is_internal_storage_name n \<and> 0 \<notin> set n \<and> 92 \<notin> set n"

lemma safe_admin_good: "safe_admin_filename n = Inr m \<Longrightarrow> m = n \<and> good_name n"
  using safe_filename_InrD[of n m] safe_admin_filename_InrD[of n m] by (auto simp: good_name_def)

lemma path_of_eq_Nil: "\<forall>n\<in>set ds. plain_name n \<Longrightarrow> path_of ds = [] \<longleftrightarrow> ds = []"
  by (cases ds) (auto simp: path_of_def plain_name_def)

lemma path_of_snoc: "\<forall>n\<in>set ds. plain_name n \<Longrightarrow> path_of (ds @ [n]) = join_relative (path_of ds) n"
  using path_of_eq_Nil[of ds] by (cases ds) (auto simp: join_relative_def path_of_def)

lemma rsplit_once_append: "c \<notin> set b \<Longrightarrow> rsplit_once c (a @ [c] @ b) = Some (a, b)"
proof -
  assume "c \<notin> set b"
  then have "takeWhile (\<lambda>x. x \<noteq> c) (rev b @ c # rev a) = rev b" "dropWhile (\<lambda>x. x \<noteq> c) (rev b @ c # rev a) = c # rev a"
    by (auto simp: takeWhile_append dropWhile_append)
  then show ?thesis by (simp add: rsplit_once_def)
qed

lemma split_path_of:
  assumes "\<forall>n\<in>set ds. good_name n" "safe_admin_filename n = Inr n"
  shows "split_parent_name (path_of (ds @ [n])) = Inr (path_of ds, n)"
    "normalized (path_of ds) = Inr (path_of ds)" "path_names (path_of ds) = ds" "join_relative (path_of ds) n = path_of (ds @ [n])"
    "0 \<notin> set (path_of (ds @ [n]))" "92 \<notin> set (path_of (ds @ [n]))" "path_of (ds @ [n]) \<noteq> []"
    "validate_relative (path_of (ds @ [n])) = Inr (path_of (ds @ [n]))" "rsplit_once 47 (path_of (ds @ [n])) = (if ds = [] then None else Some (path_of ds, n))"
proof -
  note n = safe_admin_good[OF assms(2), THEN conjunct2]
  have plain: "\<forall>n\<in>set ds. plain_name n" using assms(1) by (simp add: good_name_def)
  show join: "join_relative (path_of ds) n = path_of (ds @ [n])" using path_of_snoc[OF plain] by simp
  show "path_names (path_of ds) = ds" by (rule path_names_path_of[OF plain])
  show "normalized (path_of ds) = Inr (path_of ds)"
    using validate_relative_path_of[of ds] assms(1) by (simp add: normalized_def good_name_def)
  show valid: "validate_relative (path_of (ds @ [n])) = Inr (path_of (ds @ [n]))"
    using validate_relative_path_of[of "ds @ [n]"] assms(1) n by (auto simp: good_name_def)
  show "0 \<notin> set (path_of (ds @ [n]))" "92 \<notin> set (path_of (ds @ [n]))"
    using set_path_of[of "ds @ [n]"] assms(1) n by (fastforce simp: good_name_def)+
  show nonempty: "path_of (ds @ [n]) \<noteq> []" using path_of_eq_Nil[of "ds @ [n]"] plain n by (auto simp: good_name_def)
  have "47 \<notin> set n" using n by (simp add: good_name_def plain_name_def)
  then show once: "rsplit_once 47 (path_of (ds @ [n])) = (if ds = [] then None else Some (path_of ds, n))"
    using rsplit_once_append[of 47 n "path_of ds"] path_of_eq_Nil[OF plain]
    unfolding join[symmetric] join_relative_def by (auto simp: rsplit_once_def path_of_def)
  show "split_parent_name (path_of (ds @ [n])) = Inr (path_of ds, n)"
    using valid nonempty once assms(2) join unfolding split_parent_name_def normalized_def
    by (auto simp: join_relative_def path_of_def split: if_splits)
qed

section \<open>A clean storage\<close>

definition journal_readable :: "codec \<Rightarrow> durable_operation set \<Rightarrow> bool" where
  "journal_readable J ops \<longleftrightarrow>
     (\<forall>op\<in>ops. dec_op J (enc_op J op @ [10]) = Some op \<and> length (enc_op J op @ [10]) \<le> MAX_OPERATION_BYTES)"

definition source_node :: "rstr list \<Rightarrow> rstr \<Rightarrow> sys \<Rightarrow> node" where
  "source_node ds old s = the (fmlookup (the (get_dir (sys_root s) ds)) old)"

definition source_kind :: "rstr list \<Rightarrow> rstr \<Rightarrow> sys \<Rightarrow> entry_kind" where
  "source_kind ds old s = the (node_kind (source_node ds old s))"

definition source_exists :: "rstr list \<Rightarrow> rstr \<Rightarrow> sys \<Rightarrow> bool" where
  "source_exists ds old s \<longleftrightarrow> (\<forall>d\<in>set ds. good_name d) \<and> safe_admin_filename old = Inr old
     \<and> (\<exists>es n. get_dir (sys_root s) ds = Some es \<and> fmlookup es old = Some n \<and> node_kind n \<noteq> None
          \<and> 0 < fst (node_identity n) \<and> 0 < snd (node_identity n))"

definition clean_storage :: "sys \<Rightarrow> bool" where
  "clean_storage s \<longleftrightarrow> clean_staging (sys_staging s) \<and> length (shares (sys_db s)) \<le> u64_max
     \<and> (\<forall>r\<in>set (shares (sys_db s)). 0 \<notin> set (sh_relative_path r))"

definition fresh_token :: "rstr \<Rightarrow> entries \<Rightarrow> bool" where
  "fresh_token t es \<longleftrightarrow> valid_token t \<and> fmlookup es (deletion_tombstone_name t) = None"

definition idle_cfg :: "sys \<Rightarrow> cfg" where
  "idle_cfg s = \<lparr>at = AtOld, man = None, jour = None, temp = None, moved = False, act = sys_active s, toks = sys_tokens s,
     dirty = sys_recovery_required s, quiet = (sys_faults s = [])\<rparr>"

lemma clean_staging_absent: "clean_staging es \<Longrightarrow> \<not> other_names n \<Longrightarrow> fmlookup es n = None"
  by (auto simp: clean_staging_def)

lemma token_names_absent:
  assumes "clean_staging es" "valid_token t"
  shows "fmlookup es (deletion_pending_name t) = None" "fmlookup es (deletion_manifest_name (deletion_pending_name t)) = None"
    "fmlookup es (file_operation_name t) = None" "fmlookup es (file_operation_name t @ lit ''.pending'') = None"
  using token_names[OF assms(2)] by (auto intro!: clean_staging_absent[OF assms(1)] simp: other_names_def simp del: lit_simps)

lemma sql_update_twice:
  "(\<And>r. r \<in> set rows \<Longrightarrow> P r \<Longrightarrow> \<not> P (f r)) \<Longrightarrow> sql_update P f (sql_update P f rows) = sql_update P f rows"
  by (induction rows) auto

lemma dec_nat_length: "n \<le> m \<Longrightarrow> length (dec_nat n) \<le> length (dec_nat m)"
proof (induction m arbitrary: n rule: dec_nat.induct)
  case (1 m)
  show ?case
  proof (cases "n < 10")
    case True
    have "1 \<le> length (dec_nat m)" by (subst dec_nat.simps) simp
    then show ?thesis using True by (subst dec_nat.simps) simp
  next
    case False
    then have "\<not> m < 10" using 1(2) by simp
    then have "length (dec_nat (n div 10)) \<le> length (dec_nat (m div 10))" using 1 by (simp add: div_le_mono)
    then show ?thesis using False \<open>\<not> m < 10\<close> by (subst (1 2) dec_nat.simps) simp
  qed
qed

lemma dec_nat_str_len: "str_len (dec_nat n) = length (dec_nat n)"
proof (induction n rule: dec_nat.induct)
  case (1 n)
  have "n mod 10 < 80" by (rule less_le_trans[OF mod_less_divisor]) simp_all
  with 1 show ?case by (subst (1 2) dec_nat.simps) (simp add: utf8_width_def)
qed

lemma normalize_path_of:
  assumes "\<forall>n\<in>set ds. good_name n" "safe_admin_filename n = Inr n"
  shows "normalize (path_of (ds @ [n])) False = Inr (path_of (ds @ [n]))"
proof -
  note p = split_path_of(6-8)[OF assms]
  have "map (\<lambda>c. if c = 92 then 47 else c) (path_of (ds @ [n])) = path_of (ds @ [n])"
    by (rule map_idI) (use p(1) in auto)
  then show ?thesis using p(2,3) by (simp add: normalize_def Let_def)
qed

section \<open>After the operation\<close>

text \<open>
  Any number of later starts of the server and of readers that find the storage dirty, each with its own
  faults, time and active uploads.
\<close>

definition same_code :: "file_env \<Rightarrow> file_env \<Rightarrow> bool" where
  "same_code env env' \<longleftrightarrow> fe_codec env' = fe_codec env \<and> fe_lower env' = fe_lower env"

inductive later :: "file_env \<Rightarrow> sys \<Rightarrow> sys \<Rightarrow> bool" where
  now: "later env s s"
| start: "later env s s1 \<Longrightarrow> same_code env env' \<Longrightarrow> startup env' (s1\<lparr>sys_faults := fs, sys_tokens := ts\<rparr>) = (r, s2) \<Longrightarrow> later env s s2"
| read: "later env s s1 \<Longrightarrow> same_code env env' \<Longrightarrow> acquire_storage_read env' (s1\<lparr>sys_faults := fs, sys_tokens := ts\<rparr>) = (r, s2) \<Longrightarrow> later env s s2"

lemma view_environment:
  "view j c s \<Longrightarrow> view j (c\<lparr>toks := ts, quiet := (fs = [])\<rparr>) (s\<lparr>sys_faults := fs, sys_tokens := ts\<rparr>)"
  by (simp add: view_def staging_is_def)

lemma view_new_process:
  "view j c s \<Longrightarrow> view j (c\<lparr>act := [], dirty := True\<rparr>)
     (s\<lparr>sys_active := [], sys_recovery_required := True, sys_generation := 0, sys_cleanup_requested := False\<rparr>)"
  by (simp add: view_def staging_is_def)

lemma okD:
  assumes "ok j K m Q c" "view j c s" "m s = (r, s')"
  shows "case r of None \<Rightarrow> \<not> quiet c \<and> (\<exists>c'. K c' \<and> view j c' s') | Some x \<Rightarrow> (\<exists>c'. Q x c' \<and> quiet c' = quiet c \<and> view j c' s')"
  using assms by (fastforce simp: ok_def split: option.splits)

lemma ok_recovery_required [ok_rule]:
  assumes "Q (dirty c) c"
  shows "ok j K recovery_required Q c"
  by (rule ok_step[where x = "dirty c" and c' = c and g = "\<lambda>s. s"]) (use assms in \<open>auto simp: recovery_required_def view_def\<close>)

lemma view_clean_staging:
  assumes "wf_job j" "view j c s" "at c \<noteq> AtPending" "at c \<noteq> AtTombstone" "man c = None" "jour c = None" "temp c = None"
  shows "sys_staging s = j_staging j"
proof (rule fmap_ext)
  fix n
  have st: "staging_is j c (sys_staging s)" using assms(2) by (simp add: view_def)
  show "fmlookup (sys_staging s) n = fmlookup (j_staging j) n"
  proof (cases "n \<in> set (private_names j)")
    case True
    then have "fmlookup (j_staging j) n = None" using assms(1) by (simp add: wf_job_def)
    moreover have "fmlookup (sys_staging s) n = None"
      using True st assms(3-7) by (auto simp: staging_is_def private_names_def file_is_def)
    ultimately show ?thesis by simp
  next
    case False
    then show ?thesis using st by (simp add: staging_is_def)
  qed
qed

text \<open>
  An operation is crash safe when a set of its configurations is kept by a start and by a read, which may both
  stop anywhere: then it is kept by everything later.
\<close>

locale crash_safe =
  fixes safe :: "file_env \<Rightarrow> job \<Rightarrow> cfg \<Rightarrow> bool"
  assumes same: "same_code env env' \<Longrightarrow> safe env' j c = safe env j c"
    and environment: "safe env j c \<Longrightarrow> safe env j (c\<lparr>toks := ts, quiet := b\<rparr>)"
    and process: "safe env j c \<Longrightarrow> safe env j (c\<lparr>act := [], dirty := True\<rparr>)"
    and start_keeps: "safe env j c \<Longrightarrow> dirty c \<Longrightarrow>
      ok j (safe env j) (bndE (mapE map_io (open_storage (fe_codec env))) (\<lambda>_. recover_pending_file_operations env)) (\<lambda>r. safe env j) c"
    and read_keeps: "safe env j c \<Longrightarrow> \<not> quiet c \<Longrightarrow> ok j (safe env j) (acquire_storage_read env) (\<lambda>r. safe env j) c"
begin

lemma kept:
  assumes "ok j (safe env j) m (\<lambda>r. safe env j) c" "view j c s" "m s = (r, s')"
  shows "\<exists>c. safe env j c \<and> view j c s'"
  using okD[OF assms] by (cases r) auto

lemma later_safe:
  "later env s s' \<Longrightarrow> \<exists>c. safe env j c \<and> view j c s \<Longrightarrow> \<exists>c. safe env j c \<and> view j c s'"
proof (induction rule: later.induct)
  case (start env s s1 env' ts fs r s2)
  then obtain c where c: "safe env j c" "view j c s1" by auto
  let ?c = "c\<lparr>toks := ts, quiet := (fs = []), act := [], dirty := True\<rparr>"
  have view: "view j ?c (s1\<lparr>sys_faults := fs, sys_tokens := ts, sys_active := [], sys_recovery_required := True,
      sys_generation := 0, sys_cleanup_requested := False\<rparr>)"
    using view_new_process[OF view_environment[OF c(2), where ts = ts and fs = fs]] by simp
  have "safe env' j ?c" using process[OF environment[OF c(1)]] same[OF start(2)] by simp
  then have "\<exists>c. safe env' j c \<and> view j c s2"
    using kept[OF start_keeps view start(3)[unfolded startup_def, simplified]] by simp
  then show ?case using same[OF start(2)] by simp
next
  case (read env s s1 env' ts fs r s2)
  then obtain c where c: "safe env j c" "view j c s1" by auto
  let ?c = "c\<lparr>toks := ts, quiet := False\<rparr>"
  have view: "view j ?c (s1\<lparr>sys_faults := fs, sys_tokens := ts\<rparr>)" using c(2) by (simp add: view_def staging_is_def)
  have "safe env' j ?c" using environment[OF c(1)] same[OF read(2)] by simp
  then have "\<exists>c. safe env' j c \<and> view j c s2" using kept[OF read_keeps view read(3)] by simp
  then show ?case using same[OF read(2)] by simp
qed

end

end
