(* ===== verification/Example_Storage.thy ===== *)
theory Example_Storage
  imports Crash_Logic
begin

text \<open>
  A small installation on which the properties of the file operations are tried: a storage with the file \<open>a\<close>, a share
  of that file and an administrator with a verified session.
\<close>

definition storage_phase :: "durable_operation \<Rightarrow> nat" where
  "storage_phase op = (case op of RenameOp _ _ _ _ ph \<Rightarrow> (case ph of PhaseIntent \<Rightarrow> 0 | PhaseMoved \<Rightarrow> 1 | PhaseRollback \<Rightarrow> 2)
     | DeleteOp _ _ _ _ _ _ ph \<Rightarrow> (case ph of PhaseIntent \<Rightarrow> 3 | PhaseMoved \<Rightarrow> 4 | PhaseRollback \<Rightarrow> 5))"

definition example_codec :: "(durable_phase \<Rightarrow> durable_operation) \<Rightarrow> codec" where
  "example_codec op =
     \<lparr>enc_path = (\<lambda>p. p), dec_path = (\<lambda>bs. if bs = [] \<or> last bs \<noteq> 10 then None else Some (butlast bs)), enc_op = (\<lambda>x. [storage_phase x]),
      dec_op = (\<lambda>bs. if length bs = 2 then find (\<lambda>x. storage_phase x = hd bs) [op PhaseIntent, op PhaseMoved, op PhaseRollback] else None)\<rparr>"

definition storage_share :: share_row where
  "storage_share = \<lparr>sh_id = 1, sh_token_hash = [7], sh_token_key_id = 1, sh_token_ciphertext = [7], sh_alias = None,
     sh_relative_path = lit ''a'', sh_is_directory = False, sh_permission = DownloadOnly, sh_expires_at = None,
     sh_max_downloads = None, sh_max_upload_size = None, sh_max_upload_total_size = None, sh_max_upload_files = None,
     sh_download_count = 0, sh_active = True, sh_created_by = 1, sh_created_at = 0, sh_password_hash = None,
     sh_upload_conflict_strategy = Reject, sh_upload_policy_epoch = 0, sh_alias_search_key = None,
     sh_path_search_key = lit ''a''\<rparr>"

definition storage_db :: db where
  "storage_db = empty_db\<lparr>
     admins := [\<lparr>adm_id = 1, adm_username = lit ''root'', adm_password_hash = [80], adm_totp_key_id = 1, adm_totp_ciphertext = [83],
       adm_totp_generation = 1, adm_totp_enabled = True, adm_created_at = 0, adm_active = True\<rparr>],
     sessions := [\<lparr>ses_token_hash = [2], ses_admin_id = 1, ses_csrf_token = [10], ses_mfa_verified = True,
       ses_expires_at = seconds 36000, ses_last_activity_at = seconds 1\<rparr>],
     shares := [storage_share]\<rparr>"

definition example_storage :: "entries \<Rightarrow> rstr list \<Rightarrow> fault list \<Rightarrow> sys" where
  "example_storage others tokens fs =
     \<lparr>sys_root = DirNode (1, 1) (fmupd (lit ''a'') (FileNode (1, 3) [104, 105]) others), sys_staging = fmempty,
      sys_active = [], sys_db = storage_db, sys_tokens = tokens, sys_inode = 9, sys_recovery_required = False,
      sys_generation = 0, sys_cleanup_requested = False, sys_faults = fs\<rparr>"

definition storage_token :: "nat \<Rightarrow> rstr" where
  "storage_token i = replicate 24 (48 + i)"

definition storage_context :: audit_context where
  "storage_context = \<lparr>actor = lit ''admin'', ctx_client_ip = None\<rparr>"

definition storage_env :: "(durable_phase \<Rightarrow> durable_operation) \<Rightarrow> file_env" where
  "storage_env op = \<lparr>fe_codec = example_codec op, fe_lower = (\<lambda>c. [c]), fe_now = seconds 2, fe_idle = 30, fe_active_uploads = {}\<rparr>"

definition storage_proof :: mfa_session_proof where
  "storage_proof = \<lparr>prf_token_hash = [2], prf_admin_id = 1\<rparr>"

lemma example_journal_readable:
  assumes "storage_phase (op PhaseIntent) = n" "storage_phase (op PhaseMoved) = Suc n" "storage_phase (op PhaseRollback) = Suc (Suc n)"
  shows "journal_readable (fe_codec (storage_env op)) {op ph | ph. True}"
proof -
  let ?J = "fe_codec (storage_env op)"
  have "dec_op ?J (enc_op ?J (op ph) @ [10]) = Some (op ph) \<and> length (enc_op ?J (op ph) @ [10]) \<le> MAX_OPERATION_BYTES" for ph
    by (cases ph) (simp_all add: assms storage_env_def example_codec_def MAX_OPERATION_BYTES_def)
  then show ?thesis by (auto simp: journal_readable_def)
qed

end
