(* ===== verification/Rename_Safety.thy ===== *)
theory Rename_Safety
  imports Example_Storage
begin

text \<open>
  Renaming a file or directory: at every point where the process can stop, the journal tells the recovery
  whether the name or the shares are behind, so recovery always leads to the old name with the old shares
  or to the new name with the new ones.
\<close>

section \<open>One rename\<close>

definition old_path :: "job \<Rightarrow> rstr" where
  "old_path j = path_of (j_dir j @ [j_old j])"

definition new_path :: "job \<Rightarrow> rstr" where
  "new_path j = path_of (j_dir j @ [j_new j])"

definition rename_op :: "job \<Rightarrow> entry_kind \<Rightarrow> durable_phase \<Rightarrow> durable_operation" where
  "rename_op j k phase = RenameOp (old_path j) (new_path j) k (node_identity (j_node j)) phase"

definition rename_journal :: "codec \<Rightarrow> job \<Rightarrow> entry_kind \<Rightarrow> durable_phase \<Rightarrow> nat list" where
  "rename_journal J j k phase = enc_op J (rename_op j k phase) @ [10]"

definition rename_valid :: "file_env \<Rightarrow> job \<Rightarrow> entry_kind \<Rightarrow> bool" where
  "rename_valid env j k \<longleftrightarrow> wf_job j \<and> named_job j
     \<and> split_parent_name (old_path j) = Inr (path_of (j_dir j), j_old j)
     \<and> split_parent_name (new_path j) = Inr (path_of (j_dir j), j_new j)
     \<and> join_relative (path_of (j_dir j)) (j_old j) = old_path j \<and> join_relative (path_of (j_dir j)) (j_new j) = new_path j
     \<and> normalized (path_of (j_dir j)) = Inr (path_of (j_dir j)) \<and> path_names (path_of (j_dir j)) = j_dir j
     \<and> safe_admin_filename (j_new j) = Inr (j_new j) \<and> old_path j \<noteq> new_path j
     \<and> node_kind (j_node j) = Some k \<and> 0 < fst (node_identity (j_node j)) \<and> 0 < snd (node_identity (j_node j))
     \<and> (\<forall>n. fmlookup (j_entries j) (j_new j) = Some n \<longrightarrow> node_identity n \<noteq> node_identity (j_node j))
     \<and> (\<forall>ph. dec_op (fe_codec env) (rename_journal (fe_codec env) j k ph) = Some (rename_op j k ph)
          \<and> length (rename_journal (fe_codec env) j k ph) \<le> MAX_OPERATION_BYTES)
     \<and> (\<forall>b. sql_update (path_selected (old_path j) (k = EntryDirectory)) (moved_share (fe_lower env) (old_path j) (new_path j))
          (j_shares j b) = j_shares j True)
     \<and> (\<forall>b recovery. validate_audit_fields (lit ''system'') (lit (as_str PathRenamed)) (Some (new_path j))
          (Some (lit ''old_path='' @ old_path j @ lit '';updated_shares=''
             @ dec_nat (sql_count (path_selected (old_path j) (k = EntryDirectory)) (j_shares j b))
             @ lit '';recovery='' @ bool_text recovery)) None = Inr ())"

definition rename_safe :: "codec \<Rightarrow> job \<Rightarrow> entry_kind \<Rightarrow> cfg \<Rightarrow> bool" where
  "rename_safe J j k c \<longleftrightarrow> (at c = AtOld \<or> at c = AtNew) \<and> man c = None \<and> (dirty c \<or> jour c = None)
     \<and> (fmlookup (j_entries j) (j_new j) \<noteq> None \<longrightarrow>
          at c = AtOld \<and> (jour c = None \<or> jour c = Some (rename_journal J j k PhaseIntent)))
     \<and> (jour c = None \<and> (moved c \<longleftrightarrow> at c = AtNew)
        \<or> jour c = Some (rename_journal J j k PhaseIntent) \<and> \<not> moved c
        \<or> jour c = Some (rename_journal J j k PhaseMoved) \<and> at c = AtNew
        \<or> jour c = Some (rename_journal J j k PhaseRollback) \<and> \<not> moved c)"

lemma rename_validD:
  assumes "rename_valid env j k"
  shows "wf_job j" "named_job j" "split_parent_name (old_path j) = Inr (path_of (j_dir j), j_old j)"
    "split_parent_name (new_path j) = Inr (path_of (j_dir j), j_new j)"
    "join_relative (path_of (j_dir j)) (j_old j) = old_path j" "join_relative (path_of (j_dir j)) (j_new j) = new_path j"
    "normalized (path_of (j_dir j)) = Inr (path_of (j_dir j))" "path_names (path_of (j_dir j)) = j_dir j"
    "safe_admin_filename (j_new j) = Inr (j_new j)" "node_kind (j_node j) = Some k" "j_old j \<noteq> j_new j"
    "is_file_operation_name (j_journal j)" "j_journal j @ lit ''.pending'' = j_temporary j"
    "validate_file_operation (rename_op j k ph) = Inr ()"
    "dec_op (fe_codec env) (rename_journal (fe_codec env) j k ph) = Some (rename_op j k ph)"
    "length (rename_journal (fe_codec env) j k ph) \<le> MAX_OPERATION_BYTES"
  using assms by (cases "node_identity (j_node j)";
      auto simp: rename_valid_def rename_op_def wf_job_def named_job_def)+

lemma probe_old:
  assumes "rename_valid env j k" "at c = AtOld \<or> at c = AtNew"
  shows "state_of (node_identity (j_node j)) k (found j AtOld c) = (if at c = AtOld then Expected else Missing)"
  using assms by (auto simp: rename_valid_def state_of_def found_def matches_identity_def)

lemma probe_new:
  assumes "rename_valid env j k" "at c = AtOld \<or> at c = AtNew"
  shows "state_of (node_identity (j_node j)) k (found j AtNew c) =
    (if at c = AtNew then Expected else if fmlookup (j_entries j) (j_new j) = None then Missing else Replaced)"
  using assms by (auto simp: rename_valid_def state_of_def found_def matches_identity_def split: option.splits)

lemmas ok_at_old = ok_entry_identity_state[where l = AtOld, simplified]
lemmas ok_at_new = ok_entry_identity_state[where l = AtNew, simplified]

lemma ok_rename_forward:
  assumes "rename_valid env j k" "at c = AtOld \<or> at c = AtNew"
    and "at c = AtOld \<Longrightarrow> fmlookup (j_entries j) (j_new j) = None \<Longrightarrow> Q (Inr ()) (c\<lparr>at := AtNew\<rparr>)"
    and "at c = AtOld \<Longrightarrow> fmlookup (j_entries j) (j_new j) \<noteq> None \<Longrightarrow> Q (Inl EAlreadyExists) c"
    and "at c = AtNew \<Longrightarrow> Q (Inl ENotFound) c"
    and "\<not> quiet c \<Longrightarrow> Q (Inl EOther) c"
    and "\<not> quiet c \<Longrightarrow> at c = AtOld \<Longrightarrow> fmlookup (j_entries j) (j_new j) = None \<Longrightarrow> Q (Inl EOther) (c\<lparr>at := AtNew\<rparr>)"
    and "\<not> quiet c \<Longrightarrow> K c"
    and "\<not> quiet c \<Longrightarrow> at c = AtOld \<Longrightarrow> fmlookup (j_entries j) (j_new j) = None \<Longrightarrow> K (c\<lparr>at := AtNew\<rparr>)"
  shows "ok j K (rename_noreplace (Visible (j_dir j)) (j_old j) (j_new j)) Q c"
proof -
  have "rename_effect j AtOld AtNew c = (if at c = AtNew then (Inl ENotFound, c)
     else if fmlookup (j_entries j) (j_new j) = None then (Inr (), c\<lparr>at := AtNew\<rparr>) else (Inl EAlreadyExists, c))"
    using assms(2) by (auto simp: rename_effect_def found_def)
  then show ?thesis unfolding rename_noreplace_def
    using ok_rename_place[OF rename_validD(1)[OF assms(1)], of AtOld AtNew c "fst (rename_effect j AtOld AtNew c)"
        "snd (rename_effect j AtOld AtNew c)" Q K] assms
    by (auto split: if_splits)
qed

lemma ok_rename_back:
  assumes "rename_valid env j k" "at c = AtNew" "Q (Inr ()) (c\<lparr>at := AtOld\<rparr>)" "fmlookup (j_entries j) (j_new j) = None"
    and "\<not> quiet c \<Longrightarrow> Q (Inl EOther) c" "\<not> quiet c \<Longrightarrow> Q (Inl EOther) (c\<lparr>at := AtOld\<rparr>)"
    and "\<not> quiet c \<Longrightarrow> K c" "\<not> quiet c \<Longrightarrow> K (c\<lparr>at := AtOld\<rparr>)"
  shows "ok j K (rename_noreplace (Visible (j_dir j)) (j_new j) (j_old j)) Q c"
proof -
  have "rename_effect j AtNew AtOld c = (Inr (), c\<lparr>at := AtOld\<rparr>)"
    using assms(2) by (auto simp: rename_effect_def found_def)
  then show ?thesis unfolding rename_noreplace_def
    using ok_rename_place[OF rename_validD(1)[OF assms(1)], of AtNew AtOld c "Inr ()" "c\<lparr>at := AtOld\<rparr>" Q K] assms
    by auto
qed

section \<open>Staging\<close>

definition ready_rename :: "job \<Rightarrow> entry_kind \<Rightarrow> staged_rename" where
  "ready_rename j k = \<lparr>sr_original_path = old_path j, sr_new_path = new_path j, sr_kind = k,
     sr_identity = node_identity (j_node j), sr_parent = Visible (j_dir j), sr_original_name = j_old j,
     sr_new_name = j_new j, sr_operation_name = j_journal j, sr_commit_started = False\<rparr>"

definition staged_post :: "codec \<Rightarrow> job \<Rightarrow> entry_kind \<Rightarrow> io_error + rename_stage_outcome \<Rightarrow> cfg \<Rightarrow> bool" where
  "staged_post J j k r c \<longleftrightarrow> rename_safe J j k c \<and> dirty c \<and> \<not> moved c \<and> (quiet c \<longrightarrow> temp c = None) \<and>
     (case r of
        Inl e \<Rightarrow> quiet c \<longrightarrow> fmlookup (j_entries j) (j_new j) \<noteq> None
      | Inr (RenameReady st) \<Rightarrow> st = ready_rename j k \<and> at c = AtNew
          \<and> jour c = Some (rename_journal J j k PhaseMoved)
      | Inr (RenameUncertain np k' e) \<Rightarrow> \<not> quiet c \<and> np = new_path j)"

lemma ok_reconcile_rename:
  assumes v: "rename_valid env j k" "jour c = Some (rename_journal (fe_codec env) j k PhaseIntent)" "\<not> moved c" "man c = None" "dirty c"
    and "at c = AtOld \<or> at c = AtNew" "rename = Inr () \<Longrightarrow> at c = AtNew" "at c = AtNew \<Longrightarrow> fmlookup (j_entries j) (j_new j) = None"
    and "quiet c \<Longrightarrow> rename \<noteq> Inr () \<Longrightarrow> at c = AtOld \<and> fmlookup (j_entries j) (j_new j) \<noteq> None"
    and Q: "at c = AtNew \<Longrightarrow> Q (Inr None) c" "\<And>e. \<not> quiet c \<Longrightarrow> Q (Inr (Some (RenameUncertain (new_path j) k e))) c"
      "\<And>e c'. c' = c \<or> c' = c\<lparr>jour := None\<rparr> \<Longrightarrow> at c = AtOld \<Longrightarrow> (quiet c \<Longrightarrow> rename \<noteq> Inr ()) \<Longrightarrow> Q (Inl e) c'"
  shows "ok j (rename_safe (fe_codec env) j k)
    (reconcile_rename_result (Visible (j_dir j)) (j_old j) (j_new j) (new_path j) (node_identity (j_node j)) k (j_journal j) rename) Q c"
proof -
  let ?K = "rename_safe (fe_codec env) j k"
  note d = rename_validD[OF v(1)]
  have K: "?K c" "at c = AtOld \<Longrightarrow> ?K (c\<lparr>jour := None\<rparr>)" using assms by (auto simp: rename_safe_def)
  show ?thesis unfolding reconcile_rename_result_def
    using assms K probe_new[OF v(1) assms(6)] probe_old[OF v(1) assms(6)]
    apply (intro ok_bnd ok_at_new[OF d(1)])
    apply (auto intro!: ok_rule ok_at_old[OF d(1)] d(1) split: sum.splits entry_identity_state.splits if_splits)
    done
qed

lemma ok_rename_and_publish:
  assumes v: "rename_valid env j k" "jour c = Some (rename_journal (fe_codec env) j k PhaseIntent)" "\<not> moved c" "man c = None" "dirty c"
    and "at c = AtOld" "quiet c \<Longrightarrow> temp c = None"
  shows "ok j (rename_safe (fe_codec env) j k)
    (rename_and_publish (fe_codec env) (Visible (j_dir j)) (j_old j) (j_new j) (old_path j) (new_path j)
       (node_identity (j_node j)) k (j_journal j)) (staged_post (fe_codec env) j k) c"
proof -
  let ?K = "rename_safe (fe_codec env) j k" and ?Q = "staged_post (fe_codec env) j k"
  note d = rename_validD[OF v(1)]
  have final: "ok j ?K (bnd (sync_all (Visible (j_dir j))) (\<lambda>r. case r of
           Inl e \<Rightarrow> done_with (RenameUncertain (new_path j) k e)
         | Inr _ \<Rightarrow>
             bnd (replace_file_operation (fe_codec env) (j_journal j) (RenameOp (old_path j) (new_path j) k (node_identity (j_node j)) PhaseMoved)) (\<lambda>r. case r of
               Inl e \<Rightarrow> done_with (RenameUncertain (new_path j) k e)
             | Inr _ \<Rightarrow> done_with (RenameReady (ready_rename j k))))) ?Q (c\<lparr>at := AtNew\<rparr>)"
    if "fmlookup (j_entries j) (j_new j) = None"
    unfolding rename_op_def[symmetric]
    using assms d that
    by (auto intro!: ok_rule ok_replace_file_operation simp: staged_post_def rename_safe_def rename_journal_def[symmetric])
  have reconcile: "ok j ?K (reconcile_rename_result (Visible (j_dir j)) (j_old j) (j_new j) (new_path j) (node_identity (j_node j)) k (j_journal j) rename)
     (\<lambda>r. case r of Inl e \<Rightarrow> ?Q (Inl e) | Inr outcome \<Rightarrow> ok j ?K (case outcome of
       Some out \<Rightarrow> done_with out
     | None \<Rightarrow>
         bnd (sync_all (Visible (j_dir j))) (\<lambda>r. case r of
           Inl e \<Rightarrow> done_with (RenameUncertain (new_path j) k e)
         | Inr _ \<Rightarrow>
             bnd (replace_file_operation (fe_codec env) (j_journal j) (RenameOp (old_path j) (new_path j) k (node_identity (j_node j)) PhaseMoved)) (\<lambda>r. case r of
               Inl e \<Rightarrow> done_with (RenameUncertain (new_path j) k e)
             | Inr _ \<Rightarrow> done_with (RenameReady (ready_rename j k))))) ?Q) c'"
    if "c' = c \<or> c' = c\<lparr>at := AtNew\<rparr> \<and> fmlookup (j_entries j) (j_new j) = None" "rename = Inr () \<Longrightarrow> at c' = AtNew"
      "quiet c \<Longrightarrow> rename \<noteq> Inr () \<Longrightarrow> at c' = AtOld \<and> fmlookup (j_entries j) (j_new j) \<noteq> None" for rename c'
    using assms that final
    by (intro ok_reconcile_rename[OF v(1), of _ rename]) (auto simp: staged_post_def rename_safe_def intro!: ok_done_with)
  show ?thesis unfolding rename_and_publish_def directory_rename_noreplace_def ready_rename_def[symmetric]
    using assms
    apply (intro ok_bnd ok_bndE ok_rename_forward[OF v(1)])
    apply (auto intro!: ok_rule ok_bndE reconcile simp: rename_safe_def)
    done
qed

lemma ok_stage_rename:
  assumes v: "rename_valid env j k" "jour c = None" "\<not> moved c" "man c = None" "dirty c"
    and "at c = AtOld" "toks c = t # ts" "file_operation_name t = j_journal j" "temp c = None"
  shows "ok j (rename_safe (fe_codec env) j k)
    (stage_rename_with_outcome (fe_codec env) (old_path j) (j_new j)) (staged_post (fe_codec env) j k) c"
proof -
  note d = rename_validD[OF v(1)]
  have publish: "ok j (rename_safe (fe_codec env) j k)
    (rename_and_publish (fe_codec env) (Visible (j_dir j)) (j_old j) (j_new j) (old_path j) (new_path j)
       (node_identity (j_node j)) k (j_journal j)) (staged_post (fe_codec env) j k)
    (c\<lparr>toks := ts, jour := Some (rename_journal (fe_codec env) j k PhaseIntent)\<rparr>)"
    using assms by (intro ok_rename_and_publish) auto
  show ?thesis unfolding stage_rename_with_outcome_def rename_op_def[symmetric]
    using assms d publish
    by (auto intro!: ok_rule ok_bind_parent ok_openat2_place[where l = AtOld, simplified] ok_write_file_operation[of _ _ t ts]
        simp: Let_def rename_op_def[symmetric] rename_journal_def[symmetric] staged_post_def rename_safe_def)
qed

section \<open>Recovery\<close>

lemma rename_journal_inject:
  assumes "rename_valid env j k"
  shows "rename_journal (fe_codec env) j k ph = rename_journal (fe_codec env) j k ph' \<longleftrightarrow> ph = ph'"
proof
  assume "rename_journal (fe_codec env) j k ph = rename_journal (fe_codec env) j k ph'"
  then have "Some (rename_op j k ph) = Some (rename_op j k ph')"
    using rename_validD(15)[OF assms, of ph] rename_validD(15)[OF assms, of ph'] by simp
  then show "ph = ph'" by (simp add: rename_op_def)
qed simp

text \<open>An object at the new name blocks the recovery of a journal that announces the rename.\<close>

definition blocked :: "job \<Rightarrow> cfg \<Rightarrow> bool" where
  "blocked j c \<longleftrightarrow> fmlookup (j_entries j) (j_new j) \<noteq> None \<and> jour c \<noteq> None"

definition recovered_post :: "codec \<Rightarrow> job \<Rightarrow> entry_kind \<Rightarrow> bool \<Rightarrow> io_error + file_operation_recovery \<Rightarrow> cfg \<Rightarrow> bool" where
  "recovered_post J j k b r c \<longleftrightarrow> rename_safe J j k c \<and> dirty c \<and> (quiet c \<longrightarrow> temp c = None) \<and> (b \<longrightarrow> isl r \<and> jour c \<noteq> None) \<and>
     (case r of
        Inl e \<Rightarrow> quiet c \<longrightarrow> fmlookup (j_entries j) (j_new j) \<noteq> None
      | Inr Cancelled \<Rightarrow> jour c = None
      | Inr (RecoveredRename p p' d) \<Rightarrow> p = old_path j \<and> p' = new_path j \<and> d = (k = EntryDirectory)
          \<and> at c = AtNew \<and> jour c = Some (rename_journal J j k PhaseMoved)
      | Inr (RecoveredDelete p d t) \<Rightarrow> False)"

lemma ok_recover_rename:
  assumes v: "rename_valid env j k" "rename_safe (fe_codec env) j k c" "dirty c"
      "jour c = Some (rename_journal (fe_codec env) j k ph)" "quiet c \<Longrightarrow> temp c = None"
  shows "ok j (rename_safe (fe_codec env) j k)
    (recover_file_operation (fe_codec env) \<lparr>pf_journal_name = j_journal j, pf_operation = rename_op j k ph\<rparr>)
    (recovered_post (fe_codec env) j k (blocked j c)) c"
proof -
  let ?J = "fe_codec env"
  note d = rename_validD[OF v(1)] and inj = rename_journal_inject[OF v(1)]
  have at: "at c = AtOld \<or> at c = AtNew" using v(2) by (simp add: rename_safe_def)
  note probes = probe_new[OF v(1) at] probe_old[OF v(1) at]
  have enter: "ok j (rename_safe ?J j k) (recover_file_operation ?J \<lparr>pf_journal_name = j_journal j, pf_operation = rename_op j k ph\<rparr>) Q c"
    if "ok j (rename_safe ?J j k) (let outcome = RecoveredRename (old_path j) (new_path j) (k = EntryDirectory) in case ph of
         PhaseIntent \<Rightarrow>
           bndE (recover_rename_intent ?J (j_journal j) (old_path j) (new_path j) k (node_identity (j_node j)) (Visible (j_dir j)) (j_old j) (j_new j)) (\<lambda>moved.
           done_with (if moved then outcome else Cancelled))
       | PhaseMoved \<Rightarrow>
           bndE (entry_identity_state (Visible (j_dir j)) (j_new j) (node_identity (j_node j)) k) (\<lambda>destination. case destination of
             Expected \<Rightarrow> bndE (sync_all (Visible (j_dir j))) (\<lambda>_. done_with outcome)
           | Replaced \<Rightarrow> fail EAlreadyExists
           | Missing \<Rightarrow> done_with outcome)
       | PhaseRollback \<Rightarrow>
           bndE (recover_rename_rollback (j_journal j) k (node_identity (j_node j)) (Visible (j_dir j)) (j_old j) (j_new j)) (\<lambda>_. done_with Cancelled)) Q c"
      "\<not> quiet c \<Longrightarrow> Q (Inl EOther) c" for Q
    using that v(2) d by (auto simp: recover_file_operation_def rename_op_def recover_rename_operation_def intro!: ok_rule ok_bind_parent)
  show ?thesis
  proof (rule enter; (unfold Let_def)?)
    show "ok j (rename_safe ?J j k) (case ph of
         PhaseIntent \<Rightarrow>
           bndE (recover_rename_intent ?J (j_journal j) (old_path j) (new_path j) k (node_identity (j_node j)) (Visible (j_dir j)) (j_old j) (j_new j)) (\<lambda>moved.
           done_with (if moved then RecoveredRename (old_path j) (new_path j) (k = EntryDirectory) else Cancelled))
       | PhaseMoved \<Rightarrow>
           bndE (entry_identity_state (Visible (j_dir j)) (j_new j) (node_identity (j_node j)) k) (\<lambda>destination. case destination of
             Expected \<Rightarrow> bndE (sync_all (Visible (j_dir j))) (\<lambda>_. done_with (RecoveredRename (old_path j) (new_path j) (k = EntryDirectory)))
           | Replaced \<Rightarrow> fail EAlreadyExists
           | Missing \<Rightarrow> done_with (RecoveredRename (old_path j) (new_path j) (k = EntryDirectory)))
       | PhaseRollback \<Rightarrow>
           bndE (recover_rename_rollback (j_journal j) k (node_identity (j_node j)) (Visible (j_dir j)) (j_old j) (j_new j)) (\<lambda>_. done_with Cancelled))
       (recovered_post ?J j k (blocked j c)) c"
    proof (cases ph)
      case PhaseIntent
      then show ?thesis using v d at probes unfolding recover_rename_intent_def rename_op_def[symmetric]
        by (auto simp: inj recovered_post_def rename_safe_def blocked_def rename_journal_def[symmetric]
            intro!: ok_rule ok_at_new ok_at_old ok_replace_file_operation split: if_splits)
    next
      case PhaseMoved
      then show ?thesis using v d at probes
        by (auto simp: inj recovered_post_def rename_safe_def blocked_def intro!: ok_rule ok_at_new)
    next
      case PhaseRollback
      then show ?thesis using v d at probes unfolding recover_rename_rollback_def
        by (auto simp: inj recovered_post_def rename_safe_def blocked_def intro!: ok_rule ok_at_new ok_at_old ok_rename_back[OF v(1)])
    qed
  qed (use v in \<open>auto simp: recovered_post_def blocked_def\<close>)
qed

lemma ok_rename_transaction:
  assumes v: "rename_valid env j k"
    and "\<And>n. Q (Inr n) (c\<lparr>moved := True\<rparr>)" "\<And>e. \<not> quiet c \<Longrightarrow> Q (Inl e) c" "\<And>e. \<not> quiet c \<Longrightarrow> Q (Inl e) (c\<lparr>moved := True\<rparr>)"
    and "\<not> quiet c \<Longrightarrow> K c" "\<not> quiet c \<Longrightarrow> K (c\<lparr>moved := True\<rparr>)"
  shows "ok j K (transaction (rename_share_paths_and_audit (fe_lower env) (old_path j) (new_path j) (k = EntryDirectory)
    system_context True (fe_now env))) Q c"
proof (rule ok_transaction[where b = True])
  fix d :: db assume d: "shares d = j_shares j (moved c)"
  let ?P = "path_selected (old_path j) (k = EntryDirectory)"
  let ?ev = "audit_event PathRenamed (Some (new_path j)) (Some (lit ''old_path='' @ old_path j @ lit '';updated_shares=''
     @ dec_nat (sql_count ?P (shares d)) @ lit '';recovery='' @ bool_text True))"
  let ?d = "d\<lparr>shares := sql_update ?P (moved_share (fe_lower env) (old_path j) (new_path j)) (shares d)\<rparr>"
  have audit: "validate_audit_fields (actor system_context) (lit (as_str (ev_action ?ev))) (ev_object_id ?ev) (ev_detail ?ev)
      (ctx_client_ip system_context) = Inr ()"
    using v unfolding rename_valid_def d by (simp only: audit_event_def system_context_def required_audit_event.simps audit_context.simps)
  obtain rows where "commit_audited (fe_now env) system_context [?ev] (sql_count ?P (shares d)) d ?d
      = (Inr (sql_count ?P (shares d)), ?d\<lparr>audit := rows\<rparr>)"
    using commit_audited_one[OF audit, of "fe_now env" "sql_count ?P (shares d)" d ?d] by (elim exE)
  moreover have "shares (?d\<lparr>audit := rows\<rparr>) = j_shares j True" using v d by (simp add: rename_valid_def)
  ultimately show "\<exists>x d'. rename_share_paths_and_audit (fe_lower env) (old_path j) (new_path j) (k = EntryDirectory) system_context True (fe_now env) d
      = (Inr x, d') \<and> shares d' = j_shares j True \<and> Q (Inr x) (c\<lparr>moved := True\<rparr>)"
    using assms(2) unfolding rename_share_paths_and_audit_def rename_share_paths_in_transaction_def Let_def prod.case by blast
qed (use assms in auto)

text \<open>A recovery ends with the journal removed, and is stopped only by an object that occupies the new name.\<close>

definition cleared_post :: "codec \<Rightarrow> job \<Rightarrow> entry_kind \<Rightarrow> bool \<Rightarrow> 'e + 'a \<Rightarrow> cfg \<Rightarrow> bool" where
  "cleared_post J j k b r c \<longleftrightarrow> rename_safe J j k c \<and> dirty c \<and> (quiet c \<longrightarrow> temp c = None) \<and> (b \<longrightarrow> isl r \<and> jour c \<noteq> None) \<and>
     (case r of Inl e \<Rightarrow> quiet c \<longrightarrow> fmlookup (j_entries j) (j_new j) \<noteq> None | Inr x \<Rightarrow> jour c = None)"

lemma ok_complete_rename:
  assumes "rename_valid env j k" "Q (Inr ()) (c\<lparr>jour := None\<rparr>)"
    and "\<not> quiet c \<Longrightarrow> Q (Inl EOther) c" "\<not> quiet c \<Longrightarrow> Q (Inl EOther) (c\<lparr>jour := None\<rparr>)"
    and "\<not> quiet c \<Longrightarrow> K c" "\<not> quiet c \<Longrightarrow> K (c\<lparr>jour := None\<rparr>)"
  shows "ok j K (complete_file_operation \<lparr>pf_journal_name = j_journal j, pf_operation = rename_op j k ph\<rparr>) Q c"
  using assms rename_validD(1)[OF assms(1)] by (auto simp: complete_file_operation_def rename_op_def intro!: ok_rule)

lemma ok_recover_one:
  assumes v: "rename_valid env j k" "rename_safe (fe_codec env) j k c" "dirty c"
      "jour c = Some (rename_journal (fe_codec env) j k ph)" "quiet c \<Longrightarrow> temp c = None"
  shows "ok j (rename_safe (fe_codec env) j k)
    (recover_one env \<lparr>pf_journal_name = j_journal j, pf_operation = rename_op j k ph\<rparr>) (cleared_post (fe_codec env) j k (blocked j c)) c"
  unfolding recover_one_def
proof (intro ok_bndE ok_mapE, rule ok_mono[OF ok_recover_rename[OF assms]], goal_cases)
  case (2 r c')
  let ?p = "\<lparr>pf_journal_name = j_journal j, pf_operation = rename_op j k ph\<rparr>"
  have forward: "ok j (rename_safe (fe_codec env) j k)
      (bndE (transaction (rename_share_paths_and_audit (fe_lower env) (old_path j) (new_path j) (k = EntryDirectory) system_context True (fe_now env)))
        (\<lambda>_. bndE (mapE map_io (complete_file_operation ?p)) (\<lambda>_. done_with []))) (cleared_post (fe_codec env) j k (blocked j c)) c'"
    if "rename_safe (fe_codec env) j k c'" "dirty c'" "quiet c' \<Longrightarrow> temp c' = None" "at c' = AtNew"
      "jour c' = Some (rename_journal (fe_codec env) j k PhaseMoved)"
    using that
    by (intro ok_bndE ok_rename_transaction[OF v(1)])
      (auto simp: cleared_post_def blocked_def rename_safe_def intro!: ok_bndE ok_mapE ok_done_with ok_complete_rename[OF v(1)])
  show ?case
  proof (cases r)
    case (Inl e)
    then show ?thesis using 2 by (simp add: recovered_post_def cleared_post_def blocked_def)
  next
    case (Inr x)
    then show ?thesis using 2 forward
      by (cases x) (auto simp: recovered_post_def cleared_post_def blocked_def intro!: ok_done_with)
  qed
qed simp

lemma ok_recover_blocking:
  assumes v: "rename_valid env j k" "rename_safe (fe_codec env) j k c" "dirty c" "quiet c \<Longrightarrow> temp c = None"
  shows "ok j (rename_safe (fe_codec env) j k) (recover_pending_file_operations_blocking env) (cleared_post (fe_codec env) j k (blocked j c)) c"
proof -
  let ?K = "rename_safe (fe_codec env) j k" and ?Q = "cleared_post (fe_codec env) j k (blocked j c)"
  note d = rename_validD[OF v(1)]
  have noisy: "?Q (Inl e) c" if "\<not> quiet c" for e :: file_operation_error using that v by (simp add: cleared_post_def blocked_def)
  have idle: "man c = None" "at c \<noteq> AtPending" using v(2) by (auto simp: rename_safe_def)
  have rest: "ok j ?K (bndE (mapE map_io (recover_pending_deletions (fe_codec env) ops)) (\<lambda>_. recover_each env ops)) ?Q c"
    if "ok j ?K (recover_each env ops) ?Q c" for ops
    using that v noisy d idle by (auto intro!: ok_bndE ok_mapE ok_no_pending_deletions)
  show ?thesis
  proof (cases "jour c")
    case None
    then have "ok j ?K (recover_each env []) ?Q c" using v by (auto simp: cleared_post_def blocked_def intro!: ok_rule)
    note this[THEN rest]
    then show ?thesis unfolding recover_pending_file_operations_blocking_def using None v noisy d
      by (intro ok_bndE[of _ _ "mapE map_io (pending_file_operations (fe_codec env))"] ok_mapE ok_pending_file_operations) auto
  next
    case (Some x)
    then obtain ph where ph: "x = rename_journal (fe_codec env) j k ph" using v(2) by (auto simp: rename_safe_def)
    let ?p = "\<lparr>pf_journal_name = j_journal j, pf_operation = rename_op j k ph\<rparr>"
    have "ok j ?K (recover_one env ?p) ?Q c" using v Some ph by (intro ok_recover_one) auto
    then have "ok j ?K (recover_each env [?p]) ?Q c"
      by (auto intro!: ok_rule elim!: ok_mono simp: cleared_post_def blocked_def split: sum.splits)
    then have "ok j ?K (bndE (mapE map_io (recover_pending_deletions (fe_codec env) [?p])) (\<lambda>_. recover_each env [?p])) ?Q c"
      by (rule rest)
    then show ?thesis unfolding recover_pending_file_operations_blocking_def using Some ph v noisy d
      by (intro ok_bndE[of _ _ "mapE map_io (pending_file_operations (fe_codec env))"] ok_mapE
          ok_pending_file_operations[where op = "rename_op j k ph"]) auto
  qed
qed

lemma ok_recover_with_guard:
  assumes v: "rename_valid env j k" "rename_safe (fe_codec env) j k c" "dirty c" "quiet c \<Longrightarrow> temp c = None"
    and "\<not> entry \<Longrightarrow> jour c = None"
  shows "ok j (rename_safe (fe_codec env) j k) (recover_pending_file_operations_with_guard env entry) (cleared_post (fe_codec env) j k (blocked j c)) c"
proof -
  have "ok j (rename_safe (fe_codec env) j k) (recover_pending_file_operations_blocking env)
     (\<lambda>r. case r of Inl e \<Rightarrow> cleared_post (fe_codec env) j k (blocked j c) (Inl e)
       | Inr cleanup_paths \<Rightarrow> ok j (rename_safe (fe_codec env) j k)
           (bndE (recover_upload_operations_call env) (\<lambda>_.
            bnd (if cleanup_paths = [] then ret () else request_cleanup) (\<lambda>_. done_with ()))) (cleared_post (fe_codec env) j k (blocked j c))) c"
    by (rule ok_mono[OF ok_recover_blocking[OF v]])
      (auto simp: cleared_post_def blocked_def intro!: ok_rule split: sum.splits)
  then have "ok j (rename_safe (fe_codec env) j k) (bndE (recover_pending_file_operations_blocking env) (\<lambda>cleanup_paths.
       bndE (recover_upload_operations_call env) (\<lambda>_.
       bnd (if cleanup_paths = [] then ret () else request_cleanup) (\<lambda>_. done_with ())))) (cleared_post (fe_codec env) j k (blocked j c)) c"
    by (rule ok_bndE)
  then show ?thesis unfolding recover_pending_file_operations_with_guard_def
    using assms by (auto simp: cleared_post_def blocked_def intro!: ok_bndE[of _ _ acquire_database_permit] ok_acquire_database_permit ok_done_with)
qed

section \<open>The operation\<close>

definition uncertain_post :: "codec \<Rightarrow> job \<Rightarrow> entry_kind \<Rightarrow> 'a \<Rightarrow> cfg \<Rightarrow> bool" where
  "uncertain_post J j k r c \<longleftrightarrow> rename_safe J j k c \<and> (quiet c \<longrightarrow> temp c = None)"

lemma ok_uncertain_rename:
  assumes v: "rename_valid env j k" "rename_safe (fe_codec env) j k c" "dirty c" "quiet c \<Longrightarrow> temp c = None"
  shows "ok j (rename_safe (fe_codec env) j k) (uncertain_rename env p k' n)
    (\<lambda>r c. uncertain_post (fe_codec env) j k r c \<and> rn_durability r = Uncertain) c"
  unfolding uncertain_rename_def finish_recovery_if_clean_def recover_uncertain_file_operation_before_unlock_def
proof (intro ok_bnd, rule ok_mono[OF ok_recover_blocking[OF v]], goal_cases)
  case (2 r c')
  then have "rename_safe (fe_codec env) j k c'" "quiet c' \<Longrightarrow> temp c' = None"
    and clear: "isl r \<or> rename_safe (fe_codec env) j k (c'\<lparr>dirty := False\<rparr>)"
    by (auto simp: cleared_post_def blocked_def rename_safe_def split: sum.splits)
  then show ?case
    by (cases r) (auto simp: uncertain_post_def intro!: ok_bnd ok_ret ok_request_cleanup ok_finish_clean)
qed simp

definition rename_tx_post :: "file_env \<Rightarrow> job \<Rightarrow> entry_kind \<Rightarrow> audit_context
    \<Rightarrow> (file_operation_error + rename_outcome session_bound) \<times> (rstr \<times> entry_kind) option \<Rightarrow> cfg \<Rightarrow> bool" where
  "rename_tx_post env j k ctx r c \<longleftrightarrow> rename_safe (fe_codec env) j k c \<and> dirty c \<and> (quiet c \<longrightarrow> temp c = None) \<and>
     (case fst r of
        Inl e \<Rightarrow> quiet c \<longrightarrow> fmlookup (j_entries j) (j_new j) \<noteq> None \<or> validate_context ctx \<noteq> Inr ()
      | Inr SessionUnavailable \<Rightarrow> jour c = None
      | Inr (Authorized (None, p, k', n)) \<Rightarrow> \<not> quiet c
      | Inr (Authorized (Some st, p, k', n)) \<Rightarrow> sr_operation_name st = j_journal j \<and> at c = AtNew \<and> moved c
          \<and> jour c = Some (rename_journal (fe_codec env) j k PhaseMoved))"

lemma rename_statement:
  assumes "rename_valid env j k" "shares d = j_shares j False"
    and "rename_share_paths_in_transaction (fe_lower env) (old_path j) (new_path j) (k = EntryDirectory) False d = ((n, evs), d1)"
  shows "shares d1 = j_shares j True" "audits_fit system_context evs"
proof -
  show "shares d1 = j_shares j True"
    using assms by (auto simp: rename_share_paths_in_transaction_def rename_valid_def Let_def)
  have "\<exists>b. validate_audit_fields (lit ''system'') (lit (as_str PathRenamed)) (Some (new_path j))
          (Some (lit ''old_path='' @ old_path j @ lit '';updated_shares=''
             @ dec_nat (sql_count (path_selected (old_path j) (k = EntryDirectory)) (j_shares j False))
             @ lit '';recovery='' @ bool_text False)) None = Inr ()"
    using assms(1) unfolding rename_valid_def by blast
  then show "audits_fit system_context evs"
    using assms(2,3) unfolding rename_share_paths_in_transaction_def Let_def audits_fit_def
    by (auto simp: system_context_def audit_event_def simp del: lit_simps)
qed

lemma ok_rename_tx:
  assumes v: "rename_valid env j k" "jour c = None" "\<not> moved c" "man c = None" "dirty c"
    and "at c = AtOld" "toks c = t # ts" "file_operation_name t = j_journal j" "temp c = None"
  shows "ok j (rename_safe (fe_codec env) j k)
    (required_transaction_for_mfa_session_audited env proof ctx None (drop_rename_outcome env)
       (rename_operation env (old_path j) (j_new j))) (rename_tx_post env j k ctx) c"
proof (rule ok_required_transaction)
  fix d :: db assume ctx: "validate_context ctx = Inr ()" and d: "shares d = j_shares j (moved c)"
  let ?K = "rename_safe (fe_codec env) j k"
  define C where "C = (\<lambda>(out :: rename_outcome, evs, d1, cap).
     ok j ?K (commit_transaction (fe_now env) ctx evs d1) (\<lambda>r. case r of
           Inl e \<Rightarrow> ok j ?K (drop_rename_outcome env out) (\<lambda>_. rename_tx_post env j k ctx (Inl e, cap))
         | Inr _ \<Rightarrow> rename_tx_post env j k ctx (Inr (Authorized out), cap)))"
  have err: "rename_tx_post env j k ctx (Inl e', None) c'" if "staged_post (fe_codec env) j k (Inl e) c'" for e e' c'
    using that by (auto simp: staged_post_def rename_tx_post_def)
  have none: "C ((None, new_path j, k', 0), [], d, cap) c'" if "staged_post (fe_codec env) j k (Inr (RenameUncertain (new_path j) k' e)) c'"
    for k' e c' cap
    using that d v(3) unfolding C_def prod.case
    by (intro ok_commit_transaction[where b = "moved c'"])
      (auto simp: staged_post_def rename_tx_post_def drop_rename_outcome_def intro!: ok_ret)
  let ?st = "begin_database_commit (ready_rename j k)"
  let ?stmt = "rename_share_paths_in_transaction (fe_lower env) (old_path j) (new_path j) (k = EntryDirectory) False d"
  have drop: "drop_staged_rename J ?st = ret ()" for J
    by (simp add: drop_staged_rename_def begin_database_commit_def)
  obtain n evs d1 where stmt: "?stmt = ((n, evs), d1)" by (metis prod.collapse)
  have d1: "shares d1 = j_shares j True" "audits_fit ctx evs"
    using rename_statement[OF v(1) _ stmt] audits_fit_context[OF ctx] d v(3) by auto
  have some: "C ((Some ?st, new_path j, k, n), evs, d1, cap) c'"
    if "staged_post (fe_codec env) j k (Inr (RenameReady (ready_rename j k))) c'" for c' cap
  proof -
    have s: "rename_safe (fe_codec env) j k c'" "dirty c'" "\<not> moved c'" "quiet c' \<Longrightarrow> temp c' = None" "at c' = AtNew"
      "jour c' = Some (rename_journal (fe_codec env) j k PhaseMoved)"
      using that by (auto simp: staged_post_def)
    then have m: "rename_safe (fe_codec env) j k (c'\<lparr>moved := True\<rparr>)" by (auto simp: rename_safe_def)
    have name: "sr_operation_name ?st = j_journal j" by (simp add: begin_database_commit_def ready_rename_def)
    show ?thesis unfolding C_def prod.case
      by (rule ok_commit_transaction[where b = True, OF d1(1)])
        (use s m name d1(2) in \<open>auto simp: rename_tx_post_def drop_rename_outcome_def drop intro!: ok_ret\<close>)
  qed
  show "ok j ?K (rename_operation env (old_path j) (j_new j) d) (\<lambda>(r, cap) c'. case r of
         Inl e \<Rightarrow> rename_tx_post env j k ctx (Inl e, cap) c'
       | Inr ((out, evs), d1) \<Rightarrow> ok j ?K (commit_transaction (fe_now env) ctx evs d1) (\<lambda>r. case r of
           Inl e \<Rightarrow> ok j ?K (drop_rename_outcome env out) (\<lambda>_. rename_tx_post env j k ctx (Inl e, cap))
         | Inr _ \<Rightarrow> rename_tx_post env j k ctx (Inr (Authorized out), cap)) c') c"
    unfolding rename_operation_def
  proof (intro ok_bnd ok_mapE, rule ok_mono[OF ok_stage_rename[OF assms]], goal_cases)
    case (1 r c')
    show ?case
    proof (cases r)
      case (Inl e)
      then show ?thesis using err 1 by (auto intro!: ok_ret)
    next
      case (Inr out)
      show ?thesis
      proof (cases out)
        case (RenameUncertain p k' e)
        then have "p = new_path j" using 1 Inr by (simp add: staged_post_def)
        then show ?thesis using none[of k' e c' None] 1 Inr RenameUncertain by (auto simp: C_def intro!: ok_ret)
      next
        case (RenameReady st)
        then have st: "st = ready_rename j k" using 1 Inr by (simp add: staged_post_def)
        then have r: "sr_new_path ?st = new_path j" "sr_original_path ?st = old_path j" "sr_kind ?st = k"
          "sr_new_path st = new_path j" "sr_kind st = k"
          by (simp_all add: ready_rename_def begin_database_commit_def)
        have "rename_tx_post env j k ctx (Inl e, cap) c'" if "\<not> quiet c'" for e cap
          using that 1 Inr by (auto simp: staged_post_def rename_tx_post_def)
        then show ?thesis using some[of c' "Some (new_path j, k)"] 1 Inr RenameReady st r
          by (auto simp: C_def Let_def drop stmt intro!: ok_bnd ok_statement ok_ret) (simp_all add: staged_post_def)
      qed
    qed
  qed
qed (use assms in \<open>auto simp: rename_tx_post_def rename_safe_def\<close>)

definition rename_post :: "file_env \<Rightarrow> job \<Rightarrow> entry_kind \<Rightarrow> audit_context
    \<Rightarrow> file_operation_error + rename_result required_audit_file_outcome \<Rightarrow> cfg \<Rightarrow> bool" where
  "rename_post env j k ctx r c \<longleftrightarrow> rename_safe (fe_codec env) j k c \<and> (quiet c \<longrightarrow> temp c = None)
     \<and> (\<forall>res. r = Inr (AuditedOutcome (Authorized res)) \<longrightarrow> rn_durability res = Durable \<longrightarrow>
          at c = AtNew \<and> moved c \<and> jour c = None \<and> \<not> dirty c)
     \<and> (quiet c \<longrightarrow> fmlookup (j_entries j) (j_new j) = None \<longrightarrow> validate_context ctx = Inr () \<longrightarrow>
          r = Inr (AuditedOutcome SessionUnavailable)
          \<or> (\<exists>res. r = Inr (AuditedOutcome (Authorized res)) \<and> rn_durability res = Durable))"

lemma ok_finish_rename:
  assumes v: "rename_valid env j k" and tx: "rename_tx_post env j k ctx (Inr (Authorized out), cap) c"
  shows "ok j (rename_safe (fe_codec env) j k) (finish_rename env out)
    (\<lambda>res. rename_post env j k ctx (Inr (AuditedOutcome (Authorized res)))) c"
proof -
  have uncertain: "ok j (rename_safe (fe_codec env) j k) (uncertain_rename env p k' n)
      (\<lambda>res. rename_post env j k ctx (Inr (AuditedOutcome (Authorized res)))) c'"
    if "rename_safe (fe_codec env) j k c'" "dirty c'" "\<not> quiet c'" for p k' n c'
  proof -
    have "ok j (rename_safe (fe_codec env) j k) (uncertain_rename env p k' n)
      (\<lambda>r c. uncertain_post (fe_codec env) j k r c \<and> rn_durability r = Uncertain) c'"
      using that by (intro ok_uncertain_rename[OF v]) auto
    then show ?thesis
      by (rule ok_mono[OF ok_quiet]) (use that(3) in \<open>auto simp: uncertain_post_def rename_post_def\<close>)
  qed
  obtain staged p k' n where out: "out = (staged, p, k', n)" by (cases out) auto
  show ?thesis
  proof (cases staged)
    case None
    then show ?thesis using tx out uncertain by (auto simp: finish_rename_def rename_tx_post_def)
  next
    case (Some st)
    then have st: "sr_operation_name st = j_journal j" "at c = AtNew" "moved c" "rename_safe (fe_codec env) j k c" "dirty c"
        "quiet c \<longrightarrow> temp c = None" "jour c = Some (rename_journal (fe_codec env) j k PhaseMoved)"
      using tx out by (auto simp: rename_tx_post_def)
    then show ?thesis unfolding finish_rename_def out Some prod.case option.case commit_rename_def st(1)
      using uncertain rename_validD(1)[OF v] by (auto simp: rename_post_def rename_safe_def intro!: ok_rule)
  qed
qed

lemma ok_rename_path:
  assumes v: "rename_valid env j k" "jour c = None" "\<not> moved c" "man c = None"
    and "at c = AtOld" "toks c = t # ts" "file_operation_name t = j_journal j" "temp c = None"
    and path: "validated_rename_paths path new_name = Inr (old_path j, j_new j)"
  shows "ok j (rename_safe (fe_codec env) j k) (rename_path env proof path new_name ctx) (rename_post env j k ctx) c"
proof -
  let ?K = "rename_safe (fe_codec env) j k" and ?c = "c\<lparr>dirty := True\<rparr>"
  note d = rename_validD[OF v(1)]
  have safe: "?K c" "?K ?c" using assms by (auto simp: rename_safe_def)
  have tx: "ok j ?K (bnd (required_transaction_for_mfa_session_audited env proof ctx None (drop_rename_outcome env)
            (rename_operation env (old_path j) (j_new j))) (finish_rename_outcome env)) (rename_post env j k ctx) ?c"
  proof (rule ok_bnd, rule ok_mono[OF ok_rename_tx[where c = ?c and t = t and ts = ts]], goal_cases)
    case (10 r c')
    then show ?case
    proof (cases r)
      case (Pair outcome snapshot)
      show ?thesis
      proof (cases outcome)
        case (Inl e)
        have "rename_post env j k ctx (Inl e') c'" for e'
          using 10 Pair Inl by (auto simp: rename_tx_post_def rename_post_def)
        moreover have "ok j ?K (bnd (uncertain_rename env p k' 0) (\<lambda>result. done_with (UncertainOutcome (Authorized result)))) (rename_post env j k ctx) c'" for p k'
          using 10 Pair Inl
          by (intro ok_bnd, intro ok_mono[OF ok_quiet[OF ok_uncertain_rename[OF v(1)]]])
            (auto simp: rename_tx_post_def uncertain_post_def rename_post_def intro!: ok_done_with)
        ultimately show ?thesis using Pair Inl by (auto simp: finish_rename_outcome_def intro!: ok_fail split: file_operation_error.splits option.splits)
      next
        case (Inr sb)
        show ?thesis
        proof (cases sb)
          case (Authorized out)
          have "ok j ?K (finish_rename env out) (\<lambda>res. rename_post env j k ctx (Inr (AuditedOutcome (Authorized res)))) c'"
            using 10 Pair Inr Authorized by (intro ok_finish_rename[OF v(1)]) simp
          then show ?thesis using Pair Inr Authorized by (auto simp: finish_rename_outcome_def intro!: ok_bnd ok_done_with elim!: ok_mono)
        next
          case SessionUnavailable
          then show ?thesis using 10 Pair Inr
            by (auto simp: finish_rename_outcome_def rename_tx_post_def rename_post_def rename_safe_def intro!: ok_rule)
        qed
      qed
    qed
  qed (use assms in auto)
  have noisy: "rename_post env j k ctx (Inl e) ?c" if "\<not> quiet c" for e
    using safe that by (simp add: rename_post_def)
  have "ok j ?K (recover_pending_file_operations_with_guard env (dirty c)) (\<lambda>r. case r of
       Inl e \<Rightarrow> rename_post env j k ctx (Inl e)
     | Inr x \<Rightarrow> ok j ?K (bndE acquire_database_permit (\<lambda>_.
         bnd (required_transaction_for_mfa_session_audited env proof ctx None (drop_rename_outcome env)
            (rename_operation env (old_path j) (j_new j))) (finish_rename_outcome env))) (rename_post env j k ctx)) ?c"
    using tx noisy safe assms d by (intro ok_recover_idle) (auto intro!: ok_bndE ok_acquire_database_permit)
  then show ?thesis unfolding rename_path_def path acquire_storage_mutation_def
    by (auto intro!: ok_bndE[of _ _ "lift_result R" for R] ok_bndE[of _ _ "bnd acquire_mutation R" for R]
        ok_bnd[of _ _ acquire_mutation] ok_acquire_mutation ok_lift_result)
qed

section \<open>Restarts\<close>

definition started_post :: "codec \<Rightarrow> job \<Rightarrow> entry_kind \<Rightarrow> bool \<Rightarrow> file_operation_error + unit \<Rightarrow> cfg \<Rightarrow> bool" where
  "started_post J j k b r c \<longleftrightarrow> rename_safe J j k c \<and> (quiet c \<longrightarrow> temp c = None) \<and> (b \<longrightarrow> isl r \<and> jour c \<noteq> None) \<and>
     (case r of Inl e \<Rightarrow> quiet c \<longrightarrow> fmlookup (j_entries j) (j_new j) \<noteq> None | Inr _ \<Rightarrow> jour c = None \<and> \<not> dirty c)"

lemma ok_recover_pending_file_operations:
  assumes v: "rename_valid env j k" "rename_safe (fe_codec env) j k c" "dirty c" "quiet c \<Longrightarrow> temp c = None"
  shows "ok j (rename_safe (fe_codec env) j k) (recover_pending_file_operations env) (started_post (fe_codec env) j k (blocked j c)) c"
proof -
  have "c\<lparr>dirty := True\<rparr> = c" using v(3) by (cases c) simp
  moreover have "ok j (rename_safe (fe_codec env) j k) (recover_pending_file_operations_with_guard env (dirty c)) (\<lambda>r. case r of
       Inl e \<Rightarrow> started_post (fe_codec env) j k (blocked j c) (Inl e)
     | Inr x \<Rightarrow> ok j (rename_safe (fe_codec env) j k) (bndE (recover_upload_operations_call env) (\<lambda>_.
         bnd finish_clean (\<lambda>_. done_with ()))) (started_post (fe_codec env) j k (blocked j c))) c"
  proof (rule ok_mono[OF ok_recover_with_guard[OF v]], goal_cases)
    case (3 r c')
    then show ?case
      by (cases r) (auto simp: cleared_post_def started_post_def rename_safe_def intro!: ok_rule)
  qed (use v(3) in auto)
  ultimately show ?thesis unfolding recover_pending_file_operations_def
    by (intro ok_bnd[of _ _ acquire_mutation] ok_acquire_mutation ok_bndE[of _ _ "recover_pending_file_operations_with_guard env b" for b])
      (simp only:)
qed

lemma ok_startup:
  assumes v: "rename_valid env j k" "rename_safe (fe_codec env) j k c" "dirty c"
  shows "ok j (rename_safe (fe_codec env) j k)
    (bndE (mapE map_io (open_storage (fe_codec env))) (\<lambda>_. recover_pending_file_operations env)) (started_post (fe_codec env) j k (blocked j c)) c"
proof -
  let ?K = "rename_safe (fe_codec env) j k" and ?Q = "started_post (fe_codec env) j k (blocked j c)" and ?c = "c\<lparr>temp := None\<rparr>"
  note d = rename_validD[OF v(1)]
  have safe: "?K ?c" "dirty ?c" using v by (auto simp: rename_safe_def)
  have noisy: "?Q (Inl e) c" "?Q (Inl e) ?c" if "\<not> quiet c" for e using that v safe by (auto simp: started_post_def blocked_def)
  have recover: "ok j ?K (recover_pending_file_operations env) ?Q ?c"
    using safe ok_recover_pending_file_operations[OF v(1), of ?c] by (simp add: blocked_def)
  have pending: "ok j ?K (recover_pending_deletions (fe_codec env) ops)
      (\<lambda>r. case map_err map_io r of Inl e \<Rightarrow> ?Q (Inl e) | Inr x \<Rightarrow> ok j ?K (recover_pending_file_operations env) ?Q) ?c" for ops
    using safe noisy recover v d by (intro ok_no_pending_deletions) (auto simp: rename_safe_def)
  have "ok j ?K (bndE (pending_file_operations (fe_codec env)) (recover_pending_deletions (fe_codec env)))
      (\<lambda>r. case map_err map_io r of Inl e \<Rightarrow> ?Q (Inl e) | Inr x \<Rightarrow> ok j ?K (recover_pending_file_operations env) ?Q) ?c"
  proof (cases "jour c")
    case None
    then show ?thesis using noisy pending safe d
      by (intro ok_bndE[of _ _ "pending_file_operations (fe_codec env)"] ok_pending_file_operations) auto
  next
    case (Some x)
    then obtain ph where ph: "x = rename_journal (fe_codec env) j k ph" using v(2) by (auto simp: rename_safe_def)
    then show ?thesis using noisy pending safe d Some
      by (intro ok_bndE[of _ _ "pending_file_operations (fe_codec env)"] ok_pending_file_operations[where op = "rename_op j k ph"]) auto
  qed
  then have "ok j ?K (open_storage (fe_codec env))
      (\<lambda>r. case map_err map_io r of Inl e \<Rightarrow> ?Q (Inl e) | Inr x \<Rightarrow> ok j ?K (recover_pending_file_operations env) ?Q) c"
    unfolding open_storage_def using noisy safe v d
    by (intro ok_bndE[of _ _ remove_incomplete_file_operation_writes] ok_remove_incomplete) auto
  then show ?thesis by (intro ok_bndE ok_mapE)
qed

section \<open>A rename from a clean storage\<close>

text \<open>
  The entry \<open>old\<close> of the directory \<open>ds\<close> is a file or a directory, the storage holds no journal, the next token
  is new, the journal can be read back, and the paths and shares fit the limits of the database.
\<close>

definition other_object :: "rstr list \<Rightarrow> rstr \<Rightarrow> rstr \<Rightarrow> sys \<Rightarrow> node option" where
  "other_object ds old new s = fmlookup (the (get_dir (sys_root s) ds)) new"

definition renamed_shares :: "file_env \<Rightarrow> rstr list \<Rightarrow> rstr \<Rightarrow> rstr \<Rightarrow> sys \<Rightarrow> share_row list" where
  "renamed_shares env ds old new s = shares (snd (rename_share_paths_in_transaction (fe_lower env) (path_of (ds @ [old]))
     (path_of (ds @ [new])) (source_kind ds old s = EntryDirectory) False (sys_db s)))"

definition renamed_tree :: "rstr list \<Rightarrow> rstr \<Rightarrow> rstr \<Rightarrow> sys \<Rightarrow> node" where
  "renamed_tree ds old new s = put_dir (sys_root s) ds
     (fmupd new (source_node ds old s) (fmdrop old (the (get_dir (sys_root s) ds))))"

definition rename_setting :: "file_env \<Rightarrow> rstr list \<Rightarrow> rstr \<Rightarrow> rstr \<Rightarrow> sys \<Rightarrow> bool" where
  "rename_setting env ds old new s \<longleftrightarrow> source_exists ds old s \<and> clean_storage s
     \<and> (\<exists>t ts. sys_tokens s = t # ts \<and> fresh_token t (sys_staging s))
     \<and> validated_rename_paths (path_of (ds @ [old])) new = Inr (path_of (ds @ [old]), new)
     \<and> (\<forall>n. other_object ds old new s = Some n \<longrightarrow> node_identity n \<noteq> node_identity (source_node ds old s))
     \<and> journal_readable (fe_codec env) {RenameOp (path_of (ds @ [old])) (path_of (ds @ [new])) (source_kind ds old s)
          (node_identity (source_node ds old s)) ph | ph. True}"

definition rename_job :: "file_env \<Rightarrow> rstr list \<Rightarrow> rstr \<Rightarrow> rstr \<Rightarrow> sys \<Rightarrow> job" where
  "rename_job env ds old new s =
     (let t = hd (sys_tokens s) in
      \<lparr>j_root = sys_root s, j_dir = ds, j_entries = the (get_dir (sys_root s) ds), j_staging = sys_staging s,
       j_node = source_node ds old s, j_old = old, j_new = new, j_pending = deletion_pending_name t,
       j_tombstone = deletion_tombstone_name t, j_manifest = deletion_manifest_name (deletion_pending_name t),
       j_journal = file_operation_name t, j_temporary = file_operation_name t @ lit ''.pending'',
       j_shares = (\<lambda>b. if b then renamed_shares env ds old new s else shares (sys_db s))\<rparr>)"

lemma moved_elsewhere:
  assumes "\<forall>d\<in>set ds. good_name d" "safe_admin_filename old = Inr old" "safe_admin_filename new = Inr new" "old \<noteq> new"
    and "0 \<notin> set (sh_relative_path r)" "path_selected (path_of (ds @ [old])) dir r"
  shows "\<not> path_selected (path_of (ds @ [old])) dir (moved_share lower (path_of (ds @ [old])) (path_of (ds @ [new])) r)"
proof
  note o = split_path_of[OF assms(1,2)] and n = split_path_of[OF assms(1,3)]
  let ?o = "path_of (ds @ [old])" and ?n = "path_of (ds @ [new])"
  let ?m = "moved_share lower ?o ?n r"
  obtain u where u: "sh_relative_path r = ?o @ u" "u = [] \<or> dir \<and> hd u = 47"
    using path_selected_iff[OF o(5) assms(5)] assms(6) by blast
  have m: "sh_relative_path ?m = ?n @ u"
    using o(5) assms(5) u(1) by (simp add: moved_share_def sql_substr_from_def sql_length_def)
  then have "0 \<notin> set (sh_relative_path ?m)" using n(5) assms(5) u(1) by simp
  moreover assume "path_selected ?o dir ?m"
  ultimately obtain w where w: "?n @ u = ?o @ w" "w = [] \<or> hd w = 47"
    using path_selected_iff[OF o(5)] m by auto
  then have eq: "new @ u = old @ w" unfolding o(4)[symmetric] n(4)[symmetric] by (auto simp: join_relative_def split: if_splits)
  have free: "47 \<notin> set new" "47 \<notin> set old"
    using safe_admin_good[OF assms(2)] safe_admin_good[OF assms(3)] by (auto simp: good_name_def plain_name_def)
  have tw: "takeWhile (\<lambda>c. c \<noteq> 47) (a @ b) = a" if "47 \<notin> set a" "b = [] \<or> hd b = 47" for a b :: rstr
    using that by (cases b) (auto simp: takeWhile_append)
  have "new = old" using tw[OF free(1), of u] tw[OF free(2), of w] u(2) w(2) eq by auto
  then show False using assms(4) by simp
qed

lemma rename_setting_paths:
  assumes "rename_setting env ds old new s"
  shows "safe_admin_filename new = Inr new" "old \<noteq> new" "path_of (ds @ [old]) \<noteq> path_of (ds @ [new])"
    "str_len (path_of (ds @ [new])) \<le> 4096"
    "str_len (lit ''old_path='' @ path_of (ds @ [old]) @ lit '';updated_shares='' @ dec_nat u64_max @ lit '';recovery=false'') \<le> 16384"
proof -
  have src: "\<forall>d\<in>set ds. good_name d" "safe_admin_filename old = Inr old"
    using assms by (auto simp: rename_setting_def source_exists_def)
  note o = split_path_of[OF src]
  have v: "validated_rename_paths (path_of (ds @ [old])) new = Inr (path_of (ds @ [old]), new)"
    using assms by (simp add: rename_setting_def)
  have norm: "normalize (path_of (ds @ [old])) False = Inr (path_of (ds @ [old]))"
    by (rule normalize_path_of[OF src])
  obtain plan where plan: "plan_rename (path_of (ds @ [old])) new = Inr plan" "rp_new_name plan = new" "rp_path plan = path_of (ds @ [old])"
    "validate_event (audit_event PathRenamed (Some (rp_destination plan)) (Some (lit ''old_path='' @ path_of (ds @ [old]) @ lit '';updated_shares=''
       @ dec_nat u64_max @ lit '';recovery=false''))) = Inr ()"
    using v by (auto simp: validated_rename_paths_def simp del: lit_simps split: sum.splits)
  obtain x where "safe_admin_filename new = Inr x"
    using plan(1) norm by (auto simp: plan_rename_def validate_name_def split: sum.splits)
  then show new: "safe_admin_filename new = Inr new" using safe_admin_good by blast
  have n: "rp_destination plan = path_of (ds @ [new])" "rp_destination plan \<noteq> path_of (ds @ [old])"
    using plan(1) norm new o(9) split_path_of(4)[OF src(1) new] path_of_eq_Nil[of ds] src(1)
    by (auto simp: plan_rename_def validate_name_def Let_def join_relative_def path_of_def good_name_def split: if_splits)
  show "path_of (ds @ [old]) \<noteq> path_of (ds @ [new])" "old \<noteq> new" using n by auto
  show "str_len (path_of (ds @ [new])) \<le> 4096"
    "str_len (lit ''old_path='' @ path_of (ds @ [old]) @ lit '';updated_shares='' @ dec_nat u64_max @ lit '';recovery=false'') \<le> 16384"
    using plan(4) n(1)
    by (auto simp: validate_event_def audit_event_def validate_audit_fields_def opt_longer_def simp del: lit_simps split: if_splits)
qed

lemma rename_job_simps [simp]:
  "j_root (rename_job env ds old new s) = sys_root s" "j_dir (rename_job env ds old new s) = ds"
  "j_entries (rename_job env ds old new s) = the (get_dir (sys_root s) ds)" "j_staging (rename_job env ds old new s) = sys_staging s"
  "j_node (rename_job env ds old new s) = source_node ds old s" "j_old (rename_job env ds old new s) = old"
  "j_new (rename_job env ds old new s) = new" "j_journal (rename_job env ds old new s) = file_operation_name (hd (sys_tokens s))"
  "j_shares (rename_job env ds old new s) b = (if b then renamed_shares env ds old new s else shares (sys_db s))"
  by (simp_all add: rename_job_def Let_def)

lemma rename_job_names:
  assumes "rename_setting env ds old new s"
  shows "wf_job (rename_job env ds old new s)" "named_job (rename_job env ds old new s)"
proof -
  obtain t ts where t: "sys_tokens s = t # ts" "fresh_token t (sys_staging s)" and c: "clean_staging (sys_staging s)"
    using assms by (auto simp: rename_setting_def clean_storage_def)
  have v: "valid_token t" using t(2) by (simp add: fresh_token_def)
  have src: "get_dir (sys_root s) ds = Some (the (get_dir (sys_root s) ds))"
    "fmlookup (the (get_dir (sys_root s) ds)) old = Some (source_node ds old s)"
    using assms by (auto simp: rename_setting_def source_exists_def source_node_def)
  show "wf_job (rename_job env ds old new s)"
    using src t token_names_absent[OF c v] token_names_distinct[of t t t] rename_setting_paths(2)[OF assms]
    unfolding wf_job_def private_names_def
    by (simp add: rename_job_def Let_def fresh_token_def del: lit_simps)
  show "named_job (rename_job env ds old new s)"
    using t c token_names[OF v] token_names_apart[of t] tombstone_other[of t] unfolding named_job_def
    by (simp add: rename_job_def Let_def del: lit_simps)
qed

lemma rename_setting_valid:
  assumes set: "rename_setting env ds old new s"
  shows "rename_valid env (rename_job env ds old new s) (source_kind ds old s)"
proof -
  let ?j = "rename_job env ds old new s" and ?k = "source_kind ds old s"
  have src: "\<forall>d\<in>set ds. good_name d" "safe_admin_filename old = Inr old"
    "node_kind (source_node ds old s) = Some ?k" "0 < fst (node_identity (source_node ds old s))" "0 < snd (node_identity (source_node ds old s))"
    using set by (auto simp: rename_setting_def source_exists_def source_node_def source_kind_def)
  note p = rename_setting_paths[OF set]
  note o = split_path_of[OF src(1,2)] and n = split_path_of[OF src(1) p(1)]
  have paths: "old_path ?j = path_of (ds @ [old])" "new_path ?j = path_of (ds @ [new])" by (simp_all add: old_path_def new_path_def)
  have journal: "dec_op (fe_codec env) (rename_journal (fe_codec env) ?j ?k ph) = Some (rename_op ?j ?k ph)
      \<and> length (rename_journal (fe_codec env) ?j ?k ph) \<le> MAX_OPERATION_BYTES" for ph
    using set unfolding rename_setting_def journal_readable_def rename_journal_def rename_op_def paths by auto
  let ?P = "path_selected (path_of (ds @ [old])) (?k = EntryDirectory)"
  let ?f = "moved_share (fe_lower env) (path_of (ds @ [old])) (path_of (ds @ [new]))"
  have rows: "renamed_shares env ds old new s = sql_update ?P ?f (shares (sys_db s))"
    by (simp add: renamed_shares_def rename_share_paths_in_transaction_def Let_def)
  have "\<not> ?P (?f r)" if "r \<in> set (shares (sys_db s))" "?P r" for r
    using that set p(1,2) src by (intro moved_elsewhere) (auto simp: rename_setting_def clean_storage_def)
  then have shares: "sql_update ?P ?f (j_shares ?j b) = j_shares ?j True" for b
    by (simp add: rows sql_update_twice)
  have len: "length (j_shares ?j b) \<le> u64_max" for b
    using set by (simp add: rows sql_update_def rename_setting_def clean_storage_def)
  have "sql_count ?P (j_shares ?j b) \<le> u64_max" for b
    using le_trans[OF length_filter_le len] by (simp add: sql_count_def)
  then have digits: "str_len (dec_nat (sql_count ?P (j_shares ?j b))) \<le> str_len (dec_nat u64_max)" for b
    using dec_nat_length dec_nat_str_len by simp
  have detail: "str_len (lit ''old_path='' @ path_of (ds @ [old]) @ lit '';updated_shares='' @ dec_nat (sql_count ?P (j_shares ?j b))
         @ lit '';recovery='' @ bool_text recovery)
      \<le> str_len (lit ''old_path='' @ path_of (ds @ [old]) @ lit '';updated_shares='' @ dec_nat u64_max @ lit '';recovery=false'')" for b recovery
    using digits[of b] by (cases recovery) (simp_all add: bool_text_def utf8_width_def del: rename_job_simps)
  have fields: "str_len (lit ''system'') \<le> 64" "str_len (lit (as_str PathRenamed)) \<le> 64" by (simp_all add: utf8_width_def)
  have audit: "validate_audit_fields (lit ''system'') (lit (as_str PathRenamed)) (Some (path_of (ds @ [new])))
      (Some (lit ''old_path='' @ path_of (ds @ [old]) @ lit '';updated_shares='' @ dec_nat (sql_count ?P (j_shares ?j b))
         @ lit '';recovery='' @ bool_text recovery)) None = Inr ()" for b recovery
    using p(4) le_trans[OF detail p(5)] fields
    by (simp add: validate_audit_fields_def opt_longer_def not_less del: lit_simps str_len_simps rename_job_simps)
  show ?thesis unfolding rename_valid_def paths
    using rename_job_names[OF set] o n p src journal shares audit set
    by (simp add: rename_setting_def other_object_def)
qed

lemma rename_setting_view:
  assumes set: "rename_setting env ds old new s"
  shows "view (rename_job env ds old new s) (idle_cfg s) s"
proof -
  obtain t ts where t: "sys_tokens s = t # ts" "fresh_token t (sys_staging s)" and c: "clean_staging (sys_staging s)"
    using assms by (auto simp: rename_setting_def clean_storage_def)
  have "valid_token t" using t(2) by (simp add: fresh_token_def)
  note absent = token_names_absent[OF c this]
  have "put_dir (sys_root s) ds (the (get_dir (sys_root s) ds)) = sys_root s"
    using set by (auto simp: rename_setting_def source_exists_def intro!: put_get_dir)
  then show ?thesis using t absent
    by (simp add: view_def staging_is_def idle_cfg_def file_is_def fresh_token_def rename_job_def Let_def del: lit_simps)
qed

section \<open>Examples\<close>

definition example_rename :: "durable_phase \<Rightarrow> durable_operation" where
  "example_rename = RenameOp (lit ''a'') (lit ''b'') EntryFile (1, 3)"

definition example_run :: "entries \<Rightarrow> fault list \<Rightarrow> (file_operation_error + rename_result required_audit_file_outcome) option \<times> sys" where
  "example_run others fs = rename_path (storage_env example_rename) storage_proof (lit ''a'') (lit ''b'') storage_context
     (example_storage others [storage_token 0] fs)"

definition example_start :: "sys \<Rightarrow> (file_operation_error + unit) option \<times> sys" where
  "example_start s = startup (storage_env example_rename) (s\<lparr>sys_faults := [], sys_tokens := []\<rparr>)"

definition example_occupied :: entries where
  "example_occupied = fmupd (lit ''b'') (FileNode (1, 4) []) fmempty"

lemma example_rename_setting:
  assumes "fmlookup others (lit ''b'') = None \<or> (\<exists>c. fmlookup others (lit ''b'') = Some (FileNode (1, 4) c))"
  shows "rename_setting (storage_env example_rename) [] (lit ''a'') (lit ''b'') (example_storage others [storage_token 0] fs)"
proof -
  let ?s = "example_storage others [storage_token 0] fs"
  have dir: "get_dir (sys_root ?s) [] = Some (fmupd (lit ''a'') (FileNode (1, 3) [104, 105]) others)"
    by (simp add: example_storage_def)
  have names: "safe_admin_filename (lit ''a'') = Inr (lit ''a'')" "validated_rename_paths (lit ''a'') (lit ''b'') = Inr (lit ''a'', lit ''b'')"
    by code_simp+
  have node: "source_node [] (lit ''a'') ?s = FileNode (1, 3) [104, 105]" unfolding source_node_def dir by simp
  have "valid_token (storage_token 0)" by code_simp
  then have token: "sys_tokens ?s = [storage_token 0]" "fresh_token (storage_token 0) (sys_staging ?s)"
    by (simp_all add: example_storage_def fresh_token_def)
  have storage: "clean_storage ?s"
    by (simp add: clean_storage_def example_storage_def clean_staging_def storage_db_def storage_share_def u64_max_def)
  have paths: "path_of [lit ''a''] = lit ''a''" "path_of [lit ''b''] = lit ''b''" "lit ''a'' \<noteq> lit ''b''" by code_simp+
  have journal: "journal_readable (fe_codec (storage_env example_rename)) {example_rename ph | ph. True}"
    by (rule example_journal_readable[where n = 0]) (simp_all add: example_rename_def storage_phase_def)
  then have ops: "journal_readable (fe_codec (storage_env example_rename)) {RenameOp (lit ''a'') (lit ''b'') EntryFile (1, 3) ph | ph. True}"
    by (simp add: example_rename_def)
  have other: "node_identity n \<noteq> (1, 3)" if "other_object [] (lit ''a'') (lit ''b'') ?s = Some n" for n
    using that assms paths(3) unfolding other_object_def dir by auto
  show ?thesis unfolding rename_setting_def source_exists_def source_kind_def node append_Nil paths node_kind.simps node_identity.simps option.sel
    using names dir token storage ops other by auto
qed

lemma example_evaluated:
  "\<not> sys_recovery_required (snd (example_start (snd (example_run fmempty (replicate 12 Works @ [DiesAfter])))))
   \<and> (case fst (example_run fmempty []) of Some (Inr (AuditedOutcome (Authorized res))) \<Rightarrow> rn_durability res = Durable | _ \<Rightarrow> False)
   \<and> validate_context storage_context = Inr ()
   \<and> fmlookup (sys_staging (snd (example_run example_occupied (replicate 12 Works @ [DiesAfter])))) (file_operation_name (storage_token 0)) \<noteq> None
   \<and> fst (example_start (snd (example_run example_occupied (replicate 12 Works @ [DiesAfter])))) = Some (Inl FConflict)"
  by code_simp

lemma example_run_path:
  "rename_path (storage_env example_rename) storage_proof (path_of ([] @ [lit ''a''])) (lit ''b'') storage_context
     (example_storage others [storage_token 0] fs) = (fst (example_run others fs), snd (example_run others fs))"
proof -
  have "path_of ([] @ [lit ''a'']) = lit ''a''" by code_simp
  then show ?thesis unfolding example_run_def by simp
qed

lemma example_same_code: "same_code (storage_env op) (storage_env op)"
  by (simp add: same_code_def)

section \<open>Properties\<close>

definition rename_agrees :: "file_env \<Rightarrow> rstr list \<Rightarrow> rstr \<Rightarrow> rstr \<Rightarrow> sys \<Rightarrow> sys \<Rightarrow> bool" where
  "rename_agrees env ds old new s0 s \<longleftrightarrow>
     sys_root s = sys_root s0 \<and> shares (sys_db s) = shares (sys_db s0)
     \<or> sys_root s = renamed_tree ds old new s0 \<and> shares (sys_db s) = renamed_shares env ds old new s0"

lemma rename_valid_same_code: "same_code env env' \<Longrightarrow> rename_valid env' j k = rename_valid env j k"
  by (simp add: rename_valid_def same_code_def)

lemma safe_agrees:
  assumes set: "rename_setting env ds old new s0" and s: "view (rename_job env ds old new s0) c s"
    "rename_safe J (rename_job env ds old new s0) k c" "jour c = None"
  shows "rename_agrees env ds old new s0 s"
proof -
  have "put_dir (sys_root s0) ds (the (get_dir (sys_root s0) ds)) = sys_root s0"
    using set by (auto simp: rename_setting_def source_exists_def intro!: put_get_dir)
  then show ?thesis using s
    by (cases "at c") (auto simp: view_def rename_safe_def rename_agrees_def renamed_tree_def)
qed

lemma ok_acquire_storage_read:
  assumes v: "rename_valid env j k" "rename_safe (fe_codec env) j k c" "\<not> quiet c"
  shows "ok j (rename_safe (fe_codec env) j k) (acquire_storage_read env) (\<lambda>r. rename_safe (fe_codec env) j k) c"
proof -
  let ?K = "rename_safe (fe_codec env) j k"
  have "ok j ?K (recover_pending_file_operations_with_guard env True)
      (\<lambda>r. case r of Inl e \<Rightarrow> ?K | Inr x \<Rightarrow> ok j ?K (bnd finish_clean (\<lambda>_. done_with ())) (\<lambda>r. ?K)) c" if "dirty c"
    by (rule ok_mono[OF ok_recover_with_guard[OF v(1,2)]])
      (use that v(3) in \<open>auto simp: cleared_post_def blocked_def rename_safe_def intro!: ok_rule split: sum.splits\<close>)
  then show ?thesis unfolding acquire_storage_read_def using v(2)
    by (auto intro!: ok_bnd[of _ _ recovery_required] ok_recovery_required ok_done_with ok_bndE[of _ _ "recover_pending_file_operations_with_guard env True"])
qed

definition rename_invariant :: "file_env \<Rightarrow> job \<Rightarrow> cfg \<Rightarrow> bool" where
  "rename_invariant env j c \<longleftrightarrow> (\<exists>k. rename_valid env j k \<and> rename_safe (fe_codec env) j k c)"

lemma ok_rename_invariant:
  assumes "rename_valid env j k" "ok j (rename_safe (fe_codec env) j k) m Q c" "\<And>r c. Q r c \<Longrightarrow> rename_safe (fe_codec env) j k c"
  shows "ok j (rename_invariant env j) m (\<lambda>r. rename_invariant env j) c"
  by (rule ok_weaken[OF assms(2)]) (use assms(1,3) in \<open>auto simp: rename_invariant_def\<close>)

interpretation renaming: crash_safe rename_invariant
proof (unfold_locales, goal_cases)
  case (1 env env' j c)
  then show ?case by (simp add: rename_invariant_def rename_valid_same_code) (simp add: same_code_def)
next
  case (2 env j c ts b)
  then show ?case by (auto simp: rename_invariant_def rename_safe_def)
next
  case (3 env j c)
  then show ?case by (auto simp: rename_invariant_def rename_safe_def)
next
  case (4 env j c)
  then show ?case by (auto simp: rename_invariant_def started_post_def intro: ok_rename_invariant ok_startup)
next
  case (5 env j c)
  then show ?case by (auto simp: rename_invariant_def intro: ok_rename_invariant ok_acquire_storage_read)
qed

lemma startup_ok:
  assumes v: "rename_valid env j k" "rename_safe (fe_codec env) j k c" "view j c s" "same_code env env'"
    and run: "startup env' (s\<lparr>sys_faults := fs, sys_tokens := ts\<rparr>) = (r, s')"
  shows "case r of
      None \<Rightarrow> fs \<noteq> [] \<and> (\<exists>c'. rename_safe (fe_codec env) j k c' \<and> view j c' s')
    | Some x \<Rightarrow> (\<exists>c'. started_post (fe_codec env) j k (blocked j c) x c' \<and> (fs = [] \<longrightarrow> quiet c') \<and> view j c' s')"
proof -
  let ?c = "c\<lparr>toks := ts, quiet := (fs = []), act := [], dirty := True\<rparr>"
  let ?s = "s\<lparr>sys_faults := fs, sys_tokens := ts, sys_active := [], sys_recovery_required := True, sys_generation := 0, sys_cleanup_requested := False\<rparr>"
  have view: "view j ?c ?s" using view_new_process[OF view_environment[OF v(3), where ts = ts and fs = fs]] by simp
  have safe: "rename_safe (fe_codec env') j k ?c" using v(2,4) by (simp add: rename_safe_def same_code_def)
  have "ok j (rename_safe (fe_codec env') j k) (bndE (mapE map_io (open_storage (fe_codec env'))) (\<lambda>_. recover_pending_file_operations env'))
      (started_post (fe_codec env') j k (blocked j ?c)) ?c"
    using v(1,4) safe by (intro ok_startup) (simp_all add: rename_valid_same_code)
  from okD[OF this view run[unfolded startup_def, simplified]] show ?thesis
    using v(4) by (auto simp: same_code_def blocked_def split: option.splits)
qed

lemma rename_path_reached:
  assumes set: "rename_setting env ds old new s0" and run: "rename_path env proof (path_of (ds @ [old])) new ctx s0 = (r, s1)"
  shows "case r of None \<Rightarrow> sys_faults s0 \<noteq> [] \<and> (\<exists>c. rename_safe (fe_codec env) (rename_job env ds old new s0) (source_kind ds old s0) c \<and> view (rename_job env ds old new s0) c s1)
    | Some x \<Rightarrow> (\<exists>c. rename_post env (rename_job env ds old new s0) (source_kind ds old s0) ctx x c \<and> quiet c = (sys_faults s0 = [])
         \<and> view (rename_job env ds old new s0) c s1)"
proof -
  let ?j = "rename_job env ds old new s0" and ?k = "source_kind ds old s0"
  have "ok ?j (rename_safe (fe_codec env) ?j ?k) (rename_path env proof (path_of (ds @ [old])) new ctx) (rename_post env ?j ?k ctx) (idle_cfg s0)"
    using set by (intro ok_rename_path[OF rename_setting_valid[OF set], where t = "hd (sys_tokens s0)" and ts = "tl (sys_tokens s0)"])
      (auto simp: idle_cfg_def rename_setting_def old_path_def)
  from okD[OF this rename_setting_view[OF set] run] show ?thesis
    by (auto simp: idle_cfg_def split: option.splits)
qed

lemma rename_later_reached:
  assumes set: "rename_setting env ds old new s0" and run: "rename_path env proof (path_of (ds @ [old])) new ctx s0 = (r, s1)"
    and later: "later env s1 s"
  obtains k c where "rename_valid env (rename_job env ds old new s0) k"
    "rename_safe (fe_codec env) (rename_job env ds old new s0) k c" "view (rename_job env ds old new s0) c s"
proof -
  have "\<exists>c. rename_invariant env (rename_job env ds old new s0) c \<and> view (rename_job env ds old new s0) c s1"
    using rename_path_reached[OF set run] rename_setting_valid[OF set]
    by (auto simp: rename_invariant_def rename_post_def split: option.splits)
  from renaming.later_safe[OF later this] show thesis using that by (auto simp: rename_invariant_def)
qed

text \<open>C3: Renaming keeps the names and the shares together. Whatever calls of the storage and the database fail, lose
  their answer or stop the process during a rename, and during any number of later starts and reads: when the storage is
  not marked for recovery, either nothing has changed or the entry has its new name and every share at or below it has
  the new path.\<close>

theorem rename_never_disagrees:
  assumes "rename_setting env ds old new s0" "rename_path env proof (path_of (ds @ [old])) new ctx s0 = (r, s1)"
    and "later env s1 s" "\<not> sys_recovery_required s"
  shows "rename_agrees env ds old new s0 s"
proof -
  obtain k c where c: "rename_safe (fe_codec env) (rename_job env ds old new s0) k c" "view (rename_job env ds old new s0) c s"
    using rename_later_reached[OF assms(1-3)] by metis
  moreover have "jour c = None" using c assms(4) by (auto simp: rename_safe_def view_def)
  ultimately show ?thesis using safe_agrees[OF assms(1)] by blast
qed

theorem rename_never_disagrees_witness:
  "let fs = replicate 12 Works @ [DiesAfter]; s = snd (example_start (snd (example_run fmempty fs)))
   in \<not> sys_recovery_required s
     \<and> rename_agrees (storage_env example_rename) [] (lit ''a'') (lit ''b'') (example_storage fmempty [storage_token 0] fs) s"
proof -
  let ?s1 = "snd (example_run fmempty (replicate 12 Works @ [DiesAfter]))"
  have "later (storage_env example_rename) ?s1 (snd (example_start ?s1))"
    by (rule later.start[OF later.now example_same_code[of example_rename], where ts = "[]" and fs = "[]" and r = "fst (example_start ?s1)"])
      (simp add: example_start_def)
  from rename_never_disagrees[OF example_rename_setting example_run_path this] show ?thesis
    using example_evaluated by (simp add: Let_def del: lit_simps)
qed

text \<open>C4: A start completes an interrupted rename. If the new name was free, the next start without faults succeeds
  wherever the rename and earlier starts stopped: names and shares agree, the journal and its temporary file are gone
  and the storage is clean.\<close>

theorem rename_start_completes:
  assumes "rename_setting env ds old new s0" "rename_path env proof (path_of (ds @ [old])) new ctx s0 = (r, s1)"
    and "later env s1 s" "other_object ds old new s0 = None" "same_code env env'"
  shows "\<exists>s'. startup env' (s\<lparr>sys_faults := [], sys_tokens := ts\<rparr>) = (Some (Inr ()), s')
    \<and> rename_agrees env ds old new s0 s' \<and> sys_staging s' = sys_staging s0 \<and> \<not> sys_recovery_required s'"
proof -
  let ?j = "rename_job env ds old new s0"
  obtain k c where valid: "rename_valid env ?j k" and c: "rename_safe (fe_codec env) ?j k c" "view ?j c s"
    using rename_later_reached[OF assms(1-3)] by metis
  obtain x s' where run: "startup env' (s\<lparr>sys_faults := [], sys_tokens := ts\<rparr>) = (x, s')" by (metis surj_pair)
  obtain y c' where x: "x = Some y" and c': "started_post (fe_codec env) ?j k (blocked ?j c) y c'" "quiet c'" "view ?j c' s'"
    using startup_ok[OF valid c assms(5) run] by (auto split: option.splits)
  have "y = Inr ()" and j: "jour c' = None" "\<not> dirty c'" "temp c' = None" "rename_safe (fe_codec env) ?j k c'"
    using c' assms(4) by (auto simp: started_post_def blocked_def other_object_def split: sum.splits)
  moreover have "sys_staging s' = sys_staging s0"
    using view_clean_staging[OF rename_validD(1)[OF valid] c'(3)] j by (auto simp: rename_safe_def)
  moreover have "rename_agrees env ds old new s0 s'" using safe_agrees[OF assms(1) c'(3)] j by blast
  moreover have "\<not> sys_recovery_required s'" using c'(3) j(2) by (simp add: view_def)
  ultimately show ?thesis using run x by auto
qed

theorem rename_start_completes_witness:
  "\<exists>s'. example_start (snd (example_run fmempty (replicate 12 Works @ [DiesAfter]))) = (Some (Inr ()), s')
     \<and> sys_staging s' = fmempty \<and> \<not> sys_recovery_required s'"
proof -
  have "other_object [] (lit ''a'') (lit ''b'') (example_storage fmempty [storage_token 0] fs) = None" for fs
    by (simp add: other_object_def example_storage_def)
  from rename_start_completes[OF example_rename_setting example_run_path later.now this example_same_code]
  show ?thesis unfolding example_start_def by (fastforce simp: example_storage_def)
qed



lemma view_journal: "view j c s \<Longrightarrow> fmlookup (sys_staging s) (j_journal j) \<noteq> None \<longleftrightarrow> jour c \<noteq> None"
  by (cases "jour c") (auto simp: view_def staging_is_def file_is_def)

text \<open>C6: A rename to an occupied name can shut the server out. The operation is journalled before the new name is looked
  at; if the process stops while that journal exists and the new name holds another object, every later start that gets
  to an answer fails and leaves the journal in place.\<close>

theorem occupied_rename_blocks_starts:
  assumes "rename_setting env ds old new s0" "rename_path env proof (path_of (ds @ [old])) new ctx s0 = (r, s1)"
    and "later env s1 s" "other_object ds old new s0 \<noteq> None" "same_code env env'"
    and "fmlookup (sys_staging s) (file_operation_name (hd (sys_tokens s0))) \<noteq> None"
    and "startup env' (s\<lparr>sys_faults := fs, sys_tokens := ts\<rparr>) = (Some x, s')"
  shows "isl x \<and> sys_recovery_required s' \<and> fmlookup (sys_staging s') (file_operation_name (hd (sys_tokens s0))) \<noteq> None"
proof -
  let ?j = "rename_job env ds old new s0"
  obtain k c where valid: "rename_valid env ?j k" and c: "rename_safe (fe_codec env) ?j k c" "view ?j c s"
    using rename_later_reached[OF assms(1-3)] by metis
  obtain c' where c': "started_post (fe_codec env) ?j k (blocked ?j c) x c'" "view ?j c' s'"
    using startup_ok[OF valid c assms(5,7)] by auto
  note jour = view_journal[where j = ?j]
  have name: "file_operation_name (hd (sys_tokens s0)) = j_journal ?j" by (simp add: rename_job_def Let_def)
  have "fmlookup (j_entries ?j) (j_new ?j) \<noteq> None" using assms(4) by (simp add: other_object_def)
  then have "blocked ?j c" using jour[OF c(2)] assms(6) unfolding name blocked_def by blast
  then have "isl x" "jour c' \<noteq> None" "dirty c'" using c'(1) by (auto simp: started_post_def rename_safe_def)
  then show ?thesis using c'(2) jour[OF c'(2)] unfolding name view_def by blast
qed

theorem occupied_rename_blocks_starts_witness:
  "let s1 = snd (example_run example_occupied (replicate 12 Works @ [DiesAfter]))
   in fst (example_start s1) = Some (Inl FConflict) \<and> sys_recovery_required (snd (example_start s1))"
proof -
  let ?fs = "replicate 12 Works @ [DiesAfter]"
  have other: "other_object [] (lit ''a'') (lit ''b'') (example_storage example_occupied [storage_token 0] ?fs) \<noteq> None"
    and set: "rename_setting (storage_env example_rename) [] (lit ''a'') (lit ''b'') (example_storage example_occupied [storage_token 0] ?fs)"
    and token: "hd (sys_tokens (example_storage example_occupied [storage_token 0] ?fs)) = storage_token 0"
    by (simp add: other_object_def example_storage_def example_occupied_def, intro example_rename_setting,
      simp_all add: example_occupied_def example_storage_def)
  show ?thesis
    using occupied_rename_blocks_starts[OF set example_run_path later.now other example_same_code, unfolded token,
        of "[]" "[]" "Inl FConflict" "snd (example_start (snd (example_run example_occupied ?fs)))"] example_evaluated
    by (simp add: Let_def example_start_def prod_eq_iff del: lit_simps)
qed

end
