(* ===== verification/Spec2Isabelle.thy ===== *)
theory Spec2Isabelle
  imports Client_Address Audit_Log Multipart_Guard Upload_Replay Login_Limits Admin_Safety Share_Policy Share_Listing Public_Sessions Service_Tokens Monitoring Rename_Safety
begin

text \<open>
  VaultLink is a self-hosted file sharing server in Rust. This library models its database
  layer and the pure decision code around it, and proves the properties they are meant to
  have.
\<close>

end
